(* ===== verification/OPA_Prelude.thy ===== *)
theory OPA_Prelude
  imports Main "HOL-Library.Word"
begin

text \<open>
  The vocabulary the component theories share: the C types of the library at the sizes of an
  LP64 build, the store behind \<open>OPA_int_t\<close> and \<open>OPA_ptr_t\<close>, the outcome of running a C
  function (it may return, run into undefined behaviour, or loop forever), C's signed addition,
  and the relation \<open>yields\<close> in which the contracts of the primitives are written.
\<close>

section \<open>Types\<close>

text \<open>\<open>OPA_SIZEOF_INT\<close> is 4 and \<open>OPA_SIZEOF_VOID_P\<close> is 8.\<close>

type_synonym c_int = "32 word"
type_synonym addr = "64 word"

definition INT_MIN :: c_int where
  "INT_MIN = - 2147483648"

definition INT_MAX :: c_int where
  "INT_MAX = 2147483647"

text \<open>What the C code can run into instead of returning.\<close>

datatype c_fault =
    Signed_Overflow
  | Null_Mutex
  | Uninit_Mutex
  | Reinit_Mutex
  | Not_Locked

text \<open>
  The outcome of a call: \<open>None\<close> when it never returns, \<open>Some (Inl f)\<close> when it runs into the
  fault \<open>f\<close>, \<open>Some (Inr (r, s))\<close> when it returns \<open>r\<close> in the state \<open>s\<close>.
\<close>

type_synonym ('s, 'a) outcome = "(c_fault + ('a \<times> 's)) option"

definition ret :: "'a \<Rightarrow> 's \<Rightarrow> ('s, 'a) outcome" where
  "ret r s = Some (Inr (r, s))"

definition fault :: "c_fault \<Rightarrow> ('s, 'a) outcome" where
  "fault f = Some (Inl f)"

fun bind_outcome :: "('s, 'a) outcome \<Rightarrow> ('a \<Rightarrow> 's \<Rightarrow> ('s, 'b) outcome) \<Rightarrow> ('s, 'b) outcome" where
  "bind_outcome None k = None"
| "bind_outcome (Some (Inl f)) k = Some (Inl f)"
| "bind_outcome (Some (Inr (r, s))) k = k r s"

named_theorems port_defs \<open>definitions of the primitives of a port\<close>

lemma bind_ret [simp]: "bind_outcome (ret r s) k = k r s"
  by (simp add: ret_def)

lemma bind_fault [simp]: "bind_outcome (fault f) k = fault f"
  by (simp add: fault_def)

text \<open>Sequencing is monotone, so a loop may be defined by \<open>partial_function (option)\<close>.\<close>

lemma bind_outcome_mono [partial_function_mono]:
  assumes "mono_option B" and "\<And>r s. mono_option (\<lambda>f. C r s f)"
  shows "mono_option (\<lambda>f. bind_outcome (B f) (\<lambda>r s. C r s f))"
proof (rule monotoneI)
  fix f g :: "'a \<Rightarrow> 'b option" assume le: "option.le_fun f g"
  have B: "option_ord (B f) (B g)" and C: "\<And>r s. option_ord (C r s f) (C r s g)"
    using assms le by (auto dest: monotoneD)
  show "option_ord (bind_outcome (B f) (\<lambda>r s. C r s f)) (bind_outcome (B g) (\<lambda>r s. C r s g))"
  proof (cases "B f")
    case None
    then show ?thesis by (simp add: flat_ord_def)
  next
    case (Some out)
    with B have "B g = Some out" by (simp add: flat_ord_def)
    with Some C show ?thesis by (cases out) (auto simp: flat_ord_def, metis)
  qed
qed

lemma ret_eq_iff [simp]: "ret r s = ret r' s' \<longleftrightarrow> r = r' \<and> s = s'"
  by (simp add: ret_def)

lemma fault_neq_ret [simp]: "fault f \<noteq> ret r s" "ret r s \<noteq> fault f"
  by (simp_all add: fault_def ret_def)

lemma fault_eq_iff [simp]: "fault f = fault g \<longleftrightarrow> f = g"
  by (simp add: fault_def)

lemma ret_neq_None [simp]: "ret r s \<noteq> None" "fault f \<noteq> None"
  by (simp_all add: ret_def fault_def)

section \<open>The store\<close>

text \<open>
  An \<open>OPA_int_t\<close> and an \<open>OPA_ptr_t\<close> are structures of one field \<open>v\<close>; \<open>int_at m p\<close> is \<open>p->v\<close>
  for an \<open>OPA_int_t *p\<close> and \<open>ptr_at m p\<close> for an \<open>OPA_ptr_t *p\<close>. Ports add their own fields.
\<close>

record mem =
  int_at :: "addr \<Rightarrow> c_int"
  ptr_at :: "addr \<Rightarrow> addr"

definition st_int :: "addr \<Rightarrow> c_int \<Rightarrow> 'z mem_scheme \<Rightarrow> 'z mem_scheme" where
  "st_int p v m = m\<lparr>int_at := (int_at m)(p := v)\<rparr>"

definition st_ptr :: "addr \<Rightarrow> addr \<Rightarrow> 'z mem_scheme \<Rightarrow> 'z mem_scheme" where
  "st_ptr p v m = m\<lparr>ptr_at := (ptr_at m)(p := v)\<rparr>"

lemma int_at_st_int [simp]: "int_at (st_int p v m) q = (if q = p then v else int_at m q)"
  by (simp add: st_int_def)

lemma ptr_at_st_int [simp]: "ptr_at (st_int p v m) = ptr_at m"
  by (simp add: st_int_def)

lemma ptr_at_st_ptr [simp]: "ptr_at (st_ptr p v m) q = (if q = p then v else ptr_at m q)"
  by (simp add: st_ptr_def)

lemma int_at_st_ptr [simp]: "int_at (st_ptr p v m) = int_at m"
  by (simp add: st_ptr_def)

lemma st_int_twice [simp]: "st_int p v (st_int p w m) = st_int p v m"
  by (simp add: st_int_def)

lemma st_int_same [simp]: "st_int p (int_at m p) m = m"
  by (simp add: st_int_def)

lemma st_ptr_same [simp]: "st_ptr p (ptr_at m p) m = m"
  by (simp add: st_ptr_def)

lemma more_st_int [simp]: "mem.more (st_int p v m) = mem.more m"
  by (simp add: st_int_def)

lemma more_st_ptr [simp]: "mem.more (st_ptr p v m) = mem.more m"
  by (simp add: st_ptr_def)

lemma truncate_st_int [simp]: "mem.truncate (st_int p v m) = st_int p v (mem.truncate m)"
  by (simp add: st_int_def mem.truncate_def)

lemma truncate_st_ptr [simp]: "mem.truncate (st_ptr p v m) = st_ptr p v (mem.truncate m)"
  by (simp add: st_ptr_def mem.truncate_def)

lemma int_at_truncate [simp]: "int_at (mem.truncate m) = int_at m"
  by (simp add: mem.truncate_def)

lemma ptr_at_truncate [simp]: "ptr_at (mem.truncate m) = ptr_at m"
  by (simp add: mem.truncate_def)

text \<open>A memory of zeros, for examples.\<close>

definition zero_mem :: mem where
  "zero_mem = \<lparr>int_at = (\<lambda>_. 0), ptr_at = (\<lambda>_. 0)\<rparr>"

section \<open>C's signed addition\<close>

text \<open>
  The sum of two \<open>int\<close>s that leaves the range of \<open>int\<close> is undefined behaviour in C; the machine
  instructions and the C11 atomics wrap around instead, which is \<open>+\<close> on words.
\<close>

definition no_overflow :: "c_int \<Rightarrow> c_int \<Rightarrow> bool" where
  "no_overflow a b \<longleftrightarrow> - (2 ^ 31) \<le> sint a + sint b \<and> sint a + sint b < 2 ^ 31"

definition c_add :: "c_int \<Rightarrow> c_int \<Rightarrow> c_fault + c_int" where
  "c_add a b = (if no_overflow a b then Inr (a + b) else Inl Signed_Overflow)"

text \<open>An expression that may fault, evaluated in a state it does not change.\<close>

definition c_value :: "c_fault + 'a \<Rightarrow> 's \<Rightarrow> ('s, 'a) outcome" where
  "c_value x s = (case x of Inl f \<Rightarrow> fault f | Inr v \<Rightarrow> ret v s)"

text \<open>A call whose result the caller drops.\<close>

definition void :: "('s, 'a) outcome \<Rightarrow> ('s, unit) outcome" where
  "void out = bind_outcome out (\<lambda>_ s. ret () s)"

text \<open>
  A barrier, named by the instruction or the function the port uses. A thread that runs alone
  sees no effect of it.
\<close>

definition barrier :: "string \<Rightarrow> 's \<Rightarrow> ('s, unit) outcome" where
  "barrier name s = ret () s"

text \<open>The value of a C comparison.\<close>

definition c_bool :: "bool \<Rightarrow> c_int" where
  "c_bool b = (if b then 1 else 0)"

lemma c_value_simps [simp]: "c_value (Inl f) s = fault f" "c_value (Inr v) s = ret v s"
  by (simp_all add: c_value_def)

lemma barrier_simp [simp]: "barrier name s = ret () s"
  by (simp add: barrier_def)

lemma c_value_add: "no_overflow a b \<Longrightarrow> c_value (c_add a b) s = ret (a + b) s"
  by (simp add: c_add_def)

lemma c_bool_eq_0 [simp]: "c_bool b = 0 \<longleftrightarrow> \<not> b"
  by (simp add: c_bool_def)

lemma c_bool_eq_1 [simp]: "c_bool b = 1 \<longleftrightarrow> b"
  by (simp add: c_bool_def)

lemma sint_range: "- (2 ^ 31) \<le> sint (a :: c_int)" "sint (a :: c_int) < 2 ^ 31"
  using sint_greater_eq [of a] sint_lt [of a] by simp_all

lemma no_overflow_sint: "no_overflow a b \<Longrightarrow> sint (a + b) = sint a + sint b"
  by (simp add: no_overflow_def sint_word_ariths signed_take_bit_int_eq_self)

lemma c_add_sint: "c_add a b = Inr c \<Longrightarrow> sint c = sint a + sint b"
  by (auto simp: c_add_def no_overflow_sint split: if_splits)

lemma no_overflow_zero [simp]: "no_overflow a 0" "no_overflow 0 a"
  using sint_range [of a] by (simp_all add: no_overflow_def)

lemma no_overflow_incr: "no_overflow a 1 \<longleftrightarrow> sint a < 2 ^ 31 - 1"
  using sint_range [of a] by (auto simp: no_overflow_def)

lemma no_overflow_decr: "no_overflow a (- 1) \<longleftrightarrow> - (2 ^ 31) < sint a"
  using sint_range [of a] by (auto simp: no_overflow_def)

section \<open>The relation of a contract\<close>

text \<open>
  \<open>yields ok view out r m\<close>: the call returns \<open>r\<close> in a good state whose view is the store \<open>m\<close>.
  A port chooses what a good state is (a mutex that is initialised and free, say) and how its
  state is seen as a plain store.
\<close>

definition yields ::
  "('s \<Rightarrow> bool) \<Rightarrow> ('s \<Rightarrow> mem) \<Rightarrow> ('s, 'a) outcome \<Rightarrow> 'a \<Rightarrow> mem \<Rightarrow> bool" where
  "yields ok view out r m \<longleftrightarrow> (\<exists>s. out = ret r s \<and> ok s \<and> view s = m)"

lemma yields_ret: "ok s \<Longrightarrow> view s = m \<Longrightarrow> yields ok view (ret r s) r m"
  by (auto simp: yields_def)

lemma yields_ret_iff [simp]: "yields ok view (ret r s) r' m \<longleftrightarrow> r = r' \<and> ok s \<and> view s = m"
  by (auto simp: yields_def)

lemma yields_bind:
  assumes "yields ok view out r m"
    and "\<And>s. ok s \<Longrightarrow> view s = m \<Longrightarrow> yields ok view (k r s) r' m'"
  shows "yields ok view (bind_outcome out k) r' m'"
  using assms by (auto simp: yields_def)

lemma yieldsE:
  assumes "yields ok view out r m"
  obtains s where "out = ret r s" "ok s" "view s = m"
  using assms by (auto simp: yields_def)

lemma yields_void: "yields ok view out r m \<Longrightarrow> yields ok view (void out) () m"
  by (auto simp: yields_def void_def)

lemma yields_total: "yields ok view out r m \<Longrightarrow> \<exists>s. out = Some (Inr (r, s))"
  by (auto simp: yields_def ret_def)

end
