(* ===== verification/OPA_Contract.thy ===== *)
theory OPA_Contract
  imports OPA_Prelude
begin

text \<open>
  What \<open>opa_primitives.h\<close> promises of a port of the primitives: the functions every platform
  header must provide, each with the effect it has on the store when it runs alone. A port is
  free in the state it keeps (a mutex, a link register) as long as its good states can be viewed
  as a store. The laws are stated for arguments whose signed sum stays in range; a port that
  wraps around instead of overflowing satisfies the stronger contract \<open>wrapping_primitives\<close>.
  The last section is a client of the contract, the sanity program of the test suite.
\<close>

section \<open>Loads and stores\<close>

locale access_primitives =
  fixes ok :: "'s \<Rightarrow> bool"
    and view :: "'s \<Rightarrow> mem"
    and load_int :: "addr \<Rightarrow> 's \<Rightarrow> ('s, c_int) outcome"
    and store_int :: "addr \<Rightarrow> c_int \<Rightarrow> 's \<Rightarrow> ('s, unit) outcome"
    and load_ptr :: "addr \<Rightarrow> 's \<Rightarrow> ('s, addr) outcome"
    and store_ptr :: "addr \<Rightarrow> addr \<Rightarrow> 's \<Rightarrow> ('s, unit) outcome"
  assumes load_int_law:
      "ok s \<Longrightarrow> yields ok view (load_int p s) (int_at (view s) p) (view s)"
    and store_int_law:
      "ok s \<Longrightarrow> yields ok view (store_int p v s) () (st_int p v (view s))"
    and load_ptr_law:
      "ok s \<Longrightarrow> yields ok view (load_ptr p s) (ptr_at (view s) p) (view s)"
    and store_ptr_law:
      "ok s \<Longrightarrow> yields ok view (store_ptr p w s) () (st_ptr p w (view s))"

section \<open>Compare-and-swap and swap\<close>

locale cas_primitives = access_primitives +
  fixes cas_int :: "addr \<Rightarrow> c_int \<Rightarrow> c_int \<Rightarrow> 's \<Rightarrow> ('s, c_int) outcome"
    and cas_ptr :: "addr \<Rightarrow> addr \<Rightarrow> addr \<Rightarrow> 's \<Rightarrow> ('s, addr) outcome"
  assumes cas_int_law:
      "ok s \<Longrightarrow> yields ok view (cas_int p oldv newv s) (int_at (view s) p)
         (if int_at (view s) p = oldv then st_int p newv (view s) else view s)"
    and cas_ptr_law:
      "ok s \<Longrightarrow> yields ok view (cas_ptr p oldw neww s) (ptr_at (view s) p)
         (if ptr_at (view s) p = oldw then st_ptr p neww (view s) else view s)"

locale swap_primitives =
  fixes ok :: "'s \<Rightarrow> bool"
    and view :: "'s \<Rightarrow> mem"
    and swap_int :: "addr \<Rightarrow> c_int \<Rightarrow> 's \<Rightarrow> ('s, c_int) outcome"
    and swap_ptr :: "addr \<Rightarrow> addr \<Rightarrow> 's \<Rightarrow> ('s, addr) outcome"
  assumes swap_int_law:
      "ok s \<Longrightarrow> yields ok view (swap_int p v s) (int_at (view s) p) (st_int p v (view s))"
    and swap_ptr_law:
      "ok s \<Longrightarrow> yields ok view (swap_ptr p w s) (ptr_at (view s) p) (st_ptr p w (view s))"

section \<open>Fetch-and-add and the counters derived from it\<close>

locale faa_primitive =
  fixes ok :: "'s \<Rightarrow> bool"
    and view :: "'s \<Rightarrow> mem"
    and fetch_and_add_int :: "addr \<Rightarrow> c_int \<Rightarrow> 's \<Rightarrow> ('s, c_int) outcome"
  assumes faa_law:
      "ok s \<Longrightarrow> no_overflow (int_at (view s) p) v \<Longrightarrow>
         yields ok view (fetch_and_add_int p v s) (int_at (view s) p)
           (st_int p (int_at (view s) p + v) (view s))"

locale counter_primitives = faa_primitive +
  fixes add_int :: "addr \<Rightarrow> c_int \<Rightarrow> 's \<Rightarrow> ('s, unit) outcome"
    and incr_int :: "addr \<Rightarrow> 's \<Rightarrow> ('s, unit) outcome"
    and decr_int :: "addr \<Rightarrow> 's \<Rightarrow> ('s, unit) outcome"
    and decr_and_test_int :: "addr \<Rightarrow> 's \<Rightarrow> ('s, c_int) outcome"
    and fetch_and_incr_int :: "addr \<Rightarrow> 's \<Rightarrow> ('s, c_int) outcome"
    and fetch_and_decr_int :: "addr \<Rightarrow> 's \<Rightarrow> ('s, c_int) outcome"
  assumes add_law:
      "ok s \<Longrightarrow> no_overflow (int_at (view s) p) v \<Longrightarrow>
         yields ok view (add_int p v s) () (st_int p (int_at (view s) p + v) (view s))"
    and incr_law:
      "ok s \<Longrightarrow> no_overflow (int_at (view s) p) 1 \<Longrightarrow>
         yields ok view (incr_int p s) () (st_int p (int_at (view s) p + 1) (view s))"
    and decr_law:
      "ok s \<Longrightarrow> no_overflow (int_at (view s) p) (- 1) \<Longrightarrow>
         yields ok view (decr_int p s) () (st_int p (int_at (view s) p - 1) (view s))"
    and decr_and_test_law:
      "ok s \<Longrightarrow> no_overflow (int_at (view s) p) (- 1) \<Longrightarrow>
         yields ok view (decr_and_test_int p s) (c_bool (int_at (view s) p = 1))
           (st_int p (int_at (view s) p - 1) (view s))"
    and fai_law:
      "ok s \<Longrightarrow> no_overflow (int_at (view s) p) 1 \<Longrightarrow>
         yields ok view (fetch_and_incr_int p s) (int_at (view s) p)
           (st_int p (int_at (view s) p + 1) (view s))"
    and fad_law:
      "ok s \<Longrightarrow> no_overflow (int_at (view s) p) (- 1) \<Longrightarrow>
         yields ok view (fetch_and_decr_int p s) (int_at (view s) p)
           (st_int p (int_at (view s) p - 1) (view s))"

section \<open>The whole interface\<close>

locale opa_primitives =
  cas_primitives ok view load_int store_int load_ptr store_ptr cas_int cas_ptr +
  swap_primitives ok view swap_int swap_ptr +
  counter_primitives ok view fetch_and_add_int add_int incr_int decr_int decr_and_test_int
    fetch_and_incr_int fetch_and_decr_int
  for ok :: "'s \<Rightarrow> bool"
    and view :: "'s \<Rightarrow> mem"
    and load_int store_int load_ptr store_ptr cas_int cas_ptr swap_int swap_ptr
      fetch_and_add_int add_int incr_int decr_int decr_and_test_int
      fetch_and_incr_int fetch_and_decr_int
begin

text \<open>Fetch-and-add of a value and of its negation restore the variable.\<close>

lemma faa_undo:
  assumes "ok s" and "no_overflow (int_at (view s) p) v"
    and "no_overflow (int_at (view s) p + v) (- v)"
  shows "yields ok view
    (bind_outcome (fetch_and_add_int p v s) (\<lambda>_. fetch_and_add_int p (- v)))
    (int_at (view s) p + v) (view s)"
proof (rule yields_bind [OF faa_law [OF assms(1,2)]])
  fix s' assume "ok s'" and v: "view s' = st_int p (int_at (view s) p + v) (view s)"
  then show "yields ok view (fetch_and_add_int p (- v) s') (int_at (view s) p + v) (view s)"
    using faa_law [of s' p "- v"] assms(3) by simp
qed

text \<open>A successful compare-and-swap can be undone by the compare-and-swap back.\<close>

lemma cas_int_undo:
  assumes "ok s" and "int_at (view s) p = oldv"
  shows "yields ok view
    (bind_outcome (cas_int p oldv newv s) (\<lambda>_. cas_int p newv oldv)) newv (view s)"
proof (rule yields_bind [OF cas_int_law [OF assms(1)]])
  fix s' assume "ok s'"
    and "view s' = (if int_at (view s) p = oldv then st_int p newv (view s) else view s)"
  then show "yields ok view (cas_int p newv oldv s') newv (view s)"
    using cas_int_law [of s' p newv oldv] assms(2) by auto
qed

end

text \<open>
  A port that wraps around: the counters are total, no sum is out of range for them. Then adding
  and subtracting always cancel, which the plain contract gives only when no sum overflows.
\<close>

locale wrapping_primitives = opa_primitives +
  assumes faa_wraps:
      "ok s \<Longrightarrow> yields ok view (fetch_and_add_int p v s) (int_at (view s) p)
         (st_int p (int_at (view s) p + v) (view s))"
    and add_wraps:
      "ok s \<Longrightarrow> yields ok view (add_int p v s) () (st_int p (int_at (view s) p + v) (view s))"
    and incr_wraps:
      "ok s \<Longrightarrow> yields ok view (incr_int p s) () (st_int p (int_at (view s) p + 1) (view s))"
    and decr_wraps:
      "ok s \<Longrightarrow> yields ok view (decr_int p s) () (st_int p (int_at (view s) p - 1) (view s))"
    and decr_and_test_wraps:
      "ok s \<Longrightarrow> yields ok view (decr_and_test_int p s) (c_bool (int_at (view s) p = 1))
         (st_int p (int_at (view s) p - 1) (view s))"
begin

lemma add_undo:
  assumes "ok s"
  shows "yields ok view (bind_outcome (add_int p v s) (\<lambda>_. add_int p (- v))) () (view s)"
proof (rule yields_bind [OF add_wraps [OF assms]])
  fix s' assume "ok s'" and "view s' = st_int p (int_at (view s) p + v) (view s)"
  then show "yields ok view (add_int p (- v) s') () (view s)"
    using add_wraps [of s' p "- v"] by simp
qed

lemma incr_decr_and_test:
  assumes "ok s"
  shows "yields ok view (bind_outcome (incr_int p s) (\<lambda>_. decr_and_test_int p))
    (c_bool (int_at (view s) p = 0)) (view s)"
proof (rule yields_bind [OF incr_wraps [OF assms]])
  fix s' assume "ok s'" and "view s' = st_int p (int_at (view s) p + 1) (view s)"
  then show "yields ok view (decr_and_test_int p s') (c_bool (int_at (view s) p = 0)) (view s)"
    using decr_and_test_wraps [of s' p] by simp
qed

end

section \<open>A client: the sanity program\<close>

text \<open>
  \<open>main\<close> of \<open>test/sanity.c\<close> after the set-up of the lock, with the value each \<open>assert\<close>
  compares returned: \<open>True\<close> when every assertion holds.
\<close>

definition sanity_main ::
  "(addr \<Rightarrow> 's \<Rightarrow> ('s, c_int) outcome) \<Rightarrow> (addr \<Rightarrow> c_int \<Rightarrow> 's \<Rightarrow> ('s, unit) outcome) \<Rightarrow>
   (addr \<Rightarrow> c_int \<Rightarrow> 's \<Rightarrow> ('s, unit) outcome) \<Rightarrow>
   (addr \<Rightarrow> c_int \<Rightarrow> c_int \<Rightarrow> 's \<Rightarrow> ('s, c_int) outcome) \<Rightarrow>
   (addr \<Rightarrow> c_int \<Rightarrow> 's \<Rightarrow> ('s, c_int) outcome) \<Rightarrow>
   addr \<Rightarrow> addr \<Rightarrow> 's \<Rightarrow> ('s, bool) outcome" where
  "sanity_main load store add cas swap a b s =
     bind_outcome (store a 0 s) (\<lambda>_ s.
     bind_outcome (store b 1 s) (\<lambda>_ s.
     bind_outcome (add a 10 s) (\<lambda>_ s.
     bind_outcome (load a s) (\<lambda>c1 s.
     bind_outcome (cas a 10 11 s) (\<lambda>c2 s.
     bind_outcome (load b s) (\<lambda>t s.
     bind_outcome (swap a t s) (\<lambda>c3 s.
     bind_outcome (load a s) (\<lambda>c4 s.
       ret (10 = c1 \<and> 10 = c2 \<and> 11 = c3 \<and> 1 = c4) s))))))))"

context opa_primitives
begin

lemma sanity_passes:
  assumes "ok s" and "a \<noteq> b"
  shows "yields ok view
    (sanity_main load_int store_int add_int cas_int swap_int a b s) True
    (st_int a 1 (st_int b 1 (view s)))"
proof -
  let ?m = "\<lambda>v. st_int a v (st_int b 1 (view s))"
  have swap_order: "st_int b 1 (st_int a v (view s)) = ?m v" for v
    using assms(2) by (simp add: st_int_def fun_upd_twist)
  show ?thesis
    unfolding sanity_main_def
    apply (rule yields_bind [OF store_int_law [OF assms(1)]])
    apply (rule yields_bind [OF store_int_law], assumption)
    apply (rule yields_bind [where m = "?m 10" and r = "()"])
    subgoal for s1 s2 using add_law [of s2 a 10] by (simp add: swap_order)
    apply (rule yields_bind [OF load_int_law], assumption)
    apply (rule yields_bind [OF cas_int_law], assumption)
    apply (rule yields_bind [OF load_int_law], assumption)
    apply (rule yields_bind [OF swap_int_law], assumption)
    apply (rule yields_bind [OF load_int_law], assumption)
    using assms(2) by (auto intro!: yields_ret simp: st_int_def fun_upd_twist)
qed

end

end
