(* ===== verification/OPA_Shm.thy ===== *)
theory OPA_Shm
  imports OPA_Contract
begin

text \<open>
  Relative addresses into the shared memory region, the first half of \<open>src/opa_queue.h\<close>, and the
  base address they are relative to, \<open>src/opa_queue.c\<close>. The accesses to shared memory go through
  the pointer primitives of the port in use, which are an argument; a relative address held in a
  local variable is a value.
\<close>

section \<open>The base address\<close>

definition OPA_SHM_ASYMM_NULL_VAL :: addr where
  "OPA_SHM_ASYMM_NULL_VAL = 64"

text \<open>
  The first argument is the parameter \<open>base\<close>, the second the global \<open>OPA_Shm_asymm_base_addr\<close>;
  the result is the error code and the new value of the global.
\<close>

definition OPA_Shm_asymm_init :: "addr \<Rightarrow> addr \<Rightarrow> c_int \<times> addr" where
  "OPA_Shm_asymm_init base base_addr =
     (if base_addr \<noteq> OPA_SHM_ASYMM_NULL_VAL then (16, base_addr) else (0, base))"

definition initial_base_addr :: addr where
  "initial_base_addr = OPA_SHM_ASYMM_NULL_VAL"

section \<open>Relative addresses\<close>

record OPA_Shm_rel_addr_t =
  offset :: addr

definition OPA_SHM_REL_NULL :: addr where
  "OPA_SHM_REL_NULL = 0"

definition OPA_Shm_rel_to_abs :: "addr \<Rightarrow> OPA_Shm_rel_addr_t \<Rightarrow> addr" where
  "OPA_Shm_rel_to_abs base_addr r = base_addr + offset r"

definition OPA_Shm_abs_to_rel :: "addr \<Rightarrow> addr \<Rightarrow> OPA_Shm_rel_addr_t" where
  "OPA_Shm_abs_to_rel base_addr a = \<lparr>offset = a - base_addr\<rparr>"

definition OPA_SHM_REL_ARE_EQUAL :: "OPA_Shm_rel_addr_t \<Rightarrow> OPA_Shm_rel_addr_t \<Rightarrow> bool" where
  "OPA_SHM_REL_ARE_EQUAL r1 r2 \<longleftrightarrow> offset r1 = offset r2"

text \<open>The test \<open>OPA_SHM_IS_REL_NULL\<close> of a local variable.\<close>

definition local_is_rel_null :: "OPA_Shm_rel_addr_t \<Rightarrow> bool" where
  "local_is_rel_null r \<longleftrightarrow> offset r = OPA_SHM_REL_NULL"

lemma rel_to_abs_to_rel [simp]:
  "OPA_Shm_abs_to_rel b (OPA_Shm_rel_to_abs b r) = r"
  by (simp add: OPA_Shm_rel_to_abs_def OPA_Shm_abs_to_rel_def)

lemma abs_to_rel_to_abs [simp]:
  "OPA_Shm_rel_to_abs b (OPA_Shm_abs_to_rel b a) = a"
  by (simp add: OPA_Shm_rel_to_abs_def OPA_Shm_abs_to_rel_def)

lemma abs_to_rel_inject [simp]:
  "OPA_Shm_abs_to_rel b x = OPA_Shm_abs_to_rel b y \<longleftrightarrow> x = y"
  by (metis abs_to_rel_to_abs)

lemma local_is_rel_null_abs_to_rel [simp]:
  "local_is_rel_null (OPA_Shm_abs_to_rel b a) \<longleftrightarrow> a = b"
  by (simp add: local_is_rel_null_def OPA_Shm_abs_to_rel_def OPA_SHM_REL_NULL_def)

lemma offset_abs_to_rel [simp]: "offset (OPA_Shm_abs_to_rel b a) = a - b"
  by (simp add: OPA_Shm_abs_to_rel_def)

lemma rel_addr_eqI: "offset r = offset r' \<Longrightarrow> r = (r' :: OPA_Shm_rel_addr_t)"
  by simp

section \<open>The pointer primitives of a port\<close>

text \<open>
  The four primitives the queue calls, and the plain accesses that C generates for the
  assignment of one structure to another.
\<close>

record 's ptr_port =
  load_ptr :: "addr \<Rightarrow> 's \<Rightarrow> ('s, addr) outcome"
  store_ptr :: "addr \<Rightarrow> addr \<Rightarrow> 's \<Rightarrow> ('s, unit) outcome"
  cas_ptr :: "addr \<Rightarrow> addr \<Rightarrow> addr \<Rightarrow> 's \<Rightarrow> ('s, addr) outcome"
  swap_ptr :: "addr \<Rightarrow> addr \<Rightarrow> 's \<Rightarrow> ('s, addr) outcome"
  plain_read :: "addr \<Rightarrow> 's \<Rightarrow> addr"
  plain_write :: "addr \<Rightarrow> addr \<Rightarrow> 's \<Rightarrow> 's"

text \<open>\<open>r\<close> is the address of the \<open>OPA_Shm_rel_addr_t\<close>, which is that of its field \<open>offset\<close>.\<close>

definition OPA_SHM_IS_REL_NULL :: "'s ptr_port \<Rightarrow> addr \<Rightarrow> 's \<Rightarrow> ('s, bool) outcome" where
  "OPA_SHM_IS_REL_NULL P r s =
     bind_outcome (load_ptr P r s) (\<lambda>v s. ret (v = OPA_SHM_REL_NULL) s)"

definition OPA_SHM_SET_REL_NULL :: "'s ptr_port \<Rightarrow> addr \<Rightarrow> 's \<Rightarrow> ('s, unit) outcome" where
  "OPA_SHM_SET_REL_NULL P r s = store_ptr P r OPA_SHM_REL_NULL s"

definition OPA_Shm_swap_rel ::
  "'s ptr_port \<Rightarrow> addr \<Rightarrow> OPA_Shm_rel_addr_t \<Rightarrow> 's \<Rightarrow> ('s, OPA_Shm_rel_addr_t) outcome" where
  "OPA_Shm_swap_rel P addr newv s =
     bind_outcome (swap_ptr P addr (offset newv) s) (\<lambda>v s. ret \<lparr>offset = v\<rparr> s)"

definition OPA_Shm_cas_rel_null ::
  "'s ptr_port \<Rightarrow> addr \<Rightarrow> OPA_Shm_rel_addr_t \<Rightarrow> 's \<Rightarrow> ('s, OPA_Shm_rel_addr_t) outcome" where
  "OPA_Shm_cas_rel_null P addr oldv s =
     bind_outcome (cas_ptr P addr (offset oldv) OPA_SHM_REL_NULL s) (\<lambda>v s. ret \<lparr>offset = v\<rparr> s)"

definition read_rel :: "'s ptr_port \<Rightarrow> addr \<Rightarrow> 's \<Rightarrow> OPA_Shm_rel_addr_t" where
  "read_rel P r s = \<lparr>offset = plain_read P r s\<rparr>"

definition write_rel :: "'s ptr_port \<Rightarrow> addr \<Rightarrow> OPA_Shm_rel_addr_t \<Rightarrow> 's \<Rightarrow> 's" where
  "write_rel P r v s = plain_write P r (offset v) s"

section \<open>What the queue needs of a port\<close>

locale shm_port =
  fixes ok :: "'s \<Rightarrow> bool"
    and view :: "'s \<Rightarrow> mem"
    and P :: "'s ptr_port"
  assumes load_law: "ok s \<Longrightarrow> yields ok view (load_ptr P a s) (ptr_at (view s) a) (view s)"
    and store_law: "ok s \<Longrightarrow> yields ok view (store_ptr P a v s) () (st_ptr a v (view s))"
    and cas_law: "ok s \<Longrightarrow> yields ok view (cas_ptr P a oldv newv s) (ptr_at (view s) a)
        (if ptr_at (view s) a = oldv then st_ptr a newv (view s) else view s)"
    and swap_law: "ok s \<Longrightarrow> yields ok view (swap_ptr P a v s) (ptr_at (view s) a)
        (st_ptr a v (view s))"
    and read_law: "ok s \<Longrightarrow> plain_read P a s = ptr_at (view s) a"
    and write_law: "ok s \<Longrightarrow> ok (plain_write P a v s) \<and> view (plain_write P a v s) = st_ptr a v (view s)"
begin

lemma is_rel_null_yields:
  "ok s \<Longrightarrow> yields ok view (OPA_SHM_IS_REL_NULL P a s) (ptr_at (view s) a = 0) (view s)"
  unfolding OPA_SHM_IS_REL_NULL_def OPA_SHM_REL_NULL_def
  by (rule yields_bind [OF load_law]) (auto intro: yields_ret)

lemma set_rel_null_yields:
  "ok s \<Longrightarrow> yields ok view (OPA_SHM_SET_REL_NULL P a s) () (st_ptr a 0 (view s))"
  by (simp add: OPA_SHM_SET_REL_NULL_def OPA_SHM_REL_NULL_def store_law)

lemma swap_rel_yields:
  "ok s \<Longrightarrow> yields ok view (OPA_Shm_swap_rel P a r s) \<lparr>offset = ptr_at (view s) a\<rparr>
     (st_ptr a (offset r) (view s))"
  unfolding OPA_Shm_swap_rel_def by (rule yields_bind [OF swap_law]) (auto intro: yields_ret)

lemma cas_rel_null_yields:
  "ok s \<Longrightarrow> yields ok view (OPA_Shm_cas_rel_null P a r s) \<lparr>offset = ptr_at (view s) a\<rparr>
     (if ptr_at (view s) a = offset r then st_ptr a 0 (view s) else view s)"
  unfolding OPA_Shm_cas_rel_null_def OPA_SHM_REL_NULL_def
  by (rule yields_bind [OF cas_law]) (auto intro: yields_ret)

lemma read_rel_eq: "ok s \<Longrightarrow> read_rel P a s = \<lparr>offset = ptr_at (view s) a\<rparr>"
  by (simp add: read_rel_def read_law)

lemma write_rel_ok: "ok s \<Longrightarrow> ok (write_rel P a r s)"
  by (simp add: write_rel_def write_law)

lemma view_write_rel: "ok s \<Longrightarrow> view (write_rel P a r s) = st_ptr a (offset r) (view s)"
  by (simp add: write_rel_def write_law)

end

end
