(* ===== verification/OPA_Queue_Threads.thy ===== *)
theory OPA_Queue_Threads
  imports OPA_Shm
begin

text \<open>
  The queue of \<open>src/opa_queue.h\<close> under concurrency: any number of enqueuing threads, one dequeuing
  thread, and every access to a shared cell as a step of its own, in any order. Each thread may
  map the segment at its own base address. The memory is sequentially consistent, so the barriers
  of the macros have no effect here; \<open>OPA_Store_Buffers\<close> is about them. The result is a simulation by an abstract queue, from which
  the order of the elements, the meaning of \<open>OPA_Queue_is_empty\<close> and the end of the busy wait
  follow.
\<close>

section \<open>State\<close>

text \<open>
  The program counters. An enqueuer holds the element and its relative address before it clears
  the link (\<open>P_Null\<close>), then the relative address before the swap of the tail (\<open>P_Swap\<close>), then
  before the write of the head (\<open>P_Head\<close>) or of the link of the previous element (\<open>P_Link\<close>, with
  the absolute address of that element in the enqueuer's own mapping).
\<close>

datatype enq_pc =
    P_Idle
  | P_Null addr addr
  | P_Swap addr
  | P_Head addr
  | P_Link addr addr

text \<open>
  The dequeuer between two calls (\<open>C_Idle\<close>, with the mark that its last call of
  \<open>OPA_Queue_is_empty\<close> answered 0 and no dequeue came since), inside \<open>OPA_Queue_is_empty\<close>
  (\<open>E_...\<close>), inside \<open>OPA_Queue_peek_head\<close> (\<open>K_Read\<close>) and inside \<open>OPA_Queue_dequeue\<close> (\<open>D_...\<close>, with
  \<open>_r_e\<close> and, before a write of the shadow head, the link that was read).
\<close>

datatype deq_pc =
    C_Idle bool
  | E_Head
  | E_Read
  | E_Shadow addr
  | E_Clear
  | K_Read bool
  | D_Next addr
  | D_Read addr
  | D_Shadow addr addr
  | D_Null addr
  | D_Cas addr
  | D_Wait addr
  | D_WRead addr
  | D_WShadow addr addr
  | D_Clear addr

text \<open>
  The shared cells, each holding a relative address: those of \<open>OPA_Queue_info_t\<close> and the field
  \<open>next\<close> of the element at each relative address. \<open>avail\<close> is no part of the program: it is the
  set of the elements that belong to the clients, neither in the queue nor in an operation.
\<close>

record qstate =
  q_head :: addr
  q_tail :: addr
  q_shadow :: addr
  q_next :: "addr \<Rightarrow> addr"
  enqs :: "nat \<Rightarrow> enq_pc"
  deq :: deq_pc
  avail :: "addr set"

datatype qlabel =
    Tau
  | Swapped nat addr
  | Enqueued nat addr
  | Is_Empty bool
  | Peek_Null
  | Peeked addr
  | Removed addr
  | Dequeued addr

text \<open>The cell a thread reaches through an absolute address of its own mapping.\<close>

definition cell :: "addr \<Rightarrow> addr \<Rightarrow> addr" where
  "cell b a = offset (OPA_Shm_abs_to_rel b a)"

definition abs_of :: "addr \<Rightarrow> addr \<Rightarrow> addr" where
  "abs_of b r = OPA_Shm_rel_to_abs b \<lparr>offset = r\<rparr>"

lemma cell_abs_of [simp]: "cell b (abs_of b r) = r"
  by (simp add: cell_def abs_of_def OPA_Shm_rel_to_abs_def OPA_Shm_abs_to_rel_def)

lemma abs_of_cell [simp]: "abs_of b (cell b a) = a"
  by (simp add: cell_def abs_of_def OPA_Shm_rel_to_abs_def OPA_Shm_abs_to_rel_def)

section \<open>Steps\<close>

text \<open>
  A client may enqueue an element it owns and whose relative address is not null. The enqueuer
  computes \<open>r_elt\<close>; each later step is one access of \<open>OPA_Queue_enqueue\<close>.
\<close>

definition enqueue_call :: "addr \<Rightarrow> nat \<Rightarrow> addr \<Rightarrow> qstate \<Rightarrow> qstate option" where
  "enqueue_call b p elt s =
     (let r_elt = cell b elt in
      if enqs s p = P_Idle \<and> r_elt \<in> avail s \<and> r_elt \<noteq> 0
      then Some (s\<lparr>enqs := (enqs s)(p := P_Null elt r_elt), avail := avail s - {r_elt}\<rparr>)
      else None)"

definition enqueue_step :: "addr \<Rightarrow> nat \<Rightarrow> qstate \<Rightarrow> (qlabel \<times> qstate) option" where
  "enqueue_step b p s =
     (case enqs s p of
        P_Idle \<Rightarrow> None
      | P_Null elt r_elt \<Rightarrow>
          Some (Tau, s\<lparr>q_next := (q_next s)(cell b elt := OPA_SHM_REL_NULL),
                       enqs := (enqs s)(p := P_Swap r_elt)\<rparr>)
      | P_Swap r_elt \<Rightarrow>
          (let r_prev = q_tail s in
           Some (Swapped p r_elt,
                 s\<lparr>q_tail := r_elt,
                   enqs := (enqs s)(p := if r_prev = OPA_SHM_REL_NULL then P_Head r_elt
                                         else P_Link (abs_of b r_prev) r_elt)\<rparr>))
      | P_Head r_elt \<Rightarrow>
          Some (Enqueued p r_elt, s\<lparr>q_head := r_elt, enqs := (enqs s)(p := P_Idle)\<rparr>)
      | P_Link abs_prev r_elt \<Rightarrow>
          Some (Enqueued p r_elt, s\<lparr>q_next := (q_next s)(cell b abs_prev := r_elt),
                                    enqs := (enqs s)(p := P_Idle)\<rparr>))"

text \<open>The calls of the dequeuer, up to their first access.\<close>

definition is_empty_call :: "qstate \<Rightarrow> (qlabel \<times> qstate) option" where
  "is_empty_call s =
     (case deq s of
        C_Idle _ \<Rightarrow>
          if q_shadow s = OPA_SHM_REL_NULL then Some (Tau, s\<lparr>deq := E_Head\<rparr>)
          else Some (Is_Empty False, s\<lparr>deq := C_Idle True\<rparr>)
      | _ \<Rightarrow> None)"

definition peek_call :: "qstate \<Rightarrow> (qlabel \<times> qstate) option" where
  "peek_call s =
     (case deq s of
        C_Idle primed \<Rightarrow>
          if q_shadow s = OPA_SHM_REL_NULL then Some (Peek_Null, s)
          else Some (Tau, s\<lparr>deq := K_Read primed\<rparr>)
      | _ \<Rightarrow> None)"

definition dequeue_call :: "qstate \<Rightarrow> (qlabel \<times> qstate) option" where
  "dequeue_call s =
     (case deq s of
        C_Idle primed \<Rightarrow> if primed then Some (Tau, s\<lparr>deq := D_Next (q_shadow s)\<rparr>) else None
      | _ \<Rightarrow> None)"

text \<open>
  One access of the dequeuer inside \<open>OPA_Queue_is_empty\<close>, inside \<open>OPA_Queue_peek_head\<close> and inside
  \<open>OPA_Queue_dequeue\<close>, \<open>b\<close> being its base address. \<open>Removed\<close> marks the access that takes the
  element off the queue, \<open>Dequeued\<close> the return of the call.
\<close>

definition is_empty_step :: "qstate \<Rightarrow> (qlabel \<times> qstate) option" where
  "is_empty_step s =
     (case deq s of
        E_Head \<Rightarrow>
          if q_head s = OPA_SHM_REL_NULL then Some (Is_Empty True, s\<lparr>deq := C_Idle False\<rparr>)
          else Some (Tau, s\<lparr>deq := E_Read\<rparr>)
      | E_Read \<Rightarrow> Some (Tau, s\<lparr>deq := E_Shadow (q_head s)\<rparr>)
      | E_Shadow v \<Rightarrow> Some (Tau, s\<lparr>q_shadow := v, deq := E_Clear\<rparr>)
      | E_Clear \<Rightarrow> Some (Is_Empty False, s\<lparr>q_head := OPA_SHM_REL_NULL, deq := C_Idle True\<rparr>)
      | _ \<Rightarrow> None)"

definition peek_step :: "addr \<Rightarrow> qstate \<Rightarrow> (qlabel \<times> qstate) option" where
  "peek_step b s =
     (case deq s of
        K_Read primed \<Rightarrow> Some (Peeked (abs_of b (q_shadow s)), s\<lparr>deq := C_Idle primed\<rparr>)
      | _ \<Rightarrow> None)"

definition dequeue_step :: "addr \<Rightarrow> qstate \<Rightarrow> (qlabel \<times> qstate) option" where
  "dequeue_step b s =
     (case deq s of
        D_Next r \<Rightarrow>
          (let e = abs_of b r in
           if q_next s (cell b e) \<noteq> OPA_SHM_REL_NULL then Some (Tau, s\<lparr>deq := D_Read r\<rparr>)
           else Some (Tau, s\<lparr>deq := D_Null r\<rparr>))
      | D_Read r \<Rightarrow> Some (Tau, s\<lparr>deq := D_Shadow r (q_next s (cell b (abs_of b r)))\<rparr>)
      | D_Shadow r v \<Rightarrow> Some (Removed r, s\<lparr>q_shadow := v, deq := D_Clear r\<rparr>)
      | D_Null r \<Rightarrow> Some (Tau, s\<lparr>q_shadow := OPA_SHM_REL_NULL, deq := D_Cas r\<rparr>)
      | D_Cas r \<Rightarrow>
          (let old_tail = q_tail s in
           if old_tail = r then Some (Removed r, s\<lparr>q_tail := OPA_SHM_REL_NULL, deq := D_Clear r\<rparr>)
           else Some (Tau, s\<lparr>deq := D_Wait r\<rparr>))
      | D_Wait r \<Rightarrow>
          if q_next s (cell b (abs_of b r)) = OPA_SHM_REL_NULL then Some (Tau, s)
          else Some (Tau, s\<lparr>deq := D_WRead r\<rparr>)
      | D_WRead r \<Rightarrow> Some (Tau, s\<lparr>deq := D_WShadow r (q_next s (cell b (abs_of b r)))\<rparr>)
      | D_WShadow r v \<Rightarrow> Some (Removed r, s\<lparr>q_shadow := v, deq := D_Clear r\<rparr>)
      | D_Clear r \<Rightarrow>
          (let e = abs_of b r in
           Some (Dequeued e, s\<lparr>q_next := (q_next s)(cell b e := OPA_SHM_REL_NULL),
                               deq := C_Idle False, avail := insert (cell b e) (avail s)\<rparr>))
      | _ \<Rightarrow> None)"

definition dequeuer_step :: "addr \<Rightarrow> qstate \<Rightarrow> (qlabel \<times> qstate) option" where
  "dequeuer_step b s =
     (case is_empty_step s of Some r \<Rightarrow> Some r
      | None \<Rightarrow> (case peek_step b s of Some r \<Rightarrow> Some r | None \<Rightarrow> dequeue_step b s))"

text \<open>The three together, as one case distinction.\<close>

lemma dequeuer_step_eq: "dequeuer_step b s =
     (case deq s of
        C_Idle _ \<Rightarrow> None
      | E_Head \<Rightarrow>
          if q_head s = OPA_SHM_REL_NULL then Some (Is_Empty True, s\<lparr>deq := C_Idle False\<rparr>)
          else Some (Tau, s\<lparr>deq := E_Read\<rparr>)
      | E_Read \<Rightarrow> Some (Tau, s\<lparr>deq := E_Shadow (q_head s)\<rparr>)
      | E_Shadow v \<Rightarrow> Some (Tau, s\<lparr>q_shadow := v, deq := E_Clear\<rparr>)
      | E_Clear \<Rightarrow> Some (Is_Empty False, s\<lparr>q_head := OPA_SHM_REL_NULL, deq := C_Idle True\<rparr>)
      | K_Read primed \<Rightarrow> Some (Peeked (abs_of b (q_shadow s)), s\<lparr>deq := C_Idle primed\<rparr>)
      | D_Next r \<Rightarrow>
          (let e = abs_of b r in
           if q_next s (cell b e) \<noteq> OPA_SHM_REL_NULL then Some (Tau, s\<lparr>deq := D_Read r\<rparr>)
           else Some (Tau, s\<lparr>deq := D_Null r\<rparr>))
      | D_Read r \<Rightarrow> Some (Tau, s\<lparr>deq := D_Shadow r (q_next s (cell b (abs_of b r)))\<rparr>)
      | D_Shadow r v \<Rightarrow> Some (Removed r, s\<lparr>q_shadow := v, deq := D_Clear r\<rparr>)
      | D_Null r \<Rightarrow> Some (Tau, s\<lparr>q_shadow := OPA_SHM_REL_NULL, deq := D_Cas r\<rparr>)
      | D_Cas r \<Rightarrow>
          (let old_tail = q_tail s in
           if old_tail = r then Some (Removed r, s\<lparr>q_tail := OPA_SHM_REL_NULL, deq := D_Clear r\<rparr>)
           else Some (Tau, s\<lparr>deq := D_Wait r\<rparr>))
      | D_Wait r \<Rightarrow>
          if q_next s (cell b (abs_of b r)) = OPA_SHM_REL_NULL then Some (Tau, s)
          else Some (Tau, s\<lparr>deq := D_WRead r\<rparr>)
      | D_WRead r \<Rightarrow> Some (Tau, s\<lparr>deq := D_WShadow r (q_next s (cell b (abs_of b r)))\<rparr>)
      | D_WShadow r v \<Rightarrow> Some (Removed r, s\<lparr>q_shadow := v, deq := D_Clear r\<rparr>)
      | D_Clear r \<Rightarrow>
          (let e = abs_of b r in
           Some (Dequeued e, s\<lparr>q_next := (q_next s)(cell b e := OPA_SHM_REL_NULL),
                               deq := C_Idle False, avail := insert (cell b e) (avail s)\<rparr>)))"
  by (simp add: dequeuer_step_def is_empty_step_def peek_step_def dequeue_step_def Let_def
      split: deq_pc.split)

text \<open>
  \<open>base p\<close> is the base address of the enqueuer \<open>p\<close>, \<open>bd\<close> that of the dequeuer. A run starts
  after \<open>OPA_Queue_init\<close>, with every element at its clients.
\<close>

inductive q_step :: "(nat \<Rightarrow> addr) \<Rightarrow> addr \<Rightarrow> qstate \<Rightarrow> qlabel \<Rightarrow> qstate \<Rightarrow> bool"
  for base :: "nat \<Rightarrow> addr" and bd :: addr where
  Call_Enqueue: "enqueue_call (base p) p elt s = Some s' \<Longrightarrow> q_step base bd s Tau s'"
| Enqueuer: "enqueue_step (base p) p s = Some (l, s') \<Longrightarrow> q_step base bd s l s'"
| Call_Is_Empty: "is_empty_call s = Some (l, s') \<Longrightarrow> q_step base bd s l s'"
| Call_Peek: "peek_call s = Some (l, s') \<Longrightarrow> q_step base bd s l s'"
| Call_Dequeue: "dequeue_call s = Some (l, s') \<Longrightarrow> q_step base bd s l s'"
| Dequeuer: "dequeuer_step bd s = Some (l, s') \<Longrightarrow> q_step base bd s l s'"

definition q_init :: "addr set \<Rightarrow> qstate" where
  "q_init elts = \<lparr>q_head = OPA_SHM_REL_NULL, q_tail = OPA_SHM_REL_NULL, q_shadow = OPA_SHM_REL_NULL,
     q_next = (\<lambda>_. 0), enqs = (\<lambda>_. P_Idle), deq = C_Idle False, avail = elts\<rparr>"

inductive q_run :: "(nat \<Rightarrow> addr) \<Rightarrow> addr \<Rightarrow> qstate \<Rightarrow> qlabel list \<Rightarrow> qstate \<Rightarrow> bool"
  for base :: "nat \<Rightarrow> addr" and bd :: addr where
  Run_Nil: "q_run base bd s [] s"
| Run_Snoc: "q_run base bd s ls t \<Longrightarrow> q_step base bd t l u \<Longrightarrow> q_run base bd s (ls @ [l]) u"

text \<open>A run under a given schedule, to be evaluated.\<close>

datatype q_action =
    Start_Enqueue nat addr
  | Go_Enqueuer nat
  | Start_Is_Empty
  | Start_Peek
  | Start_Dequeue
  | Go_Dequeuer

fun q_exec :: "(nat \<Rightarrow> addr) \<Rightarrow> addr \<Rightarrow> q_action \<Rightarrow> qstate \<Rightarrow> (qlabel \<times> qstate) option" where
  "q_exec base bd (Start_Enqueue p elt) s =
     map_option (\<lambda>s'. (Tau, s')) (enqueue_call (base p) p elt s)"
| "q_exec base bd (Go_Enqueuer p) s = enqueue_step (base p) p s"
| "q_exec base bd Start_Is_Empty s = is_empty_call s"
| "q_exec base bd Start_Peek s = peek_call s"
| "q_exec base bd Start_Dequeue s = dequeue_call s"
| "q_exec base bd Go_Dequeuer s = dequeuer_step bd s"

fun q_schedule ::
  "(nat \<Rightarrow> addr) \<Rightarrow> addr \<Rightarrow> q_action list \<Rightarrow> qstate \<Rightarrow> (qlabel list \<times> qstate) option" where
  "q_schedule base bd [] s = Some ([], s)"
| "q_schedule base bd (a # as) s =
     (case q_exec base bd a s of None \<Rightarrow> None
      | Some (l, s') \<Rightarrow> map_option (\<lambda>(ls, t). (l # ls, t)) (q_schedule base bd as s'))"

lemma q_exec_step: "q_exec base bd a s = Some (l, s') \<Longrightarrow> q_step base bd s l s'"
  by (cases a) (auto intro: q_step.intros)

lemma q_run_Cons: "q_step base bd s l s' \<Longrightarrow> q_run base bd s' ls t \<Longrightarrow> q_run base bd s (l # ls) t"
proof (rotate_tac, induction rule: q_run.induct)
  case (Run_Nil s')
  then show ?case using Run_Snoc [OF q_run.Run_Nil, of base bd s l s'] by simp
next
  case (Run_Snoc s' ls t k u)
  then show ?case using q_run.Run_Snoc [of base bd s "l # ls" t k u] by simp
qed

lemma q_schedule_run: "q_schedule base bd as s = Some (ls, t) \<Longrightarrow> q_run base bd s ls t"
  by (induction as arbitrary: s ls)
    (auto split: option.splits intro: Run_Nil q_run_Cons q_exec_step)

definition labels_of :: "(nat \<Rightarrow> addr) \<Rightarrow> addr \<Rightarrow> q_action list \<Rightarrow> qstate \<Rightarrow> qlabel list" where
  "labels_of base bd as s = fst (the (q_schedule base bd as s))"

definition end_of :: "(nat \<Rightarrow> addr) \<Rightarrow> addr \<Rightarrow> q_action list \<Rightarrow> qstate \<Rightarrow> qstate" where
  "end_of base bd as s = snd (the (q_schedule base bd as s))"

lemma schedule_of_run:
  "\<not> Option.is_none (q_schedule base bd as s) \<Longrightarrow>
     q_run base bd s (labels_of base bd as s) (end_of base bd as s)"
  by (auto simp: Option.is_none_def labels_of_def end_of_def intro: q_schedule_run)

text \<open>A schedule leaves the enqueuers it does not name alone.\<close>

fun action_enqueuer :: "q_action \<Rightarrow> nat option" where
  "action_enqueuer (Start_Enqueue p elt) = Some p"
| "action_enqueuer (Go_Enqueuer p) = Some p"
| "action_enqueuer _ = None"

lemma exec_frame:
  "q_exec base bd a s = Some (l, s') \<Longrightarrow> action_enqueuer a \<noteq> Some p \<Longrightarrow> enqs s' p = enqs s p"
  by (cases a)
    (auto simp: enqueue_call_def enqueue_step_def is_empty_call_def peek_call_def dequeue_call_def
      dequeuer_step_eq Let_def split: enq_pc.splits deq_pc.splits if_splits)

lemma schedule_frame:
  "q_schedule base bd as s = Some (ls, t) \<Longrightarrow> \<forall>a \<in> set as. action_enqueuer a \<noteq> Some p \<Longrightarrow>
     enqs t p = enqs s p"
proof (induction as arbitrary: s ls)
  case (Cons a as)
  then obtain l u ks where "q_exec base bd a s = Some (l, u)" "q_schedule base bd as u = Some (ks, t)"
    by (auto split: option.splits)
  with Cons.IH [of u ks] Cons.prems(2) show ?case by (simp add: exec_frame)
qed simp

lemma end_of_frame:
  "\<not> Option.is_none (q_schedule base bd as s) \<Longrightarrow> \<forall>a \<in> set as. action_enqueuer a \<noteq> Some p \<Longrightarrow>
     enqs (end_of base bd as s) p = enqs s p"
  by (auto simp: Option.is_none_def end_of_def intro: schedule_frame)

section \<open>The abstract queue\<close>

text \<open>
  The list of the elements in the order of their swaps, and the set of those whose enqueue is
  not finished. Only the first element can be observed, and only once its enqueue is finished.
\<close>

inductive spec_step :: "addr \<Rightarrow> addr list \<times> addr set \<Rightarrow> qlabel \<Rightarrow> addr list \<times> addr set \<Rightarrow> bool"
  for bd :: addr where
  Spec_Tau: "spec_step bd (xs, P) Tau (xs, P)"
| Spec_Swapped: "r \<noteq> 0 \<Longrightarrow> r \<notin> set xs \<Longrightarrow> spec_step bd (xs, P) (Swapped p r) (xs @ [r], insert r P)"
| Spec_Enqueued: "r \<in> set xs \<Longrightarrow> r \<in> P \<Longrightarrow> spec_step bd (xs, P) (Enqueued p r) (xs, P - {r})"
| Spec_Empty: "xs = [] \<or> hd xs \<in> P \<Longrightarrow> spec_step bd (xs, P) (Is_Empty True) (xs, P)"
| Spec_Nonempty: "hd xs \<notin> P \<Longrightarrow> xs \<noteq> [] \<Longrightarrow> spec_step bd (xs, P) (Is_Empty False) (xs, P)"
| Spec_Peek_Null: "spec_step bd (xs, P) Peek_Null (xs, P)"
| Spec_Peeked: "x \<notin> P \<Longrightarrow> spec_step bd (x # xs, P) (Peeked (abs_of bd x)) (x # xs, P)"
| Spec_Removed: "x \<notin> P \<Longrightarrow> xs = [] \<or> hd xs \<notin> P \<Longrightarrow> spec_step bd (x # xs, P) (Removed x) (xs, P)"
| Spec_Dequeued: "cell bd e \<notin> set xs \<Longrightarrow> spec_step bd (xs, P) (Dequeued e) (xs, P)"

inductive_cases spec_stepE: "spec_step bd a l c"

inductive_simps spec_empty_iff: "spec_step bd (xs, P) (Is_Empty e) c"

inductive spec_run :: "addr \<Rightarrow> addr list \<times> addr set \<Rightarrow> qlabel list \<Rightarrow> addr list \<times> addr set \<Rightarrow> bool"
  for bd :: addr where
  Spec_Nil: "spec_run bd a [] a"
| Spec_Snoc: "spec_run bd a ls c \<Longrightarrow> spec_step bd c l d \<Longrightarrow> spec_run bd a (ls @ [l]) d"

end
