(* ===== verification/OPA_Store_Buffers.thy ===== *)
theory OPA_Store_Buffers
  imports OPA_Queue_Threads
begin

text \<open>
  The queue of \<open>src/opa_queue.h\<close> on a machine with store buffers. A store goes to the buffer of its
  thread and reaches the memory later, in an order that keeps only the stores to one cell in
  program order; a load sees the thread's own buffered stores. What a read-modify-write and the
  write barrier of the enqueue do to the buffer depends on the port (\<open>OPA_Barriers\<close>), and is the
  parameter of the machine. Loads are not reordered. The program counters, the labels and the order
  of the accesses are those of \<open>OPA_Queue_Threads\<close>.
\<close>

section \<open>Buffers\<close>

datatype loc =
    L_Head
  | L_Tail
  | L_Shadow
  | L_Next addr

type_synonym store_buffer = "(loc \<times> addr) list"

text \<open>The memory as it is once a buffer has been drained, the oldest store first.\<close>

fun flush :: "store_buffer \<Rightarrow> (loc \<Rightarrow> addr) \<Rightarrow> loc \<Rightarrow> addr" where
  "flush [] m = m"
| "flush ((x, v) # buf) m = flush buf (m(x := v))"

definition cells :: "store_buffer \<Rightarrow> loc set" where
  "cells buf = fst ` set buf"

text \<open>The store at position \<open>i\<close> may leave the buffer when no earlier one is to the same cell.\<close>

definition may_drain :: "nat \<Rightarrow> store_buffer \<Rightarrow> bool" where
  "may_drain i buf \<longleftrightarrow> i < length buf \<and> fst (buf ! i) \<notin> cells (take i buf)"

definition drop_nth :: "nat \<Rightarrow> store_buffer \<Rightarrow> store_buffer" where
  "drop_nth i buf = take i buf @ drop (Suc i) buf"

definition commit :: "loc \<times> addr \<Rightarrow> (loc \<Rightarrow> addr) \<Rightarrow> loc \<Rightarrow> addr" where
  "commit w m = m(fst w := snd w)"

lemma cells_simps [simp]:
  "cells [] = {}" "cells (w # buf) = insert (fst w) (cells buf)" "cells (xs @ ys) = cells xs \<union> cells ys"
  by (auto simp: cells_def)

lemma flush_append: "flush (xs @ ys) m = flush ys (flush xs m)"
  by (induction xs arbitrary: m) auto

lemma flush_snoc [simp]: "flush (buf @ [(x, v)]) m = (flush buf m)(x := v)"
  by (simp add: flush_append)

lemma flush_other: "x \<notin> cells buf \<Longrightarrow> flush buf m x = m x"
  by (induction buf arbitrary: m) auto

lemma flush_upd_other: "y \<noteq> x \<Longrightarrow> flush buf (m(x := v)) y = flush buf m y"
proof (induction buf arbitrary: m)
  case (Cons w buf)
  obtain z u where w: "w = (z, u)" by (cases w)
  show ?case
  proof (cases "z = x")
    case False
    then have "m(x := v, z := u) = m(z := u, x := v)" by (rule fun_upd_twist [OF not_sym])
    then show ?thesis unfolding w flush.simps using Cons.IH [OF Cons.prems] by metis
  qed (simp add: w fun_upd_upd del: fun_upd_apply)
qed simp

lemma flush_upd_same: "x \<notin> cells buf \<Longrightarrow> flush buf (m(x := v)) = (flush buf m)(x := v)"
  by (rule ext) (auto simp: flush_other flush_upd_other)

text \<open>Draining a store does not change what its own thread sees.\<close>

lemma flush_drain:
  assumes "may_drain i buf"
  shows "flush (drop_nth i buf) (commit (buf ! i) m) = flush buf m"
proof -
  let ?w = "buf ! i"
  obtain x v where w: "?w = (x, v)" by (cases ?w)
  from assms have "i < length buf" and x: "x \<notin> cells (take i buf)"
    by (simp_all add: may_drain_def w)
  then have "buf = take i buf @ (x, v) # drop (Suc i) buf" by (metis id_take_nth_drop w)
  then have "flush buf m = flush (drop (Suc i) buf) ((flush (take i buf) m)(x := v))"
    by (metis flush_append flush.simps(2))
  also have "\<dots> = flush (drop_nth i buf) (commit ?w m)"
    using flush_upd_same [OF x] by (simp add: drop_nth_def flush_append commit_def w)
  finally show ?thesis by simp
qed

lemma cells_drop_nth: "cells (drop_nth i buf) \<subseteq> cells buf"
  by (auto simp: drop_nth_def cells_def dest: in_set_takeD in_set_dropD)

lemma set_drop_nth: "set (drop_nth i buf) \<subseteq> set buf"
  by (auto simp: drop_nth_def dest: in_set_takeD in_set_dropD)

section \<open>The machine\<close>

text \<open>
  \<open>swap_release\<close>, \<open>cas_release\<close>: the swap of the tail in the enqueue, the compare-and-swap of the
  tail in the dequeue, wait until the earlier stores of their thread have reached the memory.
  \<open>wb_orders\<close>: so does what follows \<open>OPA_write_barrier\<close>.
\<close>

record ordering =
  swap_release :: bool
  cas_release :: bool
  wb_orders :: bool

text \<open>
  \<open>w_avail\<close> are the elements of the enqueuing clients, \<open>w_mine\<close> the elements that were dequeued and
  that the dequeuing client has not handed on yet.
\<close>

record wstate =
  w_mem :: "loc \<Rightarrow> addr"
  w_enq :: "nat \<Rightarrow> enq_pc"
  w_ebuf :: "nat \<Rightarrow> store_buffer"
  w_deq :: deq_pc
  w_dbuf :: store_buffer
  w_avail :: "addr set"
  w_mine :: "addr set"

definition rmw_ready :: "bool \<Rightarrow> store_buffer \<Rightarrow> bool" where
  "rmw_ready release buf \<longleftrightarrow> (release \<longrightarrow> buf = []) \<and> L_Tail \<notin> cells buf"

definition barrier_passed :: "ordering \<Rightarrow> store_buffer \<Rightarrow> bool" where
  "barrier_passed ord buf \<longleftrightarrow> (wb_orders ord \<longrightarrow> buf = [])"

definition w_enqueue_call :: "addr \<Rightarrow> nat \<Rightarrow> addr \<Rightarrow> wstate \<Rightarrow> wstate option" where
  "w_enqueue_call b p elt s =
     (let r_elt = cell b elt in
      if w_enq s p = P_Idle \<and> r_elt \<in> w_avail s \<and> r_elt \<noteq> 0
      then Some (s\<lparr>w_enq := (w_enq s)(p := P_Null elt r_elt), w_avail := w_avail s - {r_elt}\<rparr>)
      else None)"

text \<open>A store of the enqueuer \<open>p\<close>, which then goes on at \<open>pc\<close>.\<close>

definition e_store :: "nat \<Rightarrow> loc \<Rightarrow> addr \<Rightarrow> enq_pc \<Rightarrow> wstate \<Rightarrow> wstate" where
  "e_store p x v pc s =
     s\<lparr>w_ebuf := (w_ebuf s)(p := w_ebuf s p @ [(x, v)]), w_enq := (w_enq s)(p := pc)\<rparr>"

definition w_enqueue_step :: "ordering \<Rightarrow> addr \<Rightarrow> nat \<Rightarrow> wstate \<Rightarrow> (qlabel \<times> wstate) option" where
  "w_enqueue_step ord b p s =
     (case w_enq s p of
        P_Idle \<Rightarrow> None
      | P_Null elt r_elt \<Rightarrow>
          Some (Tau, e_store p (L_Next (cell b elt)) OPA_SHM_REL_NULL (P_Swap r_elt) s)
      | P_Swap r_elt \<Rightarrow>
          if barrier_passed ord (w_ebuf s p) \<and> rmw_ready (swap_release ord) (w_ebuf s p) then
            (let r_prev = w_mem s L_Tail in
             Some (Swapped p r_elt,
                   s\<lparr>w_mem := (w_mem s)(L_Tail := r_elt),
                     w_enq := (w_enq s)(p := if r_prev = OPA_SHM_REL_NULL then P_Head r_elt
                                             else P_Link (abs_of b r_prev) r_elt)\<rparr>))
          else None
      | P_Head r_elt \<Rightarrow> Some (Enqueued p r_elt, e_store p L_Head r_elt P_Idle s)
      | P_Link abs_prev r_elt \<Rightarrow>
          Some (Enqueued p r_elt, e_store p (L_Next (cell b abs_prev)) r_elt P_Idle s))"

text \<open>What the dequeuer sees of a cell, and a store of the dequeuer.\<close>

definition d_load :: "wstate \<Rightarrow> loc \<Rightarrow> addr" where
  "d_load s x = flush (w_dbuf s) (w_mem s) x"

definition d_store :: "loc \<Rightarrow> addr \<Rightarrow> deq_pc \<Rightarrow> wstate \<Rightarrow> wstate" where
  "d_store x v pc s = s\<lparr>w_dbuf := w_dbuf s @ [(x, v)], w_deq := pc\<rparr>"

definition w_is_empty_call :: "wstate \<Rightarrow> (qlabel \<times> wstate) option" where
  "w_is_empty_call s =
     (case w_deq s of
        C_Idle _ \<Rightarrow>
          if d_load s L_Shadow = OPA_SHM_REL_NULL then Some (Tau, s\<lparr>w_deq := E_Head\<rparr>)
          else Some (Is_Empty False, s\<lparr>w_deq := C_Idle True\<rparr>)
      | _ \<Rightarrow> None)"

definition w_peek_call :: "wstate \<Rightarrow> (qlabel \<times> wstate) option" where
  "w_peek_call s =
     (case w_deq s of
        C_Idle primed \<Rightarrow>
          if d_load s L_Shadow = OPA_SHM_REL_NULL then Some (Peek_Null, s)
          else Some (Tau, s\<lparr>w_deq := K_Read primed\<rparr>)
      | _ \<Rightarrow> None)"

definition w_dequeue_call :: "wstate \<Rightarrow> (qlabel \<times> wstate) option" where
  "w_dequeue_call s =
     (case w_deq s of
        C_Idle primed \<Rightarrow>
          if primed then Some (Tau, s\<lparr>w_deq := D_Next (d_load s L_Shadow)\<rparr>) else None
      | _ \<Rightarrow> None)"

definition w_is_empty_step :: "wstate \<Rightarrow> (qlabel \<times> wstate) option" where
  "w_is_empty_step s =
     (case w_deq s of
        E_Head \<Rightarrow>
          if d_load s L_Head = OPA_SHM_REL_NULL then Some (Is_Empty True, s\<lparr>w_deq := C_Idle False\<rparr>)
          else Some (Tau, s\<lparr>w_deq := E_Read\<rparr>)
      | E_Read \<Rightarrow> Some (Tau, s\<lparr>w_deq := E_Shadow (d_load s L_Head)\<rparr>)
      | E_Shadow v \<Rightarrow> Some (Tau, d_store L_Shadow v E_Clear s)
      | E_Clear \<Rightarrow> Some (Is_Empty False, d_store L_Head OPA_SHM_REL_NULL (C_Idle True) s)
      | _ \<Rightarrow> None)"

definition w_peek_step :: "addr \<Rightarrow> wstate \<Rightarrow> (qlabel \<times> wstate) option" where
  "w_peek_step b s =
     (case w_deq s of
        K_Read primed \<Rightarrow> Some (Peeked (abs_of b (d_load s L_Shadow)), s\<lparr>w_deq := C_Idle primed\<rparr>)
      | _ \<Rightarrow> None)"

definition w_dequeue_step :: "ordering \<Rightarrow> addr \<Rightarrow> wstate \<Rightarrow> (qlabel \<times> wstate) option" where
  "w_dequeue_step ord b s =
     (case w_deq s of
        D_Next r \<Rightarrow>
          (let e = abs_of b r in
           if d_load s (L_Next (cell b e)) \<noteq> OPA_SHM_REL_NULL then Some (Tau, s\<lparr>w_deq := D_Read r\<rparr>)
           else Some (Tau, s\<lparr>w_deq := D_Null r\<rparr>))
      | D_Read r \<Rightarrow> Some (Tau, s\<lparr>w_deq := D_Shadow r (d_load s (L_Next (cell b (abs_of b r))))\<rparr>)
      | D_Shadow r v \<Rightarrow> Some (Removed r, d_store L_Shadow v (D_Clear r) s)
      | D_Null r \<Rightarrow> Some (Tau, d_store L_Shadow OPA_SHM_REL_NULL (D_Cas r) s)
      | D_Cas r \<Rightarrow>
          if rmw_ready (cas_release ord) (w_dbuf s) then
            (let old_tail = w_mem s L_Tail in
             if old_tail = r
             then Some (Removed r, s\<lparr>w_mem := (w_mem s)(L_Tail := OPA_SHM_REL_NULL), w_deq := D_Clear r\<rparr>)
             else Some (Tau, s\<lparr>w_deq := D_Wait r\<rparr>))
          else None
      | D_Wait r \<Rightarrow>
          if d_load s (L_Next (cell b (abs_of b r))) = OPA_SHM_REL_NULL then Some (Tau, s)
          else Some (Tau, s\<lparr>w_deq := D_WRead r\<rparr>)
      | D_WRead r \<Rightarrow> Some (Tau, s\<lparr>w_deq := D_WShadow r (d_load s (L_Next (cell b (abs_of b r))))\<rparr>)
      | D_WShadow r v \<Rightarrow> Some (Removed r, d_store L_Shadow v (D_Clear r) s)
      | D_Clear r \<Rightarrow>
          (let e = abs_of b r in
           Some (Dequeued e, (d_store (L_Next (cell b e)) OPA_SHM_REL_NULL (C_Idle False) s)
             \<lparr>w_mine := insert (cell b e) (w_mine s)\<rparr>))
      | _ \<Rightarrow> None)"

definition w_dequeuer_step :: "ordering \<Rightarrow> addr \<Rightarrow> wstate \<Rightarrow> (qlabel \<times> wstate) option" where
  "w_dequeuer_step ord b s =
     (case w_is_empty_step s of Some r \<Rightarrow> Some r
      | None \<Rightarrow> (case w_peek_step b s of Some r \<Rightarrow> Some r | None \<Rightarrow> w_dequeue_step ord b s))"

text \<open>The three together, as one case distinction.\<close>

lemma w_dequeuer_step_eq: "w_dequeuer_step ord b s =
     (case w_deq s of
        C_Idle _ \<Rightarrow> None
      | E_Head \<Rightarrow>
          if d_load s L_Head = OPA_SHM_REL_NULL then Some (Is_Empty True, s\<lparr>w_deq := C_Idle False\<rparr>)
          else Some (Tau, s\<lparr>w_deq := E_Read\<rparr>)
      | E_Read \<Rightarrow> Some (Tau, s\<lparr>w_deq := E_Shadow (d_load s L_Head)\<rparr>)
      | E_Shadow v \<Rightarrow> Some (Tau, d_store L_Shadow v E_Clear s)
      | E_Clear \<Rightarrow> Some (Is_Empty False, d_store L_Head OPA_SHM_REL_NULL (C_Idle True) s)
      | K_Read primed \<Rightarrow> Some (Peeked (abs_of b (d_load s L_Shadow)), s\<lparr>w_deq := C_Idle primed\<rparr>)
      | D_Next r \<Rightarrow>
          (let e = abs_of b r in
           if d_load s (L_Next (cell b e)) \<noteq> OPA_SHM_REL_NULL then Some (Tau, s\<lparr>w_deq := D_Read r\<rparr>)
           else Some (Tau, s\<lparr>w_deq := D_Null r\<rparr>))
      | D_Read r \<Rightarrow> Some (Tau, s\<lparr>w_deq := D_Shadow r (d_load s (L_Next (cell b (abs_of b r))))\<rparr>)
      | D_Shadow r v \<Rightarrow> Some (Removed r, d_store L_Shadow v (D_Clear r) s)
      | D_Null r \<Rightarrow> Some (Tau, d_store L_Shadow OPA_SHM_REL_NULL (D_Cas r) s)
      | D_Cas r \<Rightarrow>
          if rmw_ready (cas_release ord) (w_dbuf s) then
            (let old_tail = w_mem s L_Tail in
             if old_tail = r
             then Some (Removed r, s\<lparr>w_mem := (w_mem s)(L_Tail := OPA_SHM_REL_NULL), w_deq := D_Clear r\<rparr>)
             else Some (Tau, s\<lparr>w_deq := D_Wait r\<rparr>))
          else None
      | D_Wait r \<Rightarrow>
          if d_load s (L_Next (cell b (abs_of b r))) = OPA_SHM_REL_NULL then Some (Tau, s)
          else Some (Tau, s\<lparr>w_deq := D_WRead r\<rparr>)
      | D_WRead r \<Rightarrow> Some (Tau, s\<lparr>w_deq := D_WShadow r (d_load s (L_Next (cell b (abs_of b r))))\<rparr>)
      | D_WShadow r v \<Rightarrow> Some (Removed r, d_store L_Shadow v (D_Clear r) s)
      | D_Clear r \<Rightarrow>
          (let e = abs_of b r in
           Some (Dequeued e, (d_store (L_Next (cell b e)) OPA_SHM_REL_NULL (C_Idle False) s)
             \<lparr>w_mine := insert (cell b e) (w_mine s)\<rparr>)))"
  by (simp add: w_dequeuer_step_def w_is_empty_step_def w_peek_step_def w_dequeue_step_def Let_def
      split: deq_pc.split)

text \<open>The hardware drains a store.\<close>

definition e_drain :: "nat \<Rightarrow> nat \<Rightarrow> wstate \<Rightarrow> wstate option" where
  "e_drain p i s =
     (if may_drain i (w_ebuf s p)
      then Some (s\<lparr>w_mem := commit (w_ebuf s p ! i) (w_mem s),
        w_ebuf := (w_ebuf s)(p := drop_nth i (w_ebuf s p))\<rparr>)
      else None)"

definition d_drain :: "nat \<Rightarrow> wstate \<Rightarrow> wstate option" where
  "d_drain i s =
     (if may_drain i (w_dbuf s)
      then Some (s\<lparr>w_mem := commit (w_dbuf s ! i) (w_mem s), w_dbuf := drop_nth i (w_dbuf s)\<rparr>)
      else None)"

text \<open>
  The dequeuing client hands an element on to the enqueuing ones. To do so it has to synchronise
  with them, after which the stores it made before have reached the memory; here that is needed of
  the store to the element's own header.
\<close>

definition hand_on :: "addr \<Rightarrow> wstate \<Rightarrow> wstate option" where
  "hand_on r s =
     (if r \<in> w_mine s \<and> L_Next r \<notin> cells (w_dbuf s)
      then Some (s\<lparr>w_mine := w_mine s - {r}, w_avail := insert r (w_avail s)\<rparr>) else None)"

inductive w_step :: "ordering \<Rightarrow> (nat \<Rightarrow> addr) \<Rightarrow> addr \<Rightarrow> wstate \<Rightarrow> qlabel \<Rightarrow> wstate \<Rightarrow> bool"
  for ord :: ordering and base :: "nat \<Rightarrow> addr" and bd :: addr where
  W_Call_Enqueue: "w_enqueue_call (base p) p elt s = Some s' \<Longrightarrow> w_step ord base bd s Tau s'"
| W_Enqueuer: "w_enqueue_step ord (base p) p s = Some (l, s') \<Longrightarrow> w_step ord base bd s l s'"
| W_Call_Is_Empty: "w_is_empty_call s = Some (l, s') \<Longrightarrow> w_step ord base bd s l s'"
| W_Call_Peek: "w_peek_call s = Some (l, s') \<Longrightarrow> w_step ord base bd s l s'"
| W_Call_Dequeue: "w_dequeue_call s = Some (l, s') \<Longrightarrow> w_step ord base bd s l s'"
| W_Dequeuer: "w_dequeuer_step ord bd s = Some (l, s') \<Longrightarrow> w_step ord base bd s l s'"
| W_Drain_Enqueuer: "e_drain p i s = Some s' \<Longrightarrow> w_step ord base bd s Tau s'"
| W_Drain_Dequeuer: "d_drain i s = Some s' \<Longrightarrow> w_step ord base bd s Tau s'"
| W_Hand_On: "hand_on r s = Some s' \<Longrightarrow> w_step ord base bd s Tau s'"

definition w_init :: "addr set \<Rightarrow> wstate" where
  "w_init elts = \<lparr>w_mem = (\<lambda>_. OPA_SHM_REL_NULL), w_enq = (\<lambda>_. P_Idle), w_ebuf = (\<lambda>_. []),
     w_deq = C_Idle False, w_dbuf = [], w_avail = elts, w_mine = {}\<rparr>"

inductive w_run :: "ordering \<Rightarrow> (nat \<Rightarrow> addr) \<Rightarrow> addr \<Rightarrow> wstate \<Rightarrow> qlabel list \<Rightarrow> wstate \<Rightarrow> bool"
  for ord :: ordering and base :: "nat \<Rightarrow> addr" and bd :: addr where
  W_Nil: "w_run ord base bd s [] s"
| W_Snoc: "w_run ord base bd s ls t \<Longrightarrow> w_step ord base bd t l u \<Longrightarrow> w_run ord base bd s (ls @ [l]) u"

text \<open>What the queue needs of the port.\<close>

definition ordered :: "ordering \<Rightarrow> bool" where
  "ordered ord \<longleftrightarrow> cas_release ord \<and> (swap_release ord \<or> wb_orders ord)"

lemma ordered_cas: "ordered ord \<Longrightarrow> rmw_ready (cas_release ord) buf \<Longrightarrow> buf = []"
  by (simp add: ordered_def rmw_ready_def)

lemma ordered_swap:
  "ordered ord \<Longrightarrow> barrier_passed ord buf \<Longrightarrow> rmw_ready (swap_release ord) buf \<Longrightarrow> buf = []"
  by (auto simp: ordered_def rmw_ready_def barrier_passed_def)

text \<open>No thread is in a call and every store has reached the memory.\<close>

definition settled :: "wstate \<Rightarrow> bool" where
  "settled s \<longleftrightarrow> (\<forall>p. w_enq s p = P_Idle \<and> w_ebuf s p = []) \<and> (\<exists>b. w_deq s = C_Idle b) \<and> w_dbuf s = []"

section \<open>Schedules\<close>

datatype w_action =
    WA_Enqueue nat addr
  | WA_Enqueuer nat
  | WA_Is_Empty
  | WA_Peek
  | WA_Dequeue
  | WA_Dequeuer
  | WA_Drain_Enqueuer nat nat
  | WA_Drain_Dequeuer nat
  | WA_Hand_On addr

fun w_exec :: "ordering \<Rightarrow> (nat \<Rightarrow> addr) \<Rightarrow> addr \<Rightarrow> w_action \<Rightarrow> wstate \<Rightarrow> (qlabel \<times> wstate) option" where
  "w_exec ord base bd (WA_Enqueue p elt) s = map_option (Pair Tau) (w_enqueue_call (base p) p elt s)"
| "w_exec ord base bd (WA_Enqueuer p) s = w_enqueue_step ord (base p) p s"
| "w_exec ord base bd WA_Is_Empty s = w_is_empty_call s"
| "w_exec ord base bd WA_Peek s = w_peek_call s"
| "w_exec ord base bd WA_Dequeue s = w_dequeue_call s"
| "w_exec ord base bd WA_Dequeuer s = w_dequeuer_step ord bd s"
| "w_exec ord base bd (WA_Drain_Enqueuer p i) s = map_option (Pair Tau) (e_drain p i s)"
| "w_exec ord base bd (WA_Drain_Dequeuer i) s = map_option (Pair Tau) (d_drain i s)"
| "w_exec ord base bd (WA_Hand_On r) s = map_option (Pair Tau) (hand_on r s)"

fun w_schedule ::
  "ordering \<Rightarrow> (nat \<Rightarrow> addr) \<Rightarrow> addr \<Rightarrow> w_action list \<Rightarrow> wstate \<Rightarrow> (qlabel list \<times> wstate) option" where
  "w_schedule ord base bd [] s = Some ([], s)"
| "w_schedule ord base bd (a # as) s =
     (case w_exec ord base bd a s of None \<Rightarrow> None
      | Some (l, s') \<Rightarrow> map_option (\<lambda>(ls, t). (l # ls, t)) (w_schedule ord base bd as s'))"

lemma w_exec_step: "w_exec ord base bd a s = Some (l, s') \<Longrightarrow> w_step ord base bd s l s'"
  by (cases a) (auto intro: w_step.intros)

lemma w_run_Cons: "w_step ord base bd s l s' \<Longrightarrow> w_run ord base bd s' ls t \<Longrightarrow> w_run ord base bd s (l # ls) t"
proof (rotate_tac, induction rule: w_run.induct)
  case (W_Nil s')
  then show ?case using W_Snoc [OF w_run.W_Nil, of ord base bd s l s'] by simp
next
  case (W_Snoc s' ls t k u)
  then show ?case using w_run.W_Snoc [of ord base bd s "l # ls" t k u] by simp
qed

lemma w_schedule_run: "w_schedule ord base bd as s = Some (ls, t) \<Longrightarrow> w_run ord base bd s ls t"
  by (induction as arbitrary: s ls)
    (auto split: option.splits intro: W_Nil w_run_Cons w_exec_step)

definition w_labels :: "ordering \<Rightarrow> (nat \<Rightarrow> addr) \<Rightarrow> addr \<Rightarrow> w_action list \<Rightarrow> wstate \<Rightarrow> qlabel list" where
  "w_labels ord base bd as s = fst (the (w_schedule ord base bd as s))"

definition w_end :: "ordering \<Rightarrow> (nat \<Rightarrow> addr) \<Rightarrow> addr \<Rightarrow> w_action list \<Rightarrow> wstate \<Rightarrow> wstate" where
  "w_end ord base bd as s = snd (the (w_schedule ord base bd as s))"

lemma w_schedule_of_run:
  "\<not> Option.is_none (w_schedule ord base bd as s) \<Longrightarrow>
     w_run ord base bd s (w_labels ord base bd as s) (w_end ord base bd as s)"
  by (auto simp: Option.is_none_def w_labels_def w_end_def intro: w_schedule_run)

end
