(* ===== verification/OPA_Queue_Refine.thy ===== *)
theory OPA_Queue_Refine
  imports OPA_Queue_Threads
begin

text \<open>
  The invariant of the concurrent queue and the simulation by the abstract queue: every step of
  the program is a step of the specification on the list of the elements in the order of their
  swaps and the set of the elements whose enqueue has swapped the tail and not yet written the
  link.
\<close>

section \<open>The invariant\<close>

text \<open>The element of an enqueuer between the swap of the tail and its last write.\<close>

fun pend_elt :: "enq_pc \<Rightarrow> addr option" where
  "pend_elt (P_Head r) = Some r"
| "pend_elt (P_Link a r) = Some r"
| "pend_elt _ = None"

definition pend :: "(nat \<Rightarrow> enq_pc) \<Rightarrow> addr set" where
  "pend pp = {r. \<exists>p. pend_elt (pp p) = Some r}"

fun elt_of :: "enq_pc \<Rightarrow> addr option" where
  "elt_of P_Idle = None"
| "elt_of (P_Null e r) = Some r"
| "elt_of (P_Swap r) = Some r"
| "elt_of (P_Head r) = Some r"
| "elt_of (P_Link a r) = Some r"

text \<open>Every element links to the next one, or to null while the enqueue of the next is pending.\<close>

definition chain :: "addr set \<Rightarrow> (addr \<Rightarrow> addr) \<Rightarrow> addr list \<Rightarrow> bool" where
  "chain P nx xs \<longleftrightarrow>
     successively (\<lambda>a b. nx a = (if b \<in> P then 0 else b)) xs \<and> (xs \<noteq> [] \<longrightarrow> nx (last xs) = 0)"

text \<open>Where the first element is found.\<close>

definition front :: "addr set \<Rightarrow> addr list \<Rightarrow> addr \<Rightarrow> addr \<Rightarrow> bool" where
  "front P xs h sh \<longleftrightarrow>
     (if xs = [] \<or> hd xs \<in> P then h = 0 \<and> sh = 0
      else h = hd xs \<and> sh = 0 \<or> h = 0 \<and> sh = hd xs)"

text \<open>
  The head and the shadow head as they would be if the dequeuer's pending copy of the one to the
  other had been done at once.
\<close>

definition eff_head :: "qstate \<Rightarrow> addr" where
  "eff_head s = (if deq s = E_Clear then 0 else q_head s)"

definition eff_shadow :: "qstate \<Rightarrow> addr" where
  "eff_shadow s =
     (case deq s of D_Cas r \<Rightarrow> r | D_Wait r \<Rightarrow> r | D_WRead r \<Rightarrow> r | D_WShadow r _ \<Rightarrow> r
      | _ \<Rightarrow> q_shadow s)"

definition deq_ok :: "qstate \<Rightarrow> bool" where
  "deq_ok s =
     (case deq s of
        C_Idle primed \<Rightarrow> primed \<longrightarrow> q_shadow s \<noteq> 0
      | E_Head \<Rightarrow> q_shadow s = 0
      | E_Read \<Rightarrow> q_shadow s = 0 \<and> q_head s \<noteq> 0
      | E_Shadow v \<Rightarrow> q_shadow s = 0 \<and> q_head s = v \<and> v \<noteq> 0
      | E_Clear \<Rightarrow> q_head s = q_shadow s \<and> q_shadow s \<noteq> 0
      | K_Read _ \<Rightarrow> q_shadow s \<noteq> 0
      | D_Next r \<Rightarrow> q_shadow s = r \<and> r \<noteq> 0
      | D_Read r \<Rightarrow> q_shadow s = r \<and> r \<noteq> 0 \<and> q_next s r \<noteq> 0
      | D_Shadow r v \<Rightarrow> q_shadow s = r \<and> r \<noteq> 0 \<and> q_next s r = v \<and> v \<noteq> 0
      | D_Null r \<Rightarrow> q_shadow s = r \<and> r \<noteq> 0
      | D_Cas r \<Rightarrow> q_shadow s = 0 \<and> r \<noteq> 0
      | D_Wait r \<Rightarrow> q_shadow s = 0 \<and> r \<noteq> 0 \<and> q_tail s \<noteq> r
      | D_WRead r \<Rightarrow> q_shadow s = 0 \<and> r \<noteq> 0 \<and> q_next s r \<noteq> 0
      | D_WShadow r v \<Rightarrow> q_shadow s = 0 \<and> r \<noteq> 0 \<and> q_next s r = v \<and> v \<noteq> 0
      | D_Clear r \<Rightarrow> r \<noteq> 0)"

text \<open>The element the dequeuer has removed and not yet returned.\<close>

definition held :: "deq_pc \<Rightarrow> addr set" where
  "held c = (case c of D_Clear r \<Rightarrow> {r} | _ \<Rightarrow> {})"

definition private_elt :: "qstate \<Rightarrow> addr list \<Rightarrow> addr \<Rightarrow> bool" where
  "private_elt s xs r \<longleftrightarrow> r \<noteq> 0 \<and> r \<notin> set xs \<and> r \<notin> avail s \<and> r \<notin> held (deq s)"

definition adjacent :: "addr list \<Rightarrow> addr \<Rightarrow> addr \<Rightarrow> bool" where
  "adjacent xs a b \<longleftrightarrow> (\<exists>us vs. xs = us @ a # b # vs)"

definition enq_ok :: "addr \<Rightarrow> qstate \<Rightarrow> addr list \<Rightarrow> enq_pc \<Rightarrow> bool" where
  "enq_ok b s xs pc =
     (case pc of
        P_Idle \<Rightarrow> True
      | P_Null elt r \<Rightarrow> private_elt s xs r \<and> cell b elt = r
      | P_Swap r \<Rightarrow> private_elt s xs r \<and> q_next s r = 0
      | P_Head r \<Rightarrow> xs \<noteq> [] \<and> hd xs = r
      | P_Link a r \<Rightarrow> adjacent xs (cell b a) r)"

definition owners_distinct :: "(nat \<Rightarrow> enq_pc) \<Rightarrow> bool" where
  "owners_distinct pp \<longleftrightarrow> (\<forall>p q r. elt_of (pp p) = Some r \<longrightarrow> elt_of (pp q) = Some r \<longrightarrow> p = q)"

definition q_inv :: "(nat \<Rightarrow> addr) \<Rightarrow> qstate \<Rightarrow> addr list \<Rightarrow> bool" where
  "q_inv base s xs \<longleftrightarrow>
     distinct xs \<and> 0 \<notin> set xs \<and>
     q_tail s = (if xs = [] then 0 else last xs) \<and>
     chain (pend (enqs s)) (q_next s) xs \<and>
     front (pend (enqs s)) xs (eff_head s) (eff_shadow s) \<and>
     deq_ok s \<and>
     (\<forall>p. enq_ok (base p) s xs (enqs s p)) \<and>
     owners_distinct (enqs s) \<and>
     avail s \<inter> set xs = {} \<and> held (deq s) \<inter> (set xs \<union> avail s) = {}"

section \<open>Pending enqueues\<close>

lemma pendI: "pend_elt (pp p) = Some r \<Longrightarrow> r \<in> pend pp"
  by (auto simp: pend_def)

lemma pend_elt_owned: "pend_elt pc = Some r \<Longrightarrow> elt_of pc = Some r"
  by (cases pc) auto

lemma pend_owned: "r \<in> pend pp \<Longrightarrow> \<exists>p. elt_of (pp p) = Some r"
  by (auto simp: pend_def dest: pend_elt_owned)

lemma pend_same: "pend_elt x = pend_elt (pp p) \<Longrightarrow> pend (pp(p := x)) = pend pp"
  unfolding pend_def by (rule Collect_cong) (metis fun_upd_apply)

lemma pend_new:
  "pend_elt (pp p) = None \<Longrightarrow> pend_elt x = Some r \<Longrightarrow> pend (pp(p := x)) = insert r (pend pp)"
  unfolding pend_def insert_Collect
  by (rule Collect_cong) (metis fun_upd_apply option.distinct(1) option.inject)

lemma pend_finished:
  assumes "owners_distinct pp" and p: "pend_elt (pp p) = Some r"
  shows "pend (pp(p := P_Idle)) = pend pp - {r}"
proof -
  have own: "q = p" if "pend_elt (pp q) = Some r" for q
    using assms(1) pend_elt_owned [OF that] pend_elt_owned [OF p] by (simp add: owners_distinct_def)
  show ?thesis
  proof (rule set_eqI)
    fix z
    have "z \<noteq> r \<Longrightarrow> pend_elt (pp q) = Some z \<Longrightarrow> q \<noteq> p" for q
      using p by (metis option.inject)
    then show "z \<in> pend (pp(p := P_Idle)) \<longleftrightarrow> z \<in> pend pp - {r}"
      unfolding pend_def mem_Collect_eq Diff_iff singleton_iff
      using own by (metis fun_upd_apply option.distinct(1) pend_elt.simps(3))
  qed
qed

lemma owners_distinct_upd:
  assumes "owners_distinct pp"
    and "\<And>r. elt_of x = Some r \<Longrightarrow> elt_of (pp p) = Some r"
  shows "owners_distinct (pp(p := x))"
  using assms unfolding owners_distinct_def by (metis fun_upd_apply)

lemma owners_distinct_new:
  assumes "owners_distinct pp" and "\<And>q. elt_of (pp q) \<noteq> Some r" and "elt_of x = Some r"
  shows "owners_distinct (pp(p := x))"
  using assms unfolding owners_distinct_def by (metis fun_upd_apply option.inject)

section \<open>Chains\<close>

lemma chain_Nil [simp]: "chain P nx []"
  by (simp add: chain_def)

lemma chain_single [simp]: "chain P nx [x] \<longleftrightarrow> nx x = 0"
  by (simp add: chain_def)

lemma chain_Cons2 [simp]:
  "chain P nx (x # y # xs) \<longleftrightarrow> nx x = (if y \<in> P then 0 else y) \<and> chain P nx (y # xs)"
  by (auto simp: chain_def)

lemma chain_tl: "chain P nx (x # xs) \<Longrightarrow> chain P nx xs"
  by (cases xs) simp_all

lemma chain_frame: "z \<notin> set xs \<Longrightarrow> chain P (nx(z := v)) xs \<longleftrightarrow> chain P nx xs"
  by (induction xs rule: induct_list012) auto

lemma chain_pend: "chain P nx xs \<Longrightarrow> (\<And>r. r \<in> set (tl xs) \<Longrightarrow> r \<in> Q \<longleftrightarrow> r \<in> P) \<Longrightarrow> chain Q nx xs"
  by (induction xs rule: induct_list012) (auto split: if_splits)

lemma chain_snoc:
  "chain P nx xs \<Longrightarrow> nx r = 0 \<Longrightarrow> r \<notin> set xs \<Longrightarrow> chain (insert r P) nx (xs @ [r])"
  by (induction xs rule: induct_list012) (auto split: if_splits)

lemma chain_link:
  "chain P nx xs \<Longrightarrow> distinct xs \<Longrightarrow> adjacent xs a r \<Longrightarrow> chain (P - {r}) (nx(a := r)) xs"
proof (induction xs rule: induct_list012)
  case (3 x y zs)
  show ?case
  proof (cases "a = x")
    case True
    with "3.prems" have "r = y"
      by (auto simp: adjacent_def Cons_eq_append_conv)
    from "3.prems"(2) have y: "y \<notin> set zs" "x \<notin> set (y # zs)" by simp_all
    from chain_tl [OF "3.prems"(1)] have "chain (P - {y}) nx (y # zs)"
      by (rule chain_pend) (use y in auto)
    then have "chain (P - {y}) (nx(x := y)) (y # zs)" by (rule iffD2 [OF chain_frame [OF y(2)]])
    with True \<open>r = y\<close> show ?thesis
      by (simp add: fun_upd_same del: fun_upd_apply)
  next
    case False
    with "3.prems"(3) have "adjacent (y # zs) a r"
      by (auto simp: adjacent_def Cons_eq_append_conv)
    moreover from this have "r \<in> set zs"
      by (auto simp: adjacent_def Cons_eq_append_conv)
    ultimately have "chain (P - {r}) (nx(a := r)) (y # zs)" "y \<noteq> r"
      using "3.IH"(2) "3.prems"(1,2) by (auto simp del: fun_upd_apply)
    then show ?thesis
      using "3.prems"(1) False by (simp add: fun_upd_other del: fun_upd_apply)
  qed
qed (auto simp: adjacent_def Cons_eq_append_conv)

lemma adjacent_mem: "adjacent xs a b \<Longrightarrow> a \<in> set xs \<and> b \<in> set xs \<and> b \<in> set (tl xs)"
  by (cases xs) (auto simp: adjacent_def Cons_eq_append_conv)

lemma adjacent_snoc: "adjacent xs a b \<Longrightarrow> adjacent (xs @ [r]) a b"
  unfolding adjacent_def by (metis append_Cons append_assoc)

lemma adjacent_last: "xs \<noteq> [] \<Longrightarrow> adjacent (xs @ [r]) (last xs) r"
  unfolding adjacent_def
  by (metis append.assoc append_Cons append_Nil append_butlast_last_id)

lemma adjacent_tl: "adjacent (x # xs) a b \<Longrightarrow> a \<noteq> x \<Longrightarrow> adjacent xs a b"
  by (auto simp: adjacent_def Cons_eq_append_conv)

lemma adjacent_hd: "adjacent (x # y # xs) x b \<Longrightarrow> distinct (x # y # xs) \<Longrightarrow> b = y"
  by (auto simp: adjacent_def Cons_eq_append_conv)

lemma hd_notin_tl: "distinct xs \<Longrightarrow> xs \<noteq> [] \<Longrightarrow> hd xs \<notin> set (tl xs)"
  by (cases xs) auto

lemma chain_adjacent:
  "chain P nx xs \<Longrightarrow> adjacent xs a r \<Longrightarrow> nx a = (if r \<in> P then 0 else r)"
  unfolding adjacent_def by (auto simp: chain_def successively_append_iff)

section \<open>Reading the invariant\<close>

lemma q_invD:
  assumes "q_inv base s xs"
  shows "distinct xs" "0 \<notin> set xs" "q_tail s = (if xs = [] then 0 else last xs)"
    "chain (pend (enqs s)) (q_next s) xs"
    "front (pend (enqs s)) xs (eff_head s) (eff_shadow s)"
    "deq_ok s" "enq_ok (base p) s xs (enqs s p)" "owners_distinct (enqs s)"
    "avail s \<inter> set xs = {}" "held (deq s) \<inter> (set xs \<union> avail s) = {}"
  using assms by (auto simp: q_inv_def)

lemma front_shadow:
  "front P xs h sh \<Longrightarrow> sh \<noteq> 0 \<Longrightarrow> xs \<noteq> [] \<and> hd xs = sh \<and> sh \<notin> P \<and> h = 0"
  by (auto simp: front_def split: if_splits)

lemma front_head:
  "front P xs h sh \<Longrightarrow> h \<noteq> 0 \<Longrightarrow> xs \<noteq> [] \<and> hd xs = h \<and> h \<notin> P \<and> sh = 0"
  by (auto simp: front_def split: if_splits)

lemma front_none:
  "front P xs 0 0 \<Longrightarrow> 0 \<notin> set xs \<Longrightarrow> xs = [] \<or> hd xs \<in> P"
  by (cases xs) (auto simp: front_def split: if_splits)

lemma front_swap: "front P xs h sh \<Longrightarrow> h = 0 \<or> sh = 0"
  by (auto simp: front_def split: if_splits)

lemma front_move: "front P xs h 0 \<Longrightarrow> h \<noteq> 0 \<Longrightarrow> front P xs 0 h"
  by (auto simp: front_def split: if_splits)

lemma linked_next:
  assumes inv: "q_inv base s (r # ys)" and n: "q_next s r \<noteq> 0"
  shows "ys \<noteq> [] \<and> hd ys = q_next s r \<and> hd ys \<notin> pend (enqs s)"
  using q_invD(4) [OF inv] n by (cases ys) (auto split: if_splits)

section \<open>Steps of the dequeuer\<close>

text \<open>A step that changes the head, the shadow head and the program counter, and no more.\<close>

lemma inv_dequeuer:
  assumes inv: "q_inv base s xs"
    and s': "s' = s\<lparr>q_head := h, q_shadow := sh, deq := d\<rparr>" and "held d = {}"
    and "front (pend (enqs s)) xs (eff_head s') (eff_shadow s')" and "deq_ok s'"
  shows "q_inv base s' xs"
proof -
  have "enq_ok (base p) s' xs (enqs s' p)" for p
    using q_invD(7) [OF inv, of p] assms(3)
    by (auto simp: s' enq_ok_def private_elt_def split: enq_pc.splits)
  with assms show ?thesis by (simp add: q_inv_def)
qed

lemma inv_remove:
  assumes inv: "q_inv base s (r # ys)"
    and s': "s' = s\<lparr>q_tail := t, q_shadow := sh, deq := D_Clear r\<rparr>"
    and t: "t = (if ys = [] then 0 else last ys)"
    and f: "front (pend (enqs s)) ys (q_head s) sh"
    and r: "r \<notin> pend (enqs s)" and n: "ys = [] \<or> hd ys \<notin> pend (enqs s)"
  shows "q_inv base s' ys"
proof -
  have "enq_ok (base p) s' ys (enqs s' p)" for p
  proof (cases "enqs s p")
    case (P_Head z)
    with q_invD(7) [OF inv, of p] have "z = r" by (simp add: enq_ok_def)
    with P_Head r pendI [of "enqs s" p r] show ?thesis by simp
  next
    case (P_Link a z)
    with q_invD(7) [OF inv, of p] have adj: "adjacent (r # ys) (cell (base p) a) z"
      by (simp add: enq_ok_def)
    from P_Link have z: "z \<in> pend (enqs s)" by (intro pendI [of "enqs s" p]) simp
    have "cell (base p) a \<noteq> r"
    proof
      assume "cell (base p) a = r"
      with adj q_invD(1) [OF inv] have "ys \<noteq> [] \<and> z = hd ys"
        by (cases ys) (auto simp: adjacent_def Cons_eq_append_conv)
      with n z show False by blast
    qed
    with adj P_Link show ?thesis by (auto simp: s' enq_ok_def intro: adjacent_tl)
  qed (use q_invD(7) [OF inv, of p] in \<open>auto simp: s' enq_ok_def private_elt_def held_def\<close>)
  moreover have "deq_ok s'" using q_invD(2) [OF inv] by (simp add: s' deq_ok_def)
  moreover have "chain (pend (enqs s)) (q_next s) ys" using q_invD(4) [OF inv] by (rule chain_tl)
  ultimately show ?thesis
    using inv f t by (simp add: q_inv_def s' eff_head_def eff_shadow_def held_def)
qed

lemma inv_return:
  assumes inv: "q_inv base s xs" and d: "deq s = D_Clear r"
  shows "q_inv base (s\<lparr>q_next := (q_next s)(r := 0), deq := C_Idle False,
    avail := insert r (avail s)\<rparr>) xs" (is "q_inv base ?s' xs")
proof -
  from d q_invD(10) [OF inv] have r: "r \<notin> set xs" "r \<notin> avail s" by (auto simp: held_def)
  have "enq_ok (base p) ?s' xs (enqs ?s' p)" for p
    using q_invD(7) [OF inv, of p] d
    by (auto simp: enq_ok_def private_elt_def held_def split: enq_pc.splits)
  moreover have "chain (pend (enqs s)) ((q_next s)(r := 0)) xs"
    using q_invD(4) [OF inv] r(1) by (simp add: chain_frame del: fun_upd_apply)
  ultimately show ?thesis
    using inv d r by (simp add: q_inv_def eff_head_def eff_shadow_def deq_ok_def held_def)
qed

text \<open>Every step of the dequeuer is a step of the specification.\<close>

definition simulated :: "(nat \<Rightarrow> addr) \<Rightarrow> addr \<Rightarrow> addr list \<Rightarrow> qstate \<Rightarrow> qlabel \<Rightarrow> qstate \<Rightarrow> bool" where
  "simulated base bd xs s l s' \<longleftrightarrow>
     (\<exists>ys. q_inv base s' ys \<and> spec_step bd (xs, pend (enqs s)) l (ys, pend (enqs s')))"

lemma simulated_dequeuer:
  assumes "q_inv base s xs"
    and "s' = s\<lparr>q_head := h, q_shadow := sh, deq := d\<rparr>" and "held d = {}"
    and "front (pend (enqs s)) xs (eff_head s') (eff_shadow s')" and "deq_ok s'"
    and "spec_step bd (xs, pend (enqs s)) l (xs, pend (enqs s))"
  shows "simulated base bd xs s l s'"
  using inv_dequeuer [OF assms(1-5)] assms(2,6) by (auto simp: simulated_def)

lemmas dequeuer_facts = front_def eff_head_def eff_shadow_def deq_ok_def held_def

lemma simulated_is_empty_call:
  assumes inv: "q_inv base s xs" and step: "is_empty_call s = Some (l, s')"
  shows "simulated base bd xs s l s'"
proof -
  from step obtain b where d: "deq s = C_Idle b"
    by (auto simp: is_empty_call_def split: deq_pc.splits)
  note f = q_invD(5) [OF inv]
  show ?thesis
  proof (cases "q_shadow s = 0")
    case True
    with step d have "l = Tau" "s' = s\<lparr>deq := E_Head\<rparr>"
      by (auto simp: is_empty_call_def OPA_SHM_REL_NULL_def)
    with True d f show ?thesis
      by (intro simulated_dequeuer [where h = "q_head s" and sh = "q_shadow s" and d = E_Head, OF inv])
        (auto simp: dequeuer_facts intro: spec_step.intros)
  next
    case False
    with step d have "l = Is_Empty False" "s' = s\<lparr>deq := C_Idle True\<rparr>"
      by (auto simp: is_empty_call_def OPA_SHM_REL_NULL_def)
    moreover have "xs \<noteq> [] \<and> hd xs \<notin> pend (enqs s)"
      using front_shadow [OF f] False d by (simp add: eff_shadow_def)
    ultimately show ?thesis using False d f
      by (intro simulated_dequeuer [where h = "q_head s" and sh = "q_shadow s" and d = "C_Idle True", OF inv])
        (auto simp: dequeuer_facts intro: spec_step.intros)
  qed
qed

lemma simulated_peek_call:
  assumes inv: "q_inv base s xs" and step: "peek_call s = Some (l, s')"
  shows "simulated base bd xs s l s'"
proof -
  from step obtain b where d: "deq s = C_Idle b"
    by (auto simp: peek_call_def split: deq_pc.splits)
  note f = q_invD(5) [OF inv]
  show ?thesis
  proof (cases "q_shadow s = 0")
    case True
    with step d have "l = Peek_Null" "s' = s"
      by (auto simp: peek_call_def OPA_SHM_REL_NULL_def)
    with inv show ?thesis by (auto simp: simulated_def intro: spec_step.intros)
  next
    case False
    with step d have "l = Tau" "s' = s\<lparr>deq := K_Read b\<rparr>"
      by (auto simp: peek_call_def OPA_SHM_REL_NULL_def)
    with False d f show ?thesis
      by (intro simulated_dequeuer [where h = "q_head s" and sh = "q_shadow s" and d = "K_Read b", OF inv])
        (auto simp: dequeuer_facts intro: spec_step.intros)
  qed
qed

lemma simulated_dequeue_call:
  assumes inv: "q_inv base s xs" and step: "dequeue_call s = Some (l, s')"
  shows "simulated base bd xs s l s'"
proof -
  from step have d: "deq s = C_Idle True" and l: "l = Tau" and s': "s' = s\<lparr>deq := D_Next (q_shadow s)\<rparr>"
    by (auto simp: dequeue_call_def split: deq_pc.splits if_splits)
  from q_invD(6) [OF inv] d have "q_shadow s \<noteq> 0" by (simp add: deq_ok_def)
  with q_invD(5) [OF inv] d show ?thesis
    by (intro simulated_dequeuer [where h = "q_head s" and sh = "q_shadow s" and d = "D_Next (q_shadow s)", OF inv])
      (auto simp: dequeuer_facts l s' intro: spec_step.intros)
qed

lemma pending_front:
  assumes inv: "q_inv base s xs" and "eff_shadow s = r" "r \<noteq> 0"
  shows "\<exists>ys. xs = r # ys" "r \<notin> pend (enqs s)" "eff_head s = 0"
  using front_shadow [OF q_invD(5) [OF inv]] assms(2,3) by (cases xs; auto)+

lemma last_link:
  assumes inv: "q_inv base s (r # ys)" and "q_tail s \<noteq> r"
  shows "ys \<noteq> []"
  using q_invD(3) [OF inv] assms(2) by (cases ys) auto

text \<open>The two accesses that move the shadow head to the next element.\<close>

lemma simulated_advance:
  assumes inv: "q_inv base s xs" and e: "eff_shadow s = r" "r \<noteq> 0" and h: "q_head s = eff_head s"
    and n: "q_next s r = v" "v \<noteq> 0"
  shows "simulated base bd xs s (Removed r) (s\<lparr>q_shadow := v, deq := D_Clear r\<rparr>)"
proof -
  from pending_front [OF inv e] obtain ys
    where xs: "xs = r # ys" and r: "r \<notin> pend (enqs s)" and eh: "eff_head s = 0" by blast
  from linked_next [OF inv [unfolded xs]] n
  have y: "ys \<noteq> []" "hd ys = v" "v \<notin> pend (enqs s)" by auto
  then have "q_inv base (s\<lparr>q_shadow := v, deq := D_Clear r\<rparr>) ys"
    using q_invD(3) [OF inv] h eh r xs
    by (intro inv_remove [OF inv [unfolded xs], where t = "q_tail s" and sh = v])
      (auto simp: front_def)
  with y r xs show ?thesis by (auto simp: simulated_def intro!: Spec_Removed)
qed

lemma simulated_cas:
  assumes inv: "q_inv base s xs" and d: "deq s = D_Cas r" and t: "q_tail s = r"
  shows "simulated base bd xs s (Removed r) (s\<lparr>q_tail := 0, deq := D_Clear r\<rparr>)"
proof -
  from q_invD(6) [OF inv] d have r0: "r \<noteq> 0" and sh: "q_shadow s = 0" by (auto simp: deq_ok_def)
  have e: "eff_shadow s = r" using d by (simp add: eff_shadow_def)
  from pending_front [OF inv e r0] obtain ys
    where xs: "xs = r # ys" and r: "r \<notin> pend (enqs s)" and eh: "eff_head s = 0" by blast
  have ys: "ys = []"
    using q_invD(1,3) [OF inv] xs t by (cases ys rule: rev_cases) auto
  have "q_inv base (s\<lparr>q_tail := 0, deq := D_Clear r\<rparr>) []"
    using eh d sh r ys
    by (intro inv_remove [OF inv [unfolded xs ys], where t = 0 and sh = 0])
      (auto simp: front_def eff_head_def)
  with r xs ys show ?thesis by (auto simp: simulated_def intro!: Spec_Removed)
qed

lemma simulated_dequeuer_step:
  assumes inv: "q_inv base s xs" and step: "dequeuer_step bd s = Some (l, s')"
  shows "simulated base bd xs s l s'"
proof -
  note f = q_invD(5) [OF inv] and ok = q_invD(6) [OF inv]
  note go = simulated_dequeuer [OF inv, where bd = bd]
  show ?thesis
  proof (cases "deq s")
    case (C_Idle b)
    with step show ?thesis by (simp add: dequeuer_step_eq)
  next
    case E_Head
    show ?thesis
    proof (cases "q_head s = 0")
      case True
      with E_Head ok have h: "eff_head s = 0" "eff_shadow s = 0" "q_shadow s = 0"
        by (simp_all add: eff_head_def eff_shadow_def deq_ok_def)
      with f have "xs = [] \<or> hd xs \<in> pend (enqs s)"
        using front_none q_invD(2) [OF inv] by simp
      then have "spec_step bd (xs, pend (enqs s)) (Is_Empty True) (xs, pend (enqs s))"
        by (rule Spec_Empty)
      moreover have "l = Is_Empty True" "s' = s\<lparr>deq := C_Idle False\<rparr>"
        using True E_Head step by (auto simp: dequeuer_step_eq OPA_SHM_REL_NULL_def)
      ultimately show ?thesis
        using f h True
        by (intro go [where h = "q_head s" and sh = "q_shadow s" and d = "C_Idle False"])
          (simp_all add: eff_head_def eff_shadow_def held_def deq_ok_def)
    next
      case False
      with E_Head step f ok show ?thesis
        by (intro go [where h = "q_head s" and sh = "q_shadow s" and d = E_Read])
          (auto simp: dequeuer_facts dequeuer_step_eq OPA_SHM_REL_NULL_def intro: spec_step.intros)
    qed
  next
    case E_Read
    with step f ok show ?thesis
      by (intro go [where h = "q_head s" and sh = "q_shadow s" and d = "E_Shadow (q_head s)"])
        (auto simp: dequeuer_facts dequeuer_step_eq intro: spec_step.intros)
  next
    case (E_Shadow v)
    with step f ok show ?thesis
      by (intro go [where h = "q_head s" and sh = v and d = E_Clear])
        (auto simp: dequeuer_facts dequeuer_step_eq intro: spec_step.intros split: if_splits)
  next
    case E_Clear
    with f ok have "xs \<noteq> [] \<and> hd xs \<notin> pend (enqs s)"
      using front_shadow [OF f] by (auto simp: eff_shadow_def deq_ok_def)
    with E_Clear step f ok show ?thesis
      by (intro go [where h = 0 and sh = "q_shadow s" and d = "C_Idle True"])
        (auto simp: dequeuer_facts dequeuer_step_eq OPA_SHM_REL_NULL_def intro: spec_step.intros)
  next
    case (K_Read b)
    with f ok have "xs \<noteq> [] \<and> hd xs = q_shadow s \<and> hd xs \<notin> pend (enqs s)"
      using front_shadow [OF f] by (auto simp: eff_shadow_def deq_ok_def)
    then have "spec_step bd (xs, pend (enqs s)) (Peeked (abs_of bd (q_shadow s))) (xs, pend (enqs s))"
      by (cases xs) (auto intro: spec_step.intros)
    with K_Read step f ok show ?thesis
      by (intro go [where h = "q_head s" and sh = "q_shadow s" and d = "C_Idle b"])
        (auto simp: dequeuer_facts dequeuer_step_eq)
  next
    case (D_Next r)
    with step f ok show ?thesis
      by (intro go [where h = "q_head s" and sh = "q_shadow s" and
            d = "if q_next s r \<noteq> 0 then D_Read r else D_Null r"])
        (auto simp: dequeuer_facts dequeuer_step_eq OPA_SHM_REL_NULL_def Let_def
          intro: spec_step.intros split: if_splits)
  next
    case (D_Read r)
    with step f ok show ?thesis
      by (intro go [where h = "q_head s" and sh = "q_shadow s" and d = "D_Shadow r (q_next s r)"])
        (auto simp: dequeuer_facts dequeuer_step_eq intro: spec_step.intros)
  next
    case (D_Shadow r v)
    with ok step simulated_advance [OF inv, of r v] show ?thesis
      by (auto simp: dequeuer_step_eq deq_ok_def eff_shadow_def eff_head_def)
  next
    case (D_Null r)
    with step f ok show ?thesis
      by (intro go [where h = "q_head s" and sh = 0 and d = "D_Cas r"])
        (auto simp: dequeuer_facts dequeuer_step_eq OPA_SHM_REL_NULL_def intro: spec_step.intros)
  next
    case (D_Cas r)
    show ?thesis
    proof (cases "q_tail s = r")
      case True
      with D_Cas step simulated_cas [OF inv D_Cas True] show ?thesis
        by (auto simp: dequeuer_step_eq OPA_SHM_REL_NULL_def)
    next
      case False
      with D_Cas step f ok show ?thesis
        by (intro go [where h = "q_head s" and sh = "q_shadow s" and d = "D_Wait r"])
          (auto simp: dequeuer_facts dequeuer_step_eq intro: spec_step.intros)
    qed
  next
    case (D_Wait r)
    with step f ok show ?thesis
      by (intro go [where h = "q_head s" and sh = "q_shadow s" and
            d = "if q_next s r \<noteq> 0 then D_WRead r else D_Wait r"])
        (auto simp: dequeuer_facts dequeuer_step_eq OPA_SHM_REL_NULL_def
          intro: spec_step.intros split: if_splits)
  next
    case (D_WRead r)
    with step f ok show ?thesis
      by (intro go [where h = "q_head s" and sh = "q_shadow s" and d = "D_WShadow r (q_next s r)"])
        (auto simp: dequeuer_facts dequeuer_step_eq intro: spec_step.intros)
  next
    case (D_WShadow r v)
    with ok step simulated_advance [OF inv, of r v] show ?thesis
      by (auto simp: dequeuer_step_eq deq_ok_def eff_shadow_def eff_head_def)
  next
    case (D_Clear r)
    with step have "l = Dequeued (abs_of bd r)"
      "s' = s\<lparr>q_next := (q_next s)(r := 0), deq := C_Idle False, avail := insert r (avail s)\<rparr>"
      by (auto simp: dequeuer_step_eq OPA_SHM_REL_NULL_def Let_def)
    moreover have "r \<notin> set xs" using q_invD(10) [OF inv] D_Clear by (simp add: held_def)
    ultimately show ?thesis
      using inv_return [OF inv D_Clear] by (auto simp: simulated_def intro!: Spec_Dequeued)
  qed
qed

section \<open>Steps of an enqueuer\<close>

text \<open>The elements of two enqueuers differ, and differ from the pending ones of others.\<close>

lemma owner_unique:
  "q_inv base s xs \<Longrightarrow> elt_of (enqs s p) = Some r \<Longrightarrow> q \<noteq> p \<Longrightarrow> elt_of (enqs s q) \<noteq> Some r"
  using q_invD(8) [of base s xs] by (auto simp: owners_distinct_def)

lemma simulated_enqueue_call:
  assumes inv: "q_inv base s xs" and step: "enqueue_call (base p) p elt s = Some s'"
  shows "simulated base bd xs s Tau s'"
proof -
  let ?r = "cell (base p) elt"
  from step have p: "enqs s p = P_Idle" and r: "?r \<in> avail s" "?r \<noteq> 0"
    and s': "s' = s\<lparr>enqs := (enqs s)(p := P_Null elt ?r), avail := avail s - {?r}\<rparr>"
    by (auto simp: enqueue_call_def Let_def split: if_splits)
  have fresh: "elt_of (enqs s q) \<noteq> Some ?r" for q
  proof -
    have "\<not> private_elt s xs ?r" "?r \<notin> set xs"
      using r q_invD(9) [OF inv] by (auto simp: private_elt_def)
    then show ?thesis
      using q_invD(7) [OF inv, of q]
      by (cases "enqs s q") (auto simp: enq_ok_def dest: adjacent_mem hd_in_set)
  qed
  have pend: "pend ((enqs s)(p := P_Null elt ?r)) = pend (enqs s)"
    using p by (intro pend_same) simp
  have "enq_ok (base q) s' xs (enqs s' q)" for q
  proof (cases "q = p")
    case True
    then show ?thesis
      using r q_invD(9,10) [OF inv] by (auto simp: s' enq_ok_def private_elt_def)
  next
    case False
    then show ?thesis
      using q_invD(7) [OF inv, of q]
      by (auto simp: s' enq_ok_def private_elt_def split: enq_pc.splits)
  qed
  moreover have "owners_distinct (enqs s')"
    using owners_distinct_new [OF q_invD(8) [OF inv] fresh, of "P_Null elt ?r" p] by (simp add: s')
  moreover have "deq_ok s'" "eff_head s' = eff_head s" "eff_shadow s' = eff_shadow s"
    using q_invD(6) [OF inv] by (simp_all add: s' deq_ok_def eff_head_def eff_shadow_def cong: deq_pc.case_cong)
  ultimately have "q_inv base s' xs"
    using inv pend by (auto simp: q_inv_def s' simp del: fun_upd_apply)
  then show ?thesis
    using pend by (auto simp: simulated_def s' simp del: fun_upd_apply intro!: Spec_Tau)
qed

text \<open>Clearing the link of an element that nobody else can see.\<close>

lemma simulated_P_Null:
  assumes inv: "q_inv base s xs" and pc: "enqs s p = P_Null elt r"
    and s': "s' = s\<lparr>q_next := (q_next s)(r := 0), enqs := (enqs s)(p := P_Swap r)\<rparr>"
  shows "simulated base bd xs s Tau s'"
proof -
  from q_invD(7) [OF inv, of p] pc have r: "private_elt s xs r" by (simp add: enq_ok_def)
  have pend: "pend ((enqs s)(p := P_Swap r)) = pend (enqs s)"
    using pc by (intro pend_same) simp
  have "enq_ok (base q) s' xs (enqs s' q)" for q
    using q_invD(7) [OF inv, of q] r
    by (auto simp: s' enq_ok_def private_elt_def split: enq_pc.splits)
  moreover have "owners_distinct (enqs s')"
    using owners_distinct_upd [OF q_invD(8) [OF inv], of "P_Swap r" p] pc by (simp add: s')
  moreover have "eff_head s' = eff_head s" "eff_shadow s' = eff_shadow s"
    by (simp_all add: s' eff_head_def eff_shadow_def cong: deq_pc.case_cong)
  moreover have "chain (pend (enqs s)) (q_next s') xs"
    using q_invD(4) [OF inv] r by (simp add: s' private_elt_def chain_frame del: fun_upd_apply)
  moreover have "deq_ok s'"
  proof -
    have "eff_shadow s = z \<Longrightarrow> z \<noteq> 0 \<Longrightarrow> z \<noteq> r" for z
      using pending_front(1) [OF inv, of z] r by (auto simp: private_elt_def)
    then show ?thesis
      using q_invD(6) [OF inv]
      by (cases "deq s") (auto simp: s' deq_ok_def eff_shadow_def)
  qed
  ultimately have "q_inv base s' xs"
    using inv pend by (simp add: q_inv_def s' del: fun_upd_apply)
  then show ?thesis
    using pend by (auto simp: simulated_def s' simp del: fun_upd_apply intro!: Spec_Tau)
qed

text \<open>The swap of the tail puts the element at the end of the list, pending.\<close>

lemma front_snoc:
  "front P xs h sh \<Longrightarrow> r \<notin> set xs \<Longrightarrow> front (insert r P) (xs @ [r]) h sh"
  by (cases xs) (auto simp: front_def split: if_splits)

lemma simulated_P_Swap:
  assumes inv: "q_inv base s xs" and pc: "enqs s p = P_Swap r"
    and s': "s' = s\<lparr>q_tail := r, enqs := (enqs s)(p := if q_tail s = 0 then P_Head r
                else P_Link (abs_of (base p) (q_tail s)) r)\<rparr>" (is "_ = s\<lparr>q_tail := r, enqs := _(p := ?pc)\<rparr>")
  shows "simulated base bd xs s (Swapped p r) s'"
proof -
  from q_invD(7) [OF inv, of p] pc have priv: "private_elt s xs r" and n: "q_next s r = 0"
    by (simp_all add: enq_ok_def)
  then have r: "r \<noteq> 0" "r \<notin> set xs" "r \<notin> avail s" "r \<notin> held (deq s)"
    by (simp_all add: private_elt_def)
  note tail = q_invD(3) [OF inv]
  have tail0: "q_tail s = 0 \<longleftrightarrow> xs = []"
    using tail q_invD(2) [OF inv] by (auto simp: split: if_splits) (metis last_in_set)
  have pend: "pend ((enqs s)(p := ?pc)) = insert r (pend (enqs s))"
    using pc by (intro pend_new) simp_all
  have "enq_ok (base q) s' (xs @ [r]) (enqs s' q)" for q
  proof (cases "q = p")
    case True
    then show ?thesis
      using tail tail0 adjacent_last [of xs r] by (auto simp: s' enq_ok_def)
  next
    case False
    moreover have "elt_of (enqs s q) \<noteq> Some r"
      using owner_unique [OF inv, of p r] pc False by simp
    ultimately show ?thesis
      using q_invD(7) [OF inv, of q]
      by (cases "enqs s q") (auto simp: s' enq_ok_def private_elt_def intro: adjacent_snoc)
  qed
  moreover have "owners_distinct (enqs s')"
    using owners_distinct_upd [OF q_invD(8) [OF inv], of ?pc p] pc by (auto simp: s' split: if_splits)
  moreover have eff: "eff_head s' = eff_head s" "eff_shadow s' = eff_shadow s"
    by (simp_all add: s' eff_head_def eff_shadow_def cong: deq_pc.case_cong)
  moreover have "front (insert r (pend (enqs s))) (xs @ [r]) (eff_head s) (eff_shadow s)"
    using front_snoc [OF q_invD(5) [OF inv] r(2)] .
  moreover have "chain (insert r (pend (enqs s))) (q_next s) (xs @ [r])"
    using chain_snoc [OF q_invD(4) [OF inv] n r(2)] .
  moreover have "deq_ok s'"
  proof -
    have "eff_shadow s = z \<Longrightarrow> z \<noteq> 0 \<Longrightarrow> z \<noteq> r" for z
      using pending_front(1) [OF inv, of z] r(2) by auto
    then show ?thesis
      using q_invD(6) [OF inv] by (cases "deq s") (auto simp: s' deq_ok_def eff_shadow_def)
  qed
  ultimately have "q_inv base s' (xs @ [r])"
    using inv pend r by (simp add: q_inv_def s' del: fun_upd_apply)
  then show ?thesis
    using pend r by (auto simp: simulated_def s' simp del: fun_upd_apply intro!: Spec_Swapped)
qed

text \<open>The last write of an enqueue makes the element reachable.\<close>

lemma simulated_P_Head:
  assumes inv: "q_inv base s xs" and pc: "enqs s p = P_Head r"
    and s': "s' = s\<lparr>q_head := r, enqs := (enqs s)(p := P_Idle)\<rparr>"
  shows "simulated base bd xs s (Enqueued p r) s'"
proof -
  have rp: "r \<in> pend (enqs s)" using pc by (intro pendI [of _ p]) simp
  from q_invD(7) [OF inv, of p] pc obtain ys where xs: "xs = r # ys"
    by (cases xs) (auto simp: enq_ok_def)
  have r: "r \<noteq> 0" "r \<notin> set ys" using q_invD(1,2) [OF inv] xs by auto
  have eff: "eff_head s = 0" "eff_shadow s = 0"
    using q_invD(5) [OF inv] xs rp by (simp_all add: front_def)
  have pend: "pend ((enqs s)(p := P_Idle)) = pend (enqs s) - {r}"
    using pc by (intro pend_finished [OF q_invD(8) [OF inv]]) simp
  have d: "deq s \<noteq> E_Clear" "deq s \<noteq> E_Read" "\<And>v. deq s \<noteq> E_Shadow v"
    using q_invD(6) [OF inv] eff by (auto simp: deq_ok_def eff_head_def eff_shadow_def)
  have "enq_ok (base q) s' xs (enqs s' q)" for q
    using q_invD(7) [OF inv, of q]
    by (auto simp: s' enq_ok_def private_elt_def split: enq_pc.splits)
  moreover have "owners_distinct (enqs s')"
    using owners_distinct_upd [OF q_invD(8) [OF inv], of P_Idle p] by (simp add: s')
  moreover have "eff_head s' = r" "eff_shadow s' = 0"
    using d eff by (simp_all add: s' eff_head_def eff_shadow_def cong: deq_pc.case_cong)
  moreover have "chain (pend (enqs s) - {r}) (q_next s) xs"
    using q_invD(4) [OF inv] by (rule chain_pend) (use xs r in auto)
  moreover have "deq_ok s'"
    using q_invD(6) [OF inv] d by (cases "deq s") (auto simp: s' deq_ok_def)
  ultimately have "q_inv base s' xs"
    using inv pend xs by (simp add: q_inv_def s' front_def del: fun_upd_apply)
  then show ?thesis
    using pend xs rp by (auto simp: simulated_def s' simp del: fun_upd_apply intro!: Spec_Enqueued)
qed

lemma simulated_P_Link:
  assumes inv: "q_inv base s xs" and pc: "enqs s p = P_Link a r"
    and s': "s' = s\<lparr>q_next := (q_next s)(cell (base p) a := r), enqs := (enqs s)(p := P_Idle)\<rparr>"
  shows "simulated base bd xs s (Enqueued p r) s'"
proof -
  let ?c = "cell (base p) a"
  have rp: "r \<in> pend (enqs s)" using pc by (intro pendI [of _ p]) simp
  from q_invD(7) [OF inv, of p] pc have adj: "adjacent xs ?c r" by (simp add: enq_ok_def)
  then have mem: "?c \<in> set xs" "r \<in> set xs" "r \<in> set (tl xs)" using adjacent_mem by auto
  from chain_adjacent [OF q_invD(4) [OF inv] adj] rp have c0: "q_next s ?c = 0" by simp
  have r: "r \<noteq> 0" using mem q_invD(2) [OF inv] by auto
  from mem have "xs \<noteq> []" by auto
  with mem hd_notin_tl [OF q_invD(1) [OF inv]] have hd: "xs \<noteq> []" "hd xs \<noteq> r" by auto
  have pend: "pend ((enqs s)(p := P_Idle)) = pend (enqs s) - {r}"
    using pc by (intro pend_finished [OF q_invD(8) [OF inv]]) simp
  have "enq_ok (base q) s' xs (enqs s' q)" for q
    using q_invD(7) [OF inv, of q] mem
    by (auto simp: s' enq_ok_def private_elt_def split: enq_pc.splits)
  moreover have "owners_distinct (enqs s')"
    using owners_distinct_upd [OF q_invD(8) [OF inv], of P_Idle p] by (simp add: s')
  moreover have "eff_head s' = eff_head s" "eff_shadow s' = eff_shadow s"
    by (simp_all add: s' eff_head_def eff_shadow_def cong: deq_pc.case_cong)
  moreover have "chain (pend (enqs s) - {r}) ((q_next s)(?c := r)) xs"
    by (rule chain_link [OF q_invD(4) [OF inv] q_invD(1) [OF inv] adj])
  moreover have "front (pend (enqs s) - {r}) xs (eff_head s) (eff_shadow s)"
    using q_invD(5) [OF inv] hd by (simp add: front_def)
  moreover have "deq_ok s'"
    using q_invD(6) [OF inv] r c0 by (cases "deq s") (auto simp: s' deq_ok_def)
  ultimately have "q_inv base s' xs"
    using inv pend by (simp add: q_inv_def s' del: fun_upd_apply)
  then show ?thesis
    using pend mem rp by (auto simp: simulated_def s' simp del: fun_upd_apply intro!: Spec_Enqueued)
qed

lemma simulated_enqueue_step:
  assumes inv: "q_inv base s xs" and step: "enqueue_step (base p) p s = Some (l, s')"
  shows "simulated base bd xs s l s'"
proof (cases "enqs s p")
  case P_Idle
  with step show ?thesis by (simp add: enqueue_step_def)
next
  case (P_Null elt r)
  moreover have "cell (base p) elt = r" using q_invD(7) [OF inv, of p] P_Null by (simp add: enq_ok_def)
  ultimately show ?thesis using step simulated_P_Null [OF inv P_Null]
    by (auto simp: enqueue_step_def OPA_SHM_REL_NULL_def)
next
  case (P_Swap r)
  with step simulated_P_Swap [OF inv P_Swap] show ?thesis
    by (auto simp: enqueue_step_def OPA_SHM_REL_NULL_def Let_def)
next
  case (P_Head r)
  with step simulated_P_Head [OF inv P_Head] show ?thesis by (auto simp: enqueue_step_def)
next
  case (P_Link a r)
  with step simulated_P_Link [OF inv P_Link] show ?thesis by (auto simp: enqueue_step_def)
qed

section \<open>The simulation\<close>

lemma simulated_step: "q_inv base s xs \<Longrightarrow> q_step base bd s l s' \<Longrightarrow> simulated base bd xs s l s'"
  by (erule q_step.cases)
    (blast intro: simulated_enqueue_call simulated_enqueue_step simulated_is_empty_call
      simulated_peek_call simulated_dequeue_call simulated_dequeuer_step)+

lemma q_inv_init: "q_inv base (q_init elts) []"
  by (auto simp: q_inv_def q_init_def OPA_SHM_REL_NULL_def front_def eff_head_def eff_shadow_def
      deq_ok_def held_def enq_ok_def owners_distinct_def)

lemma pend_init: "pend (enqs (q_init elts)) = {}"
  by (simp add: pend_def q_init_def)

lemma q_run_simulated:
  "q_run base bd s ls t \<Longrightarrow> q_inv base s xs \<Longrightarrow>
     \<exists>ys. q_inv base t ys \<and> spec_run bd (xs, pend (enqs s)) ls (ys, pend (enqs t))"
proof (induction rule: q_run.induct)
  case (Run_Nil s)
  then show ?case by (auto intro: Spec_Nil)
next
  case (Run_Snoc s ls t l u)
  then obtain ys where inv: "q_inv base t ys"
    and run: "spec_run bd (xs, pend (enqs s)) ls (ys, pend (enqs t))"
    by blast
  from simulated_step [OF inv Run_Snoc.hyps(2)] run show ?case
    unfolding simulated_def by (blast intro: Spec_Snoc)
qed

end
