(* ===== verification/OPA_Queue_Order.thy ===== *)
theory OPA_Queue_Order
  imports OPA_Queue_Refine "HOL-Library.Sublist"
begin

text \<open>
  What the simulation gives the users of the concurrent queue: the elements come out in the order
  of the swaps of the tail, the answers of \<open>OPA_Queue_is_empty\<close> mean what they say as long as no
  enqueue is half done, an enqueue is wait-free, and the dequeuer waits only for an enqueuer that
  can release it with its next access.
\<close>

section \<open>Histories\<close>

fun swap_of :: "qlabel \<Rightarrow> addr list" where
  "swap_of (Swapped p r) = [r]"
| "swap_of _ = []"

fun removal_of :: "qlabel \<Rightarrow> addr list" where
  "removal_of (Removed r) = [r]"
| "removal_of _ = []"

fun return_of :: "qlabel \<Rightarrow> addr list" where
  "return_of (Dequeued e) = [e]"
| "return_of _ = []"

definition swapped :: "qlabel list \<Rightarrow> addr list" where
  "swapped ls = concat (map swap_of ls)"

definition removed :: "qlabel list \<Rightarrow> addr list" where
  "removed ls = concat (map removal_of ls)"

definition dequeued_elts :: "qlabel list \<Rightarrow> addr list" where
  "dequeued_elts ls = concat (map return_of ls)"

lemmas history_defs = swapped_def removed_def dequeued_elts_def

lemma spec_run_history: "spec_run bd a ls c \<Longrightarrow> fst a @ swapped ls = removed ls @ fst c"
proof (induction rule: spec_run.induct)
  case (Spec_Snoc a ls c l d)
  from Spec_Snoc.hyps(2) Spec_Snoc.IH show ?case
    by (elim spec_stepE) (auto simp: history_defs simp flip: append_assoc)
qed (simp add: history_defs)

definition held_list :: "deq_pc \<Rightarrow> addr list" where
  "held_list c = (case c of D_Clear r \<Rightarrow> [r] | _ \<Rightarrow> [])"

lemma step_history:
  "q_step base bd s l s' \<Longrightarrow>
     held_list (deq s) @ removal_of l = map (cell bd) (return_of l) @ held_list (deq s')"
  by (erule q_step.cases)
    (auto simp: enqueue_call_def enqueue_step_def is_empty_call_def peek_call_def dequeue_call_def
      dequeuer_step_eq held_list_def Let_def split: enq_pc.splits deq_pc.splits if_splits)

lemma run_history:
  "q_run base bd s ls t \<Longrightarrow> held_list (deq s) = [] \<Longrightarrow>
     removed ls = map (cell bd) (dequeued_elts ls) @ held_list (deq t)"
proof (induction rule: q_run.induct)
  case (Run_Snoc s ls t l u)
  from step_history [OF Run_Snoc.hyps(2)] Run_Snoc.IH Run_Snoc.prems show ?case
    by (simp add: history_defs)
qed (simp add: history_defs)

text \<open>The content of the queue after a run: what was swapped in and not removed.\<close>

lemma reachable_content:
  assumes "q_run base bd (q_init elts) ls t"
  shows "\<exists>xs. q_inv base t xs \<and> swapped ls = removed ls @ xs"
  using q_run_simulated [OF assms q_inv_init] spec_run_history by fastforce

text \<open>The elements returned are the first ones that were swapped in.\<close>

lemma run_fifo:
  assumes "q_run base bd (q_init elts) ls t"
  shows "prefix (map (cell bd) (dequeued_elts ls)) (swapped ls)"
proof -
  obtain xs where "swapped ls = removed ls @ xs"
    using reachable_content [OF assms] by blast
  with run_history [OF assms] show ?thesis
    by (simp add: held_list_def q_init_def)
qed

section \<open>Progress\<close>

text \<open>The accesses an enqueuer has left, and those of the dequeuer when it does not have to wait.\<close>

fun enq_rank :: "enq_pc \<Rightarrow> nat" where
  "enq_rank P_Idle = 0"
| "enq_rank (P_Null e r) = 3"
| "enq_rank (P_Swap r) = 2"
| "enq_rank (P_Head r) = 1"
| "enq_rank (P_Link a r) = 1"

fun deq_rank :: "deq_pc \<Rightarrow> nat" where
  "deq_rank (C_Idle b) = 0"
| "deq_rank E_Head = 4"
| "deq_rank E_Read = 3"
| "deq_rank (E_Shadow v) = 2"
| "deq_rank E_Clear = 1"
| "deq_rank (K_Read b) = 1"
| "deq_rank (D_Next r) = 7"
| "deq_rank (D_Read r) = 3"
| "deq_rank (D_Shadow r v) = 2"
| "deq_rank (D_Null r) = 6"
| "deq_rank (D_Cas r) = 5"
| "deq_rank (D_Wait r) = 4"
| "deq_rank (D_WRead r) = 3"
| "deq_rank (D_WShadow r v) = 2"
| "deq_rank (D_Clear r) = 1"

lemma enqueue_step_rank:
  "enqueue_step b p s = Some (l, s') \<Longrightarrow> enq_rank (enqs s p) = Suc (enq_rank (enqs s' p))"
  by (auto simp: enqueue_step_def Let_def split: enq_pc.splits)

lemma enqueue_step_enabled: "enqs s p \<noteq> P_Idle \<Longrightarrow> \<exists>l s'. enqueue_step b p s = Some (l, s')"
  by (auto simp: enqueue_step_def Let_def split: enq_pc.splits)

lemma enqueue_step_others:
  "enqueue_step b p s = Some (l, s') \<Longrightarrow> q \<noteq> p \<Longrightarrow> enqs s' q = enqs s q"
  by (auto simp: enqueue_step_def Let_def split: enq_pc.splits)

lemma dequeuer_step_enabled: "deq_rank (deq s) \<noteq> 0 \<Longrightarrow> \<exists>l s'. dequeuer_step b s = Some (l, s')"
  by (auto simp: dequeuer_step_eq Let_def split: deq_pc.splits)

lemma dequeuer_step_rank:
  "dequeuer_step b s = Some (l, s') \<Longrightarrow>
     deq_rank (deq s') < deq_rank (deq s) \<or> (\<exists>r. deq s = D_Wait r \<and> q_next s r = 0 \<and> s' = s)"
  by (auto simp: dequeuer_step_eq Let_def OPA_SHM_REL_NULL_def split: deq_pc.splits if_splits)

section \<open>An enqueue among the steps of the others\<close>

text \<open>
  The element \<open>r\<close> of the list \<open>xs\<close> is where the dequeuer looks for it: it is first and the head, the
  shadow head or the dequeuer itself has it, or the element before links to it; and behind it come
  the others, or the tail is \<open>r\<close> and its link is null.
\<close>

definition in_place :: "qstate \<Rightarrow> addr list \<Rightarrow> addr \<Rightarrow> bool" where
  "in_place s xs r \<longleftrightarrow> (\<exists>us vs. xs = us @ r # vs \<and>
     (if us = [] then r \<in> {eff_head s, eff_shadow s} else q_next s (last us) = r) \<and>
     (if vs = [] then q_tail s = r \<and> q_next s r = 0
      else q_next s r = (if hd vs \<in> pend (enqs s) then 0 else hd vs)))"

lemma placed:
  assumes "q_inv base s xs" and "r \<in> set xs" and "r \<notin> pend (enqs s)"
  shows "in_place s xs r"
proof -
  from assms(2) obtain us vs where xs: "xs = us @ r # vs" by (auto simp: in_set_conv_decomp)
  have ch: "chain (pend (enqs s)) (q_next s) (us @ r # vs)" using q_invD(4) [OF assms(1)] xs by simp
  have "r \<in> {eff_head s, eff_shadow s}" if "us = []"
    using q_invD(5) [OF assms(1)] assms(3) that by (auto simp: xs front_def)
  moreover have "q_next s (last us) = r" if "us \<noteq> []"
    using chain_adjacent [OF ch, of "last us" r] that assms(3)
    by (metis adjacent_def append_butlast_last_id append_Cons append_Nil append_assoc)
  moreover have "q_tail s = r \<and> q_next s r = 0" if "vs = []"
    using q_invD(3) [OF assms(1)] ch that by (simp add: xs chain_def)
  moreover have "q_next s r = (if hd vs \<in> pend (enqs s) then 0 else hd vs)" if "vs \<noteq> []"
  proof (rule chain_adjacent [OF ch])
    show "adjacent (us @ r # vs) r (hd vs)" using that unfolding adjacent_def neq_Nil_conv by force
  qed
  ultimately show ?thesis
    unfolding in_place_def by (intro exI [of _ us] exI [of _ vs]) (simp add: xs)
qed

text \<open>Once enqueued, an element is on the list and not pending until it is removed.\<close>

lemma spec_run_enqueued:
  "spec_run bd a ls c \<Longrightarrow> Enqueued p r \<in> set ls \<Longrightarrow> r \<in> set (removed ls) \<or> r \<in> set (fst c) \<and> r \<notin> snd c"
proof (induction rule: spec_run.induct)
  case (Spec_Snoc a ls c l d)
  from Spec_Snoc.hyps(2) Spec_Snoc.IH Spec_Snoc.prems show ?case
    by (elim spec_stepE) (auto simp: history_defs)
qed simp

text \<open>What an enqueuer has left to report, and the labels that are its own.\<close>

fun to_report :: "nat \<Rightarrow> enq_pc \<Rightarrow> qlabel list" where
  "to_report p P_Idle = []"
| "to_report p (P_Null e r) = [Swapped p r, Enqueued p r]"
| "to_report p (P_Swap r) = [Swapped p r, Enqueued p r]"
| "to_report p (P_Head r) = [Enqueued p r]"
| "to_report p (P_Link a r) = [Enqueued p r]"

fun by_enqueuer :: "nat \<Rightarrow> qlabel \<Rightarrow> bool" where
  "by_enqueuer p (Swapped q r) = (q = p)"
| "by_enqueuer p (Enqueued q r) = (q = p)"
| "by_enqueuer p _ = False"

definition calls_enqueue :: "nat \<Rightarrow> q_action \<Rightarrow> bool" where
  "calls_enqueue p a \<longleftrightarrow> (case a of Start_Enqueue q e \<Rightarrow> q = p | _ \<Rightarrow> False)"

lemma exec_enqueuer:
  "q_exec base bd a s = Some (l, s') \<Longrightarrow> \<not> calls_enqueue p a \<Longrightarrow>
     to_report p (enqs s p) = filter (by_enqueuer p) [l] @ to_report p (enqs s' p) \<and>
     enq_rank (enqs s p) = (if a = Go_Enqueuer p then 1 else 0) + enq_rank (enqs s' p)"
  by (cases a)
    (auto simp: calls_enqueue_def enqueue_call_def enqueue_step_def is_empty_call_def peek_call_def
      dequeue_call_def dequeuer_step_eq Let_def split: enq_pc.splits deq_pc.splits if_splits)

lemma schedule_enqueuer:
  "q_schedule base bd as s = Some (ls, t) \<Longrightarrow> \<forall>a \<in> set as. \<not> calls_enqueue p a \<Longrightarrow>
     to_report p (enqs s p) = filter (by_enqueuer p) ls @ to_report p (enqs t p) \<and>
     enq_rank (enqs s p) = count_list as (Go_Enqueuer p) + enq_rank (enqs t p)"
proof (induction as arbitrary: s ls)
  case (Cons a as)
  then obtain l u ks where step: "q_exec base bd a s = Some (l, u)"
    and rest: "q_schedule base bd as u = Some (ks, t)" and ls: "ls = l # ks"
    by (auto split: option.splits)
  with Cons.IH [OF rest] exec_enqueuer [OF step, of p] Cons.prems(2) show ?case by auto
qed simp

text \<open>Whom the dequeuer waits for.\<close>

lemma wait_pending:
  assumes inv: "q_inv base s xs" and d: "deq s = D_Wait r" and n: "q_next s r = 0"
  shows "\<exists>p a z. enqs s p = P_Link a z \<and> cell (base p) a = r \<and> z \<noteq> 0"
proof -
  from q_invD(6) [OF inv] d have r0: "r \<noteq> 0" and t: "q_tail s \<noteq> r" by (auto simp: deq_ok_def)
  have e: "eff_shadow s = r" using d by (simp add: eff_shadow_def)
  from pending_front(1) [OF inv e r0] obtain ys where xs: "xs = r # ys" by blast
  from last_link [OF inv [unfolded xs] t] obtain z zs where ys: "ys = z # zs" by (cases ys) auto
  have z0: "z \<noteq> 0" using q_invD(2) [OF inv] xs ys by auto
  with q_invD(4) [OF inv] n xs ys have "z \<in> pend (enqs s)" by (auto split: if_splits)
  then obtain p where p: "pend_elt (enqs s p) = Some z" by (auto simp: pend_def)
  have "enqs s p \<noteq> P_Head z"
    using q_invD(1) [OF inv] q_invD(7) [OF inv, of p] xs ys by (auto simp: enq_ok_def)
  with p obtain a where pc: "enqs s p = P_Link a z" by (cases "enqs s p") auto
  with q_invD(7) [OF inv, of p] have adj: "adjacent xs (cell (base p) a) z" by (simp add: enq_ok_def)
  have "cell (base p) a = r"
  proof (rule ccontr)
    assume "cell (base p) a \<noteq> r"
    with adj xs have "adjacent ys (cell (base p) a) z" by (simp add: adjacent_tl)
    then have "z \<in> set zs" using adjacent_mem [of ys] ys by auto
    with q_invD(1) [OF inv] xs ys show False by simp
  qed
  with pc z0 show ?thesis by blast
qed

text \<open>The dequeuer alone, for at most \<open>n\<close> accesses.\<close>

fun dequeuer_alone :: "addr \<Rightarrow> nat \<Rightarrow> qstate \<Rightarrow> qlabel list \<times> qstate" where
  "dequeuer_alone b 0 s = ([], s)"
| "dequeuer_alone b (Suc n) s =
     (case dequeuer_step b s of None \<Rightarrow> ([], s)
      | Some (l, s') \<Rightarrow> let (ls, t) = dequeuer_alone b n s' in (l # ls, t))"

lemma dequeuer_alone_run: "dequeuer_alone bd n s = (ls, t) \<Longrightarrow> q_run base bd s ls t"
proof (induction n arbitrary: s ls t)
  case 0
  then show ?case by (auto intro: Run_Nil)
next
  case (Suc n)
  show ?case
  proof (cases "dequeuer_step bd s")
    case None
    with Suc.prems show ?thesis by (auto intro: Run_Nil)
  next
    case (Some ls')
    with Suc show ?thesis
      by (cases ls') (auto split: prod.splits intro: q_run_Cons Dequeuer)
  qed
qed

lemma dequeuer_step_enqs: "dequeuer_step b s = Some (l, s') \<Longrightarrow> enqs s' = enqs s"
  by (auto simp: dequeuer_step_eq Let_def split: deq_pc.splits if_splits)

lemma dequeuer_alone_returns:
  "q_inv base s xs \<Longrightarrow> pend (enqs s) = {} \<Longrightarrow> deq_rank (deq s) \<le> n \<Longrightarrow>
     deq_rank (deq (snd (dequeuer_alone bd n s))) = 0"
proof (induction n arbitrary: s xs)
  case (Suc n)
  show ?case
  proof (cases "dequeuer_step bd s")
    case None
    then have "deq_rank (deq s) = 0"
      using dequeuer_step_enabled [of s bd] by auto
    with None show ?thesis by simp
  next
    case (Some p)
    then obtain l s' where step: "dequeuer_step bd s = Some (l, s')" by (cases p) auto
    from simulated_dequeuer_step [OF Suc.prems(1) step] obtain ys
      where inv: "q_inv base s' ys" by (auto simp: simulated_def)
    have "enqs s p \<noteq> P_Link a z" for p a z
      using Suc.prems(2) pendI [of "enqs s" p z] by auto
    then have "\<not> (\<exists>r. deq s = D_Wait r \<and> q_next s r = 0)"
      using wait_pending [OF Suc.prems(1)] by metis
    with dequeuer_step_rank [OF step] Suc.prems(3) have "deq_rank (deq s') \<le> n" by auto
    from Suc.IH [OF inv _ this] dequeuer_step_enqs [OF step] Suc.prems(2)
    show ?thesis by (cases "dequeuer_alone bd n s'") (simp add: step)
  qed
qed simp

lemma deq_rank_0: "deq_rank c = 0 \<longleftrightarrow> (\<exists>b. c = C_Idle b)"
  by (cases c) auto

lemma deq_rank_le: "deq_rank c \<le> 7"
  by (cases c) auto

section \<open>Properties\<close>

text \<open>
  C1. First in, first out. In every run of any number of enqueuers and the dequeuer, under every
  interleaving of their accesses, the elements the dequeuer has returned are, in this order, the
  first elements that were put on the queue in the order of the swaps of the tail: none is lost,
  duplicated, overtaken or invented.
\<close>

theorem concurrent_fifo:
  assumes "q_run base bd (q_init elts) ls t"
  shows "prefix (map (cell bd) (dequeued_elts ls)) (swapped ls)"
  using assms by (rule run_fifo)

text \<open>
  Two enqueuers and the dequeuer, each with its own base address; the second enqueuer swaps first
  and the dequeuer has to wait for the link of the first one.
\<close>

definition sample_base :: "nat \<Rightarrow> addr" where
  "sample_base p = (if p = 0 then 4096 else 8192)"

definition sample_schedule :: "q_action list" where
  "sample_schedule =
     [Start_Enqueue 0 4160, Start_Enqueue 1 8320, Go_Enqueuer 0, Go_Enqueuer 1, Go_Enqueuer 1,
      Go_Enqueuer 0, Go_Enqueuer 1, Start_Is_Empty, Go_Dequeuer, Go_Dequeuer, Go_Dequeuer,
      Go_Dequeuer, Start_Dequeue, Go_Dequeuer, Go_Dequeuer, Go_Dequeuer, Go_Dequeuer,
      Go_Enqueuer 0, Go_Dequeuer, Go_Dequeuer, Go_Dequeuer, Go_Dequeuer, Start_Is_Empty,
      Start_Dequeue, Go_Dequeuer, Go_Dequeuer, Go_Dequeuer, Go_Dequeuer]"

definition sample_labels :: "qlabel list" where
  "sample_labels = labels_of sample_base 65536 sample_schedule (q_init {64, 128})"

definition sample_end :: qstate where
  "sample_end = end_of sample_base 65536 sample_schedule (q_init {64, 128})"

lemma sample_run: "q_run sample_base 65536 (q_init {64, 128}) sample_labels sample_end"
  unfolding sample_labels_def sample_end_def by (rule schedule_of_run) code_simp

text \<open>The same run up to the first answer of \<open>OPA_Queue_is_empty\<close>, and up to the busy wait.\<close>

definition sample_prefix :: "qlabel list" where
  "sample_prefix = labels_of sample_base 65536 (take 12 sample_schedule) (q_init {64, 128})"

lemma sample_prefix_run: "\<exists>t. q_run sample_base 65536 (q_init {64, 128}) sample_prefix t"
  unfolding sample_prefix_def by (intro exI, rule schedule_of_run) code_simp

definition waiting_state :: qstate where
  "waiting_state = end_of sample_base 65536 (take 17 sample_schedule) (q_init {64, 128})"

lemma waiting_run: "q_run sample_base 65536 (q_init {64, 128})
    (labels_of sample_base 65536 (take 17 sample_schedule) (q_init {64, 128})) waiting_state"
  unfolding waiting_state_def by (rule schedule_of_run) code_simp

theorem concurrent_fifo_witness:
  "prefix (map (cell 65536) (dequeued_elts sample_labels)) (swapped sample_labels) \<and>
   swapped sample_labels = [128, 64] \<and>
   dequeued_elts sample_labels = [abs_of 65536 128, abs_of 65536 64]"
proof -
  have "swapped sample_labels = [128, 64]" by code_simp
  moreover have "dequeued_elts sample_labels = [abs_of 65536 128, abs_of 65536 64]" by code_simp
  ultimately show ?thesis using concurrent_fifo [OF sample_run] by blast
qed

text \<open>
  C2. Refinement. The program implements the abstract queue: every run is, label by label, a run of
  the specification on the list of the elements in swap order and the set of the pending ones, and
  it ends in a state whose memory represents that list.
\<close>

theorem queue_refines_spec:
  assumes "q_run base bd (q_init elts) ls t"
  shows "\<exists>xs. spec_run bd ([], {}) ls (xs, pend (enqs t)) \<and> q_inv base t xs"
  using q_run_simulated [OF assms q_inv_init] by (auto simp: pend_init)

theorem queue_refines_spec_witness:
  "\<exists>xs. spec_run 65536 ([], {}) sample_labels (xs, pend (enqs sample_end)) \<and> q_inv sample_base sample_end xs"
  using queue_refines_spec [OF sample_run] .

text \<open>
  C20. The answers of \<open>OPA_Queue_is_empty\<close>. When it answers 0, an element is there to be dequeued.
  When it answers 1 and no enqueue is half done at that moment, everything that was put on the
  queue has been taken off.
\<close>

theorem is_empty_answers:
  assumes "q_run base bd (q_init elts) (ls @ [Is_Empty b]) t"
  shows "(\<not> b \<longrightarrow> strict_prefix (removed ls) (swapped ls)) \<and>
    (b \<and> pend (enqs t) = {} \<longrightarrow> removed ls = swapped ls)"
proof -
  from assms obtain s where run: "q_run base bd (q_init elts) ls s"
    and step: "q_step base bd s (Is_Empty b) t"
    by cases auto
  obtain xs where inv: "q_inv base s xs" and xs: "swapped ls = removed ls @ xs"
    using reachable_content [OF run] by blast
  from simulated_step [OF inv step] obtain ys where
    "spec_step bd (xs, pend (enqs s)) (Is_Empty b) (ys, pend (enqs t))"
    by (auto simp: simulated_def)
  then show ?thesis
    by (auto simp: spec_empty_iff xs strict_prefix_def)
qed

theorem is_empty_answers_witness:
  "strict_prefix (removed (butlast sample_prefix)) (swapped (butlast sample_prefix)) \<and>
   last sample_prefix = Is_Empty False"
proof -
  have l: "last sample_prefix = Is_Empty False" "sample_prefix \<noteq> []" by code_simp+
  with is_empty_answers [of sample_base 65536 "{64, 128}" "butlast sample_prefix" False] show ?thesis
    using sample_prefix_run by (metis append_butlast_last_id)
qed

text \<open>
  C21. What the answer 1 does not mean. There is a run in which the enqueue of an element has
  returned, nothing was ever dequeued, and \<open>OPA_Queue_is_empty\<close> then answers 1: the enqueue of
  an earlier element has swapped the tail and not yet written the head. An enqueue is therefore not
  one atomic action for the dequeuer.
\<close>

theorem is_empty_misses_completed_enqueue:
  "\<exists>ls t. q_run sample_base 65536 (q_init {64, 128}) (ls @ [Is_Empty True]) t \<and>
     Enqueued 1 128 \<in> set ls \<and> removed ls = []"
proof -
  let ?as = "[Start_Enqueue 0 4160, Go_Enqueuer 0, Go_Enqueuer 0, Start_Enqueue 1 8320,
    Go_Enqueuer 1, Go_Enqueuer 1, Go_Enqueuer 1, Start_Is_Empty, Go_Dequeuer]"
  let ?s = "q_init {64, 128}"
  let ?ls = "[Tau, Tau, Swapped 0 64, Tau, Tau, Swapped 1 128, Enqueued 1 128, Tau]"
  have "\<not> Option.is_none (q_schedule sample_base 65536 ?as ?s)" by code_simp
  from schedule_of_run [OF this]
  have "q_run sample_base 65536 ?s (labels_of sample_base 65536 ?as ?s) (end_of sample_base 65536 ?as ?s)" .
  moreover have "labels_of sample_base 65536 ?as ?s = ?ls @ [Is_Empty True]" by code_simp
  moreover have "removed ?ls = []" by code_simp
  ultimately show ?thesis
    by (intro exI [of _ ?ls] exI [of _ "end_of sample_base 65536 ?as ?s"]) simp
qed

text \<open>
  C22. An enqueue is wait-free. From the call on, in any run and whatever the other threads do in
  between, the enqueuer has three accesses to do, and until they are done its next one is always
  possible. After the third the call has returned; the tail was swapped for the element once, and
  that the enqueue is complete was reported once, in this order. From then on, unless it has been
  taken off, the element is in its place among those that were put on the queue and not taken off.
\<close>

theorem enqueue_wait_free:
  assumes "q_run base bd (q_init elts) ks s"
    and "q_schedule base bd (Start_Enqueue p elt # as) s = Some (ls, t)"
    and "\<forall>a \<in> set as. \<not> calls_enqueue p a"
  shows "count_list as (Go_Enqueuer p) \<le> 3 \<and>
    (count_list as (Go_Enqueuer p) < 3 \<longrightarrow> (\<exists>l u. enqueue_step (base p) p t = Some (l, u))) \<and>
    (count_list as (Go_Enqueuer p) = 3 \<longrightarrow> enqs t p = P_Idle \<and>
      filter (by_enqueuer p) ls = [Swapped p (cell (base p) elt), Enqueued p (cell (base p) elt)] \<and>
      (cell (base p) elt \<in> set (removed ls) \<or> (\<exists>xs. swapped (ks @ ls) = removed (ks @ ls) @ xs \<and>
        in_place t xs (cell (base p) elt))))"
proof (intro conjI impI)
  let ?r = "cell (base p) elt" and ?n = "count_list as (Go_Enqueuer p)"
  from assms(2) obtain u ls' where call: "enqueue_call (base p) p elt s = Some u"
    and rest: "q_schedule base bd as u = Some (ls', t)" and ls: "ls = Tau # ls'"
    by (auto split: option.splits)
  from call have "enqs u p = P_Null elt ?r" by (auto simp: enqueue_call_def Let_def split: if_splits)
  with schedule_enqueuer [OF rest assms(3)]
  have own: "[Swapped p ?r, Enqueued p ?r] = filter (by_enqueuer p) ls' @ to_report p (enqs t p)"
    and rank: "3 = ?n + enq_rank (enqs t p)" by simp_all
  from rank show "?n \<le> 3" by simp
  show "\<exists>l v. enqueue_step (base p) p t = Some (l, v)" if "?n < 3"
    using that rank enqueue_step_enabled [of t p "base p"] by fastforce
  assume "?n = 3"
  with rank show idle: "enqs t p = P_Idle" by (cases "enqs t p") simp_all
  with own show own: "filter (by_enqueuer p) ls = [Swapped p ?r, Enqueued p ?r]" by (simp add: ls)
  then have "Enqueued p ?r \<in> set (filter (by_enqueuer p) ls)" by simp
  then have enq: "Enqueued p ?r \<in> set ls" by simp
  obtain xs where inv: "q_inv base s xs" and xs: "swapped ks = removed ks @ xs"
    using reachable_content [OF assms(1)] by blast
  from q_run_simulated [OF q_schedule_run [OF assms(2)] inv] obtain ys
    where inv': "q_inv base t ys" and run: "spec_run bd (xs, pend (enqs s)) ls (ys, pend (enqs t))" by blast
  from spec_run_history [OF run] xs have "swapped (ks @ ls) = removed (ks @ ls) @ ys"
    by (simp add: history_defs)
  with spec_run_enqueued [OF run enq] placed [OF inv']
  show "?r \<in> set (removed ls) \<or> (\<exists>xs. swapped (ks @ ls) = removed (ks @ ls) @ xs \<and> in_place t xs ?r)"
    by auto
qed

text \<open>The second enqueuer swaps the tail first, and the dequeuer looks in between.\<close>

definition overlapping_schedule :: "q_action list" where
  "overlapping_schedule =
     [Start_Enqueue 1 8320, Go_Enqueuer 1, Go_Enqueuer 0, Go_Enqueuer 1, Go_Enqueuer 0, Start_Is_Empty,
      Go_Dequeuer, Go_Enqueuer 0]"

theorem enqueue_wait_free_witness:
  "(\<exists>ls t. q_schedule sample_base 65536 (Start_Enqueue 0 4160 # overlapping_schedule) (q_init {64, 128}) =
     Some (ls, t) \<and> enqs t 0 = P_Idle \<and> filter (by_enqueuer 0) ls = [Swapped 0 64, Enqueued 0 64] \<and>
     (\<exists>xs. swapped ls = removed ls @ xs \<and> in_place t xs 64))"
proof -
  have "\<not> Option.is_none (q_schedule sample_base 65536 (Start_Enqueue 0 4160 # overlapping_schedule) (q_init {64, 128}))"
    by code_simp
  then obtain ls t where run: "q_schedule sample_base 65536 (Start_Enqueue 0 4160 # overlapping_schedule)
      (q_init {64, 128}) = Some (ls, t)" by (auto simp: Option.is_none_def)
  have "removed (labels_of sample_base 65536 (Start_Enqueue 0 4160 # overlapping_schedule) (q_init {64, 128})) = []"
    by code_simp
  then have none: "removed ls = []" by (simp only: labels_of_def run option.sel fst_conv)
  have cell: "cell (sample_base 0) 4160 = 64" by code_simp
  have count: "count_list overlapping_schedule (Go_Enqueuer 0) = 3"
    "\<forall>a \<in> set overlapping_schedule. \<not> calls_enqueue 0 a" by code_simp+
  from enqueue_wait_free [OF Run_Nil run count(2)] count(1) none cell have "enqs t 0 = P_Idle"
    "filter (by_enqueuer 0) ls = [Swapped 0 64, Enqueued 0 64]"
    "\<exists>xs. swapped ls = removed ls @ xs \<and> in_place t xs 64" by simp_all
  with run show ?thesis by blast
qed

text \<open>
  C24. The dequeuer waits only for an enqueuer. In every reachable state an access of the dequeuer
  brings its call nearer to its end, unless it is in the busy wait and some enqueuer stands between
  its swap and the write of the very link the dequeuer waits for; the next access of that enqueuer
  ends the wait.
\<close>

theorem dequeuer_waits_for_enqueuer:
  assumes "q_run base bd (q_init elts) ls s" and "dequeuer_step bd s = Some (l, s')"
    and "\<not> deq_rank (deq s') < deq_rank (deq s)"
  shows "\<exists>r p k u. deq s = D_Wait r \<and> enqueue_step (base p) p s = Some (k, u) \<and>
    deq u = D_Wait r \<and> q_next u r \<noteq> 0"
proof -
  obtain xs where inv: "q_inv base s xs" using reachable_content [OF assms(1)] by blast
  from dequeuer_step_rank [OF assms(2)] assms(3) obtain r
    where d: "deq s = D_Wait r" and n: "q_next s r = 0" by blast
  from wait_pending [OF inv d n] obtain p a z
    where pc: "enqs s p = P_Link a z" and a: "cell (base p) a = r" and z: "z \<noteq> 0" by blast
  have "enqueue_step (base p) p s =
    Some (Enqueued p z, s\<lparr>q_next := (q_next s)(r := z), enqs := (enqs s)(p := P_Idle)\<rparr>)"
    by (simp add: enqueue_step_def pc a)
  with d z show ?thesis by (intro exI [of _ r] exI [of _ p]) simp
qed

theorem dequeuer_waits_for_enqueuer_witness:
  "\<exists>r p k u. deq waiting_state = D_Wait r \<and>
     enqueue_step (sample_base p) p waiting_state = Some (k, u) \<and> q_next u r \<noteq> 0"
proof -
  have r: "deq_rank (deq waiting_state) = 4"
    "map_option (\<lambda>(l, u). deq_rank (deq u)) (dequeuer_step 65536 waiting_state) = Some 4"
    by code_simp+
  then obtain l u where "dequeuer_step 65536 waiting_state = Some (l, u)" "deq_rank (deq u) = 4" by auto
  with dequeuer_waits_for_enqueuer [OF waiting_run this(1)] r(1) show ?thesis by force
qed

text \<open>
  C25. Alone, the dequeuer always finishes. When no enqueue is half done, a call the dequeuer is in
  returns after at most seven more accesses, and nothing it does can fault or wait.
\<close>

theorem dequeuer_finishes_alone:
  assumes "q_run base bd (q_init elts) ls s" and "pend (enqs s) = {}"
  shows "\<exists>b. deq (snd (dequeuer_alone bd 7 s)) = C_Idle b"
proof -
  obtain xs where "q_inv base s xs" using reachable_content [OF assms(1)] by blast
  from dequeuer_alone_returns [OF this assms(2) deq_rank_le] show ?thesis
    by (simp add: deq_rank_0)
qed

text \<open>The state in which the dequeuer has just been asked for the first of two elements.\<close>

definition two_elements_schedule :: "q_action list" where
  "two_elements_schedule =
     [Start_Enqueue 0 4160, Go_Enqueuer 0, Go_Enqueuer 0, Go_Enqueuer 0,
      Start_Enqueue 1 8320, Go_Enqueuer 1, Go_Enqueuer 1, Go_Enqueuer 1,
      Start_Is_Empty, Go_Dequeuer, Go_Dequeuer, Go_Dequeuer, Go_Dequeuer, Start_Dequeue]"

theorem dequeuer_finishes_alone_witness:
  "\<exists>b. deq (snd (dequeuer_alone 65536 7
     (end_of sample_base 65536 two_elements_schedule (q_init {64, 128})))) = C_Idle b"
proof -
  let ?fin = "end_of sample_base 65536 two_elements_schedule (q_init {64, 128})"
  have ok: "\<not> Option.is_none (q_schedule sample_base 65536 two_elements_schedule (q_init {64, 128}))"
    by code_simp
  have idle01: "enqs ?fin 0 = P_Idle" "enqs ?fin 1 = P_Idle" by code_simp+
  have "enqs ?fin p = P_Idle" for p
  proof (cases "p = 0 \<or> p = 1")
    case True
    then show ?thesis using idle01 by (elim disjE) (simp_all only:)
  next
    case False
    then have "\<forall>a \<in> set two_elements_schedule. action_enqueuer a \<noteq> Some p"
      by (simp add: two_elements_schedule_def)
    from end_of_frame [OF ok this] show ?thesis by (simp add: q_init_def)
  qed
  then have "pend (enqs ?fin) = {}" by (simp add: pend_def)
  from dequeuer_finishes_alone [OF schedule_of_run [OF ok] this] show ?thesis .
qed

end
