(* ===== verification/OPA_Buffers_Refine.thy ===== *)
theory OPA_Buffers_Refine
  imports OPA_Store_Buffers OPA_Queue_Order
begin

text \<open>
  When the swap and the compare-and-swap of the tail wait for the buffer of their thread, the
  buffers of \<open>OPA_Store_Buffers\<close> make no difference to the clients of the queue: every run of the buffered machine is a run of
  \<open>OPA_Queue_Threads\<close> with the same answers, in the same order. A thread may be in its next enqueue
  while the last store of its previous one is still in its buffer, so the sequential run has two
  enqueuers for each thread, which take its calls in turn.
\<close>

section \<open>The two enqueuers of a thread\<close>

definition caller :: "bool \<Rightarrow> nat \<Rightarrow> nat" where
  "caller b p = 2 * p + of_bool b"

definition thread_of :: "nat \<Rightarrow> nat" where
  "thread_of i = i div 2"

lemma thread_of_caller [simp]: "thread_of (caller b p) = p"
  by (cases b) (auto simp: thread_of_def caller_def)

lemma caller_inject [simp]: "caller b p = caller c q \<longleftrightarrow> b = c \<and> p = q"
proof
  assume eq: "caller b p = caller c q"
  have "thread_of (caller b p) = thread_of (caller c q)" by (simp only: eq)
  then have "p = q" by simp
  with eq show "b = c \<and> p = q" by (cases b; cases c; simp add: caller_def)
qed auto

lemma caller_cases: "\<exists>p. i = caller (par p) p \<or> i = caller (\<not> par p) p"
proof -
  have "i = caller (odd i) (i div 2)" by (simp add: caller_def)
  then obtain b p where i: "i = caller b p" by blast
  show ?thesis
    by (cases "b = par p") (auto simp: i)
qed

definition reports_of :: "(nat \<Rightarrow> nat) \<Rightarrow> qlabel \<Rightarrow> qlabel list" where
  "reports_of f l =
     (case l of Tau \<Rightarrow> [] | Enqueued p r \<Rightarrow> [] | Swapped p r \<Rightarrow> [Swapped (f p) r] | _ \<Rightarrow> [l])"

text \<open>What the clients can tell of a run, and the swaps.\<close>

definition reports :: "(nat \<Rightarrow> nat) \<Rightarrow> qlabel list \<Rightarrow> qlabel list" where
  "reports f ls = concat (map (reports_of f) ls)"

lemma reports_simps [simp]: "reports f [] = []" "reports f (ls @ ks) = reports f ls @ reports f ks"
  "reports f [l] = reports_of f l"
  by (simp_all add: reports_def)

lemma reports_of_simps [simp]:
  "reports_of f Tau = []" "reports_of f (Enqueued p r) = []" "reports_of f (Swapped p r) = [Swapped (f p) r]"
  "reports_of f (Is_Empty e) = [Is_Empty e]" "reports_of f Peek_Null = [Peek_Null]"
  "reports_of f (Peeked a) = [Peeked a]" "reports_of f (Removed r) = [Removed r]"
  "reports_of f (Dequeued a) = [Dequeued a]"
  by (simp_all add: reports_of_def)

lemma histories_of_reports:
  "swapped (reports f ls) = swapped ls" "removed (reports f ls) = removed ls"
  "dequeued_elts (reports f ls) = dequeued_elts ls"
proof (induction ls)
  case (Cons l ls)
  {
    case 1 from Cons show ?case by (cases l) (simp_all add: reports_def history_defs)
  next
    case 2 from Cons show ?case by (cases l) (simp_all add: reports_def history_defs)
  next
    case 3 from Cons show ?case by (cases l) (simp_all add: reports_def history_defs)
  }
qed (simp_all add: history_defs)

section \<open>The relation\<close>

text \<open>Where the sequential enqueuer stands whose last store is still in the buffer.\<close>

fun posted :: "addr \<Rightarrow> store_buffer \<Rightarrow> enq_pc" where
  "posted b [] = P_Idle"
| "posted b ((x, v) # buf) =
     (if v = 0 then posted b buf
      else case x of L_Head \<Rightarrow> P_Head v | L_Next c \<Rightarrow> P_Link (abs_of b c) v | _ \<Rightarrow> P_Idle)"

inductive link_store :: "store_buffer \<Rightarrow> bool" where
  No_Link: "link_store []"
| Head_Link: "v \<noteq> 0 \<Longrightarrow> link_store [(L_Head, v)]"
| Next_Link: "v \<noteq> 0 \<Longrightarrow> link_store [(L_Next c, v)]"

inductive_cases link_storeE: "link_store buf"

text \<open>The buffer of an enqueuer: the last store of its previous call, then the null of this one.\<close>

definition ebuf_ok :: "enq_pc \<Rightarrow> store_buffer \<Rightarrow> bool" where
  "ebuf_ok pc buf \<longleftrightarrow>
     (case pc of
        P_Idle \<Rightarrow> link_store buf
      | P_Null _ _ \<Rightarrow> link_store buf
      | P_Swap r \<Rightarrow> (\<exists>k. link_store k \<and> (buf = k \<or> buf = k @ [(L_Next r, 0)]))
      | _ \<Rightarrow> buf = [])"

definition dbuf_ok :: "wstate \<Rightarrow> bool" where
  "dbuf_ok w \<longleftrightarrow> (\<forall>x v. (x, v) \<in> set (w_dbuf w) \<longrightarrow>
     x \<noteq> L_Tail \<and> (\<forall>c. x = L_Next c \<longrightarrow> c \<in> w_mine w))"

text \<open>While the reset of the head is in the buffer, no enqueuer is going to write the head.\<close>

definition reset_ok :: "wstate \<Rightarrow> qstate \<Rightarrow> bool" where
  "reset_ok w s \<longleftrightarrow>
     (L_Head \<in> cells (w_dbuf w) \<longrightarrow> w_mem w L_Tail \<noteq> 0 \<and> (\<forall>i r. enqs s i \<noteq> P_Head r))"

text \<open>The cell whose null is in the buffer of an enqueuer.\<close>

definition early :: "wstate \<Rightarrow> addr \<Rightarrow> bool" where
  "early w r \<longleftrightarrow> (\<exists>p. (L_Next r, 0) \<in> set (w_ebuf w p))"

definition thread_ok :: "addr \<Rightarrow> nat \<Rightarrow> bool \<Rightarrow> wstate \<Rightarrow> qstate \<Rightarrow> bool" where
  "thread_ok b p par w s \<longleftrightarrow> enqs s (caller par p) = w_enq w p \<and>
     enqs s (caller (\<not> par) p) = posted b (w_ebuf w p) \<and> ebuf_ok (w_enq w p) (w_ebuf w p)"

definition buf_sim :: "(nat \<Rightarrow> addr) \<Rightarrow> (nat \<Rightarrow> bool) \<Rightarrow> wstate \<Rightarrow> qstate \<Rightarrow> bool" where
  "buf_sim base par w s \<longleftrightarrow>
     q_tail s = w_mem w L_Tail \<and> q_head s = d_load w L_Head \<and> q_shadow s = d_load w L_Shadow \<and>
     (\<forall>r. \<not> early w r \<longrightarrow> q_next s r = d_load w (L_Next r)) \<and>
     (\<forall>p. thread_ok (base p) p (par p) w s) \<and> deq s = w_deq w \<and>
     avail s = w_avail w \<union> w_mine w \<and> w_avail w \<inter> w_mine w = {} \<and> dbuf_ok w \<and> reset_ok w s"

definition callers :: "(nat \<Rightarrow> addr) \<Rightarrow> nat \<Rightarrow> addr" where
  "callers base i = base (thread_of i)"

lemma callers_caller [simp]: "callers base (caller b p) = base p"
  by (simp add: callers_def)

lemma buf_simD:
  assumes "buf_sim base par w s"
  shows "q_tail s = w_mem w L_Tail" "q_head s = d_load w L_Head" "q_shadow s = d_load w L_Shadow"
    "\<not> early w r \<Longrightarrow> q_next s r = d_load w (L_Next r)" "thread_ok (base p) p (par p) w s"
    "deq s = w_deq w" "avail s = w_avail w \<union> w_mine w" "w_avail w \<inter> w_mine w = {}" "dbuf_ok w"
    "reset_ok w s"
  using assms by (simp_all add: buf_sim_def)

lemma d_load_store [simp]: "d_load (d_store x v pc w) = (d_load w)(x := v)"
  by (simp add: d_load_def d_store_def fun_eq_iff)

text \<open>A step of the buffered machine is no step or one step of the sequential one.\<close>

definition matched ::
  "(nat \<Rightarrow> addr) \<Rightarrow> addr \<Rightarrow> qstate \<Rightarrow> qlabel \<Rightarrow> wstate \<Rightarrow> bool" where
  "matched base bd s l w' \<longleftrightarrow>
     (\<exists>par ks s'. q_run (callers base) bd s ks s' \<and> reports thread_of ks = reports_of id l \<and>
        buf_sim base par w' s')"

lemma matched_none: "buf_sim base par w' s \<Longrightarrow> reports_of id l = [] \<Longrightarrow> matched base bd s l w'"
  unfolding matched_def by (intro exI [of _ par] exI [of _ "[]"] exI [of _ s]) (simp add: Run_Nil)

lemma matched_one:
  assumes "q_step (callers base) bd s k s'" "reports_of thread_of k = reports_of id l"
    "buf_sim base par w' s'"
  shows "matched base bd s l w'"
  using assms Run_Snoc [OF Run_Nil assms(1)] unfolding matched_def
  by (intro exI [of _ par] exI [of _ "[k]"] exI [of _ s']) simp

section \<open>The dequeuer\<close>

lemma sim_deq_pc: "buf_sim base par w s \<Longrightarrow> buf_sim base par (w\<lparr>w_deq := d\<rparr>) (s\<lparr>deq := d\<rparr>)"
  by (simp add: buf_sim_def dbuf_ok_def reset_ok_def early_def thread_ok_def d_load_def)

lemma sim_shadow:
  "buf_sim base par w s \<Longrightarrow> buf_sim base par (d_store L_Shadow v d w) (s\<lparr>q_shadow := v, deq := d\<rparr>)"
  by (simp add: buf_sim_def) (auto simp: dbuf_ok_def reset_ok_def early_def thread_ok_def d_store_def)

lemma sim_head:
  "buf_sim base par w s \<Longrightarrow> w_mem w L_Tail \<noteq> 0 \<Longrightarrow> (\<And>i r. enqs s i \<noteq> P_Head r) \<Longrightarrow>
     buf_sim base par (d_store L_Head v d w) (s\<lparr>q_head := v, deq := d\<rparr>)"
  by (simp add: buf_sim_def) (auto simp: dbuf_ok_def reset_ok_def early_def thread_ok_def d_store_def)

lemma sim_tail:
  "buf_sim base par w s \<Longrightarrow> w_dbuf w = [] \<Longrightarrow>
     buf_sim base par (w\<lparr>w_mem := (w_mem w)(L_Tail := t), w_deq := d\<rparr>) (s\<lparr>q_tail := t, deq := d\<rparr>)"
  by (simp add: buf_sim_def d_load_def) (auto simp: dbuf_ok_def reset_ok_def early_def thread_ok_def)

lemma sim_return:
  "buf_sim base par w s \<Longrightarrow> r \<notin> avail s \<Longrightarrow>
     buf_sim base par ((d_store (L_Next r) 0 d w)\<lparr>w_mine := insert r (w_mine w)\<rparr>)
       (s\<lparr>q_next := (q_next s)(r := 0), deq := d, avail := insert r (avail s)\<rparr>)"
  by (simp add: buf_sim_def d_load_def)
    (auto simp: dbuf_ok_def reset_ok_def early_def thread_ok_def d_store_def d_load_def)

text \<open>The element whose link the dequeuer reads is not one whose null is in a buffer.\<close>

lemma early_private:
  assumes "q_inv (callers base) s xs" and "buf_sim base par w s" and "early w r"
  shows "private_elt s xs r" "q_next s r = 0"
proof -
  from assms(3) obtain p where m: "(L_Next r, 0) \<in> set (w_ebuf w p)" by (auto simp: early_def)
  from buf_simD(5) [OF assms(2), of p]
  have "ebuf_ok (w_enq w p) (w_ebuf w p)" and pc: "enqs s (caller (par p) p) = w_enq w p"
    by (simp_all add: thread_ok_def)
  with m have "w_enq w p = P_Swap r"
    by (auto simp: ebuf_ok_def elim!: link_storeE split: enq_pc.splits)
  with q_invD(7) [OF assms(1), of "caller (par p) p"] pc
  show "private_elt s xs r" "q_next s r = 0" by (simp_all add: enq_ok_def)
qed

lemma sim_next:
  assumes "q_inv (callers base) s xs" and "buf_sim base par w s" and "r \<in> set xs"
  shows "d_load w (L_Next r) = q_next s r"
proof -
  have "\<not> early w r" using early_private(1) [OF assms(1,2)] assms(3) by (auto simp: private_elt_def)
  from buf_simD(4) [OF assms(2) this] show ?thesis by simp
qed

lemma sim_next_front:
  assumes "q_inv (callers base) s xs" and "buf_sim base par w s" and "eff_shadow s = r" "r \<noteq> 0"
  shows "d_load w (L_Next r) = q_next s r"
  using sim_next [OF assms(1,2)] pending_front(1) [OF assms(1,3,4)] by auto

lemma sim_dequeuer_step:
  assumes inv: "q_inv (callers base) s xs" and sim: "buf_sim base par w s" and "ordered ord"
    and step: "w_dequeuer_step ord bd w = Some (l, w')"
  shows "matched base bd s l w'"
proof -
  note rel = buf_simD(1-3,6) [OF sim] and ok = q_invD(6) [OF inv] and f = q_invD(5) [OF inv]
  note go = matched_one [OF Dequeuer]
  note nx = sim_next_front [OF inv sim]
  note eval = dequeuer_step_eq w_dequeuer_step_eq Let_def
  show ?thesis
  proof (cases "w_deq w")
    case (C_Idle b)
    with step show ?thesis by (simp add: w_dequeuer_step_eq)
  next
    case E_Head
    with step rel show ?thesis
      by (cases "d_load w L_Head = 0")
        (auto simp: eval OPA_SHM_REL_NULL_def intro!: go sim_deq_pc sim)
  next
    case E_Read
    with step rel show ?thesis by (auto simp: eval intro!: go sim_deq_pc sim)
  next
    case (E_Shadow v)
    with step rel show ?thesis by (auto simp: eval intro!: go sim_shadow sim)
  next
    case E_Clear
    with rel ok have "q_shadow s \<noteq> 0" by (simp add: deq_ok_def)
    with front_shadow [OF f] E_Clear rel have hd: "xs \<noteq> []" "hd xs \<notin> pend (enqs s)"
      by (auto simp: eff_shadow_def)
    have "enqs s i \<noteq> P_Head r" for i r
      using q_invD(7) [OF inv, of i] hd pendI [of "enqs s" i r] by (auto simp: enq_ok_def)
    moreover have "w_mem w L_Tail \<noteq> 0"
      using q_invD(2,3) [OF inv] rel(1) hd(1) by (metis last_in_set)
    ultimately show ?thesis
      using step rel E_Clear by (auto simp: eval intro!: go sim_head sim)
  next
    case (K_Read b)
    with step rel show ?thesis by (auto simp: eval intro!: go sim_deq_pc sim)
  next
    case (D_Next r)
    with rel ok have "eff_shadow s = r" "r \<noteq> 0" by (auto simp: deq_ok_def eff_shadow_def)
    from nx [OF this] D_Next step rel show ?thesis
      by (cases "q_next s r = 0")
        (auto simp: eval OPA_SHM_REL_NULL_def intro!: go sim_deq_pc sim)
  next
    case (D_Read r)
    with rel ok have "eff_shadow s = r" "r \<noteq> 0" by (auto simp: deq_ok_def eff_shadow_def)
    from nx [OF this] D_Read step rel show ?thesis
      by (auto simp: eval intro!: go sim_deq_pc sim)
  next
    case (D_Shadow r v)
    with step rel show ?thesis by (auto simp: eval intro!: go sim_shadow sim)
  next
    case (D_Null r)
    with step rel show ?thesis by (auto simp: eval intro!: go sim_shadow sim)
  next
    case (D_Cas r)
    with step \<open>ordered ord\<close> have "w_dbuf w = []"
      by (auto simp: w_dequeuer_step_eq split: if_splits dest: ordered_cas)
    with D_Cas step rel show ?thesis
      by (cases "w_mem w L_Tail = r")
        (auto simp: eval split: if_splits intro!: go intro: sim_deq_pc [OF sim] sim_tail [OF sim])
  next
    case (D_Wait r)
    with rel ok have "eff_shadow s = r" "r \<noteq> 0" by (auto simp: deq_ok_def eff_shadow_def)
    from nx [OF this] D_Wait step rel sim show ?thesis
      by (cases "q_next s r = 0")
        (auto simp: eval OPA_SHM_REL_NULL_def intro!: go sim_deq_pc)
  next
    case (D_WRead r)
    with rel ok have "eff_shadow s = r" "r \<noteq> 0" by (auto simp: deq_ok_def eff_shadow_def)
    from nx [OF this] D_WRead step rel show ?thesis
      by (auto simp: eval intro!: go sim_deq_pc sim)
  next
    case (D_WShadow r v)
    with step rel show ?thesis by (auto simp: eval intro!: go sim_shadow sim)
  next
    case (D_Clear r)
    with q_invD(10) [OF inv] rel have "r \<notin> avail s" by (simp add: held_def)
    with D_Clear step rel show ?thesis
      by (auto simp: eval OPA_SHM_REL_NULL_def intro!: go sim_return sim)
  qed
qed

section \<open>The enqueuers\<close>

lemma posted_append_null [simp]: "link_store k \<Longrightarrow> posted b (k @ [(x, 0)]) = posted b k"
  by (auto elim!: link_storeE)

lemma link_store_nonzero: "link_store k \<Longrightarrow> (x, v) \<in> set k \<Longrightarrow> v \<noteq> 0"
  by (auto elim!: link_storeE)

lemma ebuf_no_tail: "thread_ok b p par w s \<Longrightarrow> L_Tail \<notin> cells (w_ebuf w p)"
  by (auto simp: thread_ok_def ebuf_ok_def split: enq_pc.splits elim!: link_storeE)

lemma thread_ok_other:
  assumes "thread_ok b p par w s" and "w_enq w' p = w_enq w p" and "w_ebuf w' p = w_ebuf w p"
    and "\<And>c. enqs s' (caller c p) = enqs s (caller c p)"
  shows "thread_ok b p par w' s'"
  using assms by (simp add: thread_ok_def)

lemma sim_enqueue_call:
  assumes sim: "buf_sim base par w s" and step: "w_enqueue_call (base p) p elt w = Some w'"
  shows "matched base bd s Tau w'"
proof -
  let ?r = "cell (base p) elt" and ?i = "caller (par p) p"
  let ?s = "s\<lparr>enqs := (enqs s)(?i := P_Null elt ?r), avail := avail s - {?r}\<rparr>"
  from step have pc: "w_enq w p = P_Idle" and r: "?r \<in> w_avail w" "?r \<noteq> 0"
    and w': "w' = w\<lparr>w_enq := (w_enq w)(p := P_Null elt ?r), w_avail := w_avail w - {?r}\<rparr>"
    by (auto simp: w_enqueue_call_def Let_def split: if_splits)
  from buf_simD(5) [OF sim, of p] pc have i: "enqs s ?i = P_Idle" by (simp add: thread_ok_def)
  have "thread_ok (base q) q (par q) w' ?s" for q
    using buf_simD(5) [OF sim, of q] pc by (auto simp: thread_ok_def w' ebuf_ok_def)
  with sim r have sim': "buf_sim base par w' ?s"
    by (simp add: buf_sim_def w')
      (auto simp: d_load_def early_def dbuf_ok_def reset_ok_def)
  have st: "enqueue_call (callers base ?i) ?i elt s = Some ?s"
    using i r buf_simD(7) [OF sim] by (simp add: enqueue_call_def Let_def)
  show ?thesis by (rule matched_one [OF Call_Enqueue [where base = "callers base" and p = ?i, OF st] _ sim']) simp
qed

lemma sim_P_Null:
  assumes inv: "q_inv (callers base) s xs" and sim: "buf_sim base par w s"
    and pc: "w_enq w p = P_Null elt r"
  shows "matched base bd s Tau (e_store p (L_Next (cell (base p) elt)) 0 (P_Swap r) w)"
proof -
  let ?i = "caller (par p) p" and ?w = "e_store p (L_Next (cell (base p) elt)) 0 (P_Swap r) w"
  let ?s = "s\<lparr>q_next := (q_next s)(r := 0), enqs := (enqs s)(?i := P_Swap r)\<rparr>"
  from buf_simD(5) [OF sim, of p] pc have i: "enqs s ?i = P_Null elt r"
    and buf: "link_store (w_ebuf w p)"
    by (simp_all add: thread_ok_def ebuf_ok_def)
  from q_invD(7) [OF inv, of ?i] i have c: "cell (base p) elt = r" by (simp add: enq_ok_def)
  have "thread_ok (base q) q (par q) ?w ?s" for q
    using buf_simD(5) [OF sim, of q] buf by (auto simp: thread_ok_def e_store_def ebuf_ok_def c)
  moreover have "early ?w z \<longleftrightarrow> early w z \<or> z = r" for z
    by (auto simp: early_def e_store_def c)
  ultimately have sim': "buf_sim base par ?w ?s"
    using sim by (simp add: buf_sim_def)
      (auto simp: e_store_def d_load_def dbuf_ok_def reset_ok_def)
  have st: "enqueue_step (callers base ?i) ?i s = Some (Tau, ?s)"
    using i c by (simp add: enqueue_step_def OPA_SHM_REL_NULL_def)
  show ?thesis by (rule matched_one [OF Enqueuer [where base = "callers base" and p = ?i, OF st] _ sim']) simp
qed

lemma sim_P_Swap:
  assumes inv: "q_inv (callers base) s xs" and sim: "buf_sim base par w s"
    and pc: "w_enq w p = P_Swap r" and buf: "w_ebuf w p = []"
    and w': "w' = w\<lparr>w_mem := (w_mem w)(L_Tail := r),
      w_enq := (w_enq w)(p := if w_mem w L_Tail = 0 then P_Head r else P_Link (abs_of (base p) (w_mem w L_Tail)) r)\<rparr>"
  shows "matched base bd s (Swapped p r) w'"
proof -
  let ?i = "caller (par p) p"
  let ?s = "s\<lparr>q_tail := r, enqs := (enqs s)(?i := w_enq w' p)\<rparr>"
  from buf_simD(5) [OF sim, of p] pc have i: "enqs s ?i = P_Swap r" by (simp add: thread_ok_def)
  with q_invD(7) [OF inv, of ?i] have r: "r \<noteq> 0" by (simp add: enq_ok_def private_elt_def)
  have "thread_ok (base q) q (par q) w' ?s" for q
    using buf_simD(5) [OF sim, of q] buf by (auto simp: thread_ok_def w' ebuf_ok_def)
  moreover have "d_load w' x = d_load w x" if "x \<noteq> L_Tail" for x
    using that by (simp add: d_load_def w' flush_upd_other)
  ultimately have sim': "buf_sim base par w' ?s"
    using sim r by (simp add: buf_sim_def)
      (auto simp: w' early_def dbuf_ok_def reset_ok_def)
  have st: "enqueue_step (callers base ?i) ?i s = Some (Swapped ?i r, ?s)"
    using i buf_simD(1) [OF sim] by (simp add: enqueue_step_def OPA_SHM_REL_NULL_def w' Let_def)
  show ?thesis by (rule matched_one [OF Enqueuer [where base = "callers base" and p = ?i, OF st] _ sim']) simp
qed

text \<open>The last store of an enqueue goes to the buffer: the next call is the other enqueuer's.\<close>

lemma sim_last_store:
  assumes sim: "buf_sim base par w s" and buf: "w_ebuf w p = []"
    and k: "posted (base p) [(x, r)] = w_enq w p" "link_store [(x, r)]"
  shows "matched base bd s (Enqueued p r) (e_store p x r P_Idle w)"
proof -
  let ?w = "e_store p x r P_Idle w" and ?par = "par(p := \<not> par p)"
  have r: "r \<noteq> 0" using k(2) by (rule link_store_nonzero) simp
  have "thread_ok (base q) q (?par q) ?w s" for q
    using buf_simD(5) [OF sim, of q] buf k
    by (auto simp: thread_ok_def e_store_def ebuf_ok_def simp del: posted.simps)
      (simp add: posted.simps(1))
  moreover have "early ?w z \<longleftrightarrow> early w z" for z
    using buf r by (auto simp: early_def e_store_def) (metis empty_iff empty_set)
  ultimately have "buf_sim base ?par ?w s"
    using sim by (simp add: buf_sim_def)
      (auto simp: e_store_def d_load_def dbuf_ok_def reset_ok_def)
  then show ?thesis by (rule matched_none) simp
qed

lemma sim_enqueue_step:
  assumes inv: "q_inv (callers base) s xs" and sim: "buf_sim base par w s" and "ordered ord"
    and step: "w_enqueue_step ord (base p) p w = Some (l, w')"
  shows "matched base bd s l w'"
proof -
  have ok: "enqs s (caller (par p) p) = w_enq w p" "ebuf_ok (w_enq w p) (w_ebuf w p)"
    using buf_simD(5) [OF sim, of p] by (simp_all add: thread_ok_def)
  note elt = q_invD(7) [OF inv, of "caller (par p) p"]
  show ?thesis
  proof (cases "w_enq w p")
    case P_Idle
    with step show ?thesis by (simp add: w_enqueue_step_def)
  next
    case (P_Null elt r)
    with step sim_P_Null [OF inv sim P_Null] show ?thesis
      using elt ok(1) by (auto simp: w_enqueue_step_def OPA_SHM_REL_NULL_def)
  next
    case (P_Swap r)
    with step \<open>ordered ord\<close> have buf: "w_ebuf w p = []"
      by (auto simp: w_enqueue_step_def split: if_splits dest: ordered_swap)
    with P_Swap step show ?thesis
      by (auto simp: w_enqueue_step_def OPA_SHM_REL_NULL_def Let_def split: if_splits
          intro!: sim_P_Swap [OF inv sim P_Swap buf])
  next
    case (P_Head r)
    with ok elt q_invD(2) [OF inv] hd_in_set [of xs] have "r \<noteq> 0" "w_ebuf w p = []"
      by (auto simp: enq_ok_def ebuf_ok_def)
    with P_Head step show ?thesis
      by (auto simp: w_enqueue_step_def intro!: sim_last_store [OF sim] link_store.intros)
  next
    case (P_Link a r)
    with ok elt have adj: "adjacent xs (cell (base p) a) r" and "w_ebuf w p = []"
      by (auto simp: enq_ok_def ebuf_ok_def)
    moreover have "r \<noteq> 0" using adjacent_mem [OF adj] q_invD(2) [OF inv] by auto
    ultimately show ?thesis using P_Link step
      by (auto simp: w_enqueue_step_def intro!: sim_last_store [OF sim] link_store.intros)
  qed
qed

section \<open>The drains\<close>

lemma drop_nth_Cons [simp]: "drop_nth 0 (w # buf) = buf" "drop_nth (Suc i) (w # buf) = w # drop_nth i buf"
  by (simp_all add: drop_nth_def)

text \<open>A drained store of an enqueuer is the null of the present call or the last store of the
  previous one.\<close>

lemma ebuf_drained:
  assumes "ebuf_ok pc buf" and "i < length buf"
  shows "(\<exists>r. pc = P_Swap r \<and> buf ! i = (L_Next r, 0) \<and> posted b (drop_nth i buf) = posted b buf \<or>
      buf ! i = (L_Head, r) \<and> r \<noteq> 0 \<and> posted b buf = P_Head r \<and> posted b (drop_nth i buf) = P_Idle \<or>
      (\<exists>c. buf ! i = (L_Next c, r) \<and> r \<noteq> 0 \<and> posted b buf = P_Link (abs_of b c) r \<and>
        posted b (drop_nth i buf) = P_Idle)) \<and> ebuf_ok pc (drop_nth i buf)"
proof (cases pc)
  case (P_Swap r)
  with assms obtain k where k: "link_store k" "buf = k \<or> buf = k @ [(L_Next r, 0)]"
    by (auto simp: ebuf_ok_def)
  have null: "link_store k' \<Longrightarrow> ebuf_ok pc k' \<and> ebuf_ok pc (k' @ [(L_Next r, 0)])" for k'
    by (auto simp: ebuf_ok_def P_Swap)
  from k(1) show ?thesis
  proof cases
    case No_Link
    with k(2) assms(2) P_Swap null [OF link_store.No_Link] show ?thesis by auto
  next
    case (Head_Link v)
    with k(2) assms(2) P_Swap null [OF link_store.No_Link] null [OF k(1)] show ?thesis
      by (auto simp: less_Suc_eq)
  next
    case (Next_Link v c)
    with k(2) assms(2) P_Swap null [OF link_store.No_Link] null [OF k(1)] show ?thesis
      by (auto simp: less_Suc_eq)
  qed
qed (use assms in \<open>auto simp: ebuf_ok_def intro: link_store.intros elim!: link_storeE\<close>)

lemma set_drop_nth_insert: "i < length buf \<Longrightarrow> set buf = insert (buf ! i) (set (drop_nth i buf))"
  unfolding drop_nth_def by (subst id_take_nth_drop [of i buf]) auto

text \<open>The memory after a drain, seen by the dequeuer.\<close>

lemma d_load_commit: "x \<notin> cells (w_dbuf w) \<Longrightarrow>
    d_load (w\<lparr>w_mem := (w_mem w)(x := v), w_ebuf := eb\<rparr>) = (d_load w)(x := v)"
  by (simp add: d_load_def flush_upd_same fun_eq_iff)

lemma sim_e_drain:
  assumes inv: "q_inv (callers base) s xs" and sim: "buf_sim base par w s"
    and step: "e_drain p j w = Some w'"
  shows "matched base bd s Tau w'"
proof -
  let ?i = "caller (\<not> par p) p" and ?buf = "w_ebuf w p"
  from step have j: "j < length ?buf"
    and w': "w' = w\<lparr>w_mem := commit (?buf ! j) (w_mem w),
      w_ebuf := (w_ebuf w)(p := drop_nth j ?buf)\<rparr>"
    by (auto simp: e_drain_def may_drain_def split: if_splits)
  have ok: "ebuf_ok (w_enq w p) ?buf" and i: "enqs s ?i = posted (base p) ?buf"
    using buf_simD(5) [OF sim, of p] by (simp_all add: thread_ok_def)
  note elt = q_invD(7) [OF inv, of ?i]
  from ebuf_drained [OF ok j, of "base p"] have ok': "ebuf_ok (w_enq w p) (drop_nth j ?buf)" by blast
  have mine: "L_Next c \<notin> cells (w_dbuf w)" if "c \<notin> avail s" for c
    using buf_simD(7,9) [OF sim] that by (auto simp: dbuf_ok_def cells_def)
  have early: "early w z \<Longrightarrow> early w' z \<or> ?buf ! j = (L_Next z, 0)" for z
    using set_drop_nth_insert [OF j] by (auto simp: early_def w') (metis fun_upd_apply insert_iff)
  have tail: "fst (?buf ! j) \<noteq> L_Tail"
    using ebuf_no_tail [OF buf_simD(5) [OF sim, of p]] j by (metis cells_def image_eqI nth_mem)
  have others: "thread_ok (base q) q (par q) w' s'" if "q \<noteq> p" "\<And>c. enqs s' (caller c q) = enqs s (caller c q)" for q s'
    using buf_simD(5) [OF sim, of q] that by (simp add: thread_ok_def w')
  from ebuf_drained [OF ok j, of "base p"] consider
    (null) r where "w_enq w p = P_Swap r" "?buf ! j = (L_Next r, 0)"
      "posted (base p) (drop_nth j ?buf) = posted (base p) ?buf"
  | (head) r where "?buf ! j = (L_Head, r)" "r \<noteq> 0" "posted (base p) ?buf = P_Head r"
      "posted (base p) (drop_nth j ?buf) = P_Idle"
  | (link) r c where "?buf ! j = (L_Next c, r)" "r \<noteq> 0" "posted (base p) ?buf = P_Link (abs_of (base p) c) r"
      "posted (base p) (drop_nth j ?buf) = P_Idle"
    by blast
  then show ?thesis
  proof cases
    case null
    have "early w r" using null(2) j by (auto simp: early_def in_set_conv_nth)
    from early_private [OF inv sim this] have r: "r \<notin> avail s" "q_next s r = 0"
      by (simp_all add: private_elt_def)
    have "thread_ok (base q) q (par q) w' s" for q
      using others [of q s] buf_simD(5) [OF sim, of p] null(3) ok'
      by (cases "q = p") (auto simp: thread_ok_def w')
    moreover have "d_load w' = (d_load w)(L_Next r := 0)"
      using d_load_commit [OF mine [OF r(1)]] null(2) by (simp add: w' commit_def)
    ultimately have "buf_sim base par w' s"
      using sim early null(2) r(2) by (simp add: buf_sim_def)
        (auto simp: w' commit_def dbuf_ok_def reset_ok_def)
    then show ?thesis by (rule matched_none) simp
  next
    case head
    let ?s = "s\<lparr>q_head := r, enqs := (enqs s)(?i := P_Idle)\<rparr>"
    have pc: "enqs s ?i = P_Head r" using i head(3) by simp
    then have no_reset: "L_Head \<notin> cells (w_dbuf w)"
      using buf_simD(10) [OF sim] by (auto simp: reset_ok_def)
    have "thread_ok (base q) q (par q) w' ?s" for q
      using others [of q ?s] buf_simD(5) [OF sim, of p] head(4) ok'
      by (cases "q = p") (auto simp: thread_ok_def w')
    moreover have "d_load w' = (d_load w)(L_Head := r)"
      using d_load_commit [OF no_reset] head(1) by (simp add: w' commit_def)
    ultimately have sim': "buf_sim base par w' ?s"
      using sim early head(1) no_reset by (simp add: buf_sim_def)
        (auto simp: w' commit_def dbuf_ok_def reset_ok_def)
    have st: "enqueue_step (callers base ?i) ?i s = Some (Enqueued ?i r, ?s)"
      using pc by (simp add: enqueue_step_def)
    show ?thesis
      by (rule matched_one [OF Enqueuer [where base = "callers base" and p = ?i, OF st] _ sim']) simp
  next
    case link
    let ?s = "s\<lparr>q_next := (q_next s)(c := r), enqs := (enqs s)(?i := P_Idle)\<rparr>"
    have pc: "enqs s ?i = P_Link (abs_of (base p) c) r" using i link(3) by simp
    with elt have "adjacent xs c r" by (simp add: enq_ok_def)
    with adjacent_mem q_invD(9) [OF inv] have c: "c \<notin> avail s" by blast
    have "thread_ok (base q) q (par q) w' ?s" for q
      using others [of q ?s] buf_simD(5) [OF sim, of p] link(4) ok'
      by (cases "q = p") (auto simp: thread_ok_def w')
    moreover have "d_load w' = (d_load w)(L_Next c := r)"
      using d_load_commit [OF mine [OF c]] link(1) by (simp add: w' commit_def)
    ultimately have sim': "buf_sim base par w' ?s"
      using sim early link(1,2) by (simp add: buf_sim_def)
        (auto simp: w' commit_def dbuf_ok_def reset_ok_def)
    have st: "enqueue_step (callers base ?i) ?i s = Some (Enqueued ?i r, ?s)"
      using pc by (simp add: enqueue_step_def)
    show ?thesis
      by (rule matched_one [OF Enqueuer [where base = "callers base" and p = ?i, OF st] _ sim']) simp
  qed
qed

lemma sim_d_drain:
  assumes sim: "buf_sim base par w s" and step: "d_drain i w = Some w'"
  shows "matched base bd s Tau w'"
proof -
  let ?buf = "w_dbuf w"
  from step have md: "may_drain i ?buf"
    and w': "w' = w\<lparr>w_mem := commit (?buf ! i) (w_mem w), w_dbuf := drop_nth i ?buf\<rparr>"
    by (auto simp: d_drain_def split: if_splits)
  have "?buf ! i \<in> set ?buf" using md by (simp add: may_drain_def)
  then have tail: "fst (?buf ! i) \<noteq> L_Tail"
    using buf_simD(9) [OF sim] by (metis dbuf_ok_def prod.collapse)
  have load: "d_load w' = d_load w" by (simp add: d_load_def fun_eq_iff w' flush_drain [OF md])
  have "dbuf_ok w'"
    using buf_simD(9) [OF sim] set_drop_nth [of i ?buf] unfolding dbuf_ok_def by (simp add: w') blast
  moreover have "reset_ok w' s"
    using buf_simD(10) [OF sim] cells_drop_nth [of i ?buf] tail
    unfolding reset_ok_def by (simp add: w' commit_def) blast
  ultimately have "buf_sim base par w' s"
    using sim tail unfolding buf_sim_def load
    by (simp add: w' commit_def early_def thread_ok_def)
  then show ?thesis by (rule matched_none) simp
qed

lemma sim_hand_on:
  assumes sim: "buf_sim base par w s" and step: "hand_on r w = Some w'"
  shows "matched base bd s Tau w'"
proof -
  from step have r: "r \<in> w_mine w" "L_Next r \<notin> cells (w_dbuf w)"
    and w': "w' = w\<lparr>w_mine := w_mine w - {r}, w_avail := insert r (w_avail w)\<rparr>"
    by (auto simp: hand_on_def split: if_splits)
  have load: "d_load w' = d_load w" by (simp add: d_load_def fun_eq_iff w')
  have "buf_sim base par w' s"
    using sim r unfolding buf_sim_def load
    by (auto simp: w' dbuf_ok_def reset_ok_def early_def thread_ok_def cells_def image_iff)
  then show ?thesis by (rule matched_none) simp
qed

section \<open>Runs\<close>

lemma sim_is_empty_call:
  assumes sim: "buf_sim base par w s" and step: "w_is_empty_call w = Some (l, w')"
  shows "matched base bd s l w'"
  using buf_simD(3,6) [OF sim] step
  by (auto simp: w_is_empty_call_def is_empty_call_def split: deq_pc.splits if_splits
      intro!: matched_one [OF Call_Is_Empty] sim_deq_pc [OF sim])

lemma sim_peek_call:
  assumes sim: "buf_sim base par w s" and step: "w_peek_call w = Some (l, w')"
  shows "matched base bd s l w'"
  using buf_simD(3,6) [OF sim] step sim
  by (auto simp: w_peek_call_def peek_call_def split: deq_pc.splits if_splits
      intro!: matched_one [OF Call_Peek] sim_deq_pc)

lemma sim_dequeue_call:
  assumes sim: "buf_sim base par w s" and step: "w_dequeue_call w = Some (l, w')"
  shows "matched base bd s l w'"
  using buf_simD(3,6) [OF sim] step
  by (auto simp: w_dequeue_call_def dequeue_call_def split: deq_pc.splits if_splits
      intro!: matched_one [OF Call_Dequeue] sim_deq_pc [OF sim])

lemma sim_step:
  assumes "q_inv (callers base) s xs" and "buf_sim base par w s" and "ordered ord"
    and "w_step ord base bd w l w'"
  shows "matched base bd s l w'"
  using assms(4)
  by cases (blast intro: sim_enqueue_call sim_enqueue_step sim_is_empty_call sim_peek_call
      sim_dequeue_call sim_dequeuer_step sim_e_drain
      sim_d_drain sim_hand_on assms)+

lemma q_run_append: "q_run base bd s ls t \<Longrightarrow> q_run base bd t ks u \<Longrightarrow> q_run base bd s (ls @ ks) u"
  by (rotate_tac, induction rule: q_run.induct) (auto simp flip: append_assoc intro: Run_Snoc)

lemma buf_sim_init: "buf_sim base (\<lambda>_. False) (w_init elts) (q_init elts)"
  by (simp add: buf_sim_def w_init_def q_init_def d_load_def OPA_SHM_REL_NULL_def thread_ok_def
      ebuf_ok_def link_store.intros dbuf_ok_def reset_ok_def)

lemma sim_run:
  assumes "w_run ord base bd (w_init elts) ls w" and "ordered ord"
  shows "\<exists>par ks s. q_run (callers base) bd (q_init elts) ks s \<and>
    reports thread_of ks = reports id ls \<and> buf_sim base par w s"
  using assms(1)
proof (induction "w_init elts" ls w rule: w_run.induct)
  case W_Nil
  show ?case using Run_Nil buf_sim_init by (intro exI conjI) (auto simp: reports_def)
next
  case (W_Snoc ls t l u)
  then obtain par ks s where run: "q_run (callers base) bd (q_init elts) ks s"
    and r: "reports thread_of ks = reports id ls" and sim: "buf_sim base par t s"
    by blast
  obtain xs where "q_inv (callers base) s xs" using reachable_content [OF run] by blast
  from sim_step [OF this sim assms(2) W_Snoc.hyps(3)] obtain par' ks' s'
    where "q_run (callers base) bd s ks' s'" "reports thread_of ks' = reports_of id l"
      "buf_sim base par' u s'"
    by (auto simp: matched_def)
  then show ?case using q_run_append [OF run] r
    by (intro exI [of _ par'] exI [of _ "ks @ ks'"] exI [of _ s']) simp
qed

text \<open>When the enqueuers are idle and their buffers empty, no enqueue is half done.\<close>

lemma drained_pend:
  assumes sim: "buf_sim base par w s" and "\<And>p. w_enq w p = P_Idle \<and> w_ebuf w p = []"
  shows "pend (enqs s) = {}"
proof -
  have "enqs s i = P_Idle" for i
  proof -
    from caller_cases [of i par] obtain p where i: "i = caller (par p) p \<or> i = caller (\<not> par p) p" by blast
    from buf_simD(5) [OF sim, of p] assms(2) [of p] i show ?thesis
      by (auto simp: thread_ok_def)
  qed
  then show ?thesis by (simp add: pend_def)
qed

lemma answered_empty:
  "w_step ord base bd w (Is_Empty True) w' \<Longrightarrow>
     w_deq w = E_Head \<and> d_load w L_Head = 0 \<and> w' = w\<lparr>w_deq := C_Idle False\<rparr>"
  by (erule w_step.cases)
    (auto simp: w_enqueue_step_def w_is_empty_call_def w_peek_call_def w_dequeue_call_def
      w_dequeuer_step_eq OPA_SHM_REL_NULL_def Let_def
      split: enq_pc.splits deq_pc.splits if_splits)

end
