(* ===== verification/OPA_Config.thy ===== *)
theory OPA_Config
  imports OPA_Prelude
begin

text \<open>
  The configuration of the library: which platform header \<open>opa_primitives.h\<close> includes under which
  macros of \<open>opa_config.h\<close>, and, for each header, what its barrier macros and its two pointer
  operations on the tail of the queue are made of.
\<close>

section \<open>The choice of the header\<close>

text \<open>The macros that are tested, each defined or not.\<close>

record cpp_macros =
  OPA_USE_UNSAFE_PRIMITIVES :: bool
  OPA_HAVE_C11_ATOMICS :: bool
  OPA_HAVE_GCC_AND_POWERPC_ASM :: bool
  OPA_HAVE_GCC_AND_ARM_ASM :: bool
  OPA_HAVE_GCC_X86_32_64 :: bool
  OPA_HAVE_GCC_X86_32_64_P3 :: bool
  OPA_HAVE_GCC_AND_IA64_ASM :: bool
  OPA_HAVE_GCC_AND_SICORTEX_ASM :: bool
  OPA_HAVE_GCC_INTRINSIC_ATOMICS :: bool
  OPA_HAVE_SUN_ATOMIC_OPS :: bool
  OPA_HAVE_NT_INTRINSICS :: bool
  OPA_USE_LOCK_BASED_PRIMITIVES :: bool

datatype port =
    Unsafe
  | C11
  | Gcc_Ppc
  | Gcc_Arm
  | Gcc_X86
  | Gcc_X86_P3
  | Gcc_IA64
  | Gcc_Sicortex
  | Gcc_Intrinsics
  | Sun
  | NT
  | By_Lock

text \<open>\<open>None\<close> is the \<open>#error\<close> of the last branch.\<close>

definition included_port :: "cpp_macros \<Rightarrow> port option" where
  "included_port c =
     (if OPA_USE_UNSAFE_PRIMITIVES c then Some Unsafe
      else if OPA_HAVE_C11_ATOMICS c then Some C11
      else if OPA_HAVE_GCC_AND_POWERPC_ASM c then Some Gcc_Ppc
      else if OPA_HAVE_GCC_AND_ARM_ASM c then Some Gcc_Arm
      else if OPA_HAVE_GCC_X86_32_64 c then Some Gcc_X86
      else if OPA_HAVE_GCC_X86_32_64_P3 c then Some Gcc_X86_P3
      else if OPA_HAVE_GCC_AND_IA64_ASM c then Some Gcc_IA64
      else if OPA_HAVE_GCC_AND_SICORTEX_ASM c then Some Gcc_Sicortex
      else if OPA_HAVE_GCC_INTRINSIC_ATOMICS c then Some Gcc_Intrinsics
      else if OPA_HAVE_SUN_ATOMIC_OPS c then Some Sun
      else if OPA_HAVE_NT_INTRINSICS c then Some NT
      else if OPA_USE_LOCK_BASED_PRIMITIVES c then Some By_Lock
      else None)"

text \<open>A configuration in which nothing was found.\<close>

definition no_macros :: cpp_macros where
  "no_macros = \<lparr>OPA_USE_UNSAFE_PRIMITIVES = False, OPA_HAVE_C11_ATOMICS = False,
     OPA_HAVE_GCC_AND_POWERPC_ASM = False, OPA_HAVE_GCC_AND_ARM_ASM = False,
     OPA_HAVE_GCC_X86_32_64 = False, OPA_HAVE_GCC_X86_32_64_P3 = False,
     OPA_HAVE_GCC_AND_IA64_ASM = False, OPA_HAVE_GCC_AND_SICORTEX_ASM = False,
     OPA_HAVE_GCC_INTRINSIC_ATOMICS = False, OPA_HAVE_SUN_ATOMIC_OPS = False,
     OPA_HAVE_NT_INTRINSICS = False, OPA_USE_LOCK_BASED_PRIMITIVES = False\<rparr>"

text \<open>The user's override comes first and the mutex last.\<close>

lemma included_port_override: "OPA_USE_UNSAFE_PRIMITIVES c \<Longrightarrow> included_port c = Some Unsafe"
  by (simp add: included_port_def)

lemma included_port_by_lock: "included_port c = Some By_Lock \<longleftrightarrow>
    c = no_macros\<lparr>OPA_USE_LOCK_BASED_PRIMITIVES := True\<rparr>"
  by (cases c) (auto simp: included_port_def no_macros_def split: if_splits)

lemma included_port_error: "included_port c = None \<longleftrightarrow> c = no_macros"
  by (cases c) (auto simp: included_port_def no_macros_def split: if_splits)

section \<open>What the barriers and the operations on the tail are made of\<close>

text \<open>Instructions, built-ins and library functions the headers name, by their mnemonics.\<close>

datatype instr =
    Nothing
  | Compiler_Barrier
  | Mfence | Lock_Or
  | Fence_Acq_Rel
  | Eieio | Lwsync | Hwsync
  | Dmb | Dsb
  | Mf
  | Sync_Mips
  | Sync_Synchronize
  | Membar_Producer | Membar_Consumer | Membar_Both | Membar_Enter | Membar_Exit
  | Write_Barrier_Msc | Read_Barrier_Msc | Read_Write_Barrier_Msc
  | Plain_Access
  | Mutex_Section
  | Load_Relaxed | Store_Relaxed | Load_Acquire | Store_Release
  | Lock_Cmpxchg | Xchg
  | Exchange_Relaxed | Compare_Exchange_Relaxed
  | Lwarx_Stwcx | Ldrex_Strex | Ll_Sc_Mips
  | Cmpxchg_Rel | Xchg_Ia64
  | Val_Compare_And_Swap | Lock_Test_And_Set
  | Atomic_Cas | Atomic_Swap
  | Interlocked_Compare_Exchange | Interlocked_Exchange
  | Lock_Inc | Fetch_Add_Relaxed | Fetchadd4 | Fetch_And_Add | Lock_Release | Atomic_Inc
  | Interlocked_Increment

text \<open>\<open>None\<close>: the header does not define the compiler barrier.\<close>

record barrier_macros =
  write_barrier :: instr
  read_barrier :: instr
  read_write_barrier :: instr
  compiler_barrier :: "instr option"

definition barriers_unsafe :: barrier_macros where
  "barriers_unsafe = \<lparr>write_barrier = Nothing, read_barrier = Nothing, read_write_barrier = Nothing,
     compiler_barrier = Some Nothing\<rparr>"

definition barriers_by_lock :: barrier_macros where
  "barriers_by_lock = \<lparr>write_barrier = Nothing, read_barrier = Nothing, read_write_barrier = Nothing,
     compiler_barrier = None\<rparr>"

definition barriers_c11 :: barrier_macros where
  "barriers_c11 = \<lparr>write_barrier = Fence_Acq_Rel, read_barrier = Fence_Acq_Rel,
     read_write_barrier = Fence_Acq_Rel, compiler_barrier = Some Compiler_Barrier\<rparr>"

definition barriers_ppc :: barrier_macros where
  "barriers_ppc = \<lparr>write_barrier = Eieio, read_barrier = Lwsync, read_write_barrier = Hwsync,
     compiler_barrier = Some Compiler_Barrier\<rparr>"

definition barriers_arm :: barrier_macros where
  "barriers_arm = \<lparr>write_barrier = Dsb, read_barrier = Dmb, read_write_barrier = Dsb,
     compiler_barrier = Some Compiler_Barrier\<rparr>"

definition barriers_x86 :: barrier_macros where
  "barriers_x86 = \<lparr>write_barrier = Compiler_Barrier, read_barrier = Compiler_Barrier,
     read_write_barrier = Mfence, compiler_barrier = Some Compiler_Barrier\<rparr>"

definition barriers_x86_p3 :: barrier_macros where
  "barriers_x86_p3 = \<lparr>write_barrier = Compiler_Barrier, read_barrier = Compiler_Barrier,
     read_write_barrier = Lock_Or, compiler_barrier = Some Compiler_Barrier\<rparr>"

definition barriers_ia64 :: barrier_macros where
  "barriers_ia64 = \<lparr>write_barrier = Mf, read_barrier = Mf, read_write_barrier = Mf,
     compiler_barrier = Some Compiler_Barrier\<rparr>"

definition barriers_sicortex :: barrier_macros where
  "barriers_sicortex = \<lparr>write_barrier = Sync_Mips, read_barrier = Sync_Mips,
     read_write_barrier = Sync_Mips, compiler_barrier = Some Compiler_Barrier\<rparr>"

definition barriers_gcc :: barrier_macros where
  "barriers_gcc = \<lparr>write_barrier = Sync_Synchronize, read_barrier = Sync_Synchronize,
     read_write_barrier = Sync_Synchronize, compiler_barrier = Some Compiler_Barrier\<rparr>"

definition barriers_sun :: barrier_macros where
  "barriers_sun = \<lparr>write_barrier = Membar_Producer, read_barrier = Membar_Consumer,
     read_write_barrier = Membar_Both, compiler_barrier = Some Compiler_Barrier\<rparr>"

definition barriers_nt :: barrier_macros where
  "barriers_nt = \<lparr>write_barrier = Write_Barrier_Msc, read_barrier = Read_Barrier_Msc,
     read_write_barrier = Read_Write_Barrier_Msc, compiler_barrier = Some Read_Write_Barrier_Msc\<rparr>"

fun barriers_of :: "port \<Rightarrow> barrier_macros" where
  "barriers_of Unsafe = barriers_unsafe"
| "barriers_of C11 = barriers_c11"
| "barriers_of Gcc_Ppc = barriers_ppc"
| "barriers_of Gcc_Arm = barriers_arm"
| "barriers_of Gcc_X86 = barriers_x86"
| "barriers_of Gcc_X86_P3 = barriers_x86_p3"
| "barriers_of Gcc_IA64 = barriers_ia64"
| "barriers_of Gcc_Sicortex = barriers_sicortex"
| "barriers_of Gcc_Intrinsics = barriers_gcc"
| "barriers_of Sun = barriers_sun"
| "barriers_of NT = barriers_nt"
| "barriers_of By_Lock = barriers_by_lock"

text \<open>
  What \<open>OPA_cas_ptr\<close> and \<open>OPA_swap_ptr\<close> of each header come down to. PowerPC and ARM take the loops of
  \<open>opa_emulated.h\<close>, whose only accesses are the header's load-linked and store-conditional. The GCC
  port exchanges at once or, where the built-in is no swap, takes the loop over its
  compare-and-swap.
\<close>

definition cas_ptr_unsafe :: instr where
  "cas_ptr_unsafe = Plain_Access"

definition swap_ptr_unsafe :: instr where
  "swap_ptr_unsafe = Plain_Access"

definition cas_ptr_c11 :: instr where
  "cas_ptr_c11 = Compare_Exchange_Relaxed"

definition swap_ptr_c11 :: instr where
  "swap_ptr_c11 = Exchange_Relaxed"

definition ll_sc_ptr_ppc :: instr where
  "ll_sc_ptr_ppc = Lwarx_Stwcx"

definition ll_sc_ptr_arm :: instr where
  "ll_sc_ptr_arm = Ldrex_Strex"

definition cas_ptr_x86 :: instr where
  "cas_ptr_x86 = Lock_Cmpxchg"

definition swap_ptr_x86 :: instr where
  "swap_ptr_x86 = Xchg"

definition cas_ptr_ia64 :: instr where
  "cas_ptr_ia64 = Cmpxchg_Rel"

definition swap_ptr_ia64 :: instr where
  "swap_ptr_ia64 = Xchg_Ia64"

definition cas_ptr_sicortex :: instr where
  "cas_ptr_sicortex = Ll_Sc_Mips"

definition swap_ptr_sicortex :: instr where
  "swap_ptr_sicortex = Ll_Sc_Mips"

definition cas_ptr_gcc :: instr where
  "cas_ptr_gcc = Val_Compare_And_Swap"

definition swap_ptr_gcc :: "bool \<Rightarrow> instr" where
  "swap_ptr_gcc tas_is_swap = (if tas_is_swap then Lock_Test_And_Set else cas_ptr_gcc)"

definition cas_ptr_sun :: instr where
  "cas_ptr_sun = Atomic_Cas"

definition swap_ptr_sun :: instr where
  "swap_ptr_sun = Atomic_Swap"

definition cas_ptr_nt :: instr where
  "cas_ptr_nt = Interlocked_Compare_Exchange"

definition swap_ptr_nt :: instr where
  "swap_ptr_nt = Interlocked_Exchange"

definition cas_ptr_by_lock :: instr where
  "cas_ptr_by_lock = Mutex_Section"

definition swap_ptr_by_lock :: instr where
  "swap_ptr_by_lock = Mutex_Section"

fun cas_ptr_of :: "port \<Rightarrow> instr" where
  "cas_ptr_of Unsafe = cas_ptr_unsafe"
| "cas_ptr_of C11 = cas_ptr_c11"
| "cas_ptr_of Gcc_Ppc = ll_sc_ptr_ppc"
| "cas_ptr_of Gcc_Arm = ll_sc_ptr_arm"
| "cas_ptr_of Gcc_X86 = cas_ptr_x86"
| "cas_ptr_of Gcc_X86_P3 = cas_ptr_x86"
| "cas_ptr_of Gcc_IA64 = cas_ptr_ia64"
| "cas_ptr_of Gcc_Sicortex = cas_ptr_sicortex"
| "cas_ptr_of Gcc_Intrinsics = cas_ptr_gcc"
| "cas_ptr_of Sun = cas_ptr_sun"
| "cas_ptr_of NT = cas_ptr_nt"
| "cas_ptr_of By_Lock = cas_ptr_by_lock"

fun swap_ptr_of :: "bool \<Rightarrow> port \<Rightarrow> instr" where
  "swap_ptr_of tas_is_swap Unsafe = swap_ptr_unsafe"
| "swap_ptr_of tas_is_swap C11 = swap_ptr_c11"
| "swap_ptr_of tas_is_swap Gcc_Ppc = ll_sc_ptr_ppc"
| "swap_ptr_of tas_is_swap Gcc_Arm = ll_sc_ptr_arm"
| "swap_ptr_of tas_is_swap Gcc_X86 = swap_ptr_x86"
| "swap_ptr_of tas_is_swap Gcc_X86_P3 = swap_ptr_x86"
| "swap_ptr_of tas_is_swap Gcc_IA64 = swap_ptr_ia64"
| "swap_ptr_of tas_is_swap Gcc_Sicortex = swap_ptr_sicortex"
| "swap_ptr_of tas_is_swap Gcc_Intrinsics = swap_ptr_gcc tas_is_swap"
| "swap_ptr_of tas_is_swap Sun = swap_ptr_sun"
| "swap_ptr_of tas_is_swap NT = swap_ptr_nt"
| "swap_ptr_of tas_is_swap By_Lock = swap_ptr_by_lock"

lemmas pointer_rmw_defs = cas_ptr_unsafe_def swap_ptr_unsafe_def cas_ptr_c11_def swap_ptr_c11_def
  ll_sc_ptr_ppc_def ll_sc_ptr_arm_def cas_ptr_x86_def swap_ptr_x86_def cas_ptr_ia64_def
  swap_ptr_ia64_def cas_ptr_sicortex_def swap_ptr_sicortex_def cas_ptr_gcc_def swap_ptr_gcc_def
  cas_ptr_sun_def swap_ptr_sun_def cas_ptr_nt_def swap_ptr_nt_def cas_ptr_by_lock_def
  swap_ptr_by_lock_def

lemmas barriers_defs = barriers_unsafe_def barriers_by_lock_def barriers_c11_def barriers_ppc_def
  barriers_arm_def barriers_x86_def barriers_x86_p3_def barriers_ia64_def barriers_sicortex_def
  barriers_gcc_def barriers_sun_def barriers_nt_def

end
