(* ===== verification/OPA_Barriers.thy ===== *)
theory OPA_Barriers
  imports OPA_Buffers_Refine OPA_Config
begin

text \<open>
  What the memory barriers are for. The queue needs two things of a port: the compare-and-swap of
  the dequeue has to wait for the earlier stores of the dequeuer, and the swap of the enqueue for
  those of the enqueuer, by itself or by the write barrier before it. With both the queue keeps its
  promises in spite of the store buffers; without the first an element is lost, without the second
  the dequeuer hangs.
\<close>

section \<open>Schedules and the threads they do not name\<close>

fun w_thread :: "w_action \<Rightarrow> nat option" where
  "w_thread (WA_Enqueue p elt) = Some p"
| "w_thread (WA_Enqueuer p) = Some p"
| "w_thread (WA_Drain_Enqueuer p i) = Some p"
| "w_thread _ = None"

lemma w_exec_frame:
  "w_exec ord base bd a w = Some (l, w') \<Longrightarrow> w_thread a \<noteq> Some p \<Longrightarrow>
     w_enq w' p = w_enq w p \<and> w_ebuf w' p = w_ebuf w p"
  by (cases a)
    (auto simp: w_enqueue_call_def w_enqueue_step_def w_is_empty_call_def w_peek_call_def
      w_dequeue_call_def w_dequeuer_step_eq e_drain_def d_drain_def hand_on_def e_store_def
      d_store_def Let_def split: enq_pc.splits deq_pc.splits if_splits)

lemma w_schedule_frame:
  "w_schedule ord base bd as w = Some (ls, t) \<Longrightarrow> \<forall>a \<in> set as. w_thread a \<noteq> Some p \<Longrightarrow>
     w_enq t p = w_enq w p \<and> w_ebuf t p = w_ebuf w p"
proof (induction as arbitrary: w ls)
  case (Cons a as)
  then obtain l u ks where "w_exec ord base bd a w = Some (l, u)" "w_schedule ord base bd as u = Some (ks, t)"
    by (auto split: option.splits)
  with Cons.IH [of u ks] Cons.prems(2) w_exec_frame [of ord base bd a w l u p] show ?case by simp
qed simp

text \<open>Two enqueuers: all the others stay idle with empty buffers.\<close>

definition two_threads :: "w_action list \<Rightarrow> bool" where
  "two_threads as \<longleftrightarrow> (\<forall>a \<in> set as. w_thread a \<in> {None, Some 0, Some 1})"

definition enqueuers_done :: "wstate \<Rightarrow> bool" where
  "enqueuers_done w \<longleftrightarrow> (\<forall>p \<in> {0, 1}. w_enq w p = P_Idle \<and> w_ebuf w p = [])"

lemma two_threads_done:
  assumes "\<not> Option.is_none (w_schedule ord base bd as (w_init elts))" and "two_threads as"
    and "enqueuers_done (w_end ord base bd as (w_init elts))"
  shows "w_enq (w_end ord base bd as (w_init elts)) p = P_Idle \<and>
    w_ebuf (w_end ord base bd as (w_init elts)) p = []"
proof (cases "p = 0 \<or> p = 1")
  case True
  with assms(3) show ?thesis by (auto simp: enqueuers_done_def)
next
  case False
  with assms(2) have "\<forall>a \<in> set as. w_thread a \<noteq> Some p" by (auto simp: two_threads_def)
  with assms(1) show ?thesis
    using w_schedule_frame [of ord base bd as "w_init elts" _ _ p]
    by (auto simp: Option.is_none_def w_end_def w_init_def)
qed

section \<open>Schedules\<close>

text \<open>The enqueue of an element on an empty queue, every store drained at once.\<close>

definition enqueue_now :: "nat \<Rightarrow> addr \<Rightarrow> w_action list" where
  "enqueue_now p elt = [WA_Enqueue p elt, WA_Enqueuer p, WA_Drain_Enqueuer p 0, WA_Enqueuer p,
     WA_Enqueuer p, WA_Drain_Enqueuer p 0]"

definition is_empty_fully :: "w_action list" where
  "is_empty_fully = WA_Is_Empty # replicate 4 WA_Dequeuer"

text \<open>
  The reset of the head stays in the buffer of the dequeuer while its compare-and-swap empties the
  queue and the next enqueue writes the head; then it drains. At the return of the dequeue the
  buffer is empty.
\<close>

definition late_reset :: "w_action list" where
  "late_reset = enqueue_now 0 4160 @ is_empty_fully @
     [WA_Dequeue, WA_Dequeuer, WA_Dequeuer, WA_Dequeuer] @ enqueue_now 1 8320 @
     [WA_Drain_Dequeuer 0, WA_Drain_Dequeuer 0, WA_Drain_Dequeuer 0, WA_Dequeuer, WA_Drain_Dequeuer 0,
      WA_Is_Empty, WA_Dequeuer]"

text \<open>The null of an element stays in the buffer of its enqueuer until the next one has linked to it.\<close>

definition late_null :: "w_action list" where
  "late_null = [WA_Enqueue 0 4160, WA_Enqueuer 0, WA_Enqueuer 0, WA_Enqueuer 0, WA_Drain_Enqueuer 0 1] @
     enqueue_now 1 8320 @ [WA_Drain_Enqueuer 0 0] @ is_empty_fully @
     [WA_Drain_Dequeuer 0, WA_Drain_Dequeuer 0, WA_Dequeue, WA_Dequeuer, WA_Dequeuer, WA_Drain_Dequeuer 0,
      WA_Dequeuer]"

text \<open>Two elements go through the queue, each store drained when the hardware has to.\<close>

definition in_order :: "w_action list" where
  "in_order = enqueue_now 0 4160 @ is_empty_fully @
     [WA_Dequeue, WA_Dequeuer, WA_Dequeuer, WA_Drain_Dequeuer 1, WA_Drain_Dequeuer 0,
      WA_Drain_Dequeuer 0, WA_Dequeuer] @ enqueue_now 1 8320 @
     [WA_Dequeuer] @ is_empty_fully @
     [WA_Dequeue, WA_Dequeuer, WA_Dequeuer] @ replicate 4 (WA_Drain_Dequeuer 0) @
     [WA_Dequeuer, WA_Dequeuer, WA_Drain_Dequeuer 0, WA_Is_Empty, WA_Dequeuer]"

abbreviation "elts2 \<equiv> {64, 128} :: addr set"

text \<open>What such a schedule ends with: its labels, and whether everything has reached the memory.\<close>

definition outcome :: "ordering \<Rightarrow> w_action list \<Rightarrow> qlabel list \<Rightarrow> deq_pc \<Rightarrow> bool" where
  "outcome ord as ls pc \<longleftrightarrow>
     (case w_schedule ord sample_base 65536 as (w_init elts2) of
        None \<Rightarrow> False
      | Some (ks, t) \<Rightarrow> ks = ls \<and> w_deq t = pc \<and> w_dbuf t = [] \<and> enqueuers_done t)"

lemma outcome_run:
  assumes "outcome ord as ls pc" and "two_threads as"
  shows "\<exists>t. w_run ord sample_base 65536 (w_init elts2) ls t \<and> w_deq t = pc \<and> w_dbuf t = [] \<and>
    (\<forall>p. w_enq t p = P_Idle \<and> w_ebuf t p = []) \<and> t = w_end ord sample_base 65536 as (w_init elts2)"
proof -
  from assms(1) obtain t where t: "w_schedule ord sample_base 65536 as (w_init elts2) = Some (ls, t)"
    and pc: "w_deq t = pc" "w_dbuf t = []" "enqueuers_done t"
    by (auto simp: outcome_def split: option.splits)
  then have e: "t = w_end ord sample_base 65536 as (w_init elts2)" by (simp add: w_end_def)
  have "w_enq t p = P_Idle \<and> w_ebuf t p = []" for p
    unfolding e by (rule two_threads_done) (use t pc(3) assms(2) in \<open>auto simp: Option.is_none_def w_end_def\<close>)
  with pc w_schedule_run [OF t] e show ?thesis by blast
qed

lemma schedules_two_threads: "two_threads late_reset" "two_threads late_null" "two_threads in_order"
  by code_simp+

definition late_reset_labels :: "qlabel list" where
  "late_reset_labels =
     [Tau, Tau, Tau, Swapped 0 64, Enqueued 0 64, Tau, Tau, Tau, Tau, Tau, Is_Empty False,
      Tau, Tau, Tau, Removed 64, Tau, Tau, Tau, Swapped 1 128, Enqueued 1 128, Tau,
      Tau, Tau, Tau, Dequeued (abs_of 65536 64), Tau, Tau]"

definition late_null_labels :: "qlabel list" where
  "late_null_labels =
     [Tau, Tau, Swapped 0 64, Enqueued 0 64, Tau, Tau, Tau, Tau, Swapped 1 128, Enqueued 1 128, Tau, Tau,
      Tau, Tau, Tau, Tau, Is_Empty False, Tau, Tau, Tau, Tau, Tau, Tau, Tau]"

definition in_order_labels :: "qlabel list" where
  "in_order_labels =
     [Tau, Tau, Tau, Swapped 0 64, Enqueued 0 64, Tau, Tau, Tau, Tau, Tau, Is_Empty False,
      Tau, Tau, Tau, Tau, Tau, Tau, Removed 64, Tau, Tau, Tau, Swapped 1 128, Enqueued 1 128, Tau,
      Dequeued (abs_of 65536 64), Tau, Tau, Tau, Tau, Is_Empty False, Tau, Tau, Tau,
      Tau, Tau, Tau, Tau, Removed 128, Dequeued (abs_of 65536 128), Tau, Tau]"

lemma late_reset_outcome:
  assumes "\<not> cas_release ord"
  shows "outcome ord late_reset (late_reset_labels @ [Is_Empty True]) (C_Idle False)"
proof -
  have "outcome \<lparr>swap_release = a, cas_release = False, wb_orders = b\<rparr> late_reset
    (late_reset_labels @ [Is_Empty True]) (C_Idle False)" for a b
    by (cases a; cases b; simp only:; code_simp)
  with assms show ?thesis by (cases ord) simp
qed

lemma late_null_outcome:
  assumes "\<not> swap_release ord" and "\<not> wb_orders ord"
  shows "outcome ord late_null late_null_labels (D_Wait 64)"
proof -
  have "outcome \<lparr>swap_release = False, cas_release = a, wb_orders = False\<rparr> late_null
    late_null_labels (D_Wait 64)" for a
    by (cases a; simp only:; code_simp)
  with assms show ?thesis by (cases ord) simp
qed

lemma late_null_link:
  assumes "\<not> swap_release ord" and "\<not> wb_orders ord"
  shows "w_mem (w_end ord sample_base 65536 late_null (w_init elts2)) (L_Next 64) = 0"
proof -
  have "w_mem (w_end \<lparr>swap_release = False, cas_release = a, wb_orders = False\<rparr> sample_base 65536
    late_null (w_init elts2)) (L_Next 64) = 0" for a
    by (cases a; simp only:; code_simp)
  with assms show ?thesis by (cases ord) simp
qed

definition full_order :: ordering where
  "full_order = \<lparr>swap_release = True, cas_release = True, wb_orders = True\<rparr>"

lemma in_order_outcome: "outcome full_order in_order (in_order_labels @ [Is_Empty True]) (C_Idle False)"
  by code_simp

text \<open>The histories of the three label lists.\<close>

lemma label_histories:
  "swapped late_reset_labels = [64, 128]" "removed late_reset_labels = [64]"
  "Enqueued 1 128 \<in> set late_reset_labels"
  "swapped late_null_labels = [64, 128]" "removed late_null_labels = []"
  "swapped in_order_labels = [64, 128]"
  by (simp_all add: history_defs late_reset_labels_def late_null_labels_def in_order_labels_def)

lemma outcome_settled:
  assumes "outcome ord as ls (C_Idle b)" and "two_threads as"
  shows "\<exists>t. w_run ord sample_base 65536 (w_init elts2) ls t \<and> settled t"
  using outcome_run [OF assms] by (auto simp: settled_def)

lemmas in_order_run = outcome_settled [OF in_order_outcome schedules_two_threads(3)]

lemma full_order_ordered: "ordered full_order"
  by (simp add: full_order_def ordered_def)

section \<open>What is kept and what is lost\<close>

lemma run_loses_nothing:
  assumes "ordered ord" and "w_run ord base bd (w_init elts) (ls @ [Is_Empty True]) w" and "settled w"
  shows "removed ls = swapped ls"
proof -
  from assms(2) obtain v where run: "w_run ord base bd (w_init elts) ls v"
    and step: "w_step ord base bd v (Is_Empty True) w"
    by cases auto
  from sim_run [OF run assms(1)] obtain par ks s where q: "q_run (callers base) bd (q_init elts) ks s"
    and r: "reports thread_of ks = reports id ls" and sim: "buf_sim base par v s"
    by blast
  note hist = histories_of_reports [of thread_of ks, unfolded r histories_of_reports]
  from answered_empty [OF step] have v: "w_deq v = E_Head" "d_load v L_Head = 0"
    and w: "w = v\<lparr>w_deq := C_Idle False\<rparr>" by blast+
  have pend: "pend (enqs s) = {}"
    using assms(3) by (intro drained_pend [OF sim]) (simp add: settled_def w)
  obtain xs where inv: "q_inv (callers base) s xs" and xs: "swapped ks = removed ks @ xs"
    using reachable_content [OF q] by blast
  have "eff_head s = 0" "eff_shadow s = 0"
    using v buf_simD(2,6) [OF sim] q_invD(6) [OF inv] by (simp_all add: eff_head_def eff_shadow_def deq_ok_def)
  with front_none q_invD(2,5) [OF inv] pend have "xs = []" by fastforce
  with xs hist show ?thesis by simp
qed

lemma buffered_fifo:
  assumes "ordered ord" and "w_run ord base bd (w_init elts) ls w"
  shows "prefix (map (cell bd) (dequeued_elts ls)) (swapped ls)"
proof -
  from sim_run [OF assms(2,1)] obtain par ks s where q: "q_run (callers base) bd (q_init elts) ks s"
    and r: "reports thread_of ks = reports id ls"
    by blast
  from run_fifo [OF q] histories_of_reports [of thread_of ks, unfolded r histories_of_reports]
  show ?thesis by simp
qed

lemma late_reset_loses:
  assumes "\<not> cas_release ord"
  shows "\<exists>ls w. w_run ord sample_base 65536 (w_init {64, 128}) (ls @ [Is_Empty True]) w \<and> settled w \<and>
    Enqueued 1 128 \<in> set ls \<and> swapped ls = [64, 128] \<and> removed ls = [64]"
  using outcome_settled [OF late_reset_outcome [OF assms] schedules_two_threads(1)]
    label_histories(1-3) by blast

section \<open>Ports\<close>

text \<open>
  What the documentation of the processors and the compilers says of the instructions: which of
  them let the earlier stores of their thread reach the memory first. Nothing is said of the
  functions of \<open><atomic.h>\<close> on Solaris, whose ordering is left to the \<open>membar\<close> functions.
\<close>

definition documented_order :: "(instr \<Rightarrow> bool) \<Rightarrow> bool" where
  "documented_order drains \<longleftrightarrow>
     (\<forall>i \<in> {Lock_Cmpxchg, Xchg, Cmpxchg_Rel, Mf, Val_Compare_And_Swap, Sync_Synchronize,
        Interlocked_Compare_Exchange, Interlocked_Exchange, Mutex_Section, Fence_Acq_Rel, Eieio, Dsb,
        Sync_Mips, Membar_Producer}. drains i) \<and>
     (\<forall>i \<in> {Nothing, Compiler_Barrier, Write_Barrier_Msc, Plain_Access, Compare_Exchange_Relaxed,
        Exchange_Relaxed, Lwarx_Stwcx, Ldrex_Strex, Ll_Sc_Mips, Xchg_Ia64}. \<not> drains i)"

definition port_ordering :: "(instr \<Rightarrow> bool) \<Rightarrow> bool \<Rightarrow> port \<Rightarrow> ordering" where
  "port_ordering drains tas_is_swap p = \<lparr>swap_release = drains (swap_ptr_of tas_is_swap p),
     cas_release = drains (cas_ptr_of p), wb_orders = drains (write_barrier (barriers_of p))\<rparr>"

text \<open>Those whose compare-and-swap is documented to wait for the earlier stores.\<close>

definition releasing_ports :: "port set" where
  "releasing_ports = {Gcc_X86, Gcc_X86_P3, Gcc_IA64, Gcc_Intrinsics, NT, By_Lock}"

text \<open>Those whose swap is documented to be a barrier itself; their write barriers are for the compiler.\<close>

definition swapping_ports :: "port set" where
  "swapping_ports = {Gcc_X86, Gcc_X86_P3, NT, By_Lock}"

lemma port_swap:
  "documented_order drains \<Longrightarrow> p \<noteq> Unsafe \<Longrightarrow>
     (if p \<in> swapping_ports then swap_release (port_ordering drains tas_is_swap p)
      else wb_orders (port_ordering drains tas_is_swap p))"
  by (cases p) (simp_all add: documented_order_def swapping_ports_def port_ordering_def barriers_defs
      pointer_rmw_defs)

lemma port_cas:
  "documented_order drains \<Longrightarrow> p \<noteq> Unsafe \<Longrightarrow>
     cas_release (port_ordering drains tas_is_swap p) \<longleftrightarrow>
       p \<in> releasing_ports \<or> p = Sun \<and> drains (cas_ptr_of Sun)"
  by (cases p) (simp_all add: documented_order_def releasing_ports_def port_ordering_def pointer_rmw_defs)

text \<open>An assignment of the documented orders, with Solaris unordered.\<close>

definition documented_drains :: "instr \<Rightarrow> bool" where
  "documented_drains i \<longleftrightarrow> i \<in> {Lock_Cmpxchg, Xchg, Cmpxchg_Rel, Mf, Val_Compare_And_Swap, Sync_Synchronize,
     Interlocked_Compare_Exchange, Interlocked_Exchange, Mutex_Section, Fence_Acq_Rel, Eieio, Dsb,
     Sync_Mips, Membar_Producer, Mfence, Lock_Or, Lwsync, Hwsync, Dmb, Membar_Both}"

lemma documented_drains: "documented_order documented_drains"
  by (simp add: documented_order_def documented_drains_def)

section \<open>Properties\<close>

text \<open>
  C4. Store buffers cannot be seen by the clients of the queue on a port that orders what the queue
  needs ordered: every run of the machine with store buffers has a run of the sequentially
  consistent one in which the dequeuer gets the same answers and the tail is swapped for the same
  elements by the same threads, all in the same order.
\<close>

theorem buffered_queue_is_sequential:
  assumes "ordered ord" and "w_run ord base bd (w_init elts) ls w"
  shows "\<exists>ks s. q_run (callers base) bd (q_init elts) ks s \<and> reports thread_of ks = reports id ls"
  using sim_run [OF assms(2,1)] by blast

theorem buffered_queue_is_sequential_witness:
  "\<exists>ks s. q_run (callers sample_base) 65536 (q_init elts2) ks s \<and>
     reports thread_of ks = reports id (in_order_labels @ [Is_Empty True]) \<and>
     swapped in_order_labels = [64, 128]"
  using in_order_run buffered_queue_is_sequential [OF full_order_ordered] label_histories(6) by blast

text \<open>
  C5. Nothing is lost, duplicated or overtaken because of the store buffers on such a port. After
  every run the dequeuer has returned the first elements in the order of the swaps. After one that
  ends with the answer 1 of \<open>OPA_Queue_is_empty\<close>, all calls returned and all stores in the memory,
  everything that was put on the queue has been taken off.
\<close>

theorem buffered_queue_loses_nothing:
  assumes "ordered ord" and "w_run ord base bd (w_init elts) ls w"
  shows "prefix (map (cell bd) (dequeued_elts ls)) (swapped ls) \<and>
    (\<forall>ks. ls = ks @ [Is_Empty True] \<and> settled w \<longrightarrow> removed ks = swapped ks)"
  using buffered_fifo [OF assms] run_loses_nothing [OF assms(1), of base bd elts _ w] assms(2) by blast

theorem buffered_queue_loses_nothing_witness:
  "prefix (map (cell 65536) (dequeued_elts in_order_labels)) [64, 128] \<and> removed in_order_labels = [64, 128]"
proof -
  obtain t where "w_run full_order sample_base 65536 (w_init elts2) (in_order_labels @ [Is_Empty True]) t"
    "settled t" using in_order_run by blast
  with buffered_queue_loses_nothing [OF full_order_ordered this(1)] label_histories(6) show ?thesis
    by (simp add: history_defs)
qed

text \<open>
  C7. Without the first half of the order an element is lost. When the compare-and-swap of the
  dequeue may overtake the reset of the head in \<open>OPA_Queue_is_empty\<close>, there is a run, whatever else
  the port orders, in which the reset overwrites the head that a later enqueue has written: all
  calls have returned, everything has reached the memory, and \<open>OPA_Queue_is_empty\<close> answers 1
  although an element was put on the queue and never taken off.
\<close>

theorem cas_without_release_loses:
  assumes "\<not> cas_release ord"
  shows "\<exists>ls w. w_run ord sample_base 65536 (w_init {64, 128}) (ls @ [Is_Empty True]) w \<and> settled w \<and>
    Enqueued 1 128 \<in> set ls \<and> swapped ls = [64, 128] \<and> removed ls = [64]"
  using assms by (rule late_reset_loses)

theorem cas_without_release_loses_witness:
  "\<exists>ls w. w_run \<lparr>swap_release = True, cas_release = False, wb_orders = True\<rparr> sample_base 65536
     (w_init {64, 128}) (ls @ [Is_Empty True]) w \<and> settled w \<and> swapped ls = [64, 128] \<and> removed ls = [64]"
  using cas_without_release_loses [of "\<lparr>swap_release = True, cas_release = False, wb_orders = True\<rparr>"]
  by auto

text \<open>
  C8. Without the second half the dequeuer hangs. When neither the swap nor the write barrier of
  the enqueue makes the null of the new element's link reach the memory first, there is a run after
  which no enqueue is in progress, every store has reached the memory, and the dequeuer waits
  forever for a link that was written and then overwritten by that null.
\<close>

theorem swap_without_barrier_hangs:
  assumes "\<not> swap_release ord" and "\<not> wb_orders ord"
  shows "\<exists>ls w. w_run ord sample_base 65536 (w_init {64, 128}) ls w \<and>
    (\<forall>p. w_enq w p = P_Idle \<and> w_ebuf w p = []) \<and> w_dbuf w = [] \<and>
    w_dequeuer_step ord 65536 w = Some (Tau, w) \<and> swapped ls = [64, 128] \<and> removed ls = []"
proof -
  from outcome_run [OF late_null_outcome [OF assms] schedules_two_threads(2)] obtain w
    where run: "w_run ord sample_base 65536 (w_init elts2) late_null_labels w"
      and w: "w_deq w = D_Wait 64" "w_dbuf w = []" "\<forall>p. w_enq w p = P_Idle \<and> w_ebuf w p = []"
      and e: "w = w_end ord sample_base 65536 late_null (w_init elts2)"
    by blast
  have "w_mem w (L_Next 64) = 0" unfolding e by (rule late_null_link [OF assms])
  with w have "w_dequeuer_step ord 65536 w = Some (Tau, w)"
    by (simp add: w_dequeuer_step_eq d_load_def OPA_SHM_REL_NULL_def)
  with run w label_histories(4,5) show ?thesis by blast
qed

theorem swap_without_barrier_hangs_witness:
  "\<exists>ls w. w_run \<lparr>swap_release = False, cas_release = True, wb_orders = False\<rparr> sample_base 65536
     (w_init {64, 128}) ls w \<and> (\<forall>p. w_enq w p = P_Idle) \<and>
     w_dequeuer_step \<lparr>swap_release = False, cas_release = True, wb_orders = False\<rparr> 65536 w = Some (Tau, w) \<and>
     swapped ls = [64, 128] \<and> removed ls = []"
  using swap_without_barrier_hangs [of "\<lparr>swap_release = False, cas_release = True, wb_orders = False\<rparr>"]
  by auto

text \<open>
  C6. Port by port. On every port with threads the swap of the enqueue comes after the null of the
  element: on x86, Windows and with the lock by itself, on all others by the write barrier. The
  compare-and-swap of the dequeue waits for the earlier stores on x86, Itanium, Windows, with the
  GCC built-ins and with the lock, and there the queue loses nothing. On PowerPC, ARM, SiCortex and
  with the relaxed operations of C11 it does not, nothing in \<open>opa_queue.h\<close> makes up for it, and there
  is a run that loses an element. On Solaris nothing is documented for \<open>atomic_cas_ptr\<close>, and which of
  the two it is depends on that function alone.
\<close>

theorem queue_port_by_port:
  assumes "documented_order drains" and "p \<noteq> Unsafe"
  shows "(if p \<in> swapping_ports then swap_release (port_ordering drains tas_is_swap p)
      else wb_orders (port_ordering drains tas_is_swap p)) \<and>
    (cas_release (port_ordering drains tas_is_swap p) \<longleftrightarrow>
      p \<in> releasing_ports \<or> p = Sun \<and> drains (cas_ptr_of Sun)) \<and>
    (cas_release (port_ordering drains tas_is_swap p) \<longrightarrow> (\<forall>base bd elts ls w.
      w_run (port_ordering drains tas_is_swap p) base bd (w_init elts) (ls @ [Is_Empty True]) w \<and> settled w \<longrightarrow>
        removed ls = swapped ls)) \<and>
    (\<not> cas_release (port_ordering drains tas_is_swap p) \<longrightarrow> (\<exists>ls w.
      w_run (port_ordering drains tas_is_swap p) sample_base 65536 (w_init {64, 128}) (ls @ [Is_Empty True]) w \<and>
        settled w \<and> removed ls \<noteq> swapped ls))"
proof (intro conjI impI allI port_swap port_cas assms)
  fix base bd elts ls w
  assume "cas_release (port_ordering drains tas_is_swap p)"
  with port_swap [OF assms, of tas_is_swap] have "ordered (port_ordering drains tas_is_swap p)"
    by (simp add: ordered_def split: if_splits)
  moreover assume "w_run (port_ordering drains tas_is_swap p) base bd (w_init elts) (ls @ [Is_Empty True]) w \<and>
    settled w"
  ultimately show "removed ls = swapped ls" using run_loses_nothing by blast
next
  assume "\<not> cas_release (port_ordering drains tas_is_swap p)"
  from late_reset_loses [OF this] show "\<exists>ls w. w_run (port_ordering drains tas_is_swap p) sample_base 65536
      (w_init {64, 128}) (ls @ [Is_Empty True]) w \<and> settled w \<and> removed ls \<noteq> swapped ls"
    by fastforce
qed

theorem queue_port_by_port_witness:
  "swap_release (port_ordering documented_drains False Gcc_X86) \<and>
   (\<exists>ls w. w_run (port_ordering documented_drains False Gcc_Ppc) sample_base 65536 (w_init {64, 128})
     (ls @ [Is_Empty True]) w \<and> settled w \<and> removed ls \<noteq> swapped ls)"
  using queue_port_by_port [OF documented_drains, of Gcc_Ppc False]
    queue_port_by_port [OF documented_drains, of Gcc_X86 False]
  by (simp add: releasing_ports_def swapping_ports_def)

end
