(* ===== verification/OPA_Reorder.thy ===== *)
theory OPA_Reorder
  imports OPA_Config
begin

text \<open>
  A machine whose threads may do the accesses of a straight-line program out of order, loads as
  well as stores. Two accesses of a thread stay in order when they are to one place, when the way
  one of them is done keeps them in order, or when a barrier between them does; what instructions
  and barriers do is the parameter of the machine. There is one memory: a store reaches all other
  threads at the same time.
\<close>

section \<open>Programs\<close>

text \<open>
  The shared variables are numbered, and so are the local variables of a thread. A load goes to a
  local variable, and so does the old value that a swap or a compare-and-swap returns. An increment,
  a swap and a compare-and-swap are done at once, like every read-modify-write of the library.
\<close>

datatype access =
    Load nat nat
  | Store nat c_int
  | Incr nat
  | Swap nat c_int nat
  | Cas nat c_int c_int nat

datatype event =
    Access instr access
  | Barrier instr

fun place_of :: "access \<Rightarrow> nat" where
  "place_of (Load v r) = v"
| "place_of (Store v x) = v"
| "place_of (Incr v) = v"
| "place_of (Swap v x r) = v"
| "place_of (Cas v y x r) = v"

text \<open>
  What a barrier has to order. A read-modify-write counts as a write only: on a machine with
  load-linked and store-conditional it takes effect at the store.
\<close>

datatype kind = Rd | Wr

fun kind_of :: "access \<Rightarrow> kind" where
  "kind_of (Load v r) = Rd"
| "kind_of (Store v x) = Wr"
| "kind_of (Incr v) = Wr"
| "kind_of (Swap v x r) = Wr"
| "kind_of (Cas v y x r) = Wr"

text \<open>
  \<open>fences h k k'\<close>: accesses of the kind \<open>k\<close> before the barrier \<open>h\<close> are done before those of the kind
  \<open>k'\<close> after it. \<open>keeps f g\<close>: an access done by \<open>f\<close> is done before a later one done by \<open>g\<close>.
\<close>

record rules =
  fences :: "instr \<Rightarrow> kind \<Rightarrow> kind \<Rightarrow> bool"
  keeps :: "instr \<Rightarrow> instr \<Rightarrow> bool"

definition stricter :: "rules \<Rightarrow> rules \<Rightarrow> bool" where
  "stricter ru ru' \<longleftrightarrow> (\<forall>h k k'. fences ru' h k k' \<longrightarrow> fences ru h k k') \<and>
     (\<forall>f g. keeps ru' f g \<longrightarrow> keeps ru f g)"

lemma stricter_refl [simp]: "stricter ru ru"
  by (simp add: stricter_def)

section \<open>The order inside a thread\<close>

definition is_access :: "event \<Rightarrow> bool" where
  "is_access e = (case e of Access f a \<Rightarrow> True | Barrier h \<Rightarrow> False)"

fun orders :: "rules \<Rightarrow> kind \<Rightarrow> kind \<Rightarrow> event \<Rightarrow> bool" where
  "orders ru k k' (Barrier h) = fences ru h k k'"
| "orders ru k k' (Access f a) = False"

definition between :: "event list \<Rightarrow> nat \<Rightarrow> nat \<Rightarrow> event list" where
  "between es i k = take (k - Suc i) (drop (Suc i) es)"

fun ordered_events :: "rules \<Rightarrow> event list \<Rightarrow> event \<Rightarrow> event \<Rightarrow> bool" where
  "ordered_events ru es (Access f a) (Access g b) =
     (place_of a = place_of b \<or> keeps ru f g \<or> list_ex (orders ru (kind_of a) (kind_of b)) es)"
| "ordered_events ru es e e' = False"

definition before :: "rules \<Rightarrow> event list \<Rightarrow> nat \<Rightarrow> nat \<Rightarrow> bool" where
  "before ru es i k \<longleftrightarrow> i < k \<and> ordered_events ru (between es i k) (es ! i) (es ! k)"

lemma in_between: "i < j \<Longrightarrow> j < k \<Longrightarrow> k \<le> length es \<Longrightarrow> es ! j \<in> set (between es i k)"
proof -
  assume "i < j" "j < k" "k \<le> length es"
  then have "between es i k ! (j - Suc i) = es ! j" "j - Suc i < length (between es i k)"
    by (simp_all add: between_def)
  then show ?thesis using nth_mem by metis
qed

lemma before_barrier:
  assumes "i < j" "j < k" "k < length es"
    and "es ! i = Access f a" "es ! j = Barrier h" "es ! k = Access g b"
    and "fences ru h (kind_of a) (kind_of b)"
  shows "before ru es i k"
  using in_between [of i j k es] assms by (auto simp: before_def list_ex_iff intro!: bexI [of _ "es ! j"])

lemma before_keeps:
  assumes "i < k" "es ! i = Access f a" "es ! k = Access g b" "keeps ru f g"
  shows "before ru es i k"
  using assms by (simp add: before_def)

lemma before_access: "before ru es i k \<Longrightarrow> is_access (es ! i)"
  by (cases "es ! i") (auto simp: before_def is_access_def)

lemma before_less: "before ru es i k \<Longrightarrow> i < k"
  by (simp add: before_def)

section \<open>The machine\<close>

record machine =
  m_mem :: "nat \<Rightarrow> c_int"
  m_done :: "nat \<Rightarrow> nat set"
  m_local :: "nat \<Rightarrow> nat \<Rightarrow> c_int"

definition start :: "(nat \<Rightarrow> c_int) \<Rightarrow> machine" where
  "start mem = \<lparr>m_mem = mem, m_done = (\<lambda>t. {}), m_local = (\<lambda>t r. 0)\<rparr>"

text \<open>Thread \<open>t\<close> does the access at the position \<open>k\<close> of its program.\<close>

fun do_access :: "nat \<Rightarrow> access \<Rightarrow> machine \<Rightarrow> machine" where
  "do_access t (Load v r) m = m\<lparr>m_local := (m_local m)(t := (m_local m t)(r := m_mem m v))\<rparr>"
| "do_access t (Store v x) m = m\<lparr>m_mem := (m_mem m)(v := x)\<rparr>"
| "do_access t (Incr v) m = m\<lparr>m_mem := (m_mem m)(v := m_mem m v + 1)\<rparr>"
| "do_access t (Swap v x r) m = m\<lparr>m_mem := (m_mem m)(v := x),
     m_local := (m_local m)(t := (m_local m t)(r := m_mem m v))\<rparr>"
| "do_access t (Cas v y x r) m = m\<lparr>m_mem := (m_mem m)(v := (if m_mem m v = y then x else m_mem m v)),
     m_local := (m_local m)(t := (m_local m t)(r := m_mem m v))\<rparr>"

definition mark :: "nat \<Rightarrow> nat \<Rightarrow> machine \<Rightarrow> machine" where
  "mark t k m = m\<lparr>m_done := (m_done m)(t := insert k (m_done m t))\<rparr>"

definition may_do :: "rules \<Rightarrow> event list \<Rightarrow> nat set \<Rightarrow> nat \<Rightarrow> bool" where
  "may_do ru es D k \<longleftrightarrow> k < length es \<and> k \<notin> D \<and> (\<forall>i \<in> set [0..<k]. before ru es i k \<longrightarrow> i \<in> D)"

definition perform :: "rules \<Rightarrow> event list list \<Rightarrow> nat \<Rightarrow> nat \<Rightarrow> machine \<Rightarrow> machine option" where
  "perform ru ps t k m =
     (if t < length ps \<and> may_do ru (ps ! t) (m_done m t) k then
        (case ps ! t ! k of
           Access f a \<Rightarrow> Some (mark t k (do_access t a m))
         | Barrier h \<Rightarrow> None)
      else None)"

inductive reachable :: "rules \<Rightarrow> event list list \<Rightarrow> machine \<Rightarrow> machine \<Rightarrow> bool"
  for ru ps m where
  reachable_refl: "reachable ru ps m m"
| reachable_step: "reachable ru ps m n \<Longrightarrow> perform ru ps t k n = Some n' \<Longrightarrow> reachable ru ps m n'"

definition finished :: "event list list \<Rightarrow> nat \<Rightarrow> machine \<Rightarrow> bool" where
  "finished ps t m \<longleftrightarrow> (\<forall>k < length (ps ! t). is_access (ps ! t ! k) \<longrightarrow> k \<in> m_done m t)"

text \<open>A schedule: the accesses in the order they are done.\<close>

fun play :: "rules \<Rightarrow> event list list \<Rightarrow> (nat \<times> nat) list \<Rightarrow> machine \<Rightarrow> machine option" where
  "play ru ps [] m = Some m"
| "play ru ps ((t, k) # ks) m =
     (case perform ru ps t k m of None \<Rightarrow> None | Some n \<Rightarrow> play ru ps ks n)"

lemma reachable_trans: "reachable ru ps m n \<Longrightarrow> reachable ru ps l m \<Longrightarrow> reachable ru ps l n"
  by (induction rule: reachable.induct) (auto intro: reachable_step)

lemma play_reachable: "play ru ps ks m = Some n \<Longrightarrow> reachable ru ps m n"
proof (induction ru ps ks m rule: play.induct)
  case (2 ru ps t k ks m)
  then obtain l where "perform ru ps t k m = Some l" "reachable ru ps l n"
    by (auto split: option.splits)
  then show ?case by (blast intro: reachable_trans reachable_refl reachable_step)
qed (simp add: reachable_refl)

text \<open>How the run of a schedule from a memory of zeros ends.\<close>

definition outcome_of :: "rules \<Rightarrow> event list list \<Rightarrow> (nat \<times> nat) list \<Rightarrow> (machine \<Rightarrow> bool) \<Rightarrow> bool" where
  "outcome_of ru ps ks ok \<longleftrightarrow>
     (case play ru ps ks (start (\<lambda>v. 0)) of None \<Rightarrow> False | Some m \<Rightarrow> ok m)"

lemma outcome_of_play:
  "outcome_of ru ps ks ok \<Longrightarrow> \<exists>m. play ru ps ks (start (\<lambda>v. 0)) = Some m \<and> ok m"
  by (simp add: outcome_of_def split: option.splits)

lemma outcome_ofD:
  "outcome_of ru ps ks ok \<Longrightarrow> \<exists>m. reachable ru ps (start (\<lambda>v. 0)) m \<and> ok m"
  using outcome_of_play play_reachable by blast

lemma may_do_before: "may_do ru es D k \<Longrightarrow> before ru es i k \<Longrightarrow> i \<in> D"
  using before_less [of ru es i k] by (simp add: may_do_def)

lemma performE:
  assumes "perform ru ps t k m = Some n"
  obtains f a where "t < length ps" "k < length (ps ! t)" "k \<notin> m_done m t"
    "\<forall>i. before ru (ps ! t) i k \<longrightarrow> i \<in> m_done m t" "ps ! t ! k = Access f a"
    "n = mark t k (do_access t a m)"
proof -
  from assms obtain f a where t: "t < length ps" and may: "may_do ru (ps ! t) (m_done m t) k"
    and a: "ps ! t ! k = Access f a" and n: "n = mark t k (do_access t a m)"
    by (auto simp: perform_def split: if_splits event.splits)
  from may have k: "k < length (ps ! t)" "k \<notin> m_done m t" by (simp_all add: may_do_def)
  show thesis by (rule that [OF t k _ a n]) (simp add: may_do_before [OF may])
qed

lemma mark_simps [simp]:
  "m_mem (mark t k m) = m_mem m" "m_local (mark t k m) = m_local m"
  "m_done (mark t k m) = (m_done m)(t := insert k (m_done m t))"
  by (simp_all add: mark_def)

lemma do_access_done [simp]: "m_done (do_access t a m) = m_done m"
  by (cases a) simp_all

lemma do_access_local: "t' \<noteq> t \<Longrightarrow> m_local (do_access t a m) t' = m_local m t'"
  by (cases a) simp_all

section \<open>Facts about runs\<close>

text \<open>What has been done is an access of the program, and so is everything ordered before it.\<close>

lemma reachable_done:
  assumes "reachable ru ps (start mem) m" and "k \<in> m_done m t"
  shows "t < length ps \<and> k < length (ps ! t) \<and> is_access (ps ! t ! k) \<and>
    (\<forall>i. before ru (ps ! t) i k \<longrightarrow> i \<in> m_done m t)"
  using assms
proof (induction arbitrary: t k rule: reachable.induct)
  case (reachable_step n u l n')
  obtain f a where u: "u < length ps" "l < length (ps ! u)" "l \<notin> m_done n u"
    and bef: "\<forall>i. before ru (ps ! u) i l \<longrightarrow> i \<in> m_done n u"
    and a: "ps ! u ! l = Access f a" and "n' = mark u l (do_access u a n)"
    using reachable_step.hyps(2) by (rule performE)
  then have n': "m_done n' = (m_done n)(u := insert l (m_done n u))" by simp
  show ?case
  proof (cases "t = u \<and> k = l")
    case True
    with u a bef n' show ?thesis by (simp add: is_access_def)
  next
    case False
    with reachable_step.prems n' have "k \<in> m_done n t" by (auto split: if_splits)
    from reachable_step.IH [OF this] n' show ?thesis by (cases "t = u") simp_all
  qed
qed (simp add: start_def)

lemma done_bounded: "reachable ru ps (start mem) m \<Longrightarrow> m_done m t \<subseteq> {..<length (ps ! t)}"
  using reachable_done [of ru ps mem m _ t] by auto

lemma done_finite: "reachable ru ps (start mem) m \<Longrightarrow> finite (m_done m t)"
  by (rule finite_subset [OF done_bounded]) simp_all

text \<open>The order goes on through the accesses in between.\<close>

lemma done_closed:
  assumes "(before ru (ps ! t))\<^sup>+\<^sup>+ i k" and "reachable ru ps (start mem) m" and "k \<in> m_done m t"
  shows "i \<in> m_done m t"
  using assms(1,3) reachable_done [OF assms(2)] by (induction rule: converse_tranclp_induct) blast+

text \<open>Stricter rules have fewer runs.\<close>

lemma before_stricter: "stricter ru ru' \<Longrightarrow> before ru' es i k \<Longrightarrow> before ru es i k"
proof -
  assume s: "stricter ru ru'" and b: "before ru' es i k"
  from b obtain f a g b' where "es ! i = Access f a" "es ! k = Access g b'"
    by (cases "es ! i"; cases "es ! k") (auto simp: before_def)
  moreover have "orders ru' x y e \<Longrightarrow> orders ru x y e" for x y e
    using s by (cases e) (auto simp: stricter_def)
  then have "list_ex (orders ru' x y) l \<Longrightarrow> list_ex (orders ru x y) l" for x y l
    by (auto simp: list_ex_iff)
  ultimately show ?thesis using s b by (auto simp: before_def stricter_def)
qed

lemma reachable_stricter:
  assumes "reachable ru ps m n" and "stricter ru ru'"
  shows "reachable ru' ps m n"
  using assms
proof (induction rule: reachable.induct)
  case (reachable_step n t k n')
  then have "perform ru' ps t k n = Some n'"
    using before_stricter [OF reachable_step.prems]
    by (auto simp: perform_def may_do_def split: if_splits)
  with reachable_step show ?case by (blast intro: reachable.reachable_step)
qed (simp add: reachable_refl)

text \<open>
  No program gets stuck: the first access that is left can be done, so every run can be continued to
  the end of all programs.
\<close>

definition left :: "event list list \<Rightarrow> machine \<Rightarrow> nat \<Rightarrow> nat set" where
  "left ps m t = {k. k < length (ps ! t) \<and> is_access (ps ! t ! k) \<and> k \<notin> m_done m t}"

lemma left_finite [simp]: "finite (left ps m t)"
  by (simp add: left_def)

lemma finished_left: "finished ps t m \<longleftrightarrow> left ps m t = {}"
  by (auto simp: finished_def left_def)

lemma can_perform:
  assumes "t < length ps" and "left ps m t \<noteq> {}"
  shows "\<exists>k n. perform ru ps t k m = Some n \<and> left ps n = (left ps m)(t := left ps m t - {k}) \<and>
    k \<in> left ps m t"
proof -
  define k where "k = Min (left ps m t)"
  from assms(2) have k: "k \<in> left ps m t" and least: "\<And>i. i \<in> left ps m t \<Longrightarrow> k \<le> i"
    by (auto simp: k_def)
  from k obtain f a where a: "ps ! t ! k = Access f a"
    by (cases "ps ! t ! k") (auto simp: left_def is_access_def)
  have "may_do ru (ps ! t) (m_done m t) k"
    unfolding may_do_def
  proof (intro conjI ballI impI)
    fix i assume "i \<in> set [0..<k]" and b: "before ru (ps ! t) i k"
    then have "i < k" by simp
    with least [of i] have "i \<notin> left ps m t" by auto
    with before_access [OF b] \<open>i < k\<close> k show "i \<in> m_done m t" by (simp add: left_def)
  qed (use k in \<open>simp_all add: left_def\<close>)
  with a assms(1) have "perform ru ps t k m = Some (mark t k (do_access t a m))"
    by (simp add: perform_def)
  moreover have "left ps (mark t k (do_access t a m)) = (left ps m)(t := left ps m t - {k})"
    by (intro ext) (auto simp: left_def)
  ultimately show ?thesis using k by blast
qed

lemma runs_end: "\<exists>n. reachable ru ps m n \<and> (\<forall>t < length ps. finished ps t n)"
proof (induction "\<Sum>t < length ps. card (left ps m t)" arbitrary: m rule: less_induct)
  case less
  show ?case
  proof (cases "\<forall>t < length ps. finished ps t m")
    case True
    then show ?thesis by (blast intro: reachable_refl)
  next
    case False
    then obtain t where t: "t < length ps" "left ps m t \<noteq> {}" by (auto simp: finished_left)
    from can_perform [OF this, of ru] obtain k n where n: "perform ru ps t k m = Some n"
      and l: "left ps n = (left ps m)(t := left ps m t - {k})" and k: "k \<in> left ps m t" by blast
    have "(\<Sum>u < length ps. card (left ps n u)) < (\<Sum>u < length ps. card (left ps m u))"
    proof (rule sum_strict_mono_ex1)
      show "\<forall>u \<in> {..<length ps}. card (left ps n u) \<le> card (left ps m u)"
        using l by (simp add: card_Diff1_le)
      show "\<exists>u \<in> {..<length ps}. card (left ps n u) < card (left ps m u)"
        using t k l by (intro bexI [of _ t]) (simp_all only: fun_upd_same lessThan_iff card_Diff1_less left_finite)
    qed simp
    from less.hyps [OF this] obtain e where "reachable ru ps n e" and e: "\<forall>t < length ps. finished ps t e"
      by blast
    from reachable_trans [OF this(1) reachable_step [OF reachable_refl n]] e show ?thesis by blast
  qed
qed

end
