(* ===== verification/OPA_Litmus.thy ===== *)
theory OPA_Litmus
  imports OPA_Reorder
begin

text \<open>
  The loads, stores, increments, acquire loads and release stores on \<open>OPA_int_t\<close> of every port as
  programs of the machine of \<open>OPA_Reorder\<close>, what the documentation of the instructions promises,
  and three programs in which the order of two threads' accesses can be seen.
\<close>

section \<open>Loads, stores and increments\<close>

text \<open>How \<open>OPA_load_int\<close> and \<open>OPA_store_int\<close> access the variable.\<close>

definition int_moves_unsafe :: "instr \<times> instr" where
  "int_moves_unsafe = (Plain_Access, Plain_Access)"

definition int_moves_by_lock :: "instr \<times> instr" where
  "int_moves_by_lock = (Mutex_Section, Mutex_Section)"

definition int_moves_c11 :: "instr \<times> instr" where
  "int_moves_c11 = (Load_Relaxed, Store_Relaxed)"

definition int_moves_ppc :: "instr \<times> instr" where
  "int_moves_ppc = (Plain_Access, Plain_Access)"

definition int_moves_arm :: "instr \<times> instr" where
  "int_moves_arm = (Plain_Access, Plain_Access)"

definition int_moves_x86 :: "instr \<times> instr" where
  "int_moves_x86 = (Plain_Access, Plain_Access)"

definition int_moves_ia64 :: "instr \<times> instr" where
  "int_moves_ia64 = (Plain_Access, Plain_Access)"

definition int_moves_sicortex :: "instr \<times> instr" where
  "int_moves_sicortex = (Plain_Access, Plain_Access)"

definition int_moves_gcc :: "instr \<times> instr" where
  "int_moves_gcc = (Plain_Access, Plain_Access)"

definition int_moves_sun :: "instr \<times> instr" where
  "int_moves_sun = (Plain_Access, Plain_Access)"

definition int_moves_nt :: "instr \<times> instr" where
  "int_moves_nt = (Plain_Access, Plain_Access)"

fun int_moves_of :: "port \<Rightarrow> instr \<times> instr" where
  "int_moves_of Unsafe = int_moves_unsafe"
| "int_moves_of C11 = int_moves_c11"
| "int_moves_of Gcc_Ppc = int_moves_ppc"
| "int_moves_of Gcc_Arm = int_moves_arm"
| "int_moves_of Gcc_X86 = int_moves_x86"
| "int_moves_of Gcc_X86_P3 = int_moves_x86"
| "int_moves_of Gcc_IA64 = int_moves_ia64"
| "int_moves_of Gcc_Sicortex = int_moves_sicortex"
| "int_moves_of Gcc_Intrinsics = int_moves_gcc"
| "int_moves_of Sun = int_moves_sun"
| "int_moves_of NT = int_moves_nt"
| "int_moves_of By_Lock = int_moves_by_lock"

text \<open>
  What \<open>OPA_incr_int\<close> comes down to. On the ports that derive it, it is the fetch-and-add or the
  loop it ends in; the increment of the unsafe port is not atomic and has no counterpart here.
\<close>

definition incr_int_by_lock :: instr where
  "incr_int_by_lock = Mutex_Section"

definition incr_int_c11 :: instr where
  "incr_int_c11 = Fetch_Add_Relaxed"

definition incr_int_ppc :: instr where
  "incr_int_ppc = Lwarx_Stwcx"

definition incr_int_arm :: instr where
  "incr_int_arm = Ldrex_Strex"

definition incr_int_x86 :: instr where
  "incr_int_x86 = Lock_Inc"

definition incr_int_ia64 :: instr where
  "incr_int_ia64 = Fetchadd4"

definition incr_int_sicortex :: instr where
  "incr_int_sicortex = Ll_Sc_Mips"

definition incr_int_gcc :: instr where
  "incr_int_gcc = Fetch_And_Add"

definition incr_int_sun :: instr where
  "incr_int_sun = Atomic_Inc"

definition incr_int_nt :: instr where
  "incr_int_nt = Interlocked_Increment"

fun incr_int_of :: "port \<Rightarrow> instr option" where
  "incr_int_of Unsafe = None"
| "incr_int_of C11 = Some incr_int_c11"
| "incr_int_of Gcc_Ppc = Some incr_int_ppc"
| "incr_int_of Gcc_Arm = Some incr_int_arm"
| "incr_int_of Gcc_X86 = Some incr_int_x86"
| "incr_int_of Gcc_X86_P3 = Some incr_int_x86"
| "incr_int_of Gcc_IA64 = Some incr_int_ia64"
| "incr_int_of Gcc_Sicortex = Some incr_int_sicortex"
| "incr_int_of Gcc_Intrinsics = Some incr_int_gcc"
| "incr_int_of Sun = Some incr_int_sun"
| "incr_int_of NT = Some incr_int_nt"
| "incr_int_of By_Lock = Some incr_int_by_lock"

abbreviation "load_int p v r \<equiv> Access (fst (int_moves_of p)) (Load v r)"
abbreviation "store_int p v x \<equiv> Access (snd (int_moves_of p)) (Store v x)"

lemmas int_access_defs = int_moves_unsafe_def int_moves_by_lock_def int_moves_c11_def
  int_moves_ppc_def int_moves_arm_def int_moves_x86_def int_moves_ia64_def int_moves_sicortex_def
  int_moves_gcc_def int_moves_sun_def int_moves_nt_def incr_int_by_lock_def incr_int_c11_def
  incr_int_ppc_def incr_int_arm_def incr_int_x86_def incr_int_ia64_def incr_int_sicortex_def
  incr_int_gcc_def incr_int_sun_def incr_int_nt_def

section \<open>Acquire loads and release stores\<close>

text \<open>
  Each as the accesses and barriers of its body. The bodies of the GCC port have a local variable
  \<open>i\<close>, a shared variable that no other thread names: it is initialised, and then exchanged or
  released, which for its value is a store. The versions for pointers have the same bodies.
\<close>

definition load_acquire_unsafe :: "nat \<Rightarrow> nat \<Rightarrow> event list" where
  "load_acquire_unsafe v r = [load_int Unsafe v r]"

definition store_release_unsafe :: "nat \<Rightarrow> c_int \<Rightarrow> event list" where
  "store_release_unsafe v x = [store_int Unsafe v x]"

definition load_acquire_by_lock :: "nat \<Rightarrow> nat \<Rightarrow> event list" where
  "load_acquire_by_lock v r = [load_int By_Lock v r]"

definition store_release_by_lock :: "nat \<Rightarrow> c_int \<Rightarrow> event list" where
  "store_release_by_lock v x = [store_int By_Lock v x]"

definition load_acquire_c11 :: "nat \<Rightarrow> nat \<Rightarrow> event list" where
  "load_acquire_c11 v r = [Access Load_Acquire (Load v r)]"

definition store_release_c11 :: "nat \<Rightarrow> c_int \<Rightarrow> event list" where
  "store_release_c11 v x = [Access Store_Release (Store v x)]"

definition load_acquire_ppc :: "nat \<Rightarrow> nat \<Rightarrow> event list" where
  "load_acquire_ppc v r = [Access Plain_Access (Load v r), Barrier Lwsync]"

definition store_release_ppc :: "nat \<Rightarrow> c_int \<Rightarrow> event list" where
  "store_release_ppc v x = [Barrier Lwsync, Access Plain_Access (Store v x)]"

definition load_acquire_arm :: "nat \<Rightarrow> nat \<Rightarrow> event list" where
  "load_acquire_arm v r = [Access Plain_Access (Load v r), Barrier Dsb]"

definition store_release_arm :: "nat \<Rightarrow> c_int \<Rightarrow> event list" where
  "store_release_arm v x = [Barrier Dsb, Access Plain_Access (Store v x)]"

definition load_acquire_x86 :: "nat \<Rightarrow> nat \<Rightarrow> event list" where
  "load_acquire_x86 v r = [Access Plain_Access (Load v r), Barrier Compiler_Barrier]"

definition store_release_x86 :: "nat \<Rightarrow> c_int \<Rightarrow> event list" where
  "store_release_x86 v x = [Barrier Compiler_Barrier, Access Plain_Access (Store v x)]"

definition load_acquire_sicortex :: "nat \<Rightarrow> nat \<Rightarrow> event list" where
  "load_acquire_sicortex v r =
     [Access Plain_Access (Load v r), Barrier (read_write_barrier barriers_sicortex)]"

definition store_release_sicortex :: "nat \<Rightarrow> c_int \<Rightarrow> event list" where
  "store_release_sicortex v x =
     [Barrier (read_write_barrier barriers_sicortex), Access Plain_Access (Store v x)]"

definition load_acquire_gcc :: "nat \<Rightarrow> nat \<Rightarrow> nat \<Rightarrow> event list" where
  "load_acquire_gcc i v r =
     [Access Plain_Access (Store i 0), Access Plain_Access (Load v r),
      Access Lock_Test_And_Set (Store i 1)]"

definition store_release_gcc :: "nat \<Rightarrow> nat \<Rightarrow> c_int \<Rightarrow> event list" where
  "store_release_gcc i v x =
     [Access Plain_Access (Store i 1), Access Lock_Release (Store i 0),
      Access Plain_Access (Store v x)]"

definition load_acquire_sun :: "nat \<Rightarrow> nat \<Rightarrow> event list" where
  "load_acquire_sun v r = [Access Plain_Access (Load v r), Barrier Membar_Enter]"

definition store_release_sun :: "nat \<Rightarrow> c_int \<Rightarrow> event list" where
  "store_release_sun v x = [Barrier Membar_Exit, Access Plain_Access (Store v x)]"

definition load_acquire_nt :: "nat \<Rightarrow> nat \<Rightarrow> event list" where
  "load_acquire_nt v r = [Access Plain_Access (Load v r), Barrier (read_write_barrier barriers_nt)]"

definition store_release_nt :: "nat \<Rightarrow> c_int \<Rightarrow> event list" where
  "store_release_nt v x = [Barrier (read_write_barrier barriers_nt), Access Plain_Access (Store v x)]"

text \<open>\<open>None\<close>: the Itanium header makes them macros that do not compile.\<close>

fun load_acquire_of :: "port \<Rightarrow> nat \<Rightarrow> nat \<Rightarrow> nat \<Rightarrow> event list option" where
  "load_acquire_of Unsafe i v r = Some (load_acquire_unsafe v r)"
| "load_acquire_of C11 i v r = Some (load_acquire_c11 v r)"
| "load_acquire_of Gcc_Ppc i v r = Some (load_acquire_ppc v r)"
| "load_acquire_of Gcc_Arm i v r = Some (load_acquire_arm v r)"
| "load_acquire_of Gcc_X86 i v r = Some (load_acquire_x86 v r)"
| "load_acquire_of Gcc_X86_P3 i v r = Some (load_acquire_x86 v r)"
| "load_acquire_of Gcc_IA64 i v r = None"
| "load_acquire_of Gcc_Sicortex i v r = Some (load_acquire_sicortex v r)"
| "load_acquire_of Gcc_Intrinsics i v r = Some (load_acquire_gcc i v r)"
| "load_acquire_of Sun i v r = Some (load_acquire_sun v r)"
| "load_acquire_of NT i v r = Some (load_acquire_nt v r)"
| "load_acquire_of By_Lock i v r = Some (load_acquire_by_lock v r)"

fun store_release_of :: "port \<Rightarrow> nat \<Rightarrow> nat \<Rightarrow> c_int \<Rightarrow> event list option" where
  "store_release_of Unsafe i v x = Some (store_release_unsafe v x)"
| "store_release_of C11 i v x = Some (store_release_c11 v x)"
| "store_release_of Gcc_Ppc i v x = Some (store_release_ppc v x)"
| "store_release_of Gcc_Arm i v x = Some (store_release_arm v x)"
| "store_release_of Gcc_X86 i v x = Some (store_release_x86 v x)"
| "store_release_of Gcc_X86_P3 i v x = Some (store_release_x86 v x)"
| "store_release_of Gcc_IA64 i v x = None"
| "store_release_of Gcc_Sicortex i v x = Some (store_release_sicortex v x)"
| "store_release_of Gcc_Intrinsics i v x = Some (store_release_gcc i v x)"
| "store_release_of Sun i v x = Some (store_release_sun v x)"
| "store_release_of NT i v x = Some (store_release_nt v x)"
| "store_release_of By_Lock i v x = Some (store_release_by_lock v x)"

lemmas acquire_release_defs = load_acquire_unsafe_def store_release_unsafe_def
  load_acquire_by_lock_def store_release_by_lock_def load_acquire_c11_def store_release_c11_def
  load_acquire_ppc_def store_release_ppc_def load_acquire_arm_def store_release_arm_def
  load_acquire_x86_def store_release_x86_def load_acquire_sicortex_def store_release_sicortex_def
  load_acquire_gcc_def store_release_gcc_def load_acquire_sun_def store_release_sun_def
  load_acquire_nt_def store_release_nt_def

section \<open>What is documented\<close>

text \<open>
  The order each barrier promises. A compiler barrier leaves the order to the processor, and that
  of x86 lets only a later load overtake an earlier store; the Windows port is taken to run there.
  \<open>membar_enter\<close> is documented for the operation that takes a lock, and \<open>membar_exit\<close> for the store
  that drops it; nothing is assumed of the first after a load.
\<close>

definition x86_processor :: "port \<Rightarrow> bool" where
  "x86_processor p \<longleftrightarrow> p \<in> {Gcc_X86, Gcc_X86_P3, NT}"

definition full_fences :: "instr set" where
  "full_fences = {Mfence, Lock_Or, Hwsync, Dmb, Dsb, Mf, Sync_Mips, Sync_Synchronize}"

definition documented_fences :: "port \<Rightarrow> instr \<Rightarrow> kind \<Rightarrow> kind \<Rightarrow> bool" where
  "documented_fences p h k k' =
     (if h \<in> full_fences then True
      else if h \<in> {Fence_Acq_Rel, Lwsync} then \<not> (k = Wr \<and> k' = Rd)
      else if h \<in> {Eieio, Membar_Producer} then k = Wr \<and> k' = Wr
      else if h = Membar_Consumer then k = Rd \<and> k' = Rd
      else if h = Membar_Both then k = k'
      else if h = Membar_Exit then k' = Wr
      else if h \<in> {Compiler_Barrier, Read_Write_Barrier_Msc} then x86_processor p \<and> \<not> (k = Wr \<and> k' = Rd)
      else if h = Write_Barrier_Msc then x86_processor p \<and> k = Wr \<and> k' = Wr
      else if h = Read_Barrier_Msc then x86_processor p \<and> k = Rd \<and> k' = Rd
      else False)"

text \<open>
  What follows an acquire operation, the exchange of GCC among them, stays behind it, and what
  precedes a release operation stays before it. \<open>pthread_mutex_lock\<close> and \<open>pthread_mutex_unlock\<close>
  synchronize memory (POSIX), so a critical section is both: nothing passes it in either
  direction, and the sections of one mutex are in order.
\<close>

definition documented_keeps :: "instr \<Rightarrow> instr \<Rightarrow> bool" where
  "documented_keeps f g \<longleftrightarrow> f \<in> {Load_Acquire, Lock_Test_And_Set, Mutex_Section} \<or>
     g \<in> {Store_Release, Lock_Release, Mutex_Section}"

definition documented_rules :: "port \<Rightarrow> rules" where
  "documented_rules p = \<lparr>fences = documented_fences p, keeps = documented_keeps\<rparr>"

lemmas documented_defs = documented_rules_def documented_fences_def documented_keeps_def
  full_fences_def x86_processor_def stricter_def

end
