(* ===== verification/OPA_Test_Config.thy ===== *)
theory OPA_Test_Config
  imports Main
begin

text \<open>
  The configurations the threaded tests run in, the tables of \<open>test/opa_test.h\<close>: numbers of threads,
  and for each the factor by which the number of iterations is reduced. The index is \<open>curr_test\<close>.
\<close>

definition num_threads :: "nat list" where
  "num_threads = [1, 2, 4, 10, 100]"

definition iter_reduction :: "nat list" where
  "iter_reduction = [1, 1, 1, 1, 10]"

end
