(* ===== verification/OPA_Barrier_Tests.thy ===== *)
theory OPA_Barrier_Tests
  imports OPA_Litmus OPA_Test_Config
begin

text \<open>
  The threaded programs of \<open>test/test_barriers.c\<close>: some threads increment ten or a hundred shared
  variables in turn with a write barrier after each increment, the others load them in the opposite
  order with a read barrier after each load and check that what they have read never increases in
  the direction of the increments.
\<close>

section \<open>The programs\<close>

text \<open>
  \<open>test_barriers_linear_array_write\<close> and \<open>test_barriers_variables_write\<close>, for the variables \<open>vs\<close>;
  \<open>f\<close> is what \<open>OPA_incr_int\<close> comes down to.
\<close>

definition write_thread :: "port \<Rightarrow> instr \<Rightarrow> nat list \<Rightarrow> nat \<Rightarrow> event list" where
  "write_thread p f vs niter =
     concat (map (\<lambda>i. concat (map (\<lambda>v.
       [Access f (Incr v), Barrier (write_barrier (barriers_of p))]) vs)) [0..<niter])"

text \<open>
  \<open>test_barriers_linear_array_read\<close> and \<open>test_barriers_variables_read\<close>. Each iteration has a
  \<open>read_buffer\<close> of its own, the local variables from \<open>i * length vs\<close> on.
\<close>

definition read_thread :: "port \<Rightarrow> nat list \<Rightarrow> nat \<Rightarrow> event list" where
  "read_thread p vs niter =
     concat (map (\<lambda>i. concat (map (\<lambda>j.
       [load_int p (vs ! j) (i * length vs + j), Barrier (read_barrier (barriers_of p))])
         (rev [0..<length vs]))) [0..<niter])"

text \<open>The check at the end of each iteration: \<open>nerrors\<close> of a reader.\<close>

definition read_errors :: "nat list \<Rightarrow> nat \<Rightarrow> (nat \<Rightarrow> c_int) \<Rightarrow> nat" where
  "read_errors vs niter buf =
     length (filter (\<lambda>(i, j). sint (buf (i * length vs + (j - 1))) < sint (buf (i * length vs + j)))
       (List.product [0..<niter] [1..<length vs]))"

text \<open>
  The main programs start writers and readers in turn and then run as the last of them. The unsafe
  port has no atomic increment to run them with.
\<close>

definition barrier_test :: "port \<Rightarrow> nat list \<Rightarrow> nat \<Rightarrow> nat \<Rightarrow> event list list option" where
  "barrier_test p vs niter nthreads =
     map_option (\<lambda>f. map (\<lambda>t. if even t then write_thread p f vs niter else read_thread p vs niter)
       [0..<nthreads]) (incr_int_of p)"

text \<open>The three tests: the variables, and the number of iterations in the run \<open>c\<close>.\<close>

definition linear_array :: "nat list" where
  "linear_array = [0..<100]"

definition linear_array_niter :: "nat \<Rightarrow> nat" where
  "linear_array_niter c = 4000000 div 100 div iter_reduction ! c"

definition variables :: "nat list" where
  "variables = [0..<10]"

definition variables_niter :: "nat \<Rightarrow> nat" where
  "variables_niter c = 4000000 div 10 div iter_reduction ! c"

definition scattered_array :: "nat list" where
  "scattered_array = [254, 85920, 255, 35529, 75948, 75947, 253, 99999, 11111, 11112]"

section \<open>Accesses with a barrier after each\<close>

definition barriered :: "instr \<Rightarrow> instr \<Rightarrow> access list \<Rightarrow> event list" where
  "barriered f h as = concat (map (\<lambda>a. [Access f a, Barrier h]) as)"

lemma barriered_Cons: "barriered f h (a # as) = Access f a # Barrier h # barriered f h as"
  by (simp add: barriered_def)

lemma barriered_length [simp]: "length (barriered f h as) = 2 * length as"
  by (induction as) (simp_all add: barriered_def)

lemma barriered_nth:
  "k < length as \<Longrightarrow> barriered f h as ! (2 * k) = Access f (as ! k) \<and>
     barriered f h as ! Suc (2 * k) = Barrier h"
proof (induction as arbitrary: k)
  case (Cons a as)
  then show ?case by (cases k) (simp_all add: barriered_Cons)
qed simp

lemma barriered_access:
  assumes "x < length (barriered f h as)" and "is_access (barriered f h as ! x)"
  shows "\<exists>k < length as. x = 2 * k"
proof (cases "even x")
  case True
  with assms(1) show ?thesis by (auto elim!: evenE)
next
  case False
  with assms barriered_nth [of "x div 2" as f h] show ?thesis
    by (auto simp: is_access_def elim!: oddE)
qed

lemma concat_map_concat: "concat (map g (concat xss)) = concat (map (\<lambda>xs. concat (map g xs)) xss)"
  by (induction xss) simp_all

lemma rounds:
  "concat (map (\<lambda>i. map (g i) us) [0..<n]) =
     map (\<lambda>k. g (k div length us) (us ! (k mod length us))) [0..<n * length us]"
proof (induction n)
  case (Suc n)
  let ?L = "length us"
  have "(n * ?L + i) div ?L = n" if "i < ?L" for i
    using that by (intro div_nat_eqI) (simp_all add: mult.commute)
  then have "map (\<lambda>k. g (k div ?L) (us ! (k mod ?L))) [n * ?L..<n * ?L + ?L] = map (g n) us"
    by (intro nth_equalityI) simp_all
  moreover have "[0..<Suc n * ?L] = [0..<n * ?L] @ [n * ?L..<n * ?L + ?L]"
    using upt_add_eq_append [of 0 "n * ?L" ?L] by (simp add: add.commute)
  ultimately show ?case using Suc.IH by simp
qed simp

definition increments :: "nat list \<Rightarrow> nat \<Rightarrow> access list" where
  "increments vs n = map (\<lambda>k. Incr (vs ! (k mod length vs))) [0..<n * length vs]"

definition loads :: "nat list \<Rightarrow> nat \<Rightarrow> access list" where
  "loads vs n = map (\<lambda>k. let j = length vs - 1 - k mod length vs in
     Load (vs ! j) (k div length vs * length vs + j)) [0..<n * length vs]"

lemma write_thread_barriered:
  "write_thread p f vs n = barriered f (write_barrier (barriers_of p)) (increments vs n)"
proof -
  have "increments vs n = concat (map (\<lambda>i. map Incr vs) [0..<n])"
    by (simp add: increments_def rounds [of "\<lambda>i. Incr"])
  then show ?thesis
    by (simp add: write_thread_def barriered_def concat_map_concat comp_def)
qed

lemma read_thread_barriered:
  "read_thread p vs n =
     barriered (fst (int_moves_of p)) (read_barrier (barriers_of p)) (loads vs n)"
proof -
  have "rev [0..<length vs] ! (x mod length vs) = length vs - Suc (x mod length vs)"
    if "x < n * length vs" for x
  proof -
    from that have "x mod length vs < length vs" by (cases vs) simp_all
    then show ?thesis by (simp add: rev_nth)
  qed
  then have "loads vs n = concat (map (\<lambda>i. map (\<lambda>j. Load (vs ! j) (i * length vs + j)) (rev [0..<length vs])) [0..<n])"
    unfolding rounds by (auto simp: loads_def Let_def intro!: map_cong)
  then show ?thesis
    by (simp add: read_thread_def barriered_def concat_map_concat comp_def)
qed

section \<open>The order of a thread\<close>

text \<open>With accesses of one kind and a barrier that orders them, a thread goes through its program in order.\<close>

definition in_order_thread :: "rules \<Rightarrow> instr \<Rightarrow> instr \<Rightarrow> kind \<Rightarrow> bool" where
  "in_order_thread ru f h kd \<longleftrightarrow> keeps ru f f \<or> fences ru h kd kd"

lemma barriered_before:
  assumes "in_order_thread ru f h kd" and "\<forall>a \<in> set as. kind_of a = kd" and "i < k" and "k < length as"
  shows "before ru (barriered f h as) (2 * i) (2 * k)"
proof -
  from assms(3,4) have nth: "barriered f h as ! (2 * i) = Access f (as ! i)"
    "barriered f h as ! Suc (2 * i) = Barrier h" "barriered f h as ! (2 * k) = Access f (as ! k)"
    using barriered_nth [of _ as f h] by simp_all
  have "kind_of (as ! i) = kd" "kind_of (as ! k) = kd" using assms(2-4) by simp_all
  with assms nth show ?thesis
    unfolding in_order_thread_def
    by (elim disjE) (auto intro: before_keeps before_barrier [of "2 * i" "Suc (2 * i)"])
qed

lemma barriered_closed:
  assumes "reachable ru ps (start mem) m" and "ps ! t = barriered f h as"
    and "in_order_thread ru f h kd" and "\<forall>a \<in> set as. kind_of a = kd"
    and "2 * k \<in> m_done m t" and "i \<le> k"
  shows "2 * i \<in> m_done m t"
proof (cases "i = k")
  case False
  have d: "2 * k < length (ps ! t)" "\<forall>i. before ru (ps ! t) i (2 * k) \<longrightarrow> i \<in> m_done m t"
    using reachable_done [OF assms(1,5)] by simp_all
  with assms(2) have "k < length as" by simp
  with False assms(6) have "before ru (barriered f h as) (2 * i) (2 * k)"
    by (intro barriered_before [OF assms(3,4)]) simp_all
  with d(2) assms(2) show ?thesis by simp
qed (use assms(5) in simp)

lemma increments_kind: "\<forall>a \<in> set (increments vs n). kind_of a = Wr"
  by (auto simp: increments_def)

lemma loads_kind: "\<forall>a \<in> set (loads vs n). kind_of a = Rd"
  by (auto simp: loads_def Let_def)

section \<open>What the variables hold\<close>

definition incrs_of :: "event list \<Rightarrow> nat set \<Rightarrow> nat \<Rightarrow> nat set" where
  "incrs_of es D v = {k \<in> D. \<exists>f. es ! k = Access f (Incr v)}"

definition incrs :: "event list list \<Rightarrow> machine \<Rightarrow> nat \<Rightarrow> nat" where
  "incrs ps m v = (\<Sum>t < length ps. card (incrs_of (ps ! t) (m_done m t) v))"

lemma incrs_of_insert:
  "es ! k = Access f a \<Longrightarrow>
     incrs_of es (insert k D) v = (if a = Incr v then insert k (incrs_of es D v) else incrs_of es D v)"
  by (auto simp: incrs_of_def)

lemma incrs_mark:
  assumes "t < length ps" "k \<notin> m_done m t" "finite (m_done m t)" "ps ! t ! k = Access f a"
    and "m_done n = m_done m"
  shows "incrs ps (mark t k n) v = incrs ps m v + (if a = Incr v then 1 else 0)"
proof -
  have "card (incrs_of (ps ! u) (m_done (mark t k n) u) v) =
    card (incrs_of (ps ! u) (m_done m u) v) + (if u = t then if a = Incr v then 1 else 0 else 0)" for u
    using assms by (auto simp: incrs_of_insert card_insert_if) (auto simp: incrs_of_def)
  with assms(1) show ?thesis by (simp add: incrs_def sum.distrib)
qed

fun counts :: "access \<Rightarrow> bool" where
  "counts (Load v r) = True"
| "counts (Incr v) = True"
| "counts _ = False"

definition no_stores :: "event list list \<Rightarrow> bool" where
  "no_stores ps \<longleftrightarrow> (\<forall>es \<in> set ps. \<forall>f a. Access f a \<in> set es \<longrightarrow> counts a)"

text \<open>A variable that is only incremented holds the number of the increments done.\<close>

lemma mem_counts:
  assumes "reachable ru ps (start (\<lambda>v. 0)) m" and "no_stores ps"
  shows "m_mem m v = of_nat (incrs ps m v)"
  using assms
proof (induction arbitrary: v rule: reachable.induct)
  case (reachable_step m t k m')
  note fin = done_finite [OF reachable_step.hyps(1)]
  obtain f a where t: "t < length ps" "k < length (ps ! t)" "k \<notin> m_done m t" "ps ! t ! k = Access f a"
    and m': "m' = mark t k (do_access t a m)"
    using reachable_step.hyps(2) by (rule performE)
  have inc: "incrs ps m' v = incrs ps m v + (if a = Incr v then 1 else 0)" for v
    unfolding m' by (rule incrs_mark) (use t fin in simp_all)
  from t reachable_step.prems have "counts a"
    using nth_mem [of t ps] nth_mem [of k "ps ! t"] by (force simp: no_stores_def)
  with reachable_step.IH [OF reachable_step.prems] inc m' show ?case
    by (cases a) auto
qed (simp add: start_def incrs_def incrs_of_def)

section \<open>Writers and readers\<close>

definition writer :: "rules \<Rightarrow> nat list \<Rightarrow> nat \<Rightarrow> event list \<Rightarrow> bool" where
  "writer ru vs n es \<longleftrightarrow> (\<exists>f h. es = barriered f h (increments vs n) \<and> in_order_thread ru f h Wr)"

definition reader :: "rules \<Rightarrow> nat list \<Rightarrow> nat \<Rightarrow> event list \<Rightarrow> bool" where
  "reader ru vs n es \<longleftrightarrow> (\<exists>f h. es = barriered f h (loads vs n) \<and> in_order_thread ru f h Rd)"

definition counting :: "rules \<Rightarrow> nat list \<Rightarrow> nat \<Rightarrow> event list list \<Rightarrow> bool" where
  "counting ru vs n ps \<longleftrightarrow> distinct vs \<and> (\<forall>t < length ps. writer ru vs n (ps ! t) \<or> reader ru vs n (ps ! t))"

lemma round_index: "j < L \<Longrightarrow> (q * L + j) div L = q \<and> (q * L + j) mod L = (j :: nat)"
  by (simp add: div_nat_eqI mult.commute)

lemma round_bound: "j < L \<Longrightarrow> q < n \<Longrightarrow> q * L + j < n * (L :: nat)"
proof -
  assume "j < L" "q < n"
  then have "q * L + j < Suc q * L" by simp
  also have "\<dots> \<le> n * L" using \<open>q < n\<close> by (intro mult_le_mono1) simp
  finally show ?thesis .
qed

lemma writer_incrs:
  assumes "distinct vs" and "j < length vs" and "D \<subseteq> {..<length (barriered f h (increments vs n))}"
  shows "incrs_of (barriered f h (increments vs n)) D (vs ! j) =
    (\<lambda>q. 2 * (q * length vs + j)) ` {q. q < n \<and> 2 * (q * length vs + j) \<in> D}" (is "?I = ?J")
proof (intro subset_antisym subsetI)
  let ?L = "length vs" and ?es = "barriered f h (increments vs n)"
  have len: "length (increments vs n) = n * ?L" by (simp add: increments_def)
  fix x assume "x \<in> ?I"
  then have x: "x \<in> D" "\<exists>g. ?es ! x = Access g (Incr (vs ! j))" by (auto simp: incrs_of_def)
  then have "x < length ?es" "is_access (?es ! x)" using assms(3) by (auto simp: is_access_def)
  then obtain k where k: "k < n * ?L" "x = 2 * k" using barriered_access len by metis
  with x(2) barriered_nth [of k "increments vs n" f h] have "vs ! (k mod ?L) = vs ! j"
    by (simp add: increments_def)
  moreover have "k mod ?L < ?L" using k(1) by (cases vs) simp_all
  ultimately have "k mod ?L = j" using assms(1,2) by (simp add: nth_eq_iff_index_eq)
  then have "x = 2 * (k div ?L * ?L + j)" using div_mult_mod_eq [of k ?L] k(2) by simp
  moreover have "k div ?L < n" using k(1) by (simp add: less_mult_imp_div_less)
  ultimately show "x \<in> ?J" using x(1) by blast
next
  fix x assume "x \<in> ?J"
  then obtain q where q: "q < n" "x = 2 * (q * length vs + j)" "x \<in> D" by auto
  with round_bound [OF assms(2) q(1)] have "q * length vs + j < length (increments vs n)"
    by (simp add: increments_def)
  from barriered_nth [OF this, of f h] q assms(2) round_index [OF assms(2), of q] show "x \<in> ?I"
    by (auto simp: incrs_of_def increments_def round_bound)
qed

lemma reader_incrs:
  assumes "D \<subseteq> {..<length (barriered f h (loads vs n))}"
  shows "incrs_of (barriered f h (loads vs n)) D v = {}"
proof -
  have False if "x \<in> D" "barriered f h (loads vs n) ! x = Access g (Incr v)" for x g
  proof -
    from that assms have x: "x < length (barriered f h (loads vs n))"
      "is_access (barriered f h (loads vs n) ! x)" by (auto simp: is_access_def)
    from barriered_access [OF this] obtain k where k: "k < length (loads vs n)" "x = 2 * k" by blast
    with barriered_nth [of k "loads vs n" f h] that(2) show False
      by (simp add: loads_def Let_def)
  qed
  then show ?thesis by (auto simp: incrs_of_def)
qed

text \<open>No thread is ahead on a later variable, and none counts further than \<open>n\<close>.\<close>

lemma thread_incrs:
  assumes "reachable ru ps (start mem) m" and "counting ru vs n ps" and "t < length ps"
    and "i \<le> j" and "j < length vs"
  shows "card (incrs_of (ps ! t) (m_done m t) (vs ! j)) \<le> card (incrs_of (ps ! t) (m_done m t) (vs ! i)) \<and>
    card (incrs_of (ps ! t) (m_done m t) (vs ! i)) \<le> n"
proof (cases "writer ru vs n (ps ! t)")
  case True
  then obtain f h where es: "ps ! t = barriered f h (increments vs n)" and ord: "in_order_thread ru f h Wr"
    by (auto simp: writer_def)
  define Q where "Q = (\<lambda>j. {q. q < n \<and> 2 * (q * length vs + j) \<in> m_done m t})"
  have sub: "m_done m t \<subseteq> {..<length (barriered f h (increments vs n))}"
    using done_bounded [OF assms(1), of t] by (simp add: es)
  have card: "card (incrs_of (ps ! t) (m_done m t) (vs ! l)) = card (Q l)" if "l < length vs" for l
  proof -
    have "inj (\<lambda>q. 2 * (q * length vs + l))" using that by (auto simp: inj_on_def)
    moreover have "distinct vs" using assms(2) by (simp add: counting_def)
    ultimately show ?thesis
      unfolding es Q_def by (simp only: writer_incrs [OF _ that sub] card_image inj_on_subset subset_UNIV)
  qed
  have "Q j \<subseteq> Q i"
  proof
    fix q assume q: "q \<in> Q j"
    then have "2 * (q * length vs + j) \<in> m_done m t" by (simp only: Q_def mem_Collect_eq)
    then have "2 * (q * length vs + i) \<in> m_done m t"
      by (rule barriered_closed [OF assms(1) es ord increments_kind]) (use assms(4) in simp)
    with q show "q \<in> Q i" by (simp only: Q_def mem_Collect_eq)
  qed
  moreover have "finite (Q i)" "Q i \<subseteq> {..<n}" by (auto simp: Q_def)
  ultimately have "card (Q j) \<le> card (Q i)" "card (Q i) \<le> n"
    using card_mono [of "{..<n}" "Q i"] by (auto intro: card_mono)
  with card assms(4,5) show ?thesis by simp
next
  case False
  with assms(2,3) obtain f h where es: "ps ! t = barriered f h (loads vs n)"
    by (auto simp: counting_def reader_def)
  with done_bounded [OF assms(1), of t] show ?thesis by (simp add: reader_incrs)
qed

lemma incrs_decreasing:
  assumes "reachable ru ps (start mem) m" and "counting ru vs n ps" and "i \<le> j" and "j < length vs"
  shows "incrs ps m (vs ! j) \<le> incrs ps m (vs ! i)"
  unfolding incrs_def by (rule sum_mono) (use thread_incrs [OF assms(1,2) _ assms(3,4)] in simp)

lemma incrs_bounded:
  assumes "reachable ru ps (start mem) m" and "counting ru vs n ps" and "i < length vs"
  shows "incrs ps m (vs ! i) \<le> length ps * n"
proof -
  have "incrs ps m (vs ! i) \<le> (\<Sum>t < length ps. n)"
    unfolding incrs_def by (rule sum_mono) (use thread_incrs [OF assms(1,2) _ order_refl assms(3)] in simp)
  then show ?thesis by simp
qed

lemma counting_no_stores: "counting ru vs n ps \<Longrightarrow> no_stores ps"
proof -
  assume "counting ru vs n ps"
  moreover have "counts a" if "Access g a \<in> set (barriered f h as)" "\<forall>a \<in> set as. counts a" for f g h a as
    using that by (auto simp: barriered_def)
  moreover have "\<forall>a \<in> set (increments vs n). counts a" "\<forall>a \<in> set (loads vs n). counts a"
    by (auto simp: increments_def loads_def Let_def)
  ultimately show ?thesis
    unfolding no_stores_def counting_def writer_def reader_def all_set_conv_all_nth [of ps] by metis
qed

section \<open>What the readers see\<close>

text \<open>Where in its program a reader loads the variable \<open>j\<close> in the iteration \<open>q\<close>.\<close>

definition read_at :: "nat list \<Rightarrow> nat \<Rightarrow> nat \<Rightarrow> nat" where
  "read_at vs q j = 2 * (q * length vs + (length vs - 1 - j))"

lemma read_at_nth:
  assumes "q < n" and "j < length vs"
  shows "read_at vs q j < length (barriered f h (loads vs n)) \<and>
    barriered f h (loads vs n) ! read_at vs q j = Access f (Load (vs ! j) (q * length vs + j))"
proof -
  define r where "r = length vs - 1 - j"
  have r: "r < length vs" "length vs - 1 - r = j" using assms(2) by (auto simp: r_def)
  have b: "q * length vs + r < n * length vs" using round_bound [OF r(1) assms(1)] .
  with r round_index [OF r(1), of q] have "loads vs n ! (q * length vs + r) = Load (vs ! j) (q * length vs + j)"
    by (simp add: loads_def Let_def)
  with b barriered_nth [of "q * length vs + r" "loads vs n" f h] show ?thesis
    by (simp add: read_at_def r_def loads_def)
qed

lemma read_at_all:
  assumes "x < length (barriered f h (loads vs n))" and "is_access (barriered f h (loads vs n) ! x)"
  shows "\<exists>q < n. \<exists>j < length vs. x = read_at vs q j"
proof -
  let ?L = "length vs"
  from barriered_access [OF assms] obtain k where k: "k < n * ?L" "x = 2 * k" by (auto simp: loads_def)
  then have r: "k mod ?L < ?L" and q: "k div ?L < n"
    by (cases vs, simp_all add: less_mult_imp_div_less)
  then have "k = k div ?L * ?L + (?L - 1 - (?L - 1 - k mod ?L))" by simp
  with k(2) have "x = read_at vs (k div ?L) (?L - 1 - k mod ?L)" by (simp only: read_at_def)
  with q r show ?thesis by (intro exI [of _ "k div ?L"] conjI exI [of _ "?L - 1 - k mod ?L"]) simp_all
qed

lemma same_buffer:
  "j < length vs \<Longrightarrow> l < length vs \<Longrightarrow>
     q * length vs + j = r * length vs + l \<longleftrightarrow> q = r \<and> j = l"
  using round_index [of j "length vs" q] round_index [of l "length vs" r] by auto

lemma incrs_grow:
  assumes "reachable ru ps (start mem) m" and "perform ru ps t k m = Some m'"
  shows "incrs ps m v \<le> incrs ps m' v"
proof -
  obtain f a where t: "t < length ps" "k < length (ps ! t)" "k \<notin> m_done m t" "ps ! t ! k = Access f a"
    and m': "m' = mark t k (do_access t a m)"
    using assms(2) by (rule performE)
  have "incrs ps m' v = incrs ps m v + (if a = Incr v then 1 else 0)"
    unfolding m' by (rule incrs_mark) (use t done_finite [OF assms(1)] in simp_all)
  then show ?thesis by simp
qed

definition buffer_ok :: "event list list \<Rightarrow> nat list \<Rightarrow> nat \<Rightarrow> nat \<Rightarrow> machine \<Rightarrow> bool" where
  "buffer_ok ps vs n t m \<longleftrightarrow> (\<forall>q < n. \<forall>j < length vs. read_at vs q j \<in> m_done m t \<longrightarrow>
     unat (m_local m t (q * length vs + j)) \<le> incrs ps m (vs ! j) \<and>
     (\<forall>i < j. read_at vs q i \<in> m_done m t \<longrightarrow>
        unat (m_local m t (q * length vs + j)) \<le> unat (m_local m t (q * length vs + i))))"

lemma buffer_okI:
  assumes "\<And>q j. q < n \<Longrightarrow> j < length vs \<Longrightarrow> read_at vs q j \<in> m_done m t \<Longrightarrow>
      unat (m_local m t (q * length vs + j)) \<le> incrs ps m (vs ! j)"
    and "\<And>q i j. q < n \<Longrightarrow> i < j \<Longrightarrow> j < length vs \<Longrightarrow> read_at vs q j \<in> m_done m t \<Longrightarrow>
      read_at vs q i \<in> m_done m t \<Longrightarrow>
      unat (m_local m t (q * length vs + j)) \<le> unat (m_local m t (q * length vs + i))"
  shows "buffer_ok ps vs n t m"
  using assms by (simp add: buffer_ok_def)

lemma buffer_okD:
  assumes "buffer_ok ps vs n t m" and "q < n" and "j < length vs" and "read_at vs q j \<in> m_done m t"
  shows "unat (m_local m t (q * length vs + j)) \<le> incrs ps m (vs ! j)"
    and "i < j \<Longrightarrow> read_at vs q i \<in> m_done m t \<Longrightarrow>
      unat (m_local m t (q * length vs + j)) \<le> unat (m_local m t (q * length vs + i))"
  using assms by (auto simp: buffer_ok_def)

text \<open>A load of the reader: all that it reads later in its order has not been read yet.\<close>

lemma buffer_ok_load:
  assumes run: "reachable ru ps (start (\<lambda>v. 0)) m" and cnt: "counting ru vs n ps"
    and small: "length ps * n < 2 ^ 31"
    and es: "ps ! t = barriered f h (loads vs n)" and ord: "in_order_thread ru f h Rd"
    and ok: "buffer_ok ps vs n t m" and step: "perform ru ps t k m = Some m'"
  shows "buffer_ok ps vs n t m'"
proof -
  let ?L = "length vs"
  obtain g a where k: "k < length (ps ! t)" "k \<notin> m_done m t" "ps ! t ! k = Access g a" and t: "t < length ps"
    and m': "m' = mark t k (do_access t a m)"
    using step by (rule performE)
  then have "is_access (barriered f h (loads vs n) ! k)" by (simp add: es is_access_def)
  with k(1) es obtain q0 j0 where q0: "q0 < n" "j0 < ?L" "k = read_at vs q0 j0"
    using read_at_all [of k f h vs n] by auto
  with k(3) es read_at_nth [OF q0(1,2), of f h] have a: "a = Load (vs ! j0) (q0 * ?L + j0)" by simp
  have same: "incrs ps m' v = incrs ps m v" for v
    unfolding m' by (subst incrs_mark [OF t k(2) done_finite [OF run] k(3)]) (simp_all add: a)
  have loc: "m_local m' t (q * ?L + j) =
      (if q = q0 \<and> j = j0 then m_mem m (vs ! j0) else m_local m t (q * ?L + j))" if "j < ?L" for q j
    using same_buffer [OF that q0(2), of q q0] by (simp add: m' a)
  have mem: "unat (m_mem m (vs ! j0)) = incrs ps m (vs ! j0)"
  proof -
    have "incrs ps m (vs ! j0) < 2 ^ 32" using incrs_bounded [OF run cnt q0(2)] small by simp
    then show ?thesis
      using mem_counts [OF run counting_no_stores [OF cnt]] by (simp add: unat_of_nat take_bit_nat_eq_self)
  qed
  have dn: "m_done m' t = insert (read_at vs q0 j0) (m_done m t)" by (simp add: m' q0(3))
  have inj: "read_at vs q j = read_at vs q0 j0 \<longleftrightarrow> q = q0 \<and> j = j0" if "j < ?L" for q j
    using same_buffer [of "?L - 1 - j" vs "?L - 1 - j0" q q0] that q0(2) by (auto simp: read_at_def)
  have later: "read_at vs q0 i \<notin> m_done m t" if "i < j0" for i
  proof
    assume "read_at vs q0 i \<in> m_done m t"
    then have "read_at vs q0 j0 \<in> m_done m t"
      unfolding read_at_def
      by (rule barriered_closed [OF run es ord loads_kind]) (use that in simp)
    with k(2) q0(3) show False by simp
  qed
  show ?thesis
  proof (rule buffer_okI)
    fix q j assume "q < n" "j < ?L" "read_at vs q j \<in> m_done m' t"
    then show "unat (m_local m' t (q * ?L + j)) \<le> incrs ps m' (vs ! j)"
      using buffer_okD(1) [OF ok] inj mem by (auto simp: dn loc same)
  next
    fix q i j assume *: "q < n" "i < j" "j < ?L" "read_at vs q j \<in> m_done m' t" "read_at vs q i \<in> m_done m' t"
    consider "q = q0" "j = j0" | "q = q0" "i = j0" | "read_at vs q j \<in> m_done m t" "read_at vs q i \<in> m_done m t"
      "\<not> (q = q0 \<and> j = j0)" "\<not> (q = q0 \<and> i = j0)"
      using * inj [of j q] inj [of i q] by (auto simp: dn)
    then show "unat (m_local m' t (q * ?L + j)) \<le> unat (m_local m' t (q * ?L + i))"
    proof cases
      case 1
      with * later inj [of i q] show ?thesis by (auto simp: dn)
    next
      case 2
      with * inj [of j q] have "read_at vs q j \<in> m_done m t" by (auto simp: dn)
      from buffer_okD(1) [OF ok *(1,3) this]
      have "unat (m_local m t (q * ?L + j)) \<le> incrs ps m (vs ! j)" .
      also have "\<dots> \<le> incrs ps m (vs ! j0)"
        using incrs_decreasing [OF run cnt, of j0 j] * 2 by simp
      finally show ?thesis using * 2 loc mem by simp
    next
      case 3
      from buffer_okD(2) [OF ok *(1,3) 3(1) *(2) 3(2)] loc [of j q] loc [of i q] *(2,3) 3(3,4)
      show ?thesis by simp
    qed
  qed
qed

lemma buffer_ok_reachable:
  assumes "reachable ru ps (start (\<lambda>v. 0)) m" and "counting ru vs n ps" and "length ps * n < 2 ^ 31"
    and "ps ! t = barriered f h (loads vs n)" and "in_order_thread ru f h Rd"
  shows "buffer_ok ps vs n t m"
  using assms
proof (induction rule: reachable.induct)
  case (reachable_step m u k m')
  note run = reachable_step.hyps(1) and ok = reachable_step.IH [OF reachable_step.prems]
  show ?case
  proof (cases "u = t")
    case True
    with buffer_ok_load [OF run reachable_step.prems ok] reachable_step.hyps(2) show ?thesis by simp
  next
    case False
    obtain f a where m': "m' = mark u k (do_access u a m)"
      using reachable_step.hyps(2) by (rule performE)
    with False have "m_done m' t = m_done m t" "m_local m' t = m_local m t"
      by (simp_all add: do_access_local)
    then show ?thesis
      using le_trans [OF buffer_okD(1) [OF ok] incrs_grow [OF run reachable_step.hyps(2)]] buffer_okD(2) [OF ok]
      by (intro buffer_okI) simp_all
  qed
qed (simp add: buffer_ok_def start_def)

lemma small_sint:
  assumes "unat (w :: c_int) < 2 ^ 31"
  shows "sint w = int (unat w)"
proof -
  have "int (unat w) < int (2 ^ 31)" using assms by (simp only: of_nat_less_iff)
  then have "uint w < 2 ^ 31" by simp
  moreover have "- (2 ^ 31) \<le> uint w" by (rule order_trans [of _ 0]) simp_all
  ultimately have "signed_take_bit 31 (uint w) = uint w"
    by (intro signed_take_bit_int_eq_self)
  then show ?thesis by (simp add: sint_uint)
qed

lemma reader_passes:
  assumes run: "reachable ru ps (start (\<lambda>v. 0)) m" and cnt: "counting ru vs n ps"
    and small: "length ps * n < 2 ^ 31" and t: "t < length ps" "reader ru vs n (ps ! t)" "finished ps t m"
  shows "read_errors vs n (m_local m t) = 0"
proof -
  let ?L = "length vs"
  obtain f h where es: "ps ! t = barriered f h (loads vs n)" and ord: "in_order_thread ru f h Rd"
    using t(2) by (auto simp: reader_def)
  note ok = buffer_ok_reachable [OF run cnt small es ord]
  have "\<not> sint (m_local m t (q * ?L + (j - 1))) < sint (m_local m t (q * ?L + j))"
    if q: "q < n" and j: "1 \<le> j" "j < ?L" for q j
  proof -
    have rd: "read_at vs q i \<in> m_done m t" if "i < ?L" for i
      using read_at_nth [OF q that, of f h] t(3) by (auto simp: finished_def es is_access_def)
    have nn: "sint (m_local m t (q * ?L + i)) = int (unat (m_local m t (q * ?L + i)))" if "i < ?L" for i
    proof -
      have "unat (m_local m t (q * ?L + i)) \<le> incrs ps m (vs ! i)"
        using buffer_okD(1) [OF ok q that rd [OF that]] .
      also have "\<dots> < 2 ^ 31" using incrs_bounded [OF run cnt that] small by simp
      finally show ?thesis by (rule small_sint)
    qed
    have "unat (m_local m t (q * ?L + j)) \<le> unat (m_local m t (q * ?L + (j - 1)))"
      using buffer_okD(2) [OF ok q j(2) rd [OF j(2)], of "j - 1"] j rd [of "j - 1"] by simp
    moreover have "j - 1 < ?L" using j by simp
    ultimately show ?thesis by (simp only: nn j(2) of_nat_less_iff not_less)
  qed
  then show ?thesis by (auto simp: read_errors_def filter_empty_conv)
qed

section \<open>The tests on the ports\<close>

lemma barrier_test_length: "barrier_test p vs n nt = Some ps \<Longrightarrow> length ps = nt"
  by (auto simp: barrier_test_def)

text \<open>The barriers of every port order what the threads need ordered.\<close>

lemma documented_writer:
  "stricter ru (documented_rules p) \<Longrightarrow> incr_int_of p = Some f \<Longrightarrow>
     in_order_thread ru f (write_barrier (barriers_of p)) Wr"
  by (cases p) (auto simp: in_order_thread_def documented_defs barriers_defs int_access_defs)

lemma documented_reader:
  "stricter ru (documented_rules p) \<Longrightarrow> incr_int_of p = Some f \<Longrightarrow>
     in_order_thread ru (fst (int_moves_of p)) (read_barrier (barriers_of p)) Rd"
  by (cases p) (auto simp: in_order_thread_def documented_defs barriers_defs int_access_defs)

lemma barrier_test_counting:
  assumes "stricter ru (documented_rules p)" and "distinct vs" and "barrier_test p vs n nt = Some ps"
  shows "counting ru vs n ps \<and> (\<forall>t < nt. odd t \<longrightarrow> reader ru vs n (ps ! t))"
proof -
  from assms(3) obtain f where f: "incr_int_of p = Some f" and ps: "ps = map (\<lambda>t. if even t
    then write_thread p f vs n else read_thread p vs n) [0..<nt]" by (auto simp: barrier_test_def)
  have "writer ru vs n (write_thread p f vs n)" "reader ru vs n (read_thread p vs n)"
    using documented_writer [OF assms(1) f] documented_reader [OF assms(1) f]
    unfolding writer_def reader_def write_thread_barriered read_thread_barriered by blast+
  with assms(2) show ?thesis by (simp add: counting_def ps)
qed

lemma test_sizes:
  assumes "c < 5" and "(vs, n) \<in> {(linear_array, linear_array_niter c), (variables, variables_niter c),
    (scattered_array, variables_niter c)}"
  shows "distinct vs \<and> num_threads ! c * n < 2 ^ 31"
proof -
  from assms(1) have "c \<in> {0, 1, 2, 3, 4}" by auto
  with assms(2) show ?thesis
    by (auto simp: linear_array_def variables_def scattered_array_def linear_array_niter_def
      variables_niter_def num_threads_def iter_reduction_def)
qed

section \<open>Properties\<close>

text \<open>
  C13. The threaded barrier tests pass on every port but the unsafe one, which has no atomic
  increment. For each of the three tests, each number of threads and each order in which the
  accesses may be done under the documented rules of the port (or stricter ones), no reader that has
  run to its end has counted an error; and from every state all the threads can run to their ends.
\<close>

theorem barrier_tests_pass:
  assumes "stricter ru (documented_rules p)" and "c < 5"
    and "(vs, n) \<in> {(linear_array, linear_array_niter c), (variables, variables_niter c),
      (scattered_array, variables_niter c)}"
    and "barrier_test p vs n (num_threads ! c) = Some ps"
    and "reachable ru ps (start (\<lambda>v. 0)) m"
  shows "(\<forall>t < num_threads ! c. odd t \<and> finished ps t m \<longrightarrow> read_errors vs n (m_local m t) = 0) \<and>
    (\<exists>e. reachable ru ps m e \<and> (\<forall>t < num_threads ! c. finished ps t e))"
proof -
  note sizes = test_sizes [OF assms(2,3)] and len = barrier_test_length [OF assms(4)]
  from sizes have dist: "distinct vs" and small: "length ps * n < 2 ^ 31" by (simp_all add: len)
  have cnt: "counting ru vs n ps" and rd: "\<And>t. t < length ps \<Longrightarrow> odd t \<Longrightarrow> reader ru vs n (ps ! t)"
    using barrier_test_counting [OF assms(1) dist assms(4)] by (simp_all add: len)
  have "read_errors vs n (m_local m t) = 0" if "t < length ps" "odd t" "finished ps t m" for t
    using reader_passes [OF assms(5) cnt small that(1) rd [OF that(1,2)] that(3)] .
  moreover obtain e where "reachable ru ps m e" "\<forall>t < length ps. finished ps t e"
    using runs_end by blast
  ultimately show ?thesis unfolding len by blast
qed

text \<open>The run of two threads on PowerPC, with the rules that are documented and no more.\<close>

theorem barrier_tests_pass_witness:
  "\<exists>ps e. barrier_test Gcc_Ppc linear_array (linear_array_niter 1) 2 = Some ps \<and>
     reachable (documented_rules Gcc_Ppc) ps (start (\<lambda>v. 0)) e \<and> finished ps 1 e \<and>
     read_errors linear_array (linear_array_niter 1) (m_local e 1) = 0"
proof -
  have two: "num_threads ! 1 = 2" by (simp add: num_threads_def)
  obtain ps where ps: "barrier_test Gcc_Ppc linear_array (linear_array_niter 1) (num_threads ! 1) = Some ps"
    by (simp add: barrier_test_def)
  note pass = barrier_tests_pass [OF stricter_refl _ _ ps]
  obtain e where e: "reachable (documented_rules Gcc_Ppc) ps (start (\<lambda>v. 0)) e" "finished ps 1 e"
    using pass [OF _ _ reachable_refl] two by auto
  with pass [OF _ _ e(1)] ps two show ?thesis by auto
qed

end
