(* ===== verification/OPA_Fifo.thy ===== *)
theory OPA_Fifo
  imports OPA_Prelude
begin

text \<open>
  What a queue promises its users, as a locale: the state represents a list, an enqueued element
  is appended, the head is the element peeked and dequeued. The code asks its users to call
  \<open>OPA_Queue_is_empty\<close> before a peek or a dequeue; \<open>primed\<close> is the condition that call
  establishes. The clients are the ways the test program of the queue uses it.
\<close>

section \<open>Clients\<close>

text \<open>
  The dequeuer's idiom, \<open>if (!OPA_Queue_is_empty(q)) OPA_Queue_dequeue(q, e, ...)\<close>: the
  element, or \<open>None\<close> when the queue was empty.
\<close>

definition poll ::
  "('s \<Rightarrow> ('s, c_int) outcome) \<Rightarrow> ('s \<Rightarrow> ('s, addr) outcome) \<Rightarrow> 's \<Rightarrow> ('s, addr option) outcome" where
  "poll is_empty deq s =
     bind_outcome (is_empty s) (\<lambda>e s.
       if e = 0 then bind_outcome (deq s) (\<lambda>x s. ret (Some x) s) else ret None s)"

fun enq_all ::
  "(addr \<Rightarrow> 's \<Rightarrow> ('s, unit) outcome) \<Rightarrow> addr list \<Rightarrow> 's \<Rightarrow> ('s, unit) outcome" where
  "enq_all enq [] s = ret () s"
| "enq_all enq (x # xs) s = bind_outcome (enq x s) (\<lambda>_. enq_all enq xs)"

text \<open>At most \<open>n\<close> polls, up to the first that finds the queue empty.\<close>

fun drain ::
  "('s \<Rightarrow> ('s, c_int) outcome) \<Rightarrow> ('s \<Rightarrow> ('s, addr) outcome) \<Rightarrow> nat \<Rightarrow> 's \<Rightarrow>
   ('s, addr list) outcome" where
  "drain is_empty deq 0 s = ret [] s"
| "drain is_empty deq (Suc n) s =
     bind_outcome (poll is_empty deq s) (\<lambda>r s.
       case r of None \<Rightarrow> ret [] s
       | Some x \<Rightarrow> bind_outcome (drain is_empty deq n s) (\<lambda>xs s. ret (x # xs) s))"

text \<open>
  \<open>test_queue_sanity\<close> of \<open>test/test_queue.c\<close>: \<open>True\<close> when no check fails. The values of the
  four elements are pairwise different, so the test on \<open>element->val\<close> is the test on which
  element was returned.
\<close>

definition test_queue_sanity ::
  "('s \<Rightarrow> ('s, unit) outcome) \<Rightarrow> (addr \<Rightarrow> 's \<Rightarrow> ('s, unit) outcome) \<Rightarrow>
   (addr \<Rightarrow> 's \<Rightarrow> ('s, unit) outcome) \<Rightarrow> ('s \<Rightarrow> ('s, c_int) outcome) \<Rightarrow>
   ('s \<Rightarrow> ('s, addr) outcome) \<Rightarrow> ('s \<Rightarrow> ('s, addr) outcome) \<Rightarrow>
   addr \<Rightarrow> addr \<Rightarrow> addr \<Rightarrow> addr \<Rightarrow> 's \<Rightarrow> ('s, bool) outcome" where
  "test_queue_sanity init header_init enq is_empty peek deq e0 e1 e2 e3 s =
     bind_outcome (init s) (\<lambda>_ s.
     bind_outcome (is_empty s) (\<lambda>a1 s.
     bind_outcome (peek s) (\<lambda>a2 s.
     bind_outcome (header_init e0 s) (\<lambda>_ s.
     bind_outcome (header_init e1 s) (\<lambda>_ s.
     bind_outcome (header_init e2 s) (\<lambda>_ s.
     bind_outcome (header_init e3 s) (\<lambda>_ s.
     bind_outcome (enq e0 s) (\<lambda>_ s.
     bind_outcome (is_empty s) (\<lambda>b1 s.
     bind_outcome (peek s) (\<lambda>b2 s.
     bind_outcome (is_empty s) (\<lambda>c1 s.
     bind_outcome (deq s) (\<lambda>c2 s.
     bind_outcome (is_empty s) (\<lambda>c3 s.
     bind_outcome (enq e1 s) (\<lambda>_ s.
     bind_outcome (enq e2 s) (\<lambda>_ s.
     bind_outcome (is_empty s) (\<lambda>d1 s.
     bind_outcome (peek s) (\<lambda>d2 s.
     bind_outcome (is_empty s) (\<lambda>f1 s.
     bind_outcome (deq s) (\<lambda>f2 s.
     bind_outcome (enq e3 s) (\<lambda>_ s.
     bind_outcome (is_empty s) (\<lambda>g1 s.
     bind_outcome (deq s) (\<lambda>g2 s.
     bind_outcome (is_empty s) (\<lambda>h1 s.
     bind_outcome (peek s) (\<lambda>h2 s.
     bind_outcome (is_empty s) (\<lambda>i1 s.
     bind_outcome (deq s) (\<lambda>i2 s.
     bind_outcome (is_empty s) (\<lambda>i3 s.
       ret (a1 \<noteq> 0 \<and> a2 = 0 \<and> b1 = 0 \<and> b2 \<noteq> 0 \<and> b2 = e0 \<and> c1 = 0 \<and> c2 = e0 \<and> c3 \<noteq> 0 \<and>
         d1 = 0 \<and> d2 \<noteq> 0 \<and> d2 = e1 \<and> f1 = 0 \<and> f2 = e1 \<and> g1 = 0 \<and> g2 = e2 \<and>
         h1 = 0 \<and> h2 \<noteq> 0 \<and> h2 = e3 \<and> i1 = 0 \<and> i2 = e3 \<and> i3 \<noteq> 0) s
     )))))))))))))))))))))))))))"

section \<open>The contract\<close>

text \<open>
  \<open>gives rep primed out r xs b\<close>: the call returns \<open>r\<close> in a state that represents \<open>xs\<close> and, when
  \<open>b\<close> holds, is primed.
\<close>

definition gives ::
  "('s \<Rightarrow> addr list \<Rightarrow> bool) \<Rightarrow> ('s \<Rightarrow> bool) \<Rightarrow> ('s, 'a) outcome \<Rightarrow> 'a \<Rightarrow> addr list \<Rightarrow> bool \<Rightarrow> bool" where
  "gives rep primed out r xs b \<longleftrightarrow> (\<exists>s. out = ret r s \<and> rep s xs \<and> (b \<longrightarrow> primed s))"

lemma gives_ret: "rep s xs \<Longrightarrow> (b \<Longrightarrow> primed s) \<Longrightarrow> gives rep primed (ret r s) r xs b"
  by (auto simp: gives_def)

lemma gives_bind:
  assumes "gives rep primed out r xs b"
    and "\<And>s. rep s xs \<Longrightarrow> (b \<longrightarrow> primed s) \<Longrightarrow> gives rep primed (k r s) r' ys c"
  shows "gives rep primed (bind_outcome out k) r' ys c"
  using assms by (auto simp: gives_def)

locale fifo_queue =
  fixes fresh :: "'s \<Rightarrow> bool"
    and rep :: "'s \<Rightarrow> addr list \<Rightarrow> bool"
    and primed :: "'s \<Rightarrow> bool"
    and enqueuable :: "addr \<Rightarrow> bool"
    and init :: "'s \<Rightarrow> ('s, unit) outcome"
    and header_init :: "addr \<Rightarrow> 's \<Rightarrow> ('s, unit) outcome"
    and enq :: "addr \<Rightarrow> 's \<Rightarrow> ('s, unit) outcome"
    and is_empty :: "'s \<Rightarrow> ('s, c_int) outcome"
    and peek :: "'s \<Rightarrow> ('s, addr) outcome"
    and deq :: "'s \<Rightarrow> ('s, addr) outcome"
  assumes init_law: "fresh s \<Longrightarrow> gives rep primed (init s) () [] False"
    and header_init_law: "rep s xs \<Longrightarrow> enqueuable x \<Longrightarrow> x \<notin> set xs \<Longrightarrow>
      gives rep primed (header_init x s) () xs False"
    and enq_law: "rep s xs \<Longrightarrow> enqueuable x \<Longrightarrow> x \<notin> set xs \<Longrightarrow>
      gives rep primed (enq x s) () (xs @ [x]) False"
    and is_empty_law: "rep s xs \<Longrightarrow>
      gives rep primed (is_empty s) (c_bool (xs = [])) xs (xs \<noteq> [])"
    and peek_law: "rep s (x # xs) \<Longrightarrow> primed s \<Longrightarrow> gives rep primed (peek s) x (x # xs) True"
    and peek_empty_law: "rep s [] \<Longrightarrow> gives rep primed (peek s) 0 [] False"
    and deq_law: "rep s (x # xs) \<Longrightarrow> primed s \<Longrightarrow> gives rep primed (deq s) x xs False"
begin

lemma is_empty_Nil: "rep s [] \<Longrightarrow> gives rep primed (is_empty s) 1 [] False"
  using is_empty_law [of s "[]"] by (simp add: c_bool_def)

lemma is_empty_Cons: "rep s (x # xs) \<Longrightarrow> gives rep primed (is_empty s) 0 (x # xs) True"
  using is_empty_law [of s "x # xs"] by (simp add: c_bool_def)

lemma poll_Nil: "rep s [] \<Longrightarrow> gives rep primed (poll is_empty deq s) None [] False"
  unfolding poll_def by (rule gives_bind [OF is_empty_Nil]) (auto intro: gives_ret)

lemma poll_Cons: "rep s (x # xs) \<Longrightarrow> gives rep primed (poll is_empty deq s) (Some x) xs False"
  unfolding poll_def
  by (rule gives_bind [OF is_empty_Cons], assumption, simp,
      rule gives_bind [OF deq_law], assumption) (auto intro: gives_ret)

lemma enq_all_appends:
  "rep s xs \<Longrightarrow> distinct (xs @ ys) \<Longrightarrow> \<forall>y \<in> set ys. enqueuable y \<Longrightarrow>
     gives rep primed (enq_all enq ys s) () (xs @ ys) False"
proof (induction ys arbitrary: s xs)
  case Nil
  then show ?case by (auto intro: gives_ret)
next
  case (Cons y ys)
  have "gives rep primed (bind_outcome (enq y s) (\<lambda>_. enq_all enq ys)) () ((xs @ [y]) @ ys) False"
  proof (rule gives_bind [OF enq_law])
    fix s' assume "rep s' (xs @ [y])"
    then show "gives rep primed (enq_all enq ys s') () ((xs @ [y]) @ ys) False"
      using Cons.prems by (intro Cons.IH) auto
  qed (use Cons.prems in auto)
  then show ?case by simp
qed

lemma drain_takes:
  "rep s xs \<Longrightarrow> gives rep primed (drain is_empty deq n s) (take n xs) (drop n xs) False"
proof (induction n arbitrary: s xs)
  case 0
  then show ?case by (auto intro: gives_ret)
next
  case (Suc n)
  show ?case
  proof (cases xs)
    case Nil
    with Suc.prems show ?thesis
      by (auto intro!: gives_bind [OF poll_Nil] gives_ret)
  next
    case (Cons x xs')
    with Suc.prems show ?thesis
      by (auto intro!: gives_bind [OF poll_Cons] gives_bind [OF Suc.IH] gives_ret)
  qed
qed

lemma enq_all_drain:
  assumes "rep s []" and "distinct ys" and "\<forall>y \<in> set ys. enqueuable y"
  shows "gives rep primed
    (bind_outcome (enq_all enq ys s) (\<lambda>_. drain is_empty deq (length ys))) ys [] False"
  using assms
  by (auto intro!: gives_bind [OF enq_all_appends [where xs = "[]"]]
      dest: drain_takes [where n = "length ys"])

text \<open>One step of a client that knows the list, for each shape the sanity test meets.\<close>

lemmas client_steps =
  gives_bind [OF is_empty_Nil]
  gives_bind [OF is_empty_Cons]
  gives_bind [OF peek_empty_law]
  gives_bind [OF peek_law]
  gives_bind [OF deq_law]
  gives_bind [OF header_init_law]
  gives_bind [OF enq_law [where xs = "[]", simplified]]
  gives_bind [OF enq_law [where xs = "[y]" for y, simplified]]

lemma sanity_holds:
  assumes "fresh s" and "distinct [e0, e1, e2, e3]"
    and "\<forall>e \<in> {e0, e1, e2, e3}. enqueuable e \<and> e \<noteq> 0"
  shows "gives rep primed
    (test_queue_sanity init header_init enq is_empty peek deq e0 e1 e2 e3 s) True [] False"
  unfolding test_queue_sanity_def
  apply (rule gives_bind [OF init_law], rule assms(1))
  apply (rule client_steps, assumption, ((use assms in \<open>force\<close>)+)?)+
  using assms(2,3) by (auto intro: gives_ret)

end

end
