(* ===== verification/OPA_Unsafe.thy ===== *)
theory OPA_Unsafe
  imports OPA_Contract
begin

text \<open>
  The unsafe primitives, \<open>src/primitives/opa_unsafe.h\<close>: the single-threaded behaviour of every
  primitive. Each definition is the body of the C function of the same name (with the suffix
  \<open>_unsafe\<close>). The arithmetic is C's on \<open>int\<close>, so a sum out of range is a fault.
\<close>

section \<open>The primitives\<close>

definition OPA_load_int_unsafe :: "addr \<Rightarrow> mem \<Rightarrow> (mem, c_int) outcome" where
  [port_defs]: "OPA_load_int_unsafe ptr m = (let retval = int_at m ptr in ret retval m)"

definition OPA_store_int_unsafe :: "addr \<Rightarrow> c_int \<Rightarrow> mem \<Rightarrow> (mem, unit) outcome" where
  [port_defs]: "OPA_store_int_unsafe ptr val m = ret () (st_int ptr val m)"

definition OPA_load_ptr_unsafe :: "addr \<Rightarrow> mem \<Rightarrow> (mem, addr) outcome" where
  [port_defs]: "OPA_load_ptr_unsafe ptr m = (let retval = ptr_at m ptr in ret retval m)"

definition OPA_store_ptr_unsafe :: "addr \<Rightarrow> addr \<Rightarrow> mem \<Rightarrow> (mem, unit) outcome" where
  [port_defs]: "OPA_store_ptr_unsafe ptr val m = ret () (st_ptr ptr val m)"

definition OPA_add_int_unsafe :: "addr \<Rightarrow> c_int \<Rightarrow> mem \<Rightarrow> (mem, unit) outcome" where
  [port_defs]: "OPA_add_int_unsafe ptr val m =
     (case c_add (int_at m ptr) val of Inl f \<Rightarrow> fault f | Inr v \<Rightarrow> ret () (st_int ptr v m))"

definition OPA_cas_ptr_unsafe :: "addr \<Rightarrow> addr \<Rightarrow> addr \<Rightarrow> mem \<Rightarrow> (mem, addr) outcome" where
  [port_defs]: "OPA_cas_ptr_unsafe ptr oldv newv m =
     (let prev = ptr_at m ptr in ret prev (if prev = oldv then st_ptr ptr newv m else m))"

definition OPA_cas_int_unsafe :: "addr \<Rightarrow> c_int \<Rightarrow> c_int \<Rightarrow> mem \<Rightarrow> (mem, c_int) outcome" where
  [port_defs]: "OPA_cas_int_unsafe ptr oldv newv m =
     (let prev = int_at m ptr in ret prev (if prev = oldv then st_int ptr newv m else m))"

definition OPA_decr_and_test_int_unsafe :: "addr \<Rightarrow> mem \<Rightarrow> (mem, c_int) outcome" where
  [port_defs]: "OPA_decr_and_test_int_unsafe ptr m =
     (case c_add (int_at m ptr) (- 1) of Inl f \<Rightarrow> fault f
      | Inr new_val \<Rightarrow> ret (c_bool (0 = new_val)) (st_int ptr new_val m))"

definition OPA_decr_int_unsafe :: "addr \<Rightarrow> mem \<Rightarrow> (mem, unit) outcome" where
  [port_defs]: "OPA_decr_int_unsafe ptr m =
     (case c_add (int_at m ptr) (- 1) of Inl f \<Rightarrow> fault f | Inr v \<Rightarrow> ret () (st_int ptr v m))"

definition OPA_fetch_and_add_int_unsafe :: "addr \<Rightarrow> c_int \<Rightarrow> mem \<Rightarrow> (mem, c_int) outcome" where
  [port_defs]: "OPA_fetch_and_add_int_unsafe ptr val m =
     (let prev = int_at m ptr
      in case c_add (int_at m ptr) val of Inl f \<Rightarrow> fault f | Inr v \<Rightarrow> ret prev (st_int ptr v m))"

definition OPA_fetch_and_decr_int_unsafe :: "addr \<Rightarrow> mem \<Rightarrow> (mem, c_int) outcome" where
  [port_defs]: "OPA_fetch_and_decr_int_unsafe ptr m =
     (let prev = int_at m ptr
      in case c_add (int_at m ptr) (- 1) of Inl f \<Rightarrow> fault f | Inr v \<Rightarrow> ret prev (st_int ptr v m))"

definition OPA_fetch_and_incr_int_unsafe :: "addr \<Rightarrow> mem \<Rightarrow> (mem, c_int) outcome" where
  [port_defs]: "OPA_fetch_and_incr_int_unsafe ptr m =
     (let prev = int_at m ptr
      in case c_add (int_at m ptr) 1 of Inl f \<Rightarrow> fault f | Inr v \<Rightarrow> ret prev (st_int ptr v m))"

definition OPA_incr_int_unsafe :: "addr \<Rightarrow> mem \<Rightarrow> (mem, unit) outcome" where
  [port_defs]: "OPA_incr_int_unsafe ptr m =
     (case c_add (int_at m ptr) 1 of Inl f \<Rightarrow> fault f | Inr v \<Rightarrow> ret () (st_int ptr v m))"

definition OPA_swap_ptr_unsafe :: "addr \<Rightarrow> addr \<Rightarrow> mem \<Rightarrow> (mem, addr) outcome" where
  [port_defs]: "OPA_swap_ptr_unsafe ptr val m = (let prev = ptr_at m ptr in ret prev (st_ptr ptr val m))"

definition OPA_swap_int_unsafe :: "addr \<Rightarrow> c_int \<Rightarrow> mem \<Rightarrow> (mem, c_int) outcome" where
  [port_defs]: "OPA_swap_int_unsafe ptr val m = (let prev = int_at m ptr in ret prev (st_int ptr val m))"

text \<open>The accesses with memory ordering are macros that name the plain ones.\<close>

definition OPA_load_acquire_int_unsafe :: "addr \<Rightarrow> mem \<Rightarrow> (mem, c_int) outcome" where
  "OPA_load_acquire_int_unsafe = OPA_load_int_unsafe"

definition OPA_store_release_int_unsafe :: "addr \<Rightarrow> c_int \<Rightarrow> mem \<Rightarrow> (mem, unit) outcome" where
  "OPA_store_release_int_unsafe = OPA_store_int_unsafe"

definition OPA_load_acquire_ptr_unsafe :: "addr \<Rightarrow> mem \<Rightarrow> (mem, addr) outcome" where
  "OPA_load_acquire_ptr_unsafe = OPA_load_ptr_unsafe"

definition OPA_store_release_ptr_unsafe :: "addr \<Rightarrow> addr \<Rightarrow> mem \<Rightarrow> (mem, unit) outcome" where
  "OPA_store_release_ptr_unsafe = OPA_store_ptr_unsafe"

section \<open>The contract\<close>

text \<open>Every state is good and is its own view.\<close>

interpretation unsafe: opa_primitives "\<lambda>_. True" "\<lambda>m. m"
  OPA_load_int_unsafe OPA_store_int_unsafe OPA_load_ptr_unsafe OPA_store_ptr_unsafe
  OPA_cas_int_unsafe OPA_cas_ptr_unsafe OPA_swap_int_unsafe OPA_swap_ptr_unsafe
  OPA_fetch_and_add_int_unsafe OPA_add_int_unsafe OPA_incr_int_unsafe OPA_decr_int_unsafe
  OPA_decr_and_test_int_unsafe OPA_fetch_and_incr_int_unsafe OPA_fetch_and_decr_int_unsafe
  by unfold_locales (simp_all add: port_defs yields_def c_add_def Let_def)

interpretation unsafe_ordered: access_primitives "\<lambda>_. True" "\<lambda>m. m"
  OPA_load_acquire_int_unsafe OPA_store_release_int_unsafe
  OPA_load_acquire_ptr_unsafe OPA_store_release_ptr_unsafe
  unfolding OPA_load_acquire_int_unsafe_def OPA_store_release_int_unsafe_def
    OPA_load_acquire_ptr_unsafe_def OPA_store_release_ptr_unsafe_def
  by (rule unsafe.access_primitives_axioms)

text \<open>The only way a primitive of this port does not return is the signed overflow.\<close>

lemma counters_fault_iff:
  "OPA_fetch_and_add_int_unsafe p v m = fault f \<longleftrightarrow>
     f = Signed_Overflow \<and> \<not> no_overflow (int_at m p) v"
  by (auto simp: port_defs c_add_def fault_def ret_def Let_def)

section \<open>Properties\<close>

text \<open>
  The unsafe port meets the contract of the primitives: every function of the interface
  returns what \<open>opa_primitives.h\<close> promises and changes the store as promised, as long as no signed
  sum overflows.
\<close>

lemma unsafe_meets_contract:
  "opa_primitives (\<lambda>_. True) (\<lambda>m. m)
    OPA_load_int_unsafe OPA_store_int_unsafe OPA_load_ptr_unsafe OPA_store_ptr_unsafe
    OPA_cas_int_unsafe OPA_cas_ptr_unsafe OPA_swap_int_unsafe OPA_swap_ptr_unsafe
    OPA_fetch_and_add_int_unsafe OPA_add_int_unsafe OPA_incr_int_unsafe OPA_decr_int_unsafe
    OPA_decr_and_test_int_unsafe OPA_fetch_and_incr_int_unsafe OPA_fetch_and_decr_int_unsafe"
  by (rule unsafe.opa_primitives_axioms)

text \<open>
  The counters of the unsafe port are undefined exactly when the sum overflows: a
  fetch-and-add of any value to any content either returns the previous value and stores the sum,
  or faults, and it faults just when the sum of the two as integers is no \<open>int\<close>.
\<close>

lemma unsafe_overflow:
  "OPA_fetch_and_add_int_unsafe p v m =
     (if sint (int_at m p) + sint v \<in> {- (2 ^ 31) ..< 2 ^ 31}
      then ret (int_at m p) (st_int p (int_at m p + v) m) else fault Signed_Overflow)"
  by (simp add: port_defs c_add_def no_overflow_def Let_def)

end
