(* ===== verification/OPA_By_Lock.thy ===== *)
theory OPA_By_Lock
  imports OPA_Contract
begin

text \<open>
  The lock-based primitives, \<open>src/primitives/opa_by_lock.h\<close>, and the set-up of their mutex,
  \<open>OPA_Interprocess_lock_init\<close> of \<open>src/opa_primitives.c\<close>, as one thread runs them. The state
  adds to the store the global \<open>OPA_emulation_lock\<close> and the mutexes in memory. The three pthread
  calls of the set-up may fail; their return codes are the argument \<open>rc\<close>. The interleaving of
  several threads is the subject of \<open>OPA_Lock_Threads\<close>.
\<close>

section \<open>Mutexes\<close>

datatype mutex = Uninit | Unlocked | Locked

record lock_mem = mem +
  OPA_emulation_lock :: addr
  mutex_at :: "addr \<Rightarrow> mutex"

definition set_mutex :: "addr \<Rightarrow> mutex \<Rightarrow> lock_mem \<Rightarrow> lock_mem" where
  "set_mutex a x s = s\<lparr>mutex_at := (mutex_at s)(a := x)\<rparr>"

text \<open>
  The library's use of pthreads. Locking a null or an uninitialised mutex is undefined; locking
  a mutex the thread already holds never returns. Unlocking a mutex that is not locked and
  initialising a mutex twice are undefined.
\<close>

definition pthread_mutex_lock :: "addr \<Rightarrow> lock_mem \<Rightarrow> (lock_mem, unit) outcome" where
  "pthread_mutex_lock a s =
     (if a = 0 then fault Null_Mutex
      else case mutex_at s a of
        Uninit \<Rightarrow> fault Uninit_Mutex
      | Unlocked \<Rightarrow> ret () (set_mutex a Locked s)
      | Locked \<Rightarrow> None)"

definition pthread_mutex_unlock :: "addr \<Rightarrow> lock_mem \<Rightarrow> (lock_mem, unit) outcome" where
  "pthread_mutex_unlock a s =
     (if a = 0 then fault Null_Mutex
      else case mutex_at s a of
        Uninit \<Rightarrow> fault Uninit_Mutex
      | Unlocked \<Rightarrow> fault Not_Locked
      | Locked \<Rightarrow> ret () (set_mutex a Unlocked s))"

definition pthread_mutex_init :: "c_int \<Rightarrow> addr \<Rightarrow> lock_mem \<Rightarrow> (lock_mem, c_int) outcome" where
  "pthread_mutex_init rc a s =
     (if a = 0 then fault Null_Mutex
      else if mutex_at s a \<noteq> Uninit then fault Reinit_Mutex
      else ret rc (if rc = 0 then set_mutex a Unlocked s else s))"

section \<open>Set-up\<close>

text \<open>
  The return codes of \<open>pthread_mutexattr_init\<close>, \<open>pthread_mutexattr_setpshared\<close> and
  \<open>pthread_mutex_init\<close>; \<open>||\<close> stops at the first that is not zero.
\<close>

record pthread_rc =
  attr_init_rc :: c_int
  setpshared_rc :: c_int
  mutex_init_rc :: c_int

definition OPA_Interprocess_lock_init ::
  "pthread_rc \<Rightarrow> addr \<Rightarrow> bool \<Rightarrow> lock_mem \<Rightarrow> (lock_mem, c_int) outcome" where
  "OPA_Interprocess_lock_init rc shm_lock isLeader s =
     (let s = s\<lparr>OPA_emulation_lock := shm_lock\<rparr>
      in if isLeader
         then if attr_init_rc rc \<noteq> 0 then ret 16 s
              else if setpshared_rc rc \<noteq> 0 then ret 16 s
              else bind_outcome (pthread_mutex_init (mutex_init_rc rc) (OPA_emulation_lock s) s)
                     (\<lambda>r s. if r \<noteq> 0 then ret 16 s else ret 0 s)
         else ret 0 s)"

section \<open>The critical section\<close>

text \<open>\<open>OPA_assert\<close> expands to nothing, so the macros are the bare pthread calls.\<close>

definition OPA_IPC_SINGLE_CS_ENTER :: "lock_mem \<Rightarrow> (lock_mem, unit) outcome" where
  "OPA_IPC_SINGLE_CS_ENTER s = pthread_mutex_lock (OPA_emulation_lock s) s"

definition OPA_IPC_SINGLE_CS_EXIT :: "lock_mem \<Rightarrow> (lock_mem, unit) outcome" where
  "OPA_IPC_SINGLE_CS_EXIT s = pthread_mutex_unlock (OPA_emulation_lock s) s"

section \<open>The primitives\<close>

definition OPA_load_int_by_lock :: "addr \<Rightarrow> lock_mem \<Rightarrow> (lock_mem, c_int) outcome" where
  [port_defs]: "OPA_load_int_by_lock ptr s =
     bind_outcome (OPA_IPC_SINGLE_CS_ENTER s) (\<lambda>_ s.
     let retval = int_at s ptr in
     bind_outcome (OPA_IPC_SINGLE_CS_EXIT s) (\<lambda>_ s. ret retval s))"

definition OPA_store_int_by_lock :: "addr \<Rightarrow> c_int \<Rightarrow> lock_mem \<Rightarrow> (lock_mem, unit) outcome" where
  [port_defs]: "OPA_store_int_by_lock ptr val s =
     bind_outcome (OPA_IPC_SINGLE_CS_ENTER s) (\<lambda>_ s.
     OPA_IPC_SINGLE_CS_EXIT (st_int ptr val s))"

definition OPA_load_ptr_by_lock :: "addr \<Rightarrow> lock_mem \<Rightarrow> (lock_mem, addr) outcome" where
  [port_defs]: "OPA_load_ptr_by_lock ptr s =
     bind_outcome (OPA_IPC_SINGLE_CS_ENTER s) (\<lambda>_ s.
     let retval = ptr_at s ptr in
     bind_outcome (OPA_IPC_SINGLE_CS_EXIT s) (\<lambda>_ s. ret retval s))"

definition OPA_store_ptr_by_lock :: "addr \<Rightarrow> addr \<Rightarrow> lock_mem \<Rightarrow> (lock_mem, unit) outcome" where
  [port_defs]: "OPA_store_ptr_by_lock ptr val s =
     bind_outcome (OPA_IPC_SINGLE_CS_ENTER s) (\<lambda>_ s.
     OPA_IPC_SINGLE_CS_EXIT (st_ptr ptr val s))"

definition OPA_add_int_by_lock :: "addr \<Rightarrow> c_int \<Rightarrow> lock_mem \<Rightarrow> (lock_mem, unit) outcome" where
  [port_defs]: "OPA_add_int_by_lock ptr val s =
     bind_outcome (OPA_IPC_SINGLE_CS_ENTER s) (\<lambda>_ s.
     case c_add (int_at s ptr) val of Inl f \<Rightarrow> fault f
     | Inr v \<Rightarrow> OPA_IPC_SINGLE_CS_EXIT (st_int ptr v s))"

definition OPA_cas_ptr_by_lock :: "addr \<Rightarrow> addr \<Rightarrow> addr \<Rightarrow> lock_mem \<Rightarrow> (lock_mem, addr) outcome" where
  [port_defs]: "OPA_cas_ptr_by_lock ptr oldv newv s =
     bind_outcome (OPA_IPC_SINGLE_CS_ENTER s) (\<lambda>_ s.
     let prev = ptr_at s ptr;
         s = (if prev = oldv then st_ptr ptr newv s else s) in
     bind_outcome (OPA_IPC_SINGLE_CS_EXIT s) (\<lambda>_ s. ret prev s))"

definition OPA_cas_int_by_lock :: "addr \<Rightarrow> c_int \<Rightarrow> c_int \<Rightarrow> lock_mem \<Rightarrow> (lock_mem, c_int) outcome" where
  [port_defs]: "OPA_cas_int_by_lock ptr oldv newv s =
     bind_outcome (OPA_IPC_SINGLE_CS_ENTER s) (\<lambda>_ s.
     let prev = int_at s ptr;
         s = (if prev = oldv then st_int ptr newv s else s) in
     bind_outcome (OPA_IPC_SINGLE_CS_EXIT s) (\<lambda>_ s. ret prev s))"

definition OPA_decr_and_test_int_by_lock :: "addr \<Rightarrow> lock_mem \<Rightarrow> (lock_mem, c_int) outcome" where
  [port_defs]: "OPA_decr_and_test_int_by_lock ptr s =
     bind_outcome (OPA_IPC_SINGLE_CS_ENTER s) (\<lambda>_ s.
     case c_add (int_at s ptr) (- 1) of Inl f \<Rightarrow> fault f
     | Inr new_val \<Rightarrow>
         bind_outcome (OPA_IPC_SINGLE_CS_EXIT (st_int ptr new_val s))
           (\<lambda>_ s. ret (c_bool (0 = new_val)) s))"

definition OPA_decr_int_by_lock :: "addr \<Rightarrow> lock_mem \<Rightarrow> (lock_mem, unit) outcome" where
  [port_defs]: "OPA_decr_int_by_lock ptr s =
     bind_outcome (OPA_IPC_SINGLE_CS_ENTER s) (\<lambda>_ s.
     case c_add (int_at s ptr) (- 1) of Inl f \<Rightarrow> fault f
     | Inr v \<Rightarrow> OPA_IPC_SINGLE_CS_EXIT (st_int ptr v s))"

definition OPA_fetch_and_add_int_by_lock :: "addr \<Rightarrow> c_int \<Rightarrow> lock_mem \<Rightarrow> (lock_mem, c_int) outcome" where
  [port_defs]: "OPA_fetch_and_add_int_by_lock ptr val s =
     bind_outcome (OPA_IPC_SINGLE_CS_ENTER s) (\<lambda>_ s.
     let prev = int_at s ptr in
     case c_add (int_at s ptr) val of Inl f \<Rightarrow> fault f
     | Inr v \<Rightarrow> bind_outcome (OPA_IPC_SINGLE_CS_EXIT (st_int ptr v s)) (\<lambda>_ s. ret prev s))"

definition OPA_fetch_and_decr_int_by_lock :: "addr \<Rightarrow> lock_mem \<Rightarrow> (lock_mem, c_int) outcome" where
  [port_defs]: "OPA_fetch_and_decr_int_by_lock ptr s =
     bind_outcome (OPA_IPC_SINGLE_CS_ENTER s) (\<lambda>_ s.
     let prev = int_at s ptr in
     case c_add (int_at s ptr) (- 1) of Inl f \<Rightarrow> fault f
     | Inr v \<Rightarrow> bind_outcome (OPA_IPC_SINGLE_CS_EXIT (st_int ptr v s)) (\<lambda>_ s. ret prev s))"

definition OPA_fetch_and_incr_int_by_lock :: "addr \<Rightarrow> lock_mem \<Rightarrow> (lock_mem, c_int) outcome" where
  [port_defs]: "OPA_fetch_and_incr_int_by_lock ptr s =
     bind_outcome (OPA_IPC_SINGLE_CS_ENTER s) (\<lambda>_ s.
     let prev = int_at s ptr in
     case c_add (int_at s ptr) 1 of Inl f \<Rightarrow> fault f
     | Inr v \<Rightarrow> bind_outcome (OPA_IPC_SINGLE_CS_EXIT (st_int ptr v s)) (\<lambda>_ s. ret prev s))"

definition OPA_incr_int_by_lock :: "addr \<Rightarrow> lock_mem \<Rightarrow> (lock_mem, unit) outcome" where
  [port_defs]: "OPA_incr_int_by_lock ptr s =
     bind_outcome (OPA_IPC_SINGLE_CS_ENTER s) (\<lambda>_ s.
     case c_add (int_at s ptr) 1 of Inl f \<Rightarrow> fault f
     | Inr v \<Rightarrow> OPA_IPC_SINGLE_CS_EXIT (st_int ptr v s))"

definition OPA_swap_ptr_by_lock :: "addr \<Rightarrow> addr \<Rightarrow> lock_mem \<Rightarrow> (lock_mem, addr) outcome" where
  [port_defs]: "OPA_swap_ptr_by_lock ptr val s =
     bind_outcome (OPA_IPC_SINGLE_CS_ENTER s) (\<lambda>_ s.
     let prev = ptr_at s ptr in
     bind_outcome (OPA_IPC_SINGLE_CS_EXIT (st_ptr ptr val s)) (\<lambda>_ s. ret prev s))"

definition OPA_swap_int_by_lock :: "addr \<Rightarrow> c_int \<Rightarrow> lock_mem \<Rightarrow> (lock_mem, c_int) outcome" where
  [port_defs]: "OPA_swap_int_by_lock ptr val s =
     bind_outcome (OPA_IPC_SINGLE_CS_ENTER s) (\<lambda>_ s.
     let prev = int_at s ptr in
     bind_outcome (OPA_IPC_SINGLE_CS_EXIT (st_int ptr val s)) (\<lambda>_ s. ret prev s))"

text \<open>The accesses with memory ordering are macros that name the plain ones.\<close>

definition OPA_load_acquire_int_by_lock :: "addr \<Rightarrow> lock_mem \<Rightarrow> (lock_mem, c_int) outcome" where
  "OPA_load_acquire_int_by_lock = OPA_load_int_by_lock"

definition OPA_store_release_int_by_lock :: "addr \<Rightarrow> c_int \<Rightarrow> lock_mem \<Rightarrow> (lock_mem, unit) outcome" where
  "OPA_store_release_int_by_lock = OPA_store_int_by_lock"

definition OPA_load_acquire_ptr_by_lock :: "addr \<Rightarrow> lock_mem \<Rightarrow> (lock_mem, addr) outcome" where
  "OPA_load_acquire_ptr_by_lock = OPA_load_ptr_by_lock"

definition OPA_store_release_ptr_by_lock :: "addr \<Rightarrow> addr \<Rightarrow> lock_mem \<Rightarrow> (lock_mem, unit) outcome" where
  "OPA_store_release_ptr_by_lock = OPA_store_ptr_by_lock"

section \<open>The contract\<close>

text \<open>A good state: the mutex was set up and nobody holds it.\<close>

definition lock_ready :: "lock_mem \<Rightarrow> bool" where
  "lock_ready s \<longleftrightarrow> OPA_emulation_lock s \<noteq> 0 \<and> mutex_at s (OPA_emulation_lock s) = Unlocked"

lemma cs_enter_ready: "lock_ready s \<Longrightarrow>
    OPA_IPC_SINGLE_CS_ENTER s = ret () (set_mutex (OPA_emulation_lock s) Locked s)"
  by (simp add: lock_ready_def OPA_IPC_SINGLE_CS_ENTER_def pthread_mutex_lock_def)

lemma cs_exit_locked: "OPA_emulation_lock s \<noteq> 0 \<Longrightarrow>
    mutex_at s (OPA_emulation_lock s) = Locked \<Longrightarrow>
    OPA_IPC_SINGLE_CS_EXIT s = ret () (set_mutex (OPA_emulation_lock s) Unlocked s)"
  by (simp add: OPA_IPC_SINGLE_CS_EXIT_def pthread_mutex_unlock_def)

lemma set_mutex_simps [simp]:
  "int_at (set_mutex a x s) = int_at s"
  "ptr_at (set_mutex a x s) = ptr_at s"
  "OPA_emulation_lock (set_mutex a x s) = OPA_emulation_lock s"
  "mutex_at (set_mutex a x s) b = (if b = a then x else mutex_at s b)"
  "mem.truncate (set_mutex a x s) = mem.truncate s"
  by (simp_all add: set_mutex_def mem.truncate_def)

lemma st_lock_simps [simp]:
  "OPA_emulation_lock (st_int p v s) = OPA_emulation_lock s"
  "mutex_at (st_int p v s) = mutex_at s"
  "OPA_emulation_lock (st_ptr p w s) = OPA_emulation_lock s"
  "mutex_at (st_ptr p w s) = mutex_at s"
  by (simp_all add: st_int_def st_ptr_def)

lemma lock_ready_D:
  "lock_ready s \<Longrightarrow> OPA_emulation_lock s \<noteq> 0"
  "lock_ready s \<Longrightarrow> mutex_at s (OPA_emulation_lock s) = Unlocked"
  by (simp_all add: lock_ready_def)

lemma lock_ready_release: "OPA_emulation_lock s = l \<Longrightarrow> l \<noteq> 0 \<Longrightarrow> lock_ready (set_mutex l Unlocked s)"
  by (simp add: lock_ready_def)

lemmas by_lock_run = port_defs cs_enter_ready cs_exit_locked lock_ready_D lock_ready_release
  yields_def c_add_def Let_def

interpretation by_lock: opa_primitives lock_ready mem.truncate
  OPA_load_int_by_lock OPA_store_int_by_lock OPA_load_ptr_by_lock OPA_store_ptr_by_lock
  OPA_cas_int_by_lock OPA_cas_ptr_by_lock OPA_swap_int_by_lock OPA_swap_ptr_by_lock
  OPA_fetch_and_add_int_by_lock OPA_add_int_by_lock OPA_incr_int_by_lock OPA_decr_int_by_lock
  OPA_decr_and_test_int_by_lock OPA_fetch_and_incr_int_by_lock OPA_fetch_and_decr_int_by_lock
  by unfold_locales (simp_all add: by_lock_run)

interpretation by_lock_ordered: access_primitives lock_ready mem.truncate
  OPA_load_acquire_int_by_lock OPA_store_release_int_by_lock
  OPA_load_acquire_ptr_by_lock OPA_store_release_ptr_by_lock
  unfolding OPA_load_acquire_int_by_lock_def OPA_store_release_int_by_lock_def
    OPA_load_acquire_ptr_by_lock_def OPA_store_release_ptr_by_lock_def
  by (rule by_lock.access_primitives_axioms)

section \<open>Set-up and the state before it\<close>

lemma lock_init_leader_ready:
  assumes "shm_lock \<noteq> 0" and "mutex_at s shm_lock = Uninit"
    and "OPA_Interprocess_lock_init rc shm_lock True s = ret 0 s'"
  shows "lock_ready s' \<and> OPA_emulation_lock s' = shm_lock \<and> mem.truncate s' = mem.truncate s"
  using assms
  by (auto simp: OPA_Interprocess_lock_init_def pthread_mutex_init_def lock_ready_def Let_def
      set_mutex_def mem.truncate_def split: if_splits)

text \<open>Before any set-up the global is \<open>NULL\<close> and entering the critical section is undefined.\<close>

lemma cs_enter_null: "OPA_emulation_lock s = 0 \<Longrightarrow> OPA_IPC_SINGLE_CS_ENTER s = fault Null_Mutex"
  by (simp add: OPA_IPC_SINGLE_CS_ENTER_def pthread_mutex_lock_def)

section \<open>Properties\<close>

text \<open>
  The lock-based port meets the contract of the primitives in every state in which the mutex
  was set up and is free, and leaves it free.
\<close>

lemma by_lock_meets_contract:
  "opa_primitives lock_ready mem.truncate
    OPA_load_int_by_lock OPA_store_int_by_lock OPA_load_ptr_by_lock OPA_store_ptr_by_lock
    OPA_cas_int_by_lock OPA_cas_ptr_by_lock OPA_swap_int_by_lock OPA_swap_ptr_by_lock
    OPA_fetch_and_add_int_by_lock OPA_add_int_by_lock OPA_incr_int_by_lock OPA_decr_int_by_lock
    OPA_decr_and_test_int_by_lock OPA_fetch_and_incr_int_by_lock OPA_fetch_and_decr_int_by_lock"
  by (rule by_lock.opa_primitives_axioms)

text \<open>
  The set-up of the lock. The leader's call on fresh shared memory returns 0 and leaves the
  primitives usable, or returns 16 because one of the three pthread calls failed. A call that is
  not the leader's returns 0, and makes the primitives usable when the leader's succeeded before.
  Without any call the first primitive runs into the null mutex.
\<close>

lemma lock_set_up:
  assumes "shm_lock \<noteq> 0"
  shows "(mutex_at s shm_lock = Uninit \<longrightarrow>
      (\<exists>r s'. OPA_Interprocess_lock_init rc shm_lock True s = ret r s' \<and> mem.truncate s' = mem.truncate s \<and>
        (if attr_init_rc rc = 0 \<and> setpshared_rc rc = 0 \<and> mutex_init_rc rc = 0
         then r = 0 \<and> lock_ready s' else r = 16))) \<and>
    (\<exists>s'. OPA_Interprocess_lock_init rc shm_lock False s = ret 0 s' \<and>
      (mutex_at s shm_lock = Unlocked \<longrightarrow> lock_ready s')) \<and>
    (OPA_emulation_lock s = 0 \<longrightarrow> OPA_load_int_by_lock p s = fault Null_Mutex)"
  using assms
  by (auto simp: OPA_Interprocess_lock_init_def pthread_mutex_init_def lock_ready_def Let_def
      set_mutex_def mem.truncate_def OPA_load_int_by_lock_def cs_enter_null)

theorem lock_set_up_witness:
  "\<exists>r s'. OPA_Interprocess_lock_init \<lparr>attr_init_rc = 0, setpshared_rc = 0, mutex_init_rc = 0\<rparr> 64 True
      \<lparr>int_at = (\<lambda>_. 0), ptr_at = (\<lambda>_. 0), OPA_emulation_lock = 0, mutex_at = (\<lambda>_. Uninit)\<rparr> = ret r s' \<and>
    lock_ready s'"
  using lock_set_up [of 64 "\<lparr>int_at = (\<lambda>_. 0), ptr_at = (\<lambda>_. 0), OPA_emulation_lock = 0,
      mutex_at = (\<lambda>_. Uninit)\<rparr>" "\<lparr>attr_init_rc = 0, setpshared_rc = 0, mutex_init_rc = 0\<rparr>" 64]
  by auto

end
