(* ===== verification/OPA_Queue.thy ===== *)
theory OPA_Queue
  imports OPA_Shm OPA_Fifo OPA_Unsafe OPA_By_Lock
begin

text \<open>
  The queue of \<open>src/opa_queue.h\<close> and \<open>src/opa_queue.c\<close> as one thread runs it: the layout of
  \<open>OPA_Queue_info_t\<close> in memory, the operations over the pointer primitives of any port, the
  representation predicate that reads the list of the enqueued elements off the memory, and the
  proof that the operations implement a first-in-first-out queue. The interleaving of several
  enqueuers with the dequeuer is the subject of \<open>OPA_Queue_Threads\<close>.
\<close>

section \<open>Layout\<close>

text \<open>
  \<open>OPA_Queue_info_t\<close>: the head and the tail in the first cache line of
  \<open>OPA_QUEUE_CACHELINE_PADDING\<close> bytes, the shadow head at the start of the second. The field
  \<open>next\<close> of an element's header lies at the offset \<open>elt_hdr_field\<close> in the element.
\<close>

definition OPA_QUEUE_CACHELINE_PADDING :: addr where
  "OPA_QUEUE_CACHELINE_PADDING = 128"

definition head_at :: "addr \<Rightarrow> addr" where
  "head_at qhead = qhead"

definition tail_at :: "addr \<Rightarrow> addr" where
  "tail_at qhead = qhead + 8"

definition shadow_head_at :: "addr \<Rightarrow> addr" where
  "shadow_head_at qhead = qhead + OPA_QUEUE_CACHELINE_PADDING"

definition next_at :: "addr \<Rightarrow> addr \<Rightarrow> addr" where
  "next_at elt_hdr_field elt = elt + elt_hdr_field"

lemma layout_distinct [simp]:
  "head_at q \<noteq> tail_at q" "tail_at q \<noteq> head_at q"
  "head_at q \<noteq> shadow_head_at q" "shadow_head_at q \<noteq> head_at q"
  "tail_at q \<noteq> shadow_head_at q" "shadow_head_at q \<noteq> tail_at q"
  by (simp_all add: head_at_def tail_at_def shadow_head_at_def OPA_QUEUE_CACHELINE_PADDING_def)

lemma next_at_inject [simp]: "next_at f x = next_at f y \<longleftrightarrow> x = y"
  by (simp add: next_at_def)

section \<open>Operations\<close>

definition OPA_Queue_init :: "'s ptr_port \<Rightarrow> addr \<Rightarrow> 's \<Rightarrow> ('s, unit) outcome" where
  "OPA_Queue_init P qhead s =
     bind_outcome (OPA_SHM_SET_REL_NULL P (head_at qhead) s) (\<lambda>_ s.
     bind_outcome (OPA_SHM_SET_REL_NULL P (tail_at qhead) s) (\<lambda>_ s.
     OPA_SHM_SET_REL_NULL P (shadow_head_at qhead) s))"

definition OPA_Queue_header_init :: "'s ptr_port \<Rightarrow> addr \<Rightarrow> 's \<Rightarrow> ('s, unit) outcome" where
  "OPA_Queue_header_init P hdr s = OPA_SHM_SET_REL_NULL P hdr s"

definition OPA_Queue_is_empty :: "'s ptr_port \<Rightarrow> addr \<Rightarrow> 's \<Rightarrow> ('s, c_int) outcome" where
  "OPA_Queue_is_empty P qhead s =
     bind_outcome (OPA_SHM_IS_REL_NULL P (shadow_head_at qhead) s) (\<lambda>shadow_null s.
     if shadow_null then
       bind_outcome (OPA_SHM_IS_REL_NULL P (head_at qhead) s) (\<lambda>head_null s.
       if head_null then ret 1 s
       else
         let s = write_rel P (shadow_head_at qhead) (read_rel P (head_at qhead) s) s in
         bind_outcome (OPA_SHM_SET_REL_NULL P (head_at qhead) s) (\<lambda>_ s. ret 0 s))
     else ret 0 s)"

definition OPA_Queue_peek_head :: "'s ptr_port \<Rightarrow> addr \<Rightarrow> addr \<Rightarrow> 's \<Rightarrow> ('s, addr) outcome" where
  "OPA_Queue_peek_head P base_addr qhead s =
     bind_outcome (OPA_SHM_IS_REL_NULL P (shadow_head_at qhead) s) (\<lambda>shadow_null s.
     if shadow_null then ret 0 s
     else ret (OPA_Shm_rel_to_abs base_addr (read_rel P (shadow_head_at qhead) s)) s)"

definition OPA_Queue_enqueue ::
  "'s ptr_port \<Rightarrow> addr \<Rightarrow> addr \<Rightarrow> addr \<Rightarrow> addr \<Rightarrow> 's \<Rightarrow> ('s, unit) outcome" where
  "OPA_Queue_enqueue P base_addr elt_hdr_field qhead elt s =
     (let r_elt = OPA_Shm_abs_to_rel base_addr elt in
     bind_outcome (OPA_SHM_SET_REL_NULL P (next_at elt_hdr_field elt) s) (\<lambda>_ s.
     bind_outcome (OPA_Shm_swap_rel P (tail_at qhead) r_elt s) (\<lambda>r_prev s.
     if local_is_rel_null r_prev then ret () (write_rel P (head_at qhead) r_elt s)
     else
       let abs_prev = OPA_Shm_rel_to_abs base_addr r_prev in
       ret () (write_rel P (next_at elt_hdr_field abs_prev) r_elt s))))"

text \<open>
  The busy wait of the dequeuer. It polls a cell until it is not null and may do so forever.
\<close>

partial_function (option) wait_not_null :: "'s ptr_port \<Rightarrow> addr \<Rightarrow> 's \<Rightarrow> ('s, unit) outcome" where
  "wait_not_null P r s =
     (case OPA_SHM_IS_REL_NULL P r s of
        None \<Rightarrow> None
      | Some out \<Rightarrow>
          (case out of Inl f \<Rightarrow> Some (Inl f)
           | Inr (is_null, s') \<Rightarrow> if is_null then wait_not_null P r s' else Some (Inr ((), s'))))"

definition OPA_Queue_dequeue ::
  "'s ptr_port \<Rightarrow> addr \<Rightarrow> addr \<Rightarrow> addr \<Rightarrow> 's \<Rightarrow> ('s, addr) outcome" where
  "OPA_Queue_dequeue P base_addr elt_hdr_field qhead s =
     (let r_e = read_rel P (shadow_head_at qhead) s;
          e = OPA_Shm_rel_to_abs base_addr r_e;
          e_next = next_at elt_hdr_field e in
     bind_outcome
       (bind_outcome (OPA_SHM_IS_REL_NULL P e_next s) (\<lambda>next_null s.
        if \<not> next_null then
          ret () (write_rel P (shadow_head_at qhead) (read_rel P e_next s) s)
        else
          bind_outcome (OPA_SHM_SET_REL_NULL P (shadow_head_at qhead) s) (\<lambda>_ s.
          bind_outcome (OPA_Shm_cas_rel_null P (tail_at qhead) r_e s) (\<lambda>old_tail s.
          if \<not> OPA_SHM_REL_ARE_EQUAL old_tail r_e then
            bind_outcome (wait_not_null P e_next s) (\<lambda>_ s.
            ret () (write_rel P (shadow_head_at qhead) (read_rel P e_next s) s))
          else ret () s))))
       (\<lambda>_ s. bind_outcome (OPA_SHM_SET_REL_NULL P e_next s) (\<lambda>_ s. ret e s)))"

section \<open>The list a memory represents\<close>

text \<open>
  An element can be enqueued when its relative address is not the null one and its header does
  not overlap the queue's own cells.
\<close>

definition enqueuable :: "addr \<Rightarrow> addr \<Rightarrow> addr \<Rightarrow> addr \<Rightarrow> bool" where
  "enqueuable b f q x \<longleftrightarrow>
     x \<noteq> b \<and> next_at f x \<noteq> head_at q \<and> next_at f x \<noteq> tail_at q \<and> next_at f x \<noteq> shadow_head_at q"

text \<open>The links run from each element to the next and end in null; the three cells of the queue.\<close>

definition links :: "addr \<Rightarrow> addr \<Rightarrow> mem \<Rightarrow> addr list \<Rightarrow> bool" where
  "links b f m xs \<longleftrightarrow>
     successively (\<lambda>x y. ptr_at m (next_at f x) = y - b) xs \<and>
     (xs \<noteq> [] \<longrightarrow> ptr_at m (next_at f (last xs)) = 0)"

definition ends :: "addr \<Rightarrow> addr \<Rightarrow> mem \<Rightarrow> addr list \<Rightarrow> bool" where
  "ends b q m xs \<longleftrightarrow>
     (case xs of
        [] \<Rightarrow> ptr_at m (head_at q) = 0 \<and> ptr_at m (tail_at q) = 0 \<and> ptr_at m (shadow_head_at q) = 0
      | x # _ \<Rightarrow> ptr_at m (tail_at q) = last xs - b \<and>
          (ptr_at m (head_at q) = x - b \<and> ptr_at m (shadow_head_at q) = 0 \<or>
           ptr_at m (head_at q) = 0 \<and> ptr_at m (shadow_head_at q) = x - b))"

definition queue_rep :: "addr \<Rightarrow> addr \<Rightarrow> addr \<Rightarrow> mem \<Rightarrow> addr list \<Rightarrow> bool" where
  "queue_rep b f q m xs \<longleftrightarrow>
     distinct xs \<and> (\<forall>x \<in> set xs. enqueuable b f q x) \<and> links b f m xs \<and> ends b q m xs"

lemma successively_next_cong:
  assumes "successively (\<lambda>x y. g x = h y) xs" and "\<And>x. x \<in> set (butlast xs) \<Longrightarrow> g' x = g x"
  shows "successively (\<lambda>x y. g' x = h y) xs"
  using assms by (induction xs rule: induct_list012) (auto simp: successively_Cons)

lemma links_cong:
  assumes "links b f m xs" and "\<And>x. x \<in> set xs \<Longrightarrow> ptr_at m' (next_at f x) = ptr_at m (next_at f x)"
  shows "links b f m' xs"
  using assms
    successively_next_cong [of "\<lambda>x. ptr_at m (next_at f x)" "\<lambda>y. y - b" xs "\<lambda>x. ptr_at m' (next_at f x)"]
  by (auto simp: links_def dest: in_set_butlastD)

lemma links_Cons: "links b f m (x # y # xs) \<longleftrightarrow> ptr_at m (next_at f x) = y - b \<and> links b f m (y # xs)"
  by (simp add: links_def)

lemma links_snoc:
  assumes "links b f m xs" and "xs \<noteq> []" and "distinct xs"
    and "\<And>y. y \<in> set xs \<Longrightarrow> y \<noteq> last xs \<Longrightarrow> ptr_at m' (next_at f y) = ptr_at m (next_at f y)"
    and "ptr_at m' (next_at f (last xs)) = x - b" and "ptr_at m' (next_at f x) = 0"
  shows "links b f m' (xs @ [x])"
proof -
  have "last xs \<notin> set (butlast xs)"
    using assms(2,3) by (metis append_butlast_last_id distinct_butlast not_distinct_conv_prefix)
  have "successively (\<lambda>y z. ptr_at m' (next_at f y) = z - b) xs"
  proof (rule successively_next_cong)
    show "successively (\<lambda>y z. ptr_at m (next_at f y) = z - b) xs"
      using assms(1) by (simp add: links_def)
    fix y assume y: "y \<in> set (butlast xs)"
    with \<open>last xs \<notin> set (butlast xs)\<close> have "y \<noteq> last xs" by blast
    with y show "ptr_at m' (next_at f y) = ptr_at m (next_at f y)"
      by (intro assms(4)) (auto dest: in_set_butlastD)
  qed
  then show ?thesis using assms(2,5,6) by (simp add: links_def successively_append_iff)
qed

lemma enqueuableD:
  "enqueuable b f q x \<Longrightarrow> x \<noteq> b"
  "enqueuable b f q x \<Longrightarrow> next_at f x \<noteq> head_at q"
  "enqueuable b f q x \<Longrightarrow> next_at f x \<noteq> tail_at q"
  "enqueuable b f q x \<Longrightarrow> next_at f x \<noteq> shadow_head_at q"
  "enqueuable b f q x \<Longrightarrow> head_at q \<noteq> next_at f x"
  "enqueuable b f q x \<Longrightarrow> tail_at q \<noteq> next_at f x"
  "enqueuable b f q x \<Longrightarrow> shadow_head_at q \<noteq> next_at f x"
  by (auto simp: enqueuable_def)

lemma ends_enqueuable_cong:
  assumes "\<And>a. a \<in> {head_at q, tail_at q, shadow_head_at q} \<Longrightarrow> ptr_at m' a = ptr_at m a"
  shows "ends b q m' xs \<longleftrightarrow> ends b q m xs"
  using assms [of "head_at q"] assms [of "tail_at q"] assms [of "shadow_head_at q"]
  by (simp add: ends_def split: list.split)

lemma queue_rep_enqueuable: "queue_rep b f q m xs \<Longrightarrow> x \<in> set xs \<Longrightarrow> enqueuable b f q x"
  by (simp add: queue_rep_def)

lemma queue_rep_Nil: "queue_rep b f q m [] \<longleftrightarrow>
    ptr_at m (head_at q) = 0 \<and> ptr_at m (tail_at q) = 0 \<and> ptr_at m (shadow_head_at q) = 0"
  by (simp add: queue_rep_def links_def ends_def)

lemma queue_rep_Cons: "queue_rep b f q m (x # xs) \<Longrightarrow>
    x - b \<noteq> 0 \<and> ptr_at m (tail_at q) = last (x # xs) - b \<and>
    (ptr_at m (head_at q) = x - b \<and> ptr_at m (shadow_head_at q) = 0 \<or>
     ptr_at m (head_at q) = 0 \<and> ptr_at m (shadow_head_at q) = x - b)"
  by (auto simp: queue_rep_def ends_def enqueuable_def)

text \<open>The store after an enqueue, and that it represents the longer list.\<close>

definition enqueued :: "addr \<Rightarrow> addr \<Rightarrow> addr \<Rightarrow> addr \<Rightarrow> mem \<Rightarrow> mem" where
  "enqueued b f q x m =
     (let prev = ptr_at (st_ptr (next_at f x) 0 m) (tail_at q);
          m2 = st_ptr (tail_at q) (x - b) (st_ptr (next_at f x) 0 m)
      in st_ptr (if prev = 0 then head_at q else next_at f (b + prev)) (x - b) m2)"

lemma enqueued_rep:
  assumes rep: "queue_rep b f q m xs" and x: "enqueuable b f q x" "x \<notin> set xs"
  shows "queue_rep b f q (enqueued b f q x m) (xs @ [x])"
proof (cases xs)
  case Nil
  with assms show ?thesis
    by (simp add: queue_rep_def enqueued_def Let_def links_def ends_def enqueuableD)
next
  case (Cons y ys)
  let ?l = "last xs"
  from Cons have l: "?l \<in> set xs" by simp
  then have lq: "enqueuable b f q ?l" by (rule queue_rep_enqueuable [OF rep])
  have m: "enqueued b f q x m =
    st_ptr (next_at f ?l) (x - b) (st_ptr (tail_at q) (x - b) (st_ptr (next_at f x) 0 m))"
    using rep x Cons enqueuableD(1) [OF lq]
    by (simp add: queue_rep_def ends_def enqueued_def Let_def enqueuableD)
  have ln: "?l \<noteq> x" using l x by auto
  have "links b f (enqueued b f q x m) (xs @ [x])"
  proof (rule links_snoc)
    fix z assume z: "z \<in> set xs" "z \<noteq> ?l"
    then have "enqueuable b f q z" by (intro queue_rep_enqueuable [OF rep])
    with z x show "ptr_at (enqueued b f q x m) (next_at f z) = ptr_at m (next_at f z)"
      by (auto simp: m enqueuableD)
  qed (use rep Cons x ln in \<open>simp_all add: queue_rep_def m enqueuableD\<close>)
  moreover have "ends b q (enqueued b f q x m) (xs @ [x])"
    using rep x lq ln Cons by (simp add: queue_rep_def ends_def m enqueuableD)
  ultimately show ?thesis
    using rep x by (simp add: queue_rep_def)
qed

text \<open>The store after a dequeue from a primed queue.\<close>

definition dequeued :: "addr \<Rightarrow> addr \<Rightarrow> addr \<Rightarrow> addr \<Rightarrow> addr list \<Rightarrow> mem \<Rightarrow> mem" where
  "dequeued b f q x ys m = st_ptr (next_at f x) 0
     (if ys = [] then st_ptr (tail_at q) 0 (st_ptr (shadow_head_at q) 0 m)
      else st_ptr (shadow_head_at q) (hd ys - b) m)"

lemma dequeued_rep:
  assumes rep: "queue_rep b f q m (x # ys)" and primed: "ptr_at m (shadow_head_at q) \<noteq> 0"
  shows "queue_rep b f q (dequeued b f q x ys m) ys"
proof (cases ys)
  case Nil
  with rep primed queue_rep_enqueuable [OF rep, of x] queue_rep_Cons [OF rep] show ?thesis
    by (auto simp: queue_rep_Nil dequeued_def enqueuableD)
next
  case (Cons y zs)
  have x: "enqueuable b f q x" using queue_rep_enqueuable [OF rep] by simp
  have "links b f (dequeued b f q x ys m) ys"
  proof (rule links_cong)
    show "links b f m ys" using rep Cons by (simp add: queue_rep_def links_Cons)
    fix z assume "z \<in> set ys"
    then have "enqueuable b f q z" "z \<noteq> x" using rep by (auto simp: queue_rep_def)
    then show "ptr_at (dequeued b f q x ys m) (next_at f z) = ptr_at m (next_at f z)"
      using Cons by (simp add: dequeued_def enqueuableD)
  qed
  moreover have "ends b q (dequeued b f q x ys m) ys"
    using queue_rep_Cons [OF rep] primed x Cons by (auto simp: ends_def dequeued_def enqueuableD)
  ultimately show ?thesis
    using rep by (simp add: queue_rep_def)
qed

section \<open>The operations on a represented list\<close>

locale shm_queue = shm_port ok view P
  for ok :: "'s \<Rightarrow> bool" and view :: "'s \<Rightarrow> mem" and P :: "'s ptr_port" +
  fixes base_addr :: addr and elt_hdr_field :: addr and qhead :: addr
begin

lemma init_yields:
  "ok s \<Longrightarrow> yields ok view (OPA_Queue_init P qhead s) ()
     (st_ptr (shadow_head_at qhead) 0 (st_ptr (tail_at qhead) 0 (st_ptr (head_at qhead) 0 (view s))))"
  unfolding OPA_Queue_init_def
  by (rule yields_bind [OF set_rel_null_yields], assumption,
      rule yields_bind [OF set_rel_null_yields], assumption)
    (metis set_rel_null_yields)

lemma is_empty_yields:
  "ok s \<Longrightarrow> yields ok view (OPA_Queue_is_empty P qhead s)
     (c_bool (ptr_at (view s) (shadow_head_at qhead) = 0 \<and> ptr_at (view s) (head_at qhead) = 0))
     (if ptr_at (view s) (shadow_head_at qhead) = 0 \<and> ptr_at (view s) (head_at qhead) \<noteq> 0
      then st_ptr (head_at qhead) 0
        (st_ptr (shadow_head_at qhead) (ptr_at (view s) (head_at qhead)) (view s))
      else view s)"
  unfolding OPA_Queue_is_empty_def
  by (rule yields_bind [OF is_rel_null_yields], assumption)
    (auto intro!: yields_bind [OF is_rel_null_yields] yields_bind [OF set_rel_null_yields] yields_ret
      simp: Let_def view_write_rel write_rel_ok read_rel_eq c_bool_def)

lemma peek_yields:
  "ok s \<Longrightarrow> yields ok view (OPA_Queue_peek_head P base_addr qhead s)
     (if ptr_at (view s) (shadow_head_at qhead) = 0 then 0
      else base_addr + ptr_at (view s) (shadow_head_at qhead)) (view s)"
  unfolding OPA_Queue_peek_head_def
  by (rule yields_bind [OF is_rel_null_yields], assumption)
    (auto intro!: yields_ret simp: read_rel_eq OPA_Shm_rel_to_abs_def)

lemma enqueue_yields:
  "ok s \<Longrightarrow> yields ok view (OPA_Queue_enqueue P base_addr elt_hdr_field qhead x s) ()
     (enqueued base_addr elt_hdr_field qhead x (view s))"
  unfolding OPA_Queue_enqueue_def Let_def
  by (rule yields_bind [OF set_rel_null_yields], assumption,
      rule yields_bind [OF swap_rel_yields], assumption)
    (auto intro!: yields_ret simp: enqueued_def Let_def view_write_rel write_rel_ok
      local_is_rel_null_def OPA_SHM_REL_NULL_def OPA_Shm_rel_to_abs_def)

text \<open>The busy wait returns at once when the link is there.\<close>

lemma wait_not_null_yields:
  assumes "ok s" and "ptr_at (view s) a \<noteq> 0"
  shows "yields ok view (wait_not_null P a s) () (view s)"
proof -
  obtain s' where "OPA_SHM_IS_REL_NULL P a s = ret False s'" "ok s'" "view s' = view s"
    using is_rel_null_yields [OF assms(1), of a] assms(2) by (auto simp: yields_def)
  then show ?thesis
    by (subst wait_not_null.simps) (auto simp: ret_def yields_def)
qed

text \<open>A dequeue whose element \<open>x\<close> is the last one, and one that finds the link to a next element.\<close>

lemma dequeue_last_yields:
  assumes "ok s" and "x \<noteq> base_addr"
    and "ptr_at (view s) (shadow_head_at qhead) = x - base_addr"
    and "ptr_at (view s) (next_at elt_hdr_field x) = 0"
    and "ptr_at (view s) (tail_at qhead) = x - base_addr"
  shows "yields ok view (OPA_Queue_dequeue P base_addr elt_hdr_field qhead s) x
    (st_ptr (next_at elt_hdr_field x) 0
      (st_ptr (tail_at qhead) 0 (st_ptr (shadow_head_at qhead) 0 (view s))))"
proof -
  have e: "OPA_Shm_rel_to_abs base_addr (read_rel P (shadow_head_at qhead) s) = x"
    using assms(1,3) by (simp add: read_rel_eq OPA_Shm_rel_to_abs_def)
  have r: "offset (read_rel P (shadow_head_at qhead) s) = x - base_addr"
    using assms(1,3) by (simp add: read_rel_eq)
  show ?thesis
    unfolding OPA_Queue_dequeue_def Let_def e
    by (rule yields_bind, rule yields_bind [OF is_rel_null_yields [OF assms(1)]], simp add: assms(4),
        rule yields_bind [OF set_rel_null_yields], assumption,
        rule yields_bind [OF cas_rel_null_yields], assumption)
      (auto intro!: yields_ret yields_bind [OF set_rel_null_yields]
        simp: OPA_SHM_REL_ARE_EQUAL_def r assms(5))
qed

lemma dequeue_linked_yields:
  assumes "ok s" and "ptr_at (view s) (shadow_head_at qhead) = x - base_addr"
    and "ptr_at (view s) (next_at elt_hdr_field x) = n" "n \<noteq> 0"
  shows "yields ok view (OPA_Queue_dequeue P base_addr elt_hdr_field qhead s) x
    (st_ptr (next_at elt_hdr_field x) 0 (st_ptr (shadow_head_at qhead) n (view s)))"
proof -
  have e: "OPA_Shm_rel_to_abs base_addr (read_rel P (shadow_head_at qhead) s) = x"
    using assms(1,2) by (simp add: read_rel_eq OPA_Shm_rel_to_abs_def)
  show ?thesis
    unfolding OPA_Queue_dequeue_def Let_def e
    by (rule yields_bind, rule yields_bind [OF is_rel_null_yields [OF assms(1)]])
      (auto intro!: yields_ret yields_bind [OF set_rel_null_yields]
        simp: assms view_write_rel write_rel_ok read_rel_eq)
qed

text \<open>What a state represents, and when it may be dequeued from.\<close>

definition represents :: "'s \<Rightarrow> addr list \<Rightarrow> bool" where
  "represents s xs \<longleftrightarrow> ok s \<and> queue_rep base_addr elt_hdr_field qhead (view s) xs"

definition primed :: "'s \<Rightarrow> bool" where
  "primed s \<longleftrightarrow> ptr_at (view s) (shadow_head_at qhead) \<noteq> 0"

lemma yields_gives:
  assumes "yields ok view out r m" and "queue_rep base_addr elt_hdr_field qhead m xs"
    and "b \<Longrightarrow> ptr_at m (shadow_head_at qhead) \<noteq> 0"
  shows "gives represents primed out r xs b"
  using assms by (auto simp: yields_def gives_def represents_def primed_def)

lemma init_gives: "ok s \<Longrightarrow> gives represents primed (OPA_Queue_init P qhead s) () [] False"
  by (rule yields_gives [OF init_yields]) (simp_all add: queue_rep_Nil)

lemma header_init_gives:
  assumes s: "represents s xs" and x: "enqueuable base_addr elt_hdr_field qhead x" "x \<notin> set xs"
  shows "gives represents primed (OPA_Queue_header_init P (next_at elt_hdr_field x) s) () xs False"
proof -
  let ?m = "st_ptr (next_at elt_hdr_field x) 0 (view s)"
  from s have ok: "ok s" and rep: "queue_rep base_addr elt_hdr_field qhead (view s) xs"
    by (simp_all add: represents_def)
  have "links base_addr elt_hdr_field ?m xs"
  proof (rule links_cong)
    show "links base_addr elt_hdr_field (view s) xs" using rep by (simp add: queue_rep_def)
    fix z assume "z \<in> set xs"
    with x(2) have "z \<noteq> x" by blast
    then show "ptr_at ?m (next_at elt_hdr_field z) = ptr_at (view s) (next_at elt_hdr_field z)"
      by simp
  qed
  moreover have "ends base_addr qhead ?m xs = ends base_addr qhead (view s) xs"
    using x(1) by (intro ends_enqueuable_cong) (auto simp: enqueuableD)
  ultimately have "queue_rep base_addr elt_hdr_field qhead ?m xs"
    using rep by (simp add: queue_rep_def)
  then show ?thesis
    using yields_gives [OF set_rel_null_yields [OF ok], of "next_at elt_hdr_field x"]
    by (simp add: OPA_Queue_header_init_def)
qed

lemma enqueue_gives:
  "represents s xs \<Longrightarrow> enqueuable base_addr elt_hdr_field qhead x \<Longrightarrow> x \<notin> set xs \<Longrightarrow>
     gives represents primed (OPA_Queue_enqueue P base_addr elt_hdr_field qhead x s) ()
       (xs @ [x]) False"
  by (rule yields_gives [OF enqueue_yields]) (auto simp: represents_def intro: enqueued_rep)

lemma is_empty_gives:
  assumes "represents s xs"
  shows "gives represents primed (OPA_Queue_is_empty P qhead s) (c_bool (xs = [])) xs (xs \<noteq> [])"
proof (cases xs)
  case Nil
  with assms yields_gives [OF is_empty_yields, of s "[]" False] show ?thesis
    by (simp add: represents_def queue_rep_Nil)
next
  case (Cons x ys)
  let ?m = "view s"
  let ?fill = "ptr_at ?m (shadow_head_at qhead) = 0 \<and> ptr_at ?m (head_at qhead) \<noteq> 0"
  let ?m' = "if ?fill then st_ptr (head_at qhead) 0
    (st_ptr (shadow_head_at qhead) (ptr_at ?m (head_at qhead)) ?m) else ?m"
  from assms have ok: "ok s" and rep: "queue_rep base_addr elt_hdr_field qhead ?m xs"
    by (simp_all add: represents_def)
  note front = queue_rep_Cons [OF rep [unfolded Cons]]
  have "links base_addr elt_hdr_field ?m' xs"
  proof (rule links_cong)
    show "links base_addr elt_hdr_field ?m xs" using rep by (simp add: queue_rep_def)
    fix z assume "z \<in> set xs"
    then have "enqueuable base_addr elt_hdr_field qhead z" by (rule queue_rep_enqueuable [OF rep])
    then show "ptr_at ?m' (next_at elt_hdr_field z) = ptr_at ?m (next_at elt_hdr_field z)"
      by (cases ?fill) (simp_all only: if_True if_False ptr_at_st_ptr enqueuableD simp_thms)
  qed
  moreover have "ends base_addr qhead ?m' xs" and "ptr_at ?m' (shadow_head_at qhead) \<noteq> 0"
    using front by (auto simp: ends_def Cons)
  ultimately have "gives represents primed (OPA_Queue_is_empty P qhead s)
      (c_bool (ptr_at ?m (shadow_head_at qhead) = 0 \<and> ptr_at ?m (head_at qhead) = 0)) xs True"
    using rep yields_gives [OF is_empty_yields [OF ok], of xs True] by (simp add: queue_rep_def)
  moreover have "(ptr_at ?m (shadow_head_at qhead) = 0 \<and> ptr_at ?m (head_at qhead) = 0) = False"
    using front by auto
  ultimately show ?thesis using Cons by simp
qed

lemma peek_gives:
  assumes s: "represents s (x # xs)" and p: "primed s"
  shows "gives represents primed (OPA_Queue_peek_head P base_addr qhead s) x (x # xs) True"
proof -
  from s have ok: "ok s" and rep: "queue_rep base_addr elt_hdr_field qhead (view s) (x # xs)"
    by (simp_all add: represents_def)
  from queue_rep_Cons [OF rep] p have "ptr_at (view s) (shadow_head_at qhead) = x - base_addr"
    by (auto simp: primed_def)
  with p yields_gives [OF peek_yields [OF ok] rep, of True] show ?thesis
    by (simp add: primed_def)
qed

lemma peek_empty_gives:
  assumes "represents s []"
  shows "gives represents primed (OPA_Queue_peek_head P base_addr qhead s) 0 [] False"
  using assms yields_gives [OF peek_yields, of s "[]" False]
  by (simp add: represents_def queue_rep_Nil)

lemma dequeue_gives:
  assumes s: "represents s (x # ys)" and p: "primed s"
  shows "gives represents primed (OPA_Queue_dequeue P base_addr elt_hdr_field qhead s) x ys False"
proof -
  let ?m = "view s"
  from s have ok: "ok s" and rep: "queue_rep base_addr elt_hdr_field qhead ?m (x # ys)"
    by (simp_all add: represents_def)
  from queue_rep_Cons [OF rep] p
  have x: "x \<noteq> base_addr" "ptr_at ?m (shadow_head_at qhead) = x - base_addr"
    by (auto simp: primed_def)
  have "yields ok view (OPA_Queue_dequeue P base_addr elt_hdr_field qhead s) x
    (dequeued base_addr elt_hdr_field qhead x ys ?m)"
  proof (cases ys)
    case Nil
    with rep have "ptr_at ?m (next_at elt_hdr_field x) = 0"
      "ptr_at ?m (tail_at qhead) = x - base_addr"
      by (simp_all add: queue_rep_def links_def ends_def)
    with Nil dequeue_last_yields [OF ok x] show ?thesis by (simp add: dequeued_def)
  next
    case (Cons y zs)
    with rep queue_rep_enqueuable [OF rep, of y]
    have n: "ptr_at ?m (next_at elt_hdr_field x) = y - base_addr" "y - base_addr \<noteq> 0"
      by (simp_all add: queue_rep_def links_Cons enqueuableD)
    from dequeue_linked_yields [OF ok x(2) n] Cons show ?thesis by (simp add: dequeued_def)
  qed
  then show ?thesis
    by (rule yields_gives) (use p in \<open>auto intro!: dequeued_rep [OF rep] simp: primed_def\<close>)
qed

end

sublocale shm_queue \<subseteq> fifo: fifo_queue ok represents primed
  "enqueuable base_addr elt_hdr_field qhead"
  "OPA_Queue_init P qhead"
  "\<lambda>e. OPA_Queue_header_init P (next_at elt_hdr_field e)"
  "OPA_Queue_enqueue P base_addr elt_hdr_field qhead"
  "OPA_Queue_is_empty P qhead"
  "OPA_Queue_peek_head P base_addr qhead"
  "OPA_Queue_dequeue P base_addr elt_hdr_field qhead"
  by unfold_locales
    (fact init_gives header_init_gives enqueue_gives is_empty_gives peek_gives peek_empty_gives
      dequeue_gives)+

context shm_queue
begin

text \<open>The facts of the queue contract, in terms of the memory.\<close>

lemma gives_iff: "gives represents primed out r xs c \<longleftrightarrow>
    (\<exists>s. out = ret r s \<and> ok s \<and> queue_rep base_addr elt_hdr_field qhead (view s) xs \<and>
       (c \<longrightarrow> ptr_at (view s) (shadow_head_at qhead) \<noteq> 0))"
  by (simp add: gives_def represents_def primed_def)

lemma roundtrip:
  assumes "represents s []" and "distinct ys"
    and "\<forall>y \<in> set ys. enqueuable base_addr elt_hdr_field qhead y"
  shows "gives represents primed
    (bind_outcome (enq_all (OPA_Queue_enqueue P base_addr elt_hdr_field qhead) ys s)
      (\<lambda>_. drain (OPA_Queue_is_empty P qhead) (OPA_Queue_dequeue P base_addr elt_hdr_field qhead)
        (length ys))) ys [] False"
  by (rule fifo.enq_all_drain [OF assms])

lemma sanity:
  assumes "ok s" and "distinct [e0, e1, e2, e3]"
    and "\<forall>e \<in> {e0, e1, e2, e3}. enqueuable base_addr elt_hdr_field qhead e \<and> e \<noteq> 0"
  shows "gives represents primed
    (test_queue_sanity (OPA_Queue_init P qhead)
      (\<lambda>e. OPA_Queue_header_init P (next_at elt_hdr_field e))
      (OPA_Queue_enqueue P base_addr elt_hdr_field qhead) (OPA_Queue_is_empty P qhead)
      (OPA_Queue_peek_head P base_addr qhead) (OPA_Queue_dequeue P base_addr elt_hdr_field qhead)
      e0 e1 e2 e3 s) True [] False"
  by (rule fifo.sanity_holds [OF assms])

lemma base_enqueued:
  assumes "ok s" and "queue_rep base_addr elt_hdr_field qhead (view s) []"
    and "next_at elt_hdr_field base_addr \<notin> {head_at qhead, tail_at qhead, shadow_head_at qhead}"
  shows "yields ok view
    (bind_outcome (OPA_Queue_enqueue P base_addr elt_hdr_field qhead base_addr s)
      (\<lambda>_. OPA_Queue_is_empty P qhead)) 1
    (st_ptr (head_at qhead) 0 (st_ptr (tail_at qhead) 0
      (st_ptr (next_at elt_hdr_field base_addr) 0 (view s))))"
proof -
  have m: "enqueued base_addr elt_hdr_field qhead base_addr (view s) =
    st_ptr (head_at qhead) 0 (st_ptr (tail_at qhead) 0
      (st_ptr (next_at elt_hdr_field base_addr) 0 (view s)))" (is "_ = ?m")
    using assms(2,3) by (auto simp: enqueued_def Let_def queue_rep_Nil)
  show ?thesis
  proof (rule yields_bind [OF enqueue_yields [OF assms(1)]])
    fix s' assume "ok s'" "view s' = enqueued base_addr elt_hdr_field qhead base_addr (view s)"
    then show "yields ok view (OPA_Queue_is_empty P qhead s') 1 ?m"
      using is_empty_yields [of s'] assms(2,3) by (auto simp: m queue_rep_Nil c_bool_def)
  qed
qed

end

section \<open>The queue on two ports\<close>

text \<open>A structure assignment is a plain access, also on the lock-based port.\<close>

definition unsafe_port :: "mem ptr_port" where
  "unsafe_port = \<lparr>load_ptr = OPA_load_ptr_unsafe, store_ptr = OPA_store_ptr_unsafe,
     cas_ptr = OPA_cas_ptr_unsafe, swap_ptr = OPA_swap_ptr_unsafe,
     plain_read = (\<lambda>a m. ptr_at m a), plain_write = st_ptr\<rparr>"

definition by_lock_port :: "lock_mem ptr_port" where
  "by_lock_port = \<lparr>load_ptr = OPA_load_ptr_by_lock, store_ptr = OPA_store_ptr_by_lock,
     cas_ptr = OPA_cas_ptr_by_lock, swap_ptr = OPA_swap_ptr_by_lock,
     plain_read = (\<lambda>a s. ptr_at s a), plain_write = st_ptr\<rparr>"

lemma lock_ready_st_ptr [simp]: "lock_ready (st_ptr a v s) = lock_ready s"
  by (simp add: lock_ready_def)

interpretation unsafe_queue: shm_queue "\<lambda>_. True" "\<lambda>m. m" unsafe_port
  base_addr elt_hdr_field qhead for base_addr elt_hdr_field qhead
  by unfold_locales
    (simp_all add: unsafe_port_def unsafe.load_ptr_law unsafe.store_ptr_law unsafe.cas_ptr_law
      unsafe.swap_ptr_law)

interpretation by_lock_queue: shm_queue lock_ready mem.truncate by_lock_port
  base_addr elt_hdr_field qhead for base_addr elt_hdr_field qhead
  by unfold_locales
    (simp_all add: by_lock_port_def by_lock.load_ptr_law by_lock.store_ptr_law by_lock.cas_ptr_law
      by_lock.swap_ptr_law del: ptr_at_truncate, simp add: by_lock_port_def)

text \<open>On the unsafe port a busy wait for a null cell never returns.\<close>

lemma unsafe_is_rel_null: "OPA_SHM_IS_REL_NULL unsafe_port a m = ret (ptr_at m a = 0) m"
  by (simp add: OPA_SHM_IS_REL_NULL_def unsafe_port_def OPA_load_ptr_unsafe_def OPA_SHM_REL_NULL_def)

lemma wait_not_null_diverges:
  assumes "ptr_at m a = 0"
  shows "wait_not_null unsafe_port a m = None"
proof (rule ccontr)
  let ?Q = "\<lambda>x out. case x of ((P, a), m) \<Rightarrow> P = unsafe_port \<longrightarrow> ptr_at m a \<noteq> (0 :: addr)"
  assume "wait_not_null unsafe_port a m \<noteq> None"
  then obtain out where "wait_not_null unsafe_port a m = Some out" by blast
  then have "?Q ((unsafe_port, a), m) out"
    by (rule wait_not_null.raw_induct [rotated])
      (fastforce simp: unsafe_is_rel_null ret_def split: if_splits)
  with assms show False by simp
qed

end
