(* ===== verification/OPA_Queue_Facts.thy ===== *)
theory OPA_Queue_Facts
  imports OPA_Queue
begin

text \<open>
  The properties of the queue and of the shared memory addresses when one thread runs alone, for
  every port that offers the pointer primitives (\<open>shm_queue\<close>), and what happens when the calling
  rules of \<open>opa_queue.h\<close> are broken.
\<close>

section \<open>A memory for the witnesses\<close>

text \<open>
  The segment is mapped at 4096, the queue lies at 4096 and the header at offset 8 of an element.
\<close>

lemma sample_empty: "queue_rep 4096 8 4096 zero_mem []"
  by (simp add: queue_rep_Nil zero_mem_def)

lemma sample_enqueuable:
  "enqueuable 4096 8 4096 8192" "enqueuable 4096 8 4096 8256"
  "enqueuable 4096 8 4096 8320" "enqueuable 4096 8 4096 8384"
  by (simp_all add: enqueuable_def next_at_def head_at_def tail_at_def shadow_head_at_def
      OPA_QUEUE_CACHELINE_PADDING_def)

lemma sample_one: "queue_rep 4096 8 4096 (enqueued 4096 8 4096 8192 zero_mem) [8192]"
  using enqueued_rep [OF sample_empty sample_enqueuable(1)] by simp

lemma unsafe_shm_queue: "shm_queue (\<lambda>_. True) (\<lambda>m. m) unsafe_port"
  by (rule unsafe_queue.shm_queue_axioms)

lemma by_lock_shm_queue: "shm_queue lock_ready mem.truncate by_lock_port"
  by (rule by_lock_queue.shm_queue_axioms)

section \<open>Properties\<close>

text \<open>
  Enqueue. On every port, from a memory that represents the list \<open>xs\<close>, enqueuing an element
  that is not in it returns, and the memory then represents \<open>xs\<close> with the element at its end.
\<close>

lemma enqueue_appends:
  assumes "shm_queue ok view P" and "ok s" and "queue_rep b f q (view s) xs"
    and "enqueuable b f q x" and "x \<notin> set xs"
  shows "\<exists>s'. OPA_Queue_enqueue P b f q x s = ret () s' \<and> ok s' \<and>
    queue_rep b f q (view s') (xs @ [x])"
  using shm_queue.enqueue_gives [OF assms(1), of b f q s xs x] assms(2-)
  by (simp add: shm_queue.gives_iff [OF assms(1)] shm_queue.represents_def [OF assms(1)])

theorem enqueue_appends_witness:
  "\<exists>s'. OPA_Queue_enqueue unsafe_port 4096 8 4096 8256 (enqueued 4096 8 4096 8192 zero_mem) = ret () s' \<and>
     queue_rep 4096 8 4096 s' [8192, 8256]"
  using enqueue_appends [OF unsafe_shm_queue TrueI sample_one sample_enqueuable(2)] by simp

text \<open>
  Is-empty and dequeue. On every port, from a memory that represents a list with first element
  \<open>x\<close>, \<open>OPA_Queue_is_empty\<close> answers 0 and leaves the list alone; the dequeue that follows returns
  \<open>x\<close>, does not wait, and leaves the rest of the list.
\<close>

lemma dequeue_takes_first:
  assumes "shm_queue ok view P" and "ok s" and "queue_rep b f q (view s) (x # xs)"
  shows "\<exists>s1 s2. OPA_Queue_is_empty P q s = ret 0 s1 \<and>
    queue_rep b f q (view s1) (x # xs) \<and>
    OPA_Queue_dequeue P b f q s1 = ret x s2 \<and> ok s2 \<and> queue_rep b f q (view s2) xs"
proof -
  note iff = shm_queue.gives_iff [OF assms(1), where base_addr = b and elt_hdr_field = f and qhead = q]
    and reps = shm_queue.represents_def [OF assms(1)] shm_queue.primed_def [OF assms(1)]
  from shm_queue.is_empty_gives [OF assms(1), of b f q s "x # xs"] assms(2,3)
  obtain s1 where s1: "OPA_Queue_is_empty P q s = ret 0 s1" "ok s1"
    "queue_rep b f q (view s1) (x # xs)" "ptr_at (view s1) (shadow_head_at q) \<noteq> 0"
    by (auto simp: iff reps c_bool_def)
  with shm_queue.dequeue_gives [OF assms(1), of b f q s1 x xs]
  show ?thesis by (auto simp: iff reps)
qed

theorem dequeue_takes_first_witness:
  "\<exists>s1 s2. OPA_Queue_is_empty unsafe_port 4096 (enqueued 4096 8 4096 8192 zero_mem) = ret 0 s1 \<and>
     OPA_Queue_dequeue unsafe_port 4096 8 4096 s1 = ret 8192 s2 \<and> queue_rep 4096 8 4096 s2 []"
  using dequeue_takes_first [OF unsafe_shm_queue TrueI sample_one] by auto

text \<open>
  The empty queue. On every port a queue that represents the empty list is reported empty,
  a peek answers the null pointer, and neither changes the list.
\<close>

lemma empty_queue_answers:
  assumes "shm_queue ok view P" and "ok s" and "queue_rep b f q (view s) []"
  shows "\<exists>s1 s2. OPA_Queue_is_empty P q s = ret 1 s1 \<and> OPA_Queue_peek_head P b q s1 = ret 0 s2 \<and>
    ok s2 \<and> queue_rep b f q (view s2) []"
proof -
  note iff = shm_queue.gives_iff [OF assms(1), where base_addr = b and elt_hdr_field = f and qhead = q]
    and reps = shm_queue.represents_def [OF assms(1)] shm_queue.primed_def [OF assms(1)]
  from shm_queue.is_empty_gives [OF assms(1), of b f q s "[]"] assms(2,3)
  obtain s1 where s1: "OPA_Queue_is_empty P q s = ret 1 s1" "ok s1" "queue_rep b f q (view s1) []"
    by (auto simp: iff reps c_bool_def)
  with shm_queue.peek_empty_gives [OF assms(1), of b f q s1]
  show ?thesis by (auto simp: iff reps)
qed

theorem empty_queue_answers_witness:
  "\<exists>s1 s2. OPA_Queue_is_empty unsafe_port 4096 zero_mem = ret 1 s1 \<and>
     OPA_Queue_peek_head unsafe_port 4096 4096 s1 = ret 0 s2 \<and> queue_rep 4096 8 4096 s2 []"
  using empty_queue_answers [OF unsafe_shm_queue TrueI sample_empty] by auto

text \<open>
  Peek. On every port, after \<open>OPA_Queue_is_empty\<close> answered 0 a peek returns the first element
  and leaves the queue as it is, so the dequeue that follows returns the same element.
\<close>

lemma peek_is_next_dequeue:
  assumes "shm_queue ok view P" and "ok s" and "queue_rep b f q (view s) (x # xs)"
  shows "\<exists>s1 s2 s3. OPA_Queue_is_empty P q s = ret 0 s1 \<and> OPA_Queue_peek_head P b q s1 = ret x s2 \<and>
    OPA_Queue_dequeue P b f q s2 = ret x s3 \<and> ok s3 \<and> queue_rep b f q (view s3) xs"
proof -
  note iff = shm_queue.gives_iff [OF assms(1), where base_addr = b and elt_hdr_field = f and qhead = q]
    and reps = shm_queue.represents_def [OF assms(1)] shm_queue.primed_def [OF assms(1)]
  from shm_queue.is_empty_gives [OF assms(1), of b f q s "x # xs"] assms(2,3)
  obtain s1 where s1: "OPA_Queue_is_empty P q s = ret 0 s1" "ok s1"
    "queue_rep b f q (view s1) (x # xs)" "ptr_at (view s1) (shadow_head_at q) \<noteq> 0"
    by (auto simp: iff reps c_bool_def)
  with shm_queue.peek_gives [OF assms(1), of b f q s1 x xs]
  obtain s2 where s2: "OPA_Queue_peek_head P b q s1 = ret x s2" "ok s2"
    "queue_rep b f q (view s2) (x # xs)" "ptr_at (view s2) (shadow_head_at q) \<noteq> 0"
    by (auto simp: iff reps)
  with shm_queue.dequeue_gives [OF assms(1), of b f q s2 x xs] s1(1)
  show ?thesis by (auto simp: iff reps)
qed

theorem peek_is_next_dequeue_witness:
  "\<exists>s1 s2 s3. OPA_Queue_is_empty unsafe_port 4096 (enqueued 4096 8 4096 8192 zero_mem) = ret 0 s1 \<and>
     OPA_Queue_peek_head unsafe_port 4096 4096 s1 = ret 8192 s2 \<and>
     OPA_Queue_dequeue unsafe_port 4096 8 4096 s2 = ret 8192 s3"
  using peek_is_next_dequeue [OF unsafe_shm_queue TrueI sample_one] by auto

text \<open>
  C33. Round trip. On every port, enqueuing any list of distinct elements on an empty queue and
  polling as often returns that list in order and leaves the queue empty.
\<close>

theorem queue_roundtrip:
  assumes "shm_queue ok view P" and "ok s" and "queue_rep b f q (view s) []"
    and "distinct ys" and "\<forall>y \<in> set ys. enqueuable b f q y"
  shows "\<exists>s'. bind_outcome (enq_all (OPA_Queue_enqueue P b f q) ys s)
      (\<lambda>_. drain (OPA_Queue_is_empty P q) (OPA_Queue_dequeue P b f q) (length ys)) = ret ys s' \<and>
    ok s' \<and> queue_rep b f q (view s') []"
  using shm_queue.roundtrip [OF assms(1), of b f q s ys] assms(2-)
  by (simp add: shm_queue.gives_iff [OF assms(1)] shm_queue.represents_def [OF assms(1)])

theorem queue_roundtrip_witness:
  "\<exists>s'. bind_outcome (enq_all (OPA_Queue_enqueue unsafe_port 4096 8 4096) [8320, 8192, 8256] zero_mem)
      (\<lambda>_. drain (OPA_Queue_is_empty unsafe_port 4096) (OPA_Queue_dequeue unsafe_port 4096 8 4096) 3) =
      ret [8320, 8192, 8256] s'"
proof -
  have "distinct [8320, 8192, 8256 :: addr]"
    and "\<forall>y \<in> set [8320, 8192, 8256]. enqueuable 4096 8 4096 y"
    and len: "length [8320, 8192, 8256 :: addr] = 3"
    using sample_enqueuable by simp_all
  from queue_roundtrip [OF unsafe_shm_queue TrueI sample_empty this(1,2)] show ?thesis
    unfolding len by blast
qed

text \<open>
  The sanity test of the queue passes: on every port, whatever the memory holds before, the
  program \<open>test_queue_sanity\<close> of the test suite finds no error and leaves the queue empty.
\<close>

lemma queue_sanity_test_passes:
  assumes "shm_queue ok view P" and "ok s" and "distinct [e0, e1, e2, e3]"
    and "\<forall>e \<in> {e0, e1, e2, e3}. enqueuable b f q e \<and> e \<noteq> 0"
  shows "\<exists>s'. test_queue_sanity (OPA_Queue_init P q) (\<lambda>e. OPA_Queue_header_init P (next_at f e))
      (OPA_Queue_enqueue P b f q) (OPA_Queue_is_empty P q) (OPA_Queue_peek_head P b q)
      (OPA_Queue_dequeue P b f q) e0 e1 e2 e3 s = ret True s' \<and>
    ok s' \<and> queue_rep b f q (view s') []"
  using shm_queue.sanity [OF assms(1-4)] by (simp add: shm_queue.gives_iff [OF assms(1)])

definition sample_lock_mem :: lock_mem where
  "sample_lock_mem = \<lparr>int_at = (\<lambda>_. 7), ptr_at = (\<lambda>_. 9), OPA_emulation_lock = 64,
     mutex_at = (\<lambda>_. Unlocked)\<rparr>"

theorem queue_sanity_test_passes_witness:
  "\<exists>s'. test_queue_sanity (OPA_Queue_init by_lock_port 4096)
      (\<lambda>e. OPA_Queue_header_init by_lock_port (next_at 8 e))
      (OPA_Queue_enqueue by_lock_port 4096 8 4096) (OPA_Queue_is_empty by_lock_port 4096)
      (OPA_Queue_peek_head by_lock_port 4096 4096) (OPA_Queue_dequeue by_lock_port 4096 8 4096)
      8192 8256 8320 8384 sample_lock_mem = ret True s' \<and> lock_ready s'"
proof -
  have "lock_ready sample_lock_mem" by (simp add: lock_ready_def sample_lock_mem_def)
  from queue_sanity_test_passes [OF by_lock_shm_queue this, of 8192 8256 8320 8384 4096 8 4096]
    sample_enqueuable show ?thesis by auto
qed

text \<open>
  The calling rule of the dequeue. Without the call of \<open>OPA_Queue_is_empty\<close>, a dequeue from a
  queue with elements whose shadow head is null never returns, and a dequeue from an empty queue
  returns the base address as if it were an element (when the word at the place of a header there
  is null).
\<close>

lemma dequeue_without_is_empty:
  assumes "ptr_at m (shadow_head_at q) = 0" and "ptr_at m (next_at f b) = 0"
    and "next_at f b \<notin> {head_at q, tail_at q, shadow_head_at q}" and "queue_rep b f q m xs"
  shows "if xs = [] then \<exists>m'. OPA_Queue_dequeue unsafe_port b f q m = ret b m'
    else OPA_Queue_dequeue unsafe_port b f q m = None"
proof -
  have t: "ptr_at m (tail_at q) = 0 \<longleftrightarrow> xs = []"
  proof (cases xs)
    case Nil
    with assms(4) show ?thesis by (simp add: queue_rep_Nil)
  next
    case (Cons x ys)
    then have "enqueuable b f q (last xs)" by (intro queue_rep_enqueuable [OF assms(4)]) simp
    then have "last xs \<noteq> b" by (rule enqueuableD(1))
    with Cons queue_rep_Cons [OF assms(4) [unfolded Cons]] show ?thesis by auto
  qed
  note run = OPA_Queue_dequeue_def Let_def read_rel_def OPA_Shm_rel_to_abs_def unsafe_is_rel_null
    OPA_SHM_SET_REL_NULL_def OPA_Shm_cas_rel_null_def OPA_SHM_REL_ARE_EQUAL_def OPA_SHM_REL_NULL_def
    OPA_store_ptr_unsafe_def OPA_cas_ptr_unsafe_def
  have cells: "next_at f b \<noteq> tail_at q" "next_at f b \<noteq> shadow_head_at q"
    using assms(3) by auto
  show ?thesis
  proof (cases "xs = []")
    case True
    with t assms(1,2) cells show ?thesis
      by (simp add: run unsafe_is_rel_null) (simp add: unsafe_port_def run)
  next
    case False
    have "wait_not_null unsafe_port (next_at f b) (st_ptr (shadow_head_at q) 0 m) = None"
      by (rule wait_not_null_diverges) (use assms(2) in simp)
    with t False assms(1,2) cells show ?thesis
      by (simp add: run unsafe_is_rel_null) (simp add: unsafe_port_def run)
  qed
qed

text \<open>
  The store of the witnesses after an enqueue has its shadow head and the word at the base null.
\<close>

theorem dequeue_without_is_empty_witness:
  "OPA_Queue_dequeue unsafe_port 4096 256 4096 (enqueued 4096 256 4096 8192 zero_mem) = None"
proof -
  let ?m = "enqueued 4096 256 4096 8192 zero_mem"
  note cells = next_at_def head_at_def tail_at_def shadow_head_at_def OPA_QUEUE_CACHELINE_PADDING_def
  have "queue_rep 4096 256 4096 zero_mem []"
    by (simp add: queue_rep_Nil zero_mem_def)
  then have "queue_rep 4096 256 4096 ?m [8192]"
    using enqueued_rep [of 4096 256 4096 zero_mem "[]" 8192] by (simp add: enqueuable_def cells)
  moreover have "ptr_at ?m (shadow_head_at 4096) = 0" "ptr_at ?m (next_at 256 4096) = 0"
    "next_at 256 4096 \<notin> {head_at 4096, tail_at 4096, shadow_head_at 4096}"
    by (simp_all add: enqueued_def zero_mem_def cells)
  ultimately show ?thesis using dequeue_without_is_empty [of ?m 4096 256 4096 "[8192]"] by simp
qed

text \<open>
  C35. The null relative address. An element at the base address itself has the relative address
  that the library uses for null, so on every port enqueuing it on an empty queue returns and the
  queue is still reported empty: the element is lost.
\<close>

theorem element_at_base_is_lost:
  assumes "shm_queue ok view P" and "ok s" and "queue_rep b f q (view s) []"
    and "next_at f b \<notin> {head_at q, tail_at q, shadow_head_at q}"
  shows "\<exists>s'. bind_outcome (OPA_Queue_enqueue P b f q b s) (\<lambda>_. OPA_Queue_is_empty P q) = ret 1 s'"
  using shm_queue.base_enqueued [OF assms] by (auto simp: yields_def)

theorem element_at_base_is_lost_witness:
  "\<exists>s'. bind_outcome (OPA_Queue_enqueue unsafe_port 4096 256 4096 4096 zero_mem)
     (\<lambda>_. OPA_Queue_is_empty unsafe_port 4096) = ret 1 s'"
proof -
  have "queue_rep 4096 256 4096 zero_mem []" by (simp add: queue_rep_Nil zero_mem_def)
  moreover have "next_at 256 4096 \<notin> {head_at 4096, tail_at 4096, shadow_head_at 4096}"
    by (simp add: next_at_def head_at_def tail_at_def shadow_head_at_def OPA_QUEUE_CACHELINE_PADDING_def)
  ultimately show ?thesis by (rule element_at_base_is_lost [OF unsafe_shm_queue TrueI])
qed

text \<open>
  Relative addresses. Converting an address of one process to a relative one and back in
  another process moves it by the difference of the two base addresses; in the same process it is
  the identity.
\<close>

lemma relative_address_roundtrip:
  "OPA_Shm_rel_to_abs b' (OPA_Shm_abs_to_rel b a) = a + (b' - b) \<and>
   OPA_Shm_rel_to_abs b (OPA_Shm_abs_to_rel b a) = a \<and>
   OPA_Shm_abs_to_rel b (OPA_Shm_rel_to_abs b r) = r"
  by (simp add: OPA_Shm_rel_to_abs_def OPA_Shm_abs_to_rel_def)

text \<open>
  The set-up of the base address. The first call installs its argument and returns 0. A later
  call fails with 16 and changes nothing, except when the base address installed is the mark 64 of
  an uninitialised one: then it succeeds and replaces the base address.
\<close>

lemma asymm_init_calls:
  "OPA_Shm_asymm_init base initial_base_addr = (0, base) \<and>
   (let installed = snd (OPA_Shm_asymm_init base initial_base_addr)
    in OPA_Shm_asymm_init base' installed = (if base = 64 then (0, base') else (16, base)))"
  by (simp add: OPA_Shm_asymm_init_def initial_base_addr_def OPA_SHM_ASYMM_NULL_VAL_def)

end
