(* ===== verification/OPA_Emulated.thy ===== *)
theory OPA_Emulated
  imports OPA_Contract
begin

text \<open>
  The emulations of \<open>src/primitives/opa_emulated.h\<close>: a port that has some of the primitives
  derives the others from them, from a compare-and-swap, from a fetch-and-add, or from a
  load-linked/store-conditional pair. Each emulation takes the primitives it calls as arguments.
  The loops may run forever when another thread keeps interfering or when a store-conditional
  keeps failing; what is shown here is what they do when one thread runs alone and a
  store-conditional fails spuriously only finitely often. \<open>OPA_Rmw_Threads\<close> runs them
  concurrently.
\<close>

section \<open>Emulation by compare-and-swap\<close>

text \<open>The bodies of the do-while loops; \<open>prev\<close> is the value the loop starts from.\<close>

partial_function (option) faa_by_cas_loop ::
  "(addr \<Rightarrow> c_int \<Rightarrow> c_int \<Rightarrow> 's \<Rightarrow> ('s, c_int) outcome) \<Rightarrow> addr \<Rightarrow> c_int \<Rightarrow> c_int \<Rightarrow> 's \<Rightarrow>
   ('s, c_int) outcome" where
  "faa_by_cas_loop cas_int ptr val prev s =
     (let cmp = prev in
      bind_outcome (c_value (c_add prev val) s) (\<lambda>sum s.
      bind_outcome (cas_int ptr cmp sum s) (\<lambda>prev s.
        if prev \<noteq> cmp then faa_by_cas_loop cas_int ptr val prev s else ret prev s)))"

definition OPA_fetch_and_add_int_by_cas ::
  "(addr \<Rightarrow> 's \<Rightarrow> ('s, c_int) outcome) \<Rightarrow>
   (addr \<Rightarrow> c_int \<Rightarrow> c_int \<Rightarrow> 's \<Rightarrow> ('s, c_int) outcome) \<Rightarrow> addr \<Rightarrow> c_int \<Rightarrow> 's \<Rightarrow> ('s, c_int) outcome" where
  "OPA_fetch_and_add_int_by_cas load_int cas_int ptr val s =
     bind_outcome (load_int ptr s) (faa_by_cas_loop cas_int ptr val)"

partial_function (option) swap_by_cas_loop ::
  "(addr \<Rightarrow> 'v \<Rightarrow> 'v \<Rightarrow> 's \<Rightarrow> ('s, 'v) outcome) \<Rightarrow> addr \<Rightarrow> 'v \<Rightarrow> 'v \<Rightarrow> 's \<Rightarrow> ('s, 'v) outcome" where
  "swap_by_cas_loop cas ptr val prev s =
     (let cmp = prev in
      bind_outcome (cas ptr cmp val s) (\<lambda>prev s.
        if prev \<noteq> cmp then swap_by_cas_loop cas ptr val prev s else ret prev s))"

definition OPA_swap_ptr_by_cas ::
  "(addr \<Rightarrow> 's \<Rightarrow> ('s, addr) outcome) \<Rightarrow>
   (addr \<Rightarrow> addr \<Rightarrow> addr \<Rightarrow> 's \<Rightarrow> ('s, addr) outcome) \<Rightarrow> addr \<Rightarrow> addr \<Rightarrow> 's \<Rightarrow> ('s, addr) outcome" where
  "OPA_swap_ptr_by_cas load_ptr cas_ptr ptr val s =
     bind_outcome (load_ptr ptr s) (swap_by_cas_loop cas_ptr ptr val)"

definition OPA_swap_int_by_cas ::
  "(addr \<Rightarrow> 's \<Rightarrow> ('s, c_int) outcome) \<Rightarrow>
   (addr \<Rightarrow> c_int \<Rightarrow> c_int \<Rightarrow> 's \<Rightarrow> ('s, c_int) outcome) \<Rightarrow> addr \<Rightarrow> c_int \<Rightarrow> 's \<Rightarrow> ('s, c_int) outcome" where
  "OPA_swap_int_by_cas load_int cas_int ptr val s =
     bind_outcome (load_int ptr s) (swap_by_cas_loop cas_int ptr val)"

section \<open>Emulation by fetch-and-add, add, fetch-and-increment and fetch-and-decrement\<close>

text \<open>
  \<open>OPA_incr_int_by_faa\<close> and \<open>OPA_decr_int_by_faa\<close> return the previous value, although the
  functions they stand for return nothing.
\<close>

definition OPA_fetch_and_incr_int_by_faa ::
  "(addr \<Rightarrow> c_int \<Rightarrow> 's \<Rightarrow> ('s, c_int) outcome) \<Rightarrow> addr \<Rightarrow> 's \<Rightarrow> ('s, c_int) outcome" where
  "OPA_fetch_and_incr_int_by_faa faa ptr s = faa ptr 1 s"

definition OPA_fetch_and_decr_int_by_faa ::
  "(addr \<Rightarrow> c_int \<Rightarrow> 's \<Rightarrow> ('s, c_int) outcome) \<Rightarrow> addr \<Rightarrow> 's \<Rightarrow> ('s, c_int) outcome" where
  "OPA_fetch_and_decr_int_by_faa faa ptr s = faa ptr (- 1) s"

definition OPA_decr_and_test_int_by_fad ::
  "(addr \<Rightarrow> 's \<Rightarrow> ('s, c_int) outcome) \<Rightarrow> addr \<Rightarrow> 's \<Rightarrow> ('s, c_int) outcome" where
  "OPA_decr_and_test_int_by_fad fad ptr s =
     bind_outcome (fad ptr s) (\<lambda>prev s. ret (c_bool (prev = 1)) s)"

definition OPA_add_int_by_faa ::
  "(addr \<Rightarrow> c_int \<Rightarrow> 's \<Rightarrow> ('s, c_int) outcome) \<Rightarrow> addr \<Rightarrow> c_int \<Rightarrow> 's \<Rightarrow> ('s, unit) outcome" where
  "OPA_add_int_by_faa faa ptr val s = void (faa ptr val s)"

definition OPA_incr_int_by_faa ::
  "(addr \<Rightarrow> c_int \<Rightarrow> 's \<Rightarrow> ('s, c_int) outcome) \<Rightarrow> addr \<Rightarrow> 's \<Rightarrow> ('s, c_int) outcome" where
  "OPA_incr_int_by_faa faa ptr s = faa ptr 1 s"

definition OPA_incr_int_by_add ::
  "(addr \<Rightarrow> c_int \<Rightarrow> 's \<Rightarrow> ('s, unit) outcome) \<Rightarrow> addr \<Rightarrow> 's \<Rightarrow> ('s, unit) outcome" where
  "OPA_incr_int_by_add add ptr s = add ptr 1 s"

definition OPA_incr_int_by_fai ::
  "(addr \<Rightarrow> 's \<Rightarrow> ('s, c_int) outcome) \<Rightarrow> addr \<Rightarrow> 's \<Rightarrow> ('s, unit) outcome" where
  "OPA_incr_int_by_fai fai ptr s = void (fai ptr s)"

definition OPA_decr_int_by_faa ::
  "(addr \<Rightarrow> c_int \<Rightarrow> 's \<Rightarrow> ('s, c_int) outcome) \<Rightarrow> addr \<Rightarrow> 's \<Rightarrow> ('s, c_int) outcome" where
  "OPA_decr_int_by_faa faa ptr s = faa ptr (- 1) s"

definition OPA_decr_int_by_add ::
  "(addr \<Rightarrow> c_int \<Rightarrow> 's \<Rightarrow> ('s, unit) outcome) \<Rightarrow> addr \<Rightarrow> 's \<Rightarrow> ('s, unit) outcome" where
  "OPA_decr_int_by_add add ptr s = add ptr (- 1) s"

definition OPA_decr_int_by_fad ::
  "(addr \<Rightarrow> 's \<Rightarrow> ('s, c_int) outcome) \<Rightarrow> addr \<Rightarrow> 's \<Rightarrow> ('s, unit) outcome" where
  "OPA_decr_int_by_fad fad ptr s = void (fad ptr s)"

section \<open>Emulation by load-linked and store-conditional\<close>

record 's llsc_port =
  OPA_LL_int :: "addr \<Rightarrow> 's \<Rightarrow> ('s, c_int) outcome"
  OPA_SC_int :: "addr \<Rightarrow> c_int \<Rightarrow> 's \<Rightarrow> ('s, c_int) outcome"
  OPA_LL_ptr :: "addr \<Rightarrow> 's \<Rightarrow> ('s, addr) outcome"
  OPA_SC_ptr :: "addr \<Rightarrow> addr \<Rightarrow> 's \<Rightarrow> ('s, c_int) outcome"

partial_function (option) OPA_fetch_and_add_int_by_llsc ::
  "'s llsc_port \<Rightarrow> addr \<Rightarrow> c_int \<Rightarrow> 's \<Rightarrow> ('s, c_int) outcome" where
  "OPA_fetch_and_add_int_by_llsc L ptr val s =
     bind_outcome (OPA_LL_int L ptr s) (\<lambda>prev s.
     bind_outcome (c_value (c_add prev val) s) (\<lambda>sum s.
     bind_outcome (OPA_SC_int L ptr sum s) (\<lambda>ok s.
       if ok = 0 then OPA_fetch_and_add_int_by_llsc L ptr val s else ret prev s)))"

definition OPA_add_int_by_llsc :: "'s llsc_port \<Rightarrow> addr \<Rightarrow> c_int \<Rightarrow> 's \<Rightarrow> ('s, unit) outcome" where
  "OPA_add_int_by_llsc L ptr val s = void (OPA_fetch_and_add_int_by_llsc L ptr val s)"

definition OPA_incr_int_by_llsc :: "'s llsc_port \<Rightarrow> addr \<Rightarrow> 's \<Rightarrow> ('s, unit) outcome" where
  "OPA_incr_int_by_llsc L ptr s = OPA_add_int_by_llsc L ptr 1 s"

definition OPA_decr_int_by_llsc :: "'s llsc_port \<Rightarrow> addr \<Rightarrow> 's \<Rightarrow> ('s, unit) outcome" where
  "OPA_decr_int_by_llsc L ptr s = OPA_add_int_by_llsc L ptr (- 1) s"

definition OPA_fetch_and_decr_int_by_llsc :: "'s llsc_port \<Rightarrow> addr \<Rightarrow> 's \<Rightarrow> ('s, c_int) outcome" where
  "OPA_fetch_and_decr_int_by_llsc L ptr s = OPA_fetch_and_add_int_by_llsc L ptr (- 1) s"

definition OPA_fetch_and_incr_int_by_llsc :: "'s llsc_port \<Rightarrow> addr \<Rightarrow> 's \<Rightarrow> ('s, c_int) outcome" where
  "OPA_fetch_and_incr_int_by_llsc L ptr s = OPA_fetch_and_add_int_by_llsc L ptr 1 s"

definition OPA_decr_and_test_int_by_llsc :: "'s llsc_port \<Rightarrow> addr \<Rightarrow> 's \<Rightarrow> ('s, c_int) outcome" where
  "OPA_decr_and_test_int_by_llsc L ptr s =
     bind_outcome (OPA_fetch_and_decr_int_by_llsc L ptr s) (\<lambda>prev s. ret (c_bool (prev = 1)) s)"

partial_function (option) OPA_cas_ptr_by_llsc ::
  "'s llsc_port \<Rightarrow> addr \<Rightarrow> addr \<Rightarrow> addr \<Rightarrow> 's \<Rightarrow> ('s, addr) outcome" where
  "OPA_cas_ptr_by_llsc L ptr oldv newv s =
     bind_outcome (OPA_LL_ptr L ptr s) (\<lambda>prev s.
       if prev = oldv then
         bind_outcome (OPA_SC_ptr L ptr newv s) (\<lambda>ok s.
           if ok = 0 then OPA_cas_ptr_by_llsc L ptr oldv newv s else ret prev s)
       else ret prev s)"

partial_function (option) OPA_cas_int_by_llsc ::
  "'s llsc_port \<Rightarrow> addr \<Rightarrow> c_int \<Rightarrow> c_int \<Rightarrow> 's \<Rightarrow> ('s, c_int) outcome" where
  "OPA_cas_int_by_llsc L ptr oldv newv s =
     bind_outcome (OPA_LL_int L ptr s) (\<lambda>prev s.
       if prev = oldv then
         bind_outcome (OPA_SC_int L ptr newv s) (\<lambda>ok s.
           if ok = 0 then OPA_cas_int_by_llsc L ptr oldv newv s else ret prev s)
       else ret prev s)"

partial_function (option) OPA_swap_ptr_by_llsc ::
  "'s llsc_port \<Rightarrow> addr \<Rightarrow> addr \<Rightarrow> 's \<Rightarrow> ('s, addr) outcome" where
  "OPA_swap_ptr_by_llsc L ptr val s =
     bind_outcome (OPA_LL_ptr L ptr s) (\<lambda>prev s.
     bind_outcome (OPA_SC_ptr L ptr val s) (\<lambda>ok s.
       if ok = 0 then OPA_swap_ptr_by_llsc L ptr val s else ret prev s))"

partial_function (option) OPA_swap_int_by_llsc ::
  "'s llsc_port \<Rightarrow> addr \<Rightarrow> c_int \<Rightarrow> 's \<Rightarrow> ('s, c_int) outcome" where
  "OPA_swap_int_by_llsc L ptr val s =
     bind_outcome (OPA_LL_int L ptr s) (\<lambda>prev s.
     bind_outcome (OPA_SC_int L ptr val s) (\<lambda>ok s.
       if ok = 0 then OPA_swap_int_by_llsc L ptr val s else ret prev s))"

section \<open>Correctness of the emulations\<close>

text \<open>A port with a compare-and-swap has a swap and a fetch-and-add.\<close>

context cas_primitives
begin

lemma faa_by_cas_loop_yields:
  assumes "ok s" and "int_at (view s) p = prev" and "no_overflow prev v"
  shows "yields ok view (faa_by_cas_loop cas_int p v prev s) prev (st_int p (prev + v) (view s))"
  using assms
  by (subst faa_by_cas_loop.simps)
    (auto simp: c_value_add intro!: yields_bind [OF cas_int_law] yields_ret)

lemma faa_by_cas_yields:
  assumes "ok s" and "no_overflow (int_at (view s) p) v"
  shows "yields ok view (OPA_fetch_and_add_int_by_cas load_int cas_int p v s) (int_at (view s) p)
    (st_int p (int_at (view s) p + v) (view s))"
  unfolding OPA_fetch_and_add_int_by_cas_def
  by (rule yields_bind [OF load_int_law [OF assms(1)]])
    (use assms(2) faa_by_cas_loop_yields in fastforce)

lemma swap_int_loop_yields:
  "ok s \<Longrightarrow> int_at (view s) p = prev \<Longrightarrow>
     yields ok view (swap_by_cas_loop cas_int p v prev s) prev (st_int p v (view s))"
  by (subst swap_by_cas_loop.simps) (auto intro!: yields_bind [OF cas_int_law] yields_ret)

lemma swap_ptr_loop_yields:
  "ok s \<Longrightarrow> ptr_at (view s) p = prev \<Longrightarrow>
     yields ok view (swap_by_cas_loop cas_ptr p v prev s) prev (st_ptr p v (view s))"
  by (subst swap_by_cas_loop.simps) (auto intro!: yields_bind [OF cas_ptr_law] yields_ret)

lemma swap_int_by_cas_yields:
  "ok s \<Longrightarrow> yields ok view (OPA_swap_int_by_cas load_int cas_int p v s) (int_at (view s) p)
     (st_int p v (view s))"
  unfolding OPA_swap_int_by_cas_def
  by (rule yields_bind [OF load_int_law], assumption) (metis swap_int_loop_yields)

lemma swap_ptr_by_cas_yields:
  "ok s \<Longrightarrow> yields ok view (OPA_swap_ptr_by_cas load_ptr cas_ptr p v s) (ptr_at (view s) p)
     (st_ptr p v (view s))"
  unfolding OPA_swap_ptr_by_cas_def
  by (rule yields_bind [OF load_ptr_law], assumption) (metis swap_ptr_loop_yields)

end

sublocale cas_primitives \<subseteq> by_cas_swap: swap_primitives ok view
  "OPA_swap_int_by_cas load_int cas_int" "OPA_swap_ptr_by_cas load_ptr cas_ptr"
  by unfold_locales (fact swap_int_by_cas_yields swap_ptr_by_cas_yields)+

sublocale cas_primitives \<subseteq> by_cas_faa: faa_primitive ok view
  "OPA_fetch_and_add_int_by_cas load_int cas_int"
  by unfold_locales (fact faa_by_cas_yields)

text \<open>A port with a fetch-and-add has all the counters.\<close>

context faa_primitive
begin

lemma decr_and_test_by_fad_yields:
  assumes "ok s" and "no_overflow (int_at (view s) p) (- 1)"
  shows "yields ok view
    (OPA_decr_and_test_int_by_fad (OPA_fetch_and_decr_int_by_faa fetch_and_add_int) p s)
    (c_bool (int_at (view s) p = 1)) (st_int p (int_at (view s) p - 1) (view s))"
  unfolding OPA_decr_and_test_int_by_fad_def OPA_fetch_and_decr_int_by_faa_def
  by (rule yields_bind [OF faa_law [OF assms]]) (auto intro: yields_ret)

lemmas by_faa_defs = OPA_add_int_by_faa_def OPA_incr_int_by_add_def OPA_decr_int_by_add_def
  OPA_fetch_and_incr_int_by_faa_def OPA_fetch_and_decr_int_by_faa_def

end

sublocale faa_primitive \<subseteq> by_faa: counter_primitives ok view fetch_and_add_int
  "OPA_add_int_by_faa fetch_and_add_int"
  "OPA_incr_int_by_add (OPA_add_int_by_faa fetch_and_add_int)"
  "OPA_decr_int_by_add (OPA_add_int_by_faa fetch_and_add_int)"
  "OPA_decr_and_test_int_by_fad (OPA_fetch_and_decr_int_by_faa fetch_and_add_int)"
  "OPA_fetch_and_incr_int_by_faa fetch_and_add_int"
  "OPA_fetch_and_decr_int_by_faa fetch_and_add_int"
proof unfold_locales
  fix s p assume s: "ok s" "no_overflow (int_at (view s) p) (- 1)"
  then show "yields ok view
      (OPA_decr_and_test_int_by_fad (OPA_fetch_and_decr_int_by_faa fetch_and_add_int) p s)
      (c_bool (int_at (view s) p = 1)) (st_int p (int_at (view s) p - 1) (view s))"
    by (rule decr_and_test_by_fad_yields)
  show "yields ok view (OPA_decr_int_by_add (OPA_add_int_by_faa fetch_and_add_int) p s) ()
      (st_int p (int_at (view s) p - 1) (view s))"
    using yields_void [OF faa_law [OF s]] by (simp add: by_faa_defs)
  show "yields ok view (OPA_fetch_and_decr_int_by_faa fetch_and_add_int p s) (int_at (view s) p)
      (st_int p (int_at (view s) p - 1) (view s))"
    using faa_law [OF s] by (simp add: by_faa_defs)
qed (auto simp: by_faa_defs intro: faa_law yields_void)

section \<open>Load-linked and store-conditional\<close>

text \<open>
  What the emulation needs of the pair: after a load-linked of a location the thread holds a
  reservation of it; a store-conditional under that reservation stores, or it fails, leaves the
  store alone and answers 0. Failures are finite: \<open>failures\<close> counts those still to come.
\<close>

locale llsc_primitives = access_primitives +
  fixes L :: "'a llsc_port"
    and reserved :: "'a \<Rightarrow> addr \<Rightarrow> bool"
    and failures :: "'a \<Rightarrow> nat"
  assumes LL_int_law: "ok s \<Longrightarrow> \<exists>s'. OPA_LL_int L p s = ret (int_at (view s) p) s' \<and> ok s' \<and>
      view s' = view s \<and> reserved s' p \<and> failures s' = failures s"
    and SC_int_law: "ok s \<Longrightarrow> reserved s p \<Longrightarrow> \<exists>r s'. OPA_SC_int L p v s = ret r s' \<and> ok s' \<and>
      (if r = 0 then view s' = view s \<and> failures s' < failures s else view s' = st_int p v (view s))"
    and LL_ptr_law: "ok s \<Longrightarrow> \<exists>s'. OPA_LL_ptr L p s = ret (ptr_at (view s) p) s' \<and> ok s' \<and>
      view s' = view s \<and> reserved s' p \<and> failures s' = failures s"
    and SC_ptr_law: "ok s \<Longrightarrow> reserved s p \<Longrightarrow> \<exists>r s'. OPA_SC_ptr L p w s = ret r s' \<and> ok s' \<and>
      (if r = 0 then view s' = view s \<and> failures s' < failures s else view s' = st_ptr p w (view s))"
begin

text \<open>One round of a loop: the load-linked, then the store-conditional.\<close>

lemma round_int:
  assumes "ok s"
  obtains s1 r s2 where "OPA_LL_int L p s = ret (int_at (view s) p) s1" "ok s1" "view s1 = view s"
    "OPA_SC_int L p v s1 = ret r s2" "ok s2"
    "if r = 0 then view s2 = view s \<and> failures s2 < failures s else view s2 = st_int p v (view s)"
  using LL_int_law [OF assms, of p] SC_int_law [of _ p v] by (metis (full_types))

lemma round_ptr:
  assumes "ok s"
  obtains s1 r s2 where "OPA_LL_ptr L p s = ret (ptr_at (view s) p) s1" "ok s1" "view s1 = view s"
    "OPA_SC_ptr L p v s1 = ret r s2" "ok s2"
    "if r = 0 then view s2 = view s \<and> failures s2 < failures s else view s2 = st_ptr p v (view s)"
  using LL_ptr_law [OF assms, of p] SC_ptr_law [of _ p v] by (metis (full_types))

lemma faa_by_llsc_yields:
  "ok s \<Longrightarrow> no_overflow (int_at (view s) p) v \<Longrightarrow>
     yields ok view (OPA_fetch_and_add_int_by_llsc L p v s) (int_at (view s) p)
       (st_int p (int_at (view s) p + v) (view s))"
proof (induction "failures s" arbitrary: s rule: less_induct)
  case less
  let ?sum = "int_at (view s) p + v"
  obtain s1 r s2 where run: "OPA_LL_int L p s = ret (int_at (view s) p) s1" "ok s1" "view s1 = view s"
    "OPA_SC_int L p ?sum s1 = ret r s2" "ok s2"
    and out: "if r = 0 then view s2 = view s \<and> failures s2 < failures s
      else view s2 = st_int p ?sum (view s)"
    by (rule round_int [OF less.prems(1), where p = p and v = ?sum])
  have add: "c_value (c_add (int_at (view s) p) v) s1 = ret ?sum s1"
    using less.prems(2) by (rule c_value_add)
  show ?case
  proof (cases "r = 0")
    case True
    then have "yields ok view (OPA_fetch_and_add_int_by_llsc L p v s2) (int_at (view s) p)
      (st_int p ?sum (view s))"
      using less.hyps [of s2] less.prems(2) run(5) out by simp
    with True run add show ?thesis by (subst OPA_fetch_and_add_int_by_llsc.simps) simp
  next
    case False
    with run add out show ?thesis
      by (subst OPA_fetch_and_add_int_by_llsc.simps) (simp add: yields_ret)
  qed
qed

lemma swap_int_by_llsc_yields:
  "ok s \<Longrightarrow> yields ok view (OPA_swap_int_by_llsc L p v s) (int_at (view s) p) (st_int p v (view s))"
proof (induction "failures s" arbitrary: s rule: less_induct)
  case less
  obtain s1 r s2 where run: "OPA_LL_int L p s = ret (int_at (view s) p) s1" "ok s1" "view s1 = view s"
    "OPA_SC_int L p v s1 = ret r s2" "ok s2"
    and out: "if r = 0 then view s2 = view s \<and> failures s2 < failures s
      else view s2 = st_int p v (view s)"
    by (rule round_int [OF less.prems, where p = p and v = v])
  show ?case
    using less.hyps [of s2] run out
    by (subst OPA_swap_int_by_llsc.simps) (auto intro: yields_ret)
qed

lemma swap_ptr_by_llsc_yields:
  "ok s \<Longrightarrow> yields ok view (OPA_swap_ptr_by_llsc L p v s) (ptr_at (view s) p) (st_ptr p v (view s))"
proof (induction "failures s" arbitrary: s rule: less_induct)
  case less
  obtain s1 r s2 where run: "OPA_LL_ptr L p s = ret (ptr_at (view s) p) s1" "ok s1" "view s1 = view s"
    "OPA_SC_ptr L p v s1 = ret r s2" "ok s2"
    and out: "if r = 0 then view s2 = view s \<and> failures s2 < failures s
      else view s2 = st_ptr p v (view s)"
    by (rule round_ptr [OF less.prems, where p = p and v = v])
  show ?case
    using less.hyps [of s2] run out
    by (subst OPA_swap_ptr_by_llsc.simps) (auto intro: yields_ret)
qed

lemma cas_int_by_llsc_yields:
  "ok s \<Longrightarrow> yields ok view (OPA_cas_int_by_llsc L p oldv newv s) (int_at (view s) p)
     (if int_at (view s) p = oldv then st_int p newv (view s) else view s)"
proof (induction "failures s" arbitrary: s rule: less_induct)
  case less
  obtain s1 r s2 where run: "OPA_LL_int L p s = ret (int_at (view s) p) s1" "ok s1" "view s1 = view s"
    "OPA_SC_int L p newv s1 = ret r s2" "ok s2"
    and out: "if r = 0 then view s2 = view s \<and> failures s2 < failures s
      else view s2 = st_int p newv (view s)"
    by (rule round_int [OF less.prems, where p = p and v = newv])
  show ?case
    using less.hyps [of s2] run out
    by (subst OPA_cas_int_by_llsc.simps) (auto intro: yields_ret)
qed

lemma cas_ptr_by_llsc_yields:
  "ok s \<Longrightarrow> yields ok view (OPA_cas_ptr_by_llsc L p oldv newv s) (ptr_at (view s) p)
     (if ptr_at (view s) p = oldv then st_ptr p newv (view s) else view s)"
proof (induction "failures s" arbitrary: s rule: less_induct)
  case less
  obtain s1 r s2 where run: "OPA_LL_ptr L p s = ret (ptr_at (view s) p) s1" "ok s1" "view s1 = view s"
    "OPA_SC_ptr L p newv s1 = ret r s2" "ok s2"
    and out: "if r = 0 then view s2 = view s \<and> failures s2 < failures s
      else view s2 = st_ptr p newv (view s)"
    by (rule round_ptr [OF less.prems, where p = p and v = newv])
  show ?case
    using less.hyps [of s2] run out
    by (subst OPA_cas_ptr_by_llsc.simps) (auto intro: yields_ret)
qed

lemma decr_and_test_by_llsc_yields:
  assumes "ok s" and "no_overflow (int_at (view s) p) (- 1)"
  shows "yields ok view (OPA_decr_and_test_int_by_llsc L p s) (c_bool (int_at (view s) p = 1))
    (st_int p (int_at (view s) p - 1) (view s))"
  unfolding OPA_decr_and_test_int_by_llsc_def OPA_fetch_and_decr_int_by_llsc_def
  by (rule yields_bind [OF faa_by_llsc_yields [OF assms]]) (auto intro: yields_ret)

lemmas by_llsc_defs = OPA_add_int_by_llsc_def OPA_incr_int_by_llsc_def OPA_decr_int_by_llsc_def
  OPA_fetch_and_decr_int_by_llsc_def OPA_fetch_and_incr_int_by_llsc_def

lemma decr_by_llsc_yields:
  assumes "ok s" and "no_overflow (int_at (view s) p) (- 1)"
  shows "yields ok view (OPA_decr_int_by_llsc L p s) () (st_int p (int_at (view s) p - 1) (view s))"
    and "yields ok view (OPA_fetch_and_decr_int_by_llsc L p s) (int_at (view s) p)
      (st_int p (int_at (view s) p - 1) (view s))"
  using yields_void [OF faa_by_llsc_yields [OF assms]] faa_by_llsc_yields [OF assms]
  by (simp_all add: by_llsc_defs)

end

text \<open>Such a pair gives a port all the primitives of the contract.\<close>

sublocale llsc_primitives \<subseteq> by_llsc: opa_primitives ok view load_int store_int load_ptr store_ptr
  "OPA_cas_int_by_llsc L" "OPA_cas_ptr_by_llsc L" "OPA_swap_int_by_llsc L" "OPA_swap_ptr_by_llsc L"
  "OPA_fetch_and_add_int_by_llsc L" "OPA_add_int_by_llsc L" "OPA_incr_int_by_llsc L"
  "OPA_decr_int_by_llsc L" "OPA_decr_and_test_int_by_llsc L" "OPA_fetch_and_incr_int_by_llsc L"
  "OPA_fetch_and_decr_int_by_llsc L"
  by (unfold_locales, unfold by_llsc_defs(1,2,5))
    (rule cas_int_by_llsc_yields cas_ptr_by_llsc_yields swap_int_by_llsc_yields
      swap_ptr_by_llsc_yields decr_by_llsc_yields decr_and_test_by_llsc_yields faa_by_llsc_yields
      yields_void; assumption?)+

text \<open>The two derivations of the whole contract, as facts of the locales.\<close>

context cas_primitives
begin

lemma cas_gives_all: "opa_primitives ok view load_int store_int load_ptr store_ptr cas_int cas_ptr
    (OPA_swap_int_by_cas load_int cas_int) (OPA_swap_ptr_by_cas load_ptr cas_ptr)
    (OPA_fetch_and_add_int_by_cas load_int cas_int)
    (OPA_add_int_by_faa (OPA_fetch_and_add_int_by_cas load_int cas_int))
    (OPA_incr_int_by_add (OPA_add_int_by_faa (OPA_fetch_and_add_int_by_cas load_int cas_int)))
    (OPA_decr_int_by_add (OPA_add_int_by_faa (OPA_fetch_and_add_int_by_cas load_int cas_int)))
    (OPA_decr_and_test_int_by_fad
      (OPA_fetch_and_decr_int_by_faa (OPA_fetch_and_add_int_by_cas load_int cas_int)))
    (OPA_fetch_and_incr_int_by_faa (OPA_fetch_and_add_int_by_cas load_int cas_int))
    (OPA_fetch_and_decr_int_by_faa (OPA_fetch_and_add_int_by_cas load_int cas_int))"
  by unfold_locales

end

context llsc_primitives
begin

lemma llsc_gives_all: "opa_primitives ok view load_int store_int load_ptr store_ptr
    (OPA_cas_int_by_llsc L) (OPA_cas_ptr_by_llsc L) (OPA_swap_int_by_llsc L)
    (OPA_swap_ptr_by_llsc L) (OPA_fetch_and_add_int_by_llsc L) (OPA_add_int_by_llsc L)
    (OPA_incr_int_by_llsc L) (OPA_decr_int_by_llsc L) (OPA_decr_and_test_int_by_llsc L)
    (OPA_fetch_and_incr_int_by_llsc L) (OPA_fetch_and_decr_int_by_llsc L)"
  by (rule by_llsc.opa_primitives_axioms)

end

end
