(* ===== verification/OPA_Intel.thy ===== *)
theory OPA_Intel
  imports OPA_Emulated
begin

unbundle bit_operations_syntax

text \<open>
  The x86 and x86-64 port, \<open>src/primitives/opa_gcc_intel_32_64_ops.h\<close>. Each instruction with a
  \<open>lock\<close> prefix is one step on the store; its arithmetic wraps around. Loads and stores that
  acquire or release are ordinary ones with a compiler barrier.
\<close>

section \<open>Instructions\<close>

text \<open>
  \<open>xadd\<close> exchanges the register with the memory and stores the sum; \<open>cmpxchg\<close> compares with the
  accumulator, stores the source when they are equal, and loads the accumulator otherwise;
  \<open>xchg\<close> exchanges. The first component of a result is the register afterwards.
\<close>

definition lock_xadd :: "c_int \<Rightarrow> addr \<Rightarrow> mem \<Rightarrow> c_int \<times> mem" where
  "lock_xadd r p m = (int_at m p, st_int p (int_at m p + r) m)"

definition lock_cmpxchg_l :: "c_int \<Rightarrow> c_int \<Rightarrow> addr \<Rightarrow> mem \<Rightarrow> c_int \<times> mem" where
  "lock_cmpxchg_l eax src p m =
     (if int_at m p = eax then (eax, st_int p src m) else (int_at m p, m))"

definition lock_cmpxchg_q :: "addr \<Rightarrow> addr \<Rightarrow> addr \<Rightarrow> mem \<Rightarrow> addr \<times> mem" where
  "lock_cmpxchg_q rax src p m =
     (if ptr_at m p = rax then (rax, st_ptr p src m) else (ptr_at m p, m))"

definition xchg_l :: "c_int \<Rightarrow> addr \<Rightarrow> mem \<Rightarrow> c_int \<times> mem" where
  "xchg_l r p m = (int_at m p, st_int p r m)"

definition xchg_q :: "addr \<Rightarrow> addr \<Rightarrow> mem \<Rightarrow> addr \<times> mem" where
  "xchg_q r p m = (ptr_at m p, st_ptr p r m)"

text \<open>\<open>dec\<close> sets the zero flag.\<close>

definition lock_dec :: "addr \<Rightarrow> mem \<Rightarrow> bool \<times> mem" where
  "lock_dec p m = (int_at m p - 1 = 0, st_int p (int_at m p - 1) m)"

lemmas x86_instructions = lock_xadd_def lock_cmpxchg_l_def lock_cmpxchg_q_def xchg_l_def xchg_q_def
  lock_dec_def

section \<open>The primitives\<close>

definition OPA_load_int_intel :: "addr \<Rightarrow> mem \<Rightarrow> (mem, c_int) outcome" where
  [port_defs]: "OPA_load_int_intel ptr s = ret (int_at s ptr) s"

definition OPA_store_int_intel :: "addr \<Rightarrow> c_int \<Rightarrow> mem \<Rightarrow> (mem, unit) outcome" where
  [port_defs]: "OPA_store_int_intel ptr val s = ret () (st_int ptr val s)"

definition OPA_load_ptr_intel :: "addr \<Rightarrow> mem \<Rightarrow> (mem, addr) outcome" where
  [port_defs]: "OPA_load_ptr_intel ptr s = ret (ptr_at s ptr) s"

definition OPA_store_ptr_intel :: "addr \<Rightarrow> addr \<Rightarrow> mem \<Rightarrow> (mem, unit) outcome" where
  [port_defs]: "OPA_store_ptr_intel ptr val s = ret () (st_ptr ptr val s)"

definition OPA_load_acquire_int_intel :: "addr \<Rightarrow> mem \<Rightarrow> (mem, c_int) outcome" where
  [port_defs]: "OPA_load_acquire_int_intel ptr s =
     (let tmp = int_at s ptr in bind_outcome (barrier '''' s) (\<lambda>_ s. ret tmp s))"

definition OPA_store_release_int_intel :: "addr \<Rightarrow> c_int \<Rightarrow> mem \<Rightarrow> (mem, unit) outcome" where
  [port_defs]: "OPA_store_release_int_intel ptr val s =
     bind_outcome (barrier '''' s) (\<lambda>_ s. ret () (st_int ptr val s))"

definition OPA_load_acquire_ptr_intel :: "addr \<Rightarrow> mem \<Rightarrow> (mem, addr) outcome" where
  [port_defs]: "OPA_load_acquire_ptr_intel ptr s =
     (let tmp = ptr_at s ptr in bind_outcome (barrier '''' s) (\<lambda>_ s. ret tmp s))"

definition OPA_store_release_ptr_intel :: "addr \<Rightarrow> addr \<Rightarrow> mem \<Rightarrow> (mem, unit) outcome" where
  [port_defs]: "OPA_store_release_ptr_intel ptr val s =
     bind_outcome (barrier '''' s) (\<lambda>_ s. ret () (st_ptr ptr val s))"

definition OPA_add_int_intel :: "addr \<Rightarrow> c_int \<Rightarrow> mem \<Rightarrow> (mem, unit) outcome" where
  [port_defs]: "OPA_add_int_intel ptr val s = ret () (st_int ptr (int_at s ptr + val) s)"

definition OPA_incr_int_intel :: "addr \<Rightarrow> mem \<Rightarrow> (mem, unit) outcome" where
  [port_defs]: "OPA_incr_int_intel ptr s = ret () (st_int ptr (int_at s ptr + 1) s)"

definition OPA_decr_int_intel :: "addr \<Rightarrow> mem \<Rightarrow> (mem, unit) outcome" where
  [port_defs]: "OPA_decr_int_intel ptr s = (let (zf, s) = lock_dec ptr s in ret () s)"

definition OPA_decr_and_test_int_intel :: "addr \<Rightarrow> mem \<Rightarrow> (mem, c_int) outcome" where
  [port_defs]: "OPA_decr_and_test_int_intel ptr s =
     (let (zf, s) = lock_dec ptr s; result = (if zf then 1 else 0) in ret result s)"

definition OPA_fetch_and_add_int_intel :: "addr \<Rightarrow> c_int \<Rightarrow> mem \<Rightarrow> (mem, c_int) outcome" where
  [port_defs]: "OPA_fetch_and_add_int_intel ptr val s =
     (let (val, s) = lock_xadd val ptr s in ret val s)"

definition OPA_fetch_and_incr_int_intel :: "addr \<Rightarrow> mem \<Rightarrow> (mem, c_int) outcome" where
  [port_defs]: "OPA_fetch_and_incr_int_intel =
     OPA_fetch_and_incr_int_by_faa OPA_fetch_and_add_int_intel"

definition OPA_fetch_and_decr_int_intel :: "addr \<Rightarrow> mem \<Rightarrow> (mem, c_int) outcome" where
  [port_defs]: "OPA_fetch_and_decr_int_intel =
     OPA_fetch_and_decr_int_by_faa OPA_fetch_and_add_int_intel"

definition OPA_cas_ptr_intel :: "addr \<Rightarrow> addr \<Rightarrow> addr \<Rightarrow> mem \<Rightarrow> (mem, addr) outcome" where
  [port_defs]: "OPA_cas_ptr_intel ptr oldv newv s =
     (let (prev, s) = lock_cmpxchg_q oldv newv ptr s in ret prev s)"

definition OPA_cas_int_intel :: "addr \<Rightarrow> c_int \<Rightarrow> c_int \<Rightarrow> mem \<Rightarrow> (mem, c_int) outcome" where
  [port_defs]: "OPA_cas_int_intel ptr oldv newv s =
     (let (prev, s) = lock_cmpxchg_l oldv newv ptr s in ret prev s)"

definition OPA_swap_ptr_intel :: "addr \<Rightarrow> addr \<Rightarrow> mem \<Rightarrow> (mem, addr) outcome" where
  [port_defs]: "OPA_swap_ptr_intel ptr val s = (let (val, s) = xchg_q val ptr s in ret val s)"

definition OPA_swap_int_intel :: "addr \<Rightarrow> c_int \<Rightarrow> mem \<Rightarrow> (mem, c_int) outcome" where
  [port_defs]: "OPA_swap_int_intel ptr val s = (let (val, s) = xchg_l val ptr s in ret val s)"

text \<open>
  The full barrier of \<open>opa_gcc_intel_32_64_p3barrier.h\<close>, a locked \<open>or\<close> of 0 to a local variable.
\<close>

definition OPA_read_write_barrier_p3 :: "mem \<Rightarrow> (mem, unit) outcome" where
  "OPA_read_write_barrier_p3 s = (let a = (0 :: c_int); a = a OR 0 in ret () s)"

section \<open>The contract\<close>

interpretation intel: wrapping_primitives "\<lambda>_. True" "\<lambda>m. m"
  OPA_load_int_intel OPA_store_int_intel OPA_load_ptr_intel OPA_store_ptr_intel
  OPA_cas_int_intel OPA_cas_ptr_intel OPA_swap_int_intel OPA_swap_ptr_intel
  OPA_fetch_and_add_int_intel OPA_add_int_intel OPA_incr_int_intel OPA_decr_int_intel
  OPA_decr_and_test_int_intel OPA_fetch_and_incr_int_intel OPA_fetch_and_decr_int_intel
  by unfold_locales
    (auto simp: port_defs x86_instructions Let_def c_bool_def OPA_fetch_and_incr_int_by_faa_def
      OPA_fetch_and_decr_int_by_faa_def)

interpretation intel_ordered: access_primitives "\<lambda>_. True" "\<lambda>m. m"
  OPA_load_acquire_int_intel OPA_store_release_int_intel
  OPA_load_acquire_ptr_intel OPA_store_release_ptr_intel
  by unfold_locales (simp_all add: port_defs Let_def)

section \<open>Properties\<close>

text \<open>
  The x86 port meets the contract and wraps around: its counters are defined for all arguments.
\<close>

lemma intel_meets_contract:
  "wrapping_primitives (\<lambda>_. True) (\<lambda>m. m)
    OPA_load_int_intel OPA_store_int_intel OPA_load_ptr_intel OPA_store_ptr_intel
    OPA_cas_int_intel OPA_cas_ptr_intel OPA_swap_int_intel OPA_swap_ptr_intel
    OPA_fetch_and_add_int_intel OPA_add_int_intel OPA_incr_int_intel OPA_decr_int_intel
    OPA_decr_and_test_int_intel OPA_fetch_and_incr_int_intel OPA_fetch_and_decr_int_intel"
  by (rule intel.wrapping_primitives_axioms)

end
