(* ===== verification/OPA_C11.thy ===== *)
theory OPA_C11
  imports OPA_Contract
begin

text \<open>
  The port to C11 atomics, \<open>src/primitives/opa_c11_atomics.h\<close>. \<open>OPA_int_t\<close> is \<open>atomic_int\<close> and
  \<open>OPA_ptr_t\<close> is \<open>atomic_intptr_t\<close>, so a pointer is cast to and from an integer of its size. The
  functions of \<open><stdatomic.h>\<close> are those of the C standard (7.17.7): arithmetic on a signed atomic
  wraps around silently. The memory order does not matter to a thread that runs alone.
\<close>

section \<open>The library\<close>

datatype memory_order =
    memory_order_relaxed
  | memory_order_acquire
  | memory_order_release
  | memory_order_acq_rel

text \<open>The generic functions of the header at the two types of the port.\<close>

definition atomic_load_explicit_int :: "addr \<Rightarrow> memory_order \<Rightarrow> mem \<Rightarrow> (mem, c_int) outcome" where
  "atomic_load_explicit_int obj order m = ret (int_at m obj) m"

definition atomic_load_explicit_ptr :: "addr \<Rightarrow> memory_order \<Rightarrow> mem \<Rightarrow> (mem, addr) outcome" where
  "atomic_load_explicit_ptr obj order m = ret (ptr_at m obj) m"

definition atomic_store_explicit_int ::
  "addr \<Rightarrow> c_int \<Rightarrow> memory_order \<Rightarrow> mem \<Rightarrow> (mem, unit) outcome" where
  "atomic_store_explicit_int obj desired order m = ret () (st_int obj desired m)"

definition atomic_store_explicit_ptr ::
  "addr \<Rightarrow> addr \<Rightarrow> memory_order \<Rightarrow> mem \<Rightarrow> (mem, unit) outcome" where
  "atomic_store_explicit_ptr obj desired order m = ret () (st_ptr obj desired m)"

definition atomic_exchange_explicit_int ::
  "addr \<Rightarrow> c_int \<Rightarrow> memory_order \<Rightarrow> mem \<Rightarrow> (mem, c_int) outcome" where
  "atomic_exchange_explicit_int obj desired order m = ret (int_at m obj) (st_int obj desired m)"

definition atomic_exchange_explicit_ptr ::
  "addr \<Rightarrow> addr \<Rightarrow> memory_order \<Rightarrow> mem \<Rightarrow> (mem, addr) outcome" where
  "atomic_exchange_explicit_ptr obj desired order m = ret (ptr_at m obj) (st_ptr obj desired m)"

definition atomic_fetch_add_explicit ::
  "addr \<Rightarrow> c_int \<Rightarrow> memory_order \<Rightarrow> mem \<Rightarrow> (mem, c_int) outcome" where
  "atomic_fetch_add_explicit obj operand order m =
     ret (int_at m obj) (st_int obj (int_at m obj + operand) m)"

text \<open>
  The comparison with \<open>*expected\<close>; the result is whether it stored and the new value of
  \<open>*expected\<close>, which is a local variable of the caller.
\<close>

definition atomic_compare_exchange_strong_explicit_int ::
  "addr \<Rightarrow> c_int \<Rightarrow> c_int \<Rightarrow> memory_order \<Rightarrow> memory_order \<Rightarrow> mem \<Rightarrow> (mem, bool \<times> c_int) outcome" where
  "atomic_compare_exchange_strong_explicit_int obj expected desired success failure m =
     (if int_at m obj = expected then ret (True, expected) (st_int obj desired m)
      else ret (False, int_at m obj) m)"

definition atomic_compare_exchange_strong_explicit_ptr ::
  "addr \<Rightarrow> addr \<Rightarrow> addr \<Rightarrow> memory_order \<Rightarrow> memory_order \<Rightarrow> mem \<Rightarrow> (mem, bool \<times> addr) outcome" where
  "atomic_compare_exchange_strong_explicit_ptr obj expected desired success failure m =
     (if ptr_at m obj = expected then ret (True, expected) (st_ptr obj desired m)
      else ret (False, ptr_at m obj) m)"

lemmas stdatomic = atomic_load_explicit_int_def atomic_load_explicit_ptr_def
  atomic_store_explicit_int_def atomic_store_explicit_ptr_def
  atomic_exchange_explicit_int_def atomic_exchange_explicit_ptr_def atomic_fetch_add_explicit_def
  atomic_compare_exchange_strong_explicit_int_def atomic_compare_exchange_strong_explicit_ptr_def

section \<open>The primitives\<close>

definition OPA_load_int_c11 :: "addr \<Rightarrow> mem \<Rightarrow> (mem, c_int) outcome" where
  [port_defs]: "OPA_load_int_c11 ptr m =
     atomic_load_explicit_int ptr memory_order_relaxed m"

definition OPA_store_int_c11 :: "addr \<Rightarrow> c_int \<Rightarrow> mem \<Rightarrow> (mem, unit) outcome" where
  [port_defs]: "OPA_store_int_c11 ptr val m =
     atomic_store_explicit_int ptr val memory_order_relaxed m"

definition OPA_load_ptr_c11 :: "addr \<Rightarrow> mem \<Rightarrow> (mem, addr) outcome" where
  [port_defs]: "OPA_load_ptr_c11 ptr m =
     atomic_load_explicit_ptr ptr memory_order_relaxed m"

definition OPA_store_ptr_c11 :: "addr \<Rightarrow> addr \<Rightarrow> mem \<Rightarrow> (mem, unit) outcome" where
  [port_defs]: "OPA_store_ptr_c11 ptr val m =
     atomic_store_explicit_ptr ptr val memory_order_relaxed m"

definition OPA_load_acquire_int_c11 :: "addr \<Rightarrow> mem \<Rightarrow> (mem, c_int) outcome" where
  [port_defs]: "OPA_load_acquire_int_c11 ptr m =
     atomic_load_explicit_int ptr memory_order_acquire m"

definition OPA_store_release_int_c11 :: "addr \<Rightarrow> c_int \<Rightarrow> mem \<Rightarrow> (mem, unit) outcome" where
  [port_defs]: "OPA_store_release_int_c11 ptr val m =
     atomic_store_explicit_int ptr val memory_order_release m"

definition OPA_load_acquire_ptr_c11 :: "addr \<Rightarrow> mem \<Rightarrow> (mem, addr) outcome" where
  [port_defs]: "OPA_load_acquire_ptr_c11 ptr m =
     atomic_load_explicit_ptr ptr memory_order_acquire m"

definition OPA_store_release_ptr_c11 :: "addr \<Rightarrow> addr \<Rightarrow> mem \<Rightarrow> (mem, unit) outcome" where
  [port_defs]: "OPA_store_release_ptr_c11 ptr val m =
     atomic_store_explicit_ptr ptr val memory_order_release m"

definition OPA_add_int_c11 :: "addr \<Rightarrow> c_int \<Rightarrow> mem \<Rightarrow> (mem, unit) outcome" where
  [port_defs]: "OPA_add_int_c11 ptr val m =
     void (atomic_fetch_add_explicit ptr val memory_order_relaxed m)"

definition OPA_fetch_and_add_int_c11 :: "addr \<Rightarrow> c_int \<Rightarrow> mem \<Rightarrow> (mem, c_int) outcome" where
  [port_defs]: "OPA_fetch_and_add_int_c11 ptr val m =
     atomic_fetch_add_explicit ptr val memory_order_relaxed m"

definition OPA_fetch_and_decr_int_c11 :: "addr \<Rightarrow> mem \<Rightarrow> (mem, c_int) outcome" where
  [port_defs]: "OPA_fetch_and_decr_int_c11 ptr m =
     atomic_fetch_add_explicit ptr (- 1) memory_order_relaxed m"

definition OPA_fetch_and_incr_int_c11 :: "addr \<Rightarrow> mem \<Rightarrow> (mem, c_int) outcome" where
  [port_defs]: "OPA_fetch_and_incr_int_c11 ptr m =
     atomic_fetch_add_explicit ptr 1 memory_order_relaxed m"

definition OPA_incr_int_c11 :: "addr \<Rightarrow> mem \<Rightarrow> (mem, unit) outcome" where
  [port_defs]: "OPA_incr_int_c11 ptr m =
     void (atomic_fetch_add_explicit ptr 1 memory_order_relaxed m)"

definition OPA_decr_int_c11 :: "addr \<Rightarrow> mem \<Rightarrow> (mem, unit) outcome" where
  [port_defs]: "OPA_decr_int_c11 ptr m =
     void (atomic_fetch_add_explicit ptr (- 1) memory_order_relaxed m)"

definition OPA_decr_and_test_int_c11 :: "addr \<Rightarrow> mem \<Rightarrow> (mem, c_int) outcome" where
  [port_defs]: "OPA_decr_and_test_int_c11 ptr m =
     bind_outcome (atomic_fetch_add_explicit ptr (- 1) memory_order_relaxed m) (\<lambda>prev m.
     ret (c_bool (1 = prev)) m)"

definition OPA_cas_ptr_c11 :: "addr \<Rightarrow> addr \<Rightarrow> addr \<Rightarrow> mem \<Rightarrow> (mem, addr) outcome" where
  [port_defs]: "OPA_cas_ptr_c11 ptr comparand swaperand m =
     bind_outcome (atomic_compare_exchange_strong_explicit_ptr ptr comparand swaperand
       memory_order_relaxed memory_order_relaxed m) (\<lambda>(stored, comparand) m.
     ret comparand m)"

definition OPA_cas_int_c11 :: "addr \<Rightarrow> c_int \<Rightarrow> c_int \<Rightarrow> mem \<Rightarrow> (mem, c_int) outcome" where
  [port_defs]: "OPA_cas_int_c11 ptr comparand swaperand m =
     bind_outcome (atomic_compare_exchange_strong_explicit_int ptr comparand swaperand
       memory_order_relaxed memory_order_relaxed m) (\<lambda>(stored, comparand) m.
     ret comparand m)"

definition OPA_swap_ptr_c11 :: "addr \<Rightarrow> addr \<Rightarrow> mem \<Rightarrow> (mem, addr) outcome" where
  [port_defs]: "OPA_swap_ptr_c11 ptr val m =
     atomic_exchange_explicit_ptr ptr val memory_order_relaxed m"

definition OPA_swap_int_c11 :: "addr \<Rightarrow> c_int \<Rightarrow> mem \<Rightarrow> (mem, c_int) outcome" where
  [port_defs]: "OPA_swap_int_c11 ptr val m =
     atomic_exchange_explicit_int ptr val memory_order_relaxed m"

section \<open>The contract\<close>

interpretation c11: wrapping_primitives "\<lambda>_. True" "\<lambda>m. m"
  OPA_load_int_c11 OPA_store_int_c11 OPA_load_ptr_c11 OPA_store_ptr_c11
  OPA_cas_int_c11 OPA_cas_ptr_c11 OPA_swap_int_c11 OPA_swap_ptr_c11
  OPA_fetch_and_add_int_c11 OPA_add_int_c11 OPA_incr_int_c11 OPA_decr_int_c11
  OPA_decr_and_test_int_c11 OPA_fetch_and_incr_int_c11 OPA_fetch_and_decr_int_c11
  by unfold_locales (auto simp: port_defs stdatomic void_def eq_commute [of "1 :: c_int"])

interpretation c11_ordered: access_primitives "\<lambda>_. True" "\<lambda>m. m"
  OPA_load_acquire_int_c11 OPA_store_release_int_c11
  OPA_load_acquire_ptr_c11 OPA_store_release_ptr_c11
  by unfold_locales (simp_all add: port_defs stdatomic)

section \<open>Properties\<close>

text \<open>
  The C11 port meets the contract and wraps around: its counters are defined for all arguments.
\<close>

lemma c11_meets_contract:
  "wrapping_primitives (\<lambda>_. True) (\<lambda>m. m)
    OPA_load_int_c11 OPA_store_int_c11 OPA_load_ptr_c11 OPA_store_ptr_c11
    OPA_cas_int_c11 OPA_cas_ptr_c11 OPA_swap_int_c11 OPA_swap_ptr_c11
    OPA_fetch_and_add_int_c11 OPA_add_int_c11 OPA_incr_int_c11 OPA_decr_int_c11
    OPA_decr_and_test_int_c11 OPA_fetch_and_incr_int_c11 OPA_fetch_and_decr_int_c11"
  by (rule c11.wrapping_primitives_axioms)

end
