(* ===== verification/OPA_Gcc_Intrinsics.thy ===== *)
theory OPA_Gcc_Intrinsics
  imports OPA_Emulated
begin

text \<open>
  The port to the atomic built-ins of GCC, \<open>src/primitives/opa_gcc_intrinsics.h\<close>. The built-ins
  wrap around. Whether \<open>__sync_lock_test_and_set\<close> is a full exchange depends on the target; the
  configuration says so with \<open>SYNC_LOCK_TEST_AND_SET_IS_SWAP\<close>, and without it the port swaps by
  compare-and-swap. Both configurations are modelled.
\<close>

section \<open>Built-ins\<close>

definition sync_fetch_and_add :: "addr \<Rightarrow> c_int \<Rightarrow> mem \<Rightarrow> (mem, c_int) outcome" where
  "sync_fetch_and_add p v m = ret (int_at m p) (st_int p (int_at m p + v) m)"

definition sync_sub_and_fetch :: "addr \<Rightarrow> c_int \<Rightarrow> mem \<Rightarrow> (mem, c_int) outcome" where
  "sync_sub_and_fetch p v m = ret (int_at m p - v) (st_int p (int_at m p - v) m)"

definition sync_val_compare_and_swap_int ::
  "addr \<Rightarrow> c_int \<Rightarrow> c_int \<Rightarrow> mem \<Rightarrow> (mem, c_int) outcome" where
  "sync_val_compare_and_swap_int p oldv newv m =
     ret (int_at m p) (if int_at m p = oldv then st_int p newv m else m)"

definition sync_val_compare_and_swap_ptr ::
  "addr \<Rightarrow> addr \<Rightarrow> addr \<Rightarrow> mem \<Rightarrow> (mem, addr) outcome" where
  "sync_val_compare_and_swap_ptr p oldv newv m =
     ret (ptr_at m p) (if ptr_at m p = oldv then st_ptr p newv m else m)"

text \<open>On a target whose test-and-set is an exchange.\<close>

definition sync_lock_test_and_set_int :: "addr \<Rightarrow> c_int \<Rightarrow> mem \<Rightarrow> (mem, c_int) outcome" where
  "sync_lock_test_and_set_int p v m = ret (int_at m p) (st_int p v m)"

definition sync_lock_test_and_set_ptr :: "addr \<Rightarrow> addr \<Rightarrow> mem \<Rightarrow> (mem, addr) outcome" where
  "sync_lock_test_and_set_ptr p v m = ret (ptr_at m p) (st_ptr p v m)"

lemmas sync_builtins = sync_fetch_and_add_def sync_sub_and_fetch_def
  sync_val_compare_and_swap_int_def sync_val_compare_and_swap_ptr_def
  sync_lock_test_and_set_int_def sync_lock_test_and_set_ptr_def

section \<open>The primitives\<close>

text \<open>
  The loads that acquire and the stores that release work on a local variable \<open>i\<close> for the ordering
  guarantee of the built-in; the variable is not shared.
\<close>

definition OPA_load_int_gcc :: "addr \<Rightarrow> mem \<Rightarrow> (mem, c_int) outcome" where
  [port_defs]: "OPA_load_int_gcc ptr s = ret (int_at s ptr) s"

definition OPA_store_int_gcc :: "addr \<Rightarrow> c_int \<Rightarrow> mem \<Rightarrow> (mem, unit) outcome" where
  [port_defs]: "OPA_store_int_gcc ptr val s = ret () (st_int ptr val s)"

definition OPA_load_ptr_gcc :: "addr \<Rightarrow> mem \<Rightarrow> (mem, addr) outcome" where
  [port_defs]: "OPA_load_ptr_gcc ptr s = ret (ptr_at s ptr) s"

definition OPA_store_ptr_gcc :: "addr \<Rightarrow> addr \<Rightarrow> mem \<Rightarrow> (mem, unit) outcome" where
  [port_defs]: "OPA_store_ptr_gcc ptr val s = ret () (st_ptr ptr val s)"

definition OPA_load_acquire_int_gcc :: "addr \<Rightarrow> mem \<Rightarrow> (mem, c_int) outcome" where
  [port_defs]: "OPA_load_acquire_int_gcc ptr s =
     (let tmp = int_at s ptr in bind_outcome (barrier ''__sync_lock_test_and_set'' s) (\<lambda>_ s. ret tmp s))"

definition OPA_store_release_int_gcc :: "addr \<Rightarrow> c_int \<Rightarrow> mem \<Rightarrow> (mem, unit) outcome" where
  [port_defs]: "OPA_store_release_int_gcc ptr val s =
     bind_outcome (barrier ''__sync_lock_release'' s) (\<lambda>_ s. ret () (st_int ptr val s))"

definition OPA_load_acquire_ptr_gcc :: "addr \<Rightarrow> mem \<Rightarrow> (mem, addr) outcome" where
  [port_defs]: "OPA_load_acquire_ptr_gcc ptr s =
     (let tmp = ptr_at s ptr in bind_outcome (barrier ''__sync_lock_test_and_set'' s) (\<lambda>_ s. ret tmp s))"

definition OPA_store_release_ptr_gcc :: "addr \<Rightarrow> addr \<Rightarrow> mem \<Rightarrow> (mem, unit) outcome" where
  [port_defs]: "OPA_store_release_ptr_gcc ptr val s =
     bind_outcome (barrier ''__sync_lock_release'' s) (\<lambda>_ s. ret () (st_ptr ptr val s))"

definition OPA_fetch_and_add_int_gcc :: "addr \<Rightarrow> c_int \<Rightarrow> mem \<Rightarrow> (mem, c_int) outcome" where
  [port_defs]: "OPA_fetch_and_add_int_gcc ptr val m =
     sync_fetch_and_add ptr val m"

definition OPA_decr_and_test_int_gcc :: "addr \<Rightarrow> mem \<Rightarrow> (mem, c_int) outcome" where
  [port_defs]: "OPA_decr_and_test_int_gcc ptr m =
     bind_outcome (sync_sub_and_fetch ptr 1 m) (\<lambda>v m. ret (c_bool (v = 0)) m)"

definition OPA_fetch_and_incr_int_gcc :: "addr \<Rightarrow> mem \<Rightarrow> (mem, c_int) outcome" where
  [port_defs]: "OPA_fetch_and_incr_int_gcc = OPA_fetch_and_incr_int_by_faa OPA_fetch_and_add_int_gcc"

definition OPA_fetch_and_decr_int_gcc :: "addr \<Rightarrow> mem \<Rightarrow> (mem, c_int) outcome" where
  [port_defs]: "OPA_fetch_and_decr_int_gcc = OPA_fetch_and_decr_int_by_faa OPA_fetch_and_add_int_gcc"

definition OPA_add_int_gcc :: "addr \<Rightarrow> c_int \<Rightarrow> mem \<Rightarrow> (mem, unit) outcome" where
  [port_defs]: "OPA_add_int_gcc = OPA_add_int_by_faa OPA_fetch_and_add_int_gcc"

definition OPA_incr_int_gcc :: "addr \<Rightarrow> mem \<Rightarrow> (mem, unit) outcome" where
  [port_defs]: "OPA_incr_int_gcc = OPA_incr_int_by_fai OPA_fetch_and_incr_int_gcc"

definition OPA_decr_int_gcc :: "addr \<Rightarrow> mem \<Rightarrow> (mem, unit) outcome" where
  [port_defs]: "OPA_decr_int_gcc = OPA_decr_int_by_fad OPA_fetch_and_decr_int_gcc"

definition OPA_cas_ptr_gcc :: "addr \<Rightarrow> addr \<Rightarrow> addr \<Rightarrow> mem \<Rightarrow> (mem, addr) outcome" where
  [port_defs]: "OPA_cas_ptr_gcc ptr oldv newv m =
     sync_val_compare_and_swap_ptr ptr oldv newv m"

definition OPA_cas_int_gcc :: "addr \<Rightarrow> c_int \<Rightarrow> c_int \<Rightarrow> mem \<Rightarrow> (mem, c_int) outcome" where
  [port_defs]: "OPA_cas_int_gcc ptr oldv newv m =
     sync_val_compare_and_swap_int ptr oldv newv m"

text \<open>The argument is whether \<open>SYNC_LOCK_TEST_AND_SET_IS_SWAP\<close> is defined.\<close>

definition OPA_swap_ptr_gcc :: "bool \<Rightarrow> addr \<Rightarrow> addr \<Rightarrow> mem \<Rightarrow> (mem, addr) outcome" where
  "OPA_swap_ptr_gcc tas_is_swap ptr val m =
     (if tas_is_swap then sync_lock_test_and_set_ptr ptr val m
      else OPA_swap_ptr_by_cas OPA_load_ptr_gcc OPA_cas_ptr_gcc ptr val m)"

definition OPA_swap_int_gcc :: "bool \<Rightarrow> addr \<Rightarrow> c_int \<Rightarrow> mem \<Rightarrow> (mem, c_int) outcome" where
  "OPA_swap_int_gcc tas_is_swap ptr val m =
     (if tas_is_swap then sync_lock_test_and_set_int ptr val m
      else OPA_swap_int_by_cas OPA_load_int_gcc OPA_cas_int_gcc ptr val m)"

section \<open>The contract\<close>

interpretation gcc_cas: cas_primitives "\<lambda>_. True" "\<lambda>m. m"
  OPA_load_int_gcc OPA_store_int_gcc OPA_load_ptr_gcc OPA_store_ptr_gcc
  OPA_cas_int_gcc OPA_cas_ptr_gcc
  by unfold_locales (auto simp: port_defs sync_builtins)

interpretation gcc_swap: swap_primitives "\<lambda>_. True" "\<lambda>m. m"
  "OPA_swap_int_gcc tas_is_swap" "OPA_swap_ptr_gcc tas_is_swap" for tas_is_swap
  by (unfold_locales; cases tas_is_swap)
    (simp_all add: OPA_swap_int_gcc_def OPA_swap_ptr_gcc_def sync_builtins
      gcc_cas.swap_int_by_cas_yields gcc_cas.swap_ptr_by_cas_yields)

interpretation gcc: wrapping_primitives "\<lambda>_. True" "\<lambda>m. m"
  OPA_load_int_gcc OPA_store_int_gcc OPA_load_ptr_gcc OPA_store_ptr_gcc
  OPA_cas_int_gcc OPA_cas_ptr_gcc
  "OPA_swap_int_gcc tas_is_swap" "OPA_swap_ptr_gcc tas_is_swap"
  OPA_fetch_and_add_int_gcc OPA_add_int_gcc OPA_incr_int_gcc OPA_decr_int_gcc
  OPA_decr_and_test_int_gcc OPA_fetch_and_incr_int_gcc OPA_fetch_and_decr_int_gcc
  for tas_is_swap
  by unfold_locales
    (auto simp: port_defs sync_builtins void_def OPA_fetch_and_incr_int_by_faa_def
      OPA_fetch_and_decr_int_by_faa_def OPA_add_int_by_faa_def OPA_incr_int_by_fai_def
      OPA_decr_int_by_fad_def intro: gcc_swap.swap_int_law gcc_swap.swap_ptr_law)

interpretation gcc_ordered: access_primitives "\<lambda>_. True" "\<lambda>m. m"
  OPA_load_acquire_int_gcc OPA_store_release_int_gcc
  OPA_load_acquire_ptr_gcc OPA_store_release_ptr_gcc
  by unfold_locales (simp_all add: port_defs Let_def)

section \<open>Properties\<close>

text \<open>
  The port to GCC's built-ins meets the contract and wraps around, whether it swaps by
  \<open>__sync_lock_test_and_set\<close> or by a loop of compare-and-swaps.
\<close>

lemma gcc_meets_contract:
  "wrapping_primitives (\<lambda>_. True) (\<lambda>m. m)
    OPA_load_int_gcc OPA_store_int_gcc OPA_load_ptr_gcc OPA_store_ptr_gcc
    OPA_cas_int_gcc OPA_cas_ptr_gcc (OPA_swap_int_gcc tas_is_swap) (OPA_swap_ptr_gcc tas_is_swap)
    OPA_fetch_and_add_int_gcc OPA_add_int_gcc OPA_incr_int_gcc OPA_decr_int_gcc
    OPA_decr_and_test_int_gcc OPA_fetch_and_incr_int_gcc OPA_fetch_and_decr_int_gcc"
  by (rule gcc.wrapping_primitives_axioms)

end
