(* ===== verification/OPA_Llsc_Ports.thy ===== *)
theory OPA_Llsc_Ports
  imports OPA_Emulated
begin

text \<open>
  The ports on machines with a load-linked/store-conditional pair: PowerPC
  (\<open>opa_gcc_ppc.h\<close>), ARM v7 (\<open>opa_gcc_arm.h\<close>) and SiCortex, a MIPS (\<open>opa_gcc_sicortex.h\<close>). The
  state adds to the store the reservation of the thread and the list of the outcomes the machine
  has in store for its next store-conditionals: one marked \<open>True\<close> fails although the reservation
  is intact, which the architectures permit.
\<close>

section \<open>The machine\<close>

record llsc_mem = mem +
  reservation :: "addr option"
  sc_spurious :: "bool list"

definition sc_succeeds :: "addr \<Rightarrow> llsc_mem \<Rightarrow> bool" where
  "sc_succeeds p s \<longleftrightarrow>
     reservation s = Some p \<and> (case sc_spurious s of [] \<Rightarrow> True | fails # _ \<Rightarrow> \<not> fails)"

definition after_sc :: "llsc_mem \<Rightarrow> llsc_mem" where
  "after_sc s = s\<lparr>reservation := None, sc_spurious := tl (sc_spurious s)\<rparr>"

definition spurious_left :: "llsc_mem \<Rightarrow> nat" where
  "spurious_left s = count_list (sc_spurious s) True"

text \<open>The instructions: a conditional store answers whether it stored.\<close>

definition load_linked_int :: "addr \<Rightarrow> llsc_mem \<Rightarrow> (llsc_mem, c_int) outcome" where
  "load_linked_int p s = ret (int_at s p) (s\<lparr>reservation := Some p\<rparr>)"

definition load_linked_ptr :: "addr \<Rightarrow> llsc_mem \<Rightarrow> (llsc_mem, addr) outcome" where
  "load_linked_ptr p s = ret (ptr_at s p) (s\<lparr>reservation := Some p\<rparr>)"

definition store_conditional_int :: "addr \<Rightarrow> c_int \<Rightarrow> llsc_mem \<Rightarrow> (llsc_mem, bool) outcome" where
  "store_conditional_int p v s =
     ret (sc_succeeds p s) (if sc_succeeds p s then st_int p v (after_sc s) else after_sc s)"

definition store_conditional_ptr :: "addr \<Rightarrow> addr \<Rightarrow> llsc_mem \<Rightarrow> (llsc_mem, bool) outcome" where
  "store_conditional_ptr p v s =
     ret (sc_succeeds p s) (if sc_succeeds p s then st_ptr p v (after_sc s) else after_sc s)"

lemma st_after_sc:
  "mem.truncate (after_sc s) = mem.truncate s"
  "mem.truncate (st_int p v (after_sc s)) = st_int p v (mem.truncate s)"
  "mem.truncate (st_ptr p w (after_sc s)) = st_ptr p w (mem.truncate s)"
  by (simp_all add: after_sc_def mem.truncate_def st_int_def st_ptr_def)

lemma truncate_reservation [simp]:
  "mem.truncate (s\<lparr>reservation := r\<rparr>) = mem.truncate s" "sc_spurious (s\<lparr>reservation := r\<rparr>) = sc_spurious s"
  by (simp_all add: mem.truncate_def)

lemma spurious_left_after:
  "reservation s = Some p \<Longrightarrow> \<not> sc_succeeds p s \<Longrightarrow> spurious_left (after_sc s) < spurious_left s"
  by (auto simp: sc_succeeds_def spurious_left_def after_sc_def split: list.splits)

lemma spurious_left_reservation [simp]: "spurious_left (s\<lparr>reservation := r\<rparr>) = spurious_left s"
  by (simp add: spurious_left_def)

lemmas llsc_defs = load_linked_int_def load_linked_ptr_def store_conditional_int_def
  store_conditional_ptr_def

section \<open>PowerPC\<close>

definition OPA_load_int_ppc :: "addr \<Rightarrow> llsc_mem \<Rightarrow> (llsc_mem, c_int) outcome" where
  [port_defs]: "OPA_load_int_ppc ptr s = ret (int_at s ptr) s"

definition OPA_store_int_ppc :: "addr \<Rightarrow> c_int \<Rightarrow> llsc_mem \<Rightarrow> (llsc_mem, unit) outcome" where
  [port_defs]: "OPA_store_int_ppc ptr val s = ret () (st_int ptr val s)"

definition OPA_load_ptr_ppc :: "addr \<Rightarrow> llsc_mem \<Rightarrow> (llsc_mem, addr) outcome" where
  [port_defs]: "OPA_load_ptr_ppc ptr s = ret (ptr_at s ptr) s"

definition OPA_store_ptr_ppc :: "addr \<Rightarrow> addr \<Rightarrow> llsc_mem \<Rightarrow> (llsc_mem, unit) outcome" where
  [port_defs]: "OPA_store_ptr_ppc ptr val s = ret () (st_ptr ptr val s)"

definition OPA_load_acquire_int_ppc :: "addr \<Rightarrow> llsc_mem \<Rightarrow> (llsc_mem, c_int) outcome" where
  [port_defs]: "OPA_load_acquire_int_ppc ptr s =
     (let tmp = int_at s ptr in bind_outcome (barrier ''lwsync'' s) (\<lambda>_ s. ret tmp s))"

definition OPA_store_release_int_ppc :: "addr \<Rightarrow> c_int \<Rightarrow> llsc_mem \<Rightarrow> (llsc_mem, unit) outcome" where
  [port_defs]: "OPA_store_release_int_ppc ptr val s =
     bind_outcome (barrier ''lwsync'' s) (\<lambda>_ s. ret () (st_int ptr val s))"

definition OPA_load_acquire_ptr_ppc :: "addr \<Rightarrow> llsc_mem \<Rightarrow> (llsc_mem, addr) outcome" where
  [port_defs]: "OPA_load_acquire_ptr_ppc ptr s =
     (let tmp = ptr_at s ptr in bind_outcome (barrier ''lwsync'' s) (\<lambda>_ s. ret tmp s))"

definition OPA_store_release_ptr_ppc :: "addr \<Rightarrow> addr \<Rightarrow> llsc_mem \<Rightarrow> (llsc_mem, unit) outcome" where
  [port_defs]: "OPA_store_release_ptr_ppc ptr val s =
     bind_outcome (barrier ''lwsync'' s) (\<lambda>_ s. ret () (st_ptr ptr val s))"

text \<open>\<open>lwarx\<close> and \<open>ldarx\<close> read and reserve.\<close>

definition OPA_LL_int_ppc :: "addr \<Rightarrow> llsc_mem \<Rightarrow> (llsc_mem, c_int) outcome" where
  "OPA_LL_int_ppc ptr s = load_linked_int ptr s"

definition OPA_LL_ptr_ppc :: "addr \<Rightarrow> llsc_mem \<Rightarrow> (llsc_mem, addr) outcome" where
  "OPA_LL_ptr_ppc ptr s = load_linked_ptr ptr s"

text \<open>\<open>ret\<close> starts at 1; \<open>beq\<close> skips the \<open>li ret, 0\<close> when \<open>stwcx.\<close> stored.\<close>

definition OPA_SC_int_ppc :: "addr \<Rightarrow> c_int \<Rightarrow> llsc_mem \<Rightarrow> (llsc_mem, c_int) outcome" where
  "OPA_SC_int_ppc ptr val s =
     bind_outcome (store_conditional_int ptr val s) (\<lambda>stored s. ret (if stored then 1 else 0) s)"

definition OPA_SC_ptr_ppc :: "addr \<Rightarrow> addr \<Rightarrow> llsc_mem \<Rightarrow> (llsc_mem, c_int) outcome" where
  "OPA_SC_ptr_ppc ptr val s =
     bind_outcome (store_conditional_ptr ptr val s) (\<lambda>stored s. ret (if stored then 1 else 0) s)"

definition ppc_llsc :: "llsc_mem llsc_port" where
  "ppc_llsc = \<lparr>OPA_LL_int = OPA_LL_int_ppc, OPA_SC_int = OPA_SC_int_ppc,
     OPA_LL_ptr = OPA_LL_ptr_ppc, OPA_SC_ptr = OPA_SC_ptr_ppc\<rparr>"

interpretation ppc: llsc_primitives "\<lambda>_. True" mem.truncate
  OPA_load_int_ppc OPA_store_int_ppc OPA_load_ptr_ppc OPA_store_ptr_ppc
  ppc_llsc "\<lambda>s p. reservation s = Some p" spurious_left
  by unfold_locales
    (auto simp: port_defs yields_def ppc_llsc_def llsc_defs OPA_LL_int_ppc_def OPA_LL_ptr_ppc_def OPA_SC_int_ppc_def OPA_SC_ptr_ppc_def
      st_after_sc spurious_left_after)

text \<open>The macros that name the emulations after the functions of the interface.\<close>

definition OPA_add_int_ppc :: "addr \<Rightarrow> c_int \<Rightarrow> llsc_mem \<Rightarrow> (llsc_mem, unit) outcome" where
  "OPA_add_int_ppc = OPA_add_int_by_llsc ppc_llsc"

definition OPA_incr_int_ppc :: "addr \<Rightarrow> llsc_mem \<Rightarrow> (llsc_mem, unit) outcome" where
  "OPA_incr_int_ppc = OPA_incr_int_by_llsc ppc_llsc"

definition OPA_decr_int_ppc :: "addr \<Rightarrow> llsc_mem \<Rightarrow> (llsc_mem, unit) outcome" where
  "OPA_decr_int_ppc = OPA_decr_int_by_llsc ppc_llsc"

definition OPA_decr_and_test_int_ppc :: "addr \<Rightarrow> llsc_mem \<Rightarrow> (llsc_mem, c_int) outcome" where
  "OPA_decr_and_test_int_ppc = OPA_decr_and_test_int_by_llsc ppc_llsc"

definition OPA_fetch_and_add_int_ppc :: "addr \<Rightarrow> c_int \<Rightarrow> llsc_mem \<Rightarrow> (llsc_mem, c_int) outcome" where
  "OPA_fetch_and_add_int_ppc = OPA_fetch_and_add_int_by_llsc ppc_llsc"

definition OPA_fetch_and_decr_int_ppc :: "addr \<Rightarrow> llsc_mem \<Rightarrow> (llsc_mem, c_int) outcome" where
  "OPA_fetch_and_decr_int_ppc = OPA_fetch_and_decr_int_by_llsc ppc_llsc"

definition OPA_fetch_and_incr_int_ppc :: "addr \<Rightarrow> llsc_mem \<Rightarrow> (llsc_mem, c_int) outcome" where
  "OPA_fetch_and_incr_int_ppc = OPA_fetch_and_incr_int_by_llsc ppc_llsc"

definition OPA_cas_ptr_ppc :: "addr \<Rightarrow> addr \<Rightarrow> addr \<Rightarrow> llsc_mem \<Rightarrow> (llsc_mem, addr) outcome" where
  "OPA_cas_ptr_ppc = OPA_cas_ptr_by_llsc ppc_llsc"

definition OPA_cas_int_ppc :: "addr \<Rightarrow> c_int \<Rightarrow> c_int \<Rightarrow> llsc_mem \<Rightarrow> (llsc_mem, c_int) outcome" where
  "OPA_cas_int_ppc = OPA_cas_int_by_llsc ppc_llsc"

definition OPA_swap_ptr_ppc :: "addr \<Rightarrow> addr \<Rightarrow> llsc_mem \<Rightarrow> (llsc_mem, addr) outcome" where
  "OPA_swap_ptr_ppc = OPA_swap_ptr_by_llsc ppc_llsc"

definition OPA_swap_int_ppc :: "addr \<Rightarrow> c_int \<Rightarrow> llsc_mem \<Rightarrow> (llsc_mem, c_int) outcome" where
  "OPA_swap_int_ppc = OPA_swap_int_by_llsc ppc_llsc"

lemmas ppc_renamed = OPA_add_int_ppc_def OPA_incr_int_ppc_def OPA_decr_int_ppc_def OPA_decr_and_test_int_ppc_def
  OPA_fetch_and_add_int_ppc_def OPA_fetch_and_decr_int_ppc_def OPA_fetch_and_incr_int_ppc_def OPA_cas_ptr_ppc_def
  OPA_cas_int_ppc_def OPA_swap_ptr_ppc_def OPA_swap_int_ppc_def

interpretation ppc_port: opa_primitives "\<lambda>_. True" mem.truncate
  OPA_load_int_ppc OPA_store_int_ppc OPA_load_ptr_ppc OPA_store_ptr_ppc
  OPA_cas_int_ppc OPA_cas_ptr_ppc OPA_swap_int_ppc OPA_swap_ptr_ppc
  OPA_fetch_and_add_int_ppc OPA_add_int_ppc OPA_incr_int_ppc OPA_decr_int_ppc
  OPA_decr_and_test_int_ppc OPA_fetch_and_incr_int_ppc OPA_fetch_and_decr_int_ppc
  unfolding ppc_renamed by (rule ppc.by_llsc.opa_primitives_axioms)

interpretation ppc_ordered: access_primitives "\<lambda>_. True" mem.truncate
  OPA_load_acquire_int_ppc OPA_store_release_int_ppc
  OPA_load_acquire_ptr_ppc OPA_store_release_ptr_ppc
  by unfold_locales (simp_all add: port_defs yields_def Let_def)

section \<open>ARM v7\<close>

definition OPA_load_int_arm :: "addr \<Rightarrow> llsc_mem \<Rightarrow> (llsc_mem, c_int) outcome" where
  [port_defs]: "OPA_load_int_arm ptr s = ret (int_at s ptr) s"

definition OPA_store_int_arm :: "addr \<Rightarrow> c_int \<Rightarrow> llsc_mem \<Rightarrow> (llsc_mem, unit) outcome" where
  [port_defs]: "OPA_store_int_arm ptr val s = ret () (st_int ptr val s)"

definition OPA_load_ptr_arm :: "addr \<Rightarrow> llsc_mem \<Rightarrow> (llsc_mem, addr) outcome" where
  [port_defs]: "OPA_load_ptr_arm ptr s = ret (ptr_at s ptr) s"

definition OPA_store_ptr_arm :: "addr \<Rightarrow> addr \<Rightarrow> llsc_mem \<Rightarrow> (llsc_mem, unit) outcome" where
  [port_defs]: "OPA_store_ptr_arm ptr val s = ret () (st_ptr ptr val s)"

definition OPA_load_acquire_int_arm :: "addr \<Rightarrow> llsc_mem \<Rightarrow> (llsc_mem, c_int) outcome" where
  [port_defs]: "OPA_load_acquire_int_arm ptr s =
     (let tmp = int_at s ptr in bind_outcome (barrier ''dsb'' s) (\<lambda>_ s. ret tmp s))"

definition OPA_store_release_int_arm :: "addr \<Rightarrow> c_int \<Rightarrow> llsc_mem \<Rightarrow> (llsc_mem, unit) outcome" where
  [port_defs]: "OPA_store_release_int_arm ptr val s =
     bind_outcome (barrier ''dsb'' s) (\<lambda>_ s. ret () (st_int ptr val s))"

definition OPA_load_acquire_ptr_arm :: "addr \<Rightarrow> llsc_mem \<Rightarrow> (llsc_mem, addr) outcome" where
  [port_defs]: "OPA_load_acquire_ptr_arm ptr s =
     (let tmp = ptr_at s ptr in bind_outcome (barrier ''dsb'' s) (\<lambda>_ s. ret tmp s))"

definition OPA_store_release_ptr_arm :: "addr \<Rightarrow> addr \<Rightarrow> llsc_mem \<Rightarrow> (llsc_mem, unit) outcome" where
  [port_defs]: "OPA_store_release_ptr_arm ptr val s =
     bind_outcome (barrier ''dsb'' s) (\<lambda>_ s. ret () (st_ptr ptr val s))"

text \<open>\<open>ldrex\<close> reads and reserves.\<close>

definition OPA_LL_int_arm :: "addr \<Rightarrow> llsc_mem \<Rightarrow> (llsc_mem, c_int) outcome" where
  "OPA_LL_int_arm ptr s = load_linked_int ptr s"

definition OPA_LL_ptr_arm :: "addr \<Rightarrow> llsc_mem \<Rightarrow> (llsc_mem, addr) outcome" where
  "OPA_LL_ptr_arm ptr s = load_linked_ptr ptr s"

text \<open>\<open>strex\<close> answers 0 when it stored and 1 when it did not; the function returns \<open>!ret\<close>.\<close>

definition strex_int :: "addr \<Rightarrow> c_int \<Rightarrow> llsc_mem \<Rightarrow> (llsc_mem, c_int) outcome" where
  "strex_int ptr val s =
     bind_outcome (store_conditional_int ptr val s) (\<lambda>stored s. ret (if stored then 0 else 1) s)"

definition strex_ptr :: "addr \<Rightarrow> addr \<Rightarrow> llsc_mem \<Rightarrow> (llsc_mem, c_int) outcome" where
  "strex_ptr ptr val s =
     bind_outcome (store_conditional_ptr ptr val s) (\<lambda>stored s. ret (if stored then 0 else 1) s)"

definition OPA_SC_int_arm :: "addr \<Rightarrow> c_int \<Rightarrow> llsc_mem \<Rightarrow> (llsc_mem, c_int) outcome" where
  "OPA_SC_int_arm ptr val s =
     bind_outcome (strex_int ptr val s) (\<lambda>r s. ret (c_bool (r = 0)) s)"

definition OPA_SC_ptr_arm :: "addr \<Rightarrow> addr \<Rightarrow> llsc_mem \<Rightarrow> (llsc_mem, c_int) outcome" where
  "OPA_SC_ptr_arm ptr val s =
     bind_outcome (strex_ptr ptr val s) (\<lambda>r s. ret (c_bool (r = 0)) s)"

definition arm_llsc :: "llsc_mem llsc_port" where
  "arm_llsc = \<lparr>OPA_LL_int = OPA_LL_int_arm, OPA_SC_int = OPA_SC_int_arm,
     OPA_LL_ptr = OPA_LL_ptr_arm, OPA_SC_ptr = OPA_SC_ptr_arm\<rparr>"

interpretation arm: llsc_primitives "\<lambda>_. True" mem.truncate
  OPA_load_int_arm OPA_store_int_arm OPA_load_ptr_arm OPA_store_ptr_arm
  arm_llsc "\<lambda>s p. reservation s = Some p" spurious_left
  by unfold_locales
    (auto simp: port_defs yields_def arm_llsc_def llsc_defs OPA_LL_int_arm_def OPA_LL_ptr_arm_def OPA_SC_int_arm_def OPA_SC_ptr_arm_def
      strex_int_def strex_ptr_def st_after_sc spurious_left_after)

text \<open>The macros that name the emulations after the functions of the interface.\<close>

definition OPA_add_int_arm :: "addr \<Rightarrow> c_int \<Rightarrow> llsc_mem \<Rightarrow> (llsc_mem, unit) outcome" where
  "OPA_add_int_arm = OPA_add_int_by_llsc arm_llsc"

definition OPA_incr_int_arm :: "addr \<Rightarrow> llsc_mem \<Rightarrow> (llsc_mem, unit) outcome" where
  "OPA_incr_int_arm = OPA_incr_int_by_llsc arm_llsc"

definition OPA_decr_int_arm :: "addr \<Rightarrow> llsc_mem \<Rightarrow> (llsc_mem, unit) outcome" where
  "OPA_decr_int_arm = OPA_decr_int_by_llsc arm_llsc"

definition OPA_decr_and_test_int_arm :: "addr \<Rightarrow> llsc_mem \<Rightarrow> (llsc_mem, c_int) outcome" where
  "OPA_decr_and_test_int_arm = OPA_decr_and_test_int_by_llsc arm_llsc"

definition OPA_fetch_and_add_int_arm :: "addr \<Rightarrow> c_int \<Rightarrow> llsc_mem \<Rightarrow> (llsc_mem, c_int) outcome" where
  "OPA_fetch_and_add_int_arm = OPA_fetch_and_add_int_by_llsc arm_llsc"

definition OPA_fetch_and_decr_int_arm :: "addr \<Rightarrow> llsc_mem \<Rightarrow> (llsc_mem, c_int) outcome" where
  "OPA_fetch_and_decr_int_arm = OPA_fetch_and_decr_int_by_llsc arm_llsc"

definition OPA_fetch_and_incr_int_arm :: "addr \<Rightarrow> llsc_mem \<Rightarrow> (llsc_mem, c_int) outcome" where
  "OPA_fetch_and_incr_int_arm = OPA_fetch_and_incr_int_by_llsc arm_llsc"

definition OPA_cas_ptr_arm :: "addr \<Rightarrow> addr \<Rightarrow> addr \<Rightarrow> llsc_mem \<Rightarrow> (llsc_mem, addr) outcome" where
  "OPA_cas_ptr_arm = OPA_cas_ptr_by_llsc arm_llsc"

definition OPA_cas_int_arm :: "addr \<Rightarrow> c_int \<Rightarrow> c_int \<Rightarrow> llsc_mem \<Rightarrow> (llsc_mem, c_int) outcome" where
  "OPA_cas_int_arm = OPA_cas_int_by_llsc arm_llsc"

definition OPA_swap_ptr_arm :: "addr \<Rightarrow> addr \<Rightarrow> llsc_mem \<Rightarrow> (llsc_mem, addr) outcome" where
  "OPA_swap_ptr_arm = OPA_swap_ptr_by_llsc arm_llsc"

definition OPA_swap_int_arm :: "addr \<Rightarrow> c_int \<Rightarrow> llsc_mem \<Rightarrow> (llsc_mem, c_int) outcome" where
  "OPA_swap_int_arm = OPA_swap_int_by_llsc arm_llsc"

lemmas arm_renamed = OPA_add_int_arm_def OPA_incr_int_arm_def OPA_decr_int_arm_def OPA_decr_and_test_int_arm_def
  OPA_fetch_and_add_int_arm_def OPA_fetch_and_decr_int_arm_def OPA_fetch_and_incr_int_arm_def OPA_cas_ptr_arm_def
  OPA_cas_int_arm_def OPA_swap_ptr_arm_def OPA_swap_int_arm_def

interpretation arm_port: opa_primitives "\<lambda>_. True" mem.truncate
  OPA_load_int_arm OPA_store_int_arm OPA_load_ptr_arm OPA_store_ptr_arm
  OPA_cas_int_arm OPA_cas_ptr_arm OPA_swap_int_arm OPA_swap_ptr_arm
  OPA_fetch_and_add_int_arm OPA_add_int_arm OPA_incr_int_arm OPA_decr_int_arm
  OPA_decr_and_test_int_arm OPA_fetch_and_incr_int_arm OPA_fetch_and_decr_int_arm
  unfolding arm_renamed by (rule arm.by_llsc.opa_primitives_axioms)

interpretation arm_ordered: access_primitives "\<lambda>_. True" mem.truncate
  OPA_load_acquire_int_arm OPA_store_release_int_arm
  OPA_load_acquire_ptr_arm OPA_store_release_ptr_arm
  by unfold_locales (simp_all add: port_defs yields_def Let_def)

section \<open>Properties\<close>

text \<open>
  The PowerPC port meets the contract, however often \<open>stwcx.\<close> fails spuriously: every loop
  ends and the store is changed once.
\<close>

lemma ppc_meets_contract:
  "opa_primitives (\<lambda>_. True) mem.truncate
    OPA_load_int_ppc OPA_store_int_ppc OPA_load_ptr_ppc OPA_store_ptr_ppc
    OPA_cas_int_ppc OPA_cas_ptr_ppc OPA_swap_int_ppc OPA_swap_ptr_ppc
    OPA_fetch_and_add_int_ppc OPA_add_int_ppc OPA_incr_int_ppc OPA_decr_int_ppc
    OPA_decr_and_test_int_ppc OPA_fetch_and_incr_int_ppc OPA_fetch_and_decr_int_ppc"
  by (rule ppc_port.opa_primitives_axioms)

text \<open>
  The ARM port meets the contract, however often \<open>strex\<close> fails spuriously: every loop ends
  and the store is changed once.
\<close>

lemma arm_meets_contract:
  "opa_primitives (\<lambda>_. True) mem.truncate
    OPA_load_int_arm OPA_store_int_arm OPA_load_ptr_arm OPA_store_ptr_arm
    OPA_cas_int_arm OPA_cas_ptr_arm OPA_swap_int_arm OPA_swap_ptr_arm
    OPA_fetch_and_add_int_arm OPA_add_int_arm OPA_incr_int_arm OPA_decr_int_arm
    OPA_decr_and_test_int_arm OPA_fetch_and_incr_int_arm OPA_fetch_and_decr_int_arm"
  by (rule arm_port.opa_primitives_axioms)

end
