(* ===== verification/OPA_Sicortex.thy ===== *)
theory OPA_Sicortex
  imports OPA_Llsc_Ports
begin

text \<open>
  The SiCortex port, \<open>src/primitives/opa_gcc_sicortex.h\<close>: every primitive is a loop of MIPS
  instructions around \<open>ll\<close>/\<open>sc\<close> (\<open>lld\<close>/\<open>scd\<close> for 64 bits). \<open>ICE9A_LLSC_WAR\<close> chooses
  between two loops that differ in a second load-linked, which is shown to make no difference. \<open>addu\<close> and \<open>daddu\<close> wrap around. The model is
  that of \<open>OPA_Llsc_Ports\<close>.
\<close>

section \<open>Accesses\<close>

definition OPA_load_int_sicortex :: "addr \<Rightarrow> llsc_mem \<Rightarrow> (llsc_mem, c_int) outcome" where
  [port_defs]: "OPA_load_int_sicortex ptr s = ret (int_at s ptr) s"

definition OPA_store_int_sicortex :: "addr \<Rightarrow> c_int \<Rightarrow> llsc_mem \<Rightarrow> (llsc_mem, unit) outcome" where
  [port_defs]: "OPA_store_int_sicortex ptr val s = ret () (st_int ptr val s)"

definition OPA_load_ptr_sicortex :: "addr \<Rightarrow> llsc_mem \<Rightarrow> (llsc_mem, addr) outcome" where
  [port_defs]: "OPA_load_ptr_sicortex ptr s = ret (ptr_at s ptr) s"

definition OPA_store_ptr_sicortex :: "addr \<Rightarrow> addr \<Rightarrow> llsc_mem \<Rightarrow> (llsc_mem, unit) outcome" where
  [port_defs]: "OPA_store_ptr_sicortex ptr val s = ret () (st_ptr ptr val s)"

definition OPA_load_acquire_int_sicortex :: "addr \<Rightarrow> llsc_mem \<Rightarrow> (llsc_mem, c_int) outcome" where
  [port_defs]: "OPA_load_acquire_int_sicortex ptr s =
     (let tmp = int_at s ptr in bind_outcome (barrier ''sync'' s) (\<lambda>_ s. ret tmp s))"

definition OPA_store_release_int_sicortex :: "addr \<Rightarrow> c_int \<Rightarrow> llsc_mem \<Rightarrow> (llsc_mem, unit) outcome" where
  [port_defs]: "OPA_store_release_int_sicortex ptr val s =
     bind_outcome (barrier ''sync'' s) (\<lambda>_ s. ret () (st_int ptr val s))"

definition OPA_load_acquire_ptr_sicortex :: "addr \<Rightarrow> llsc_mem \<Rightarrow> (llsc_mem, addr) outcome" where
  [port_defs]: "OPA_load_acquire_ptr_sicortex ptr s =
     (let tmp = ptr_at s ptr in bind_outcome (barrier ''sync'' s) (\<lambda>_ s. ret tmp s))"

definition OPA_store_release_ptr_sicortex :: "addr \<Rightarrow> addr \<Rightarrow> llsc_mem \<Rightarrow> (llsc_mem, unit) outcome" where
  [port_defs]: "OPA_store_release_ptr_sicortex ptr val s =
     bind_outcome (barrier ''sync'' s) (\<lambda>_ s. ret () (st_ptr ptr val s))"

section \<open>The loops\<close>

text \<open>The workaround for the first chips, switched off: do the load-linked twice.\<close>

definition ICE9A_LLSC_WAR :: bool where
  "ICE9A_LLSC_WAR = False"

definition ll :: "bool \<Rightarrow> addr \<Rightarrow> llsc_mem \<Rightarrow> (llsc_mem, c_int) outcome" where
  "ll war v s =
     (if war then bind_outcome (load_linked_int v s) (\<lambda>_ s. load_linked_int v s) else load_linked_int v s)"

definition lld :: "bool \<Rightarrow> addr \<Rightarrow> llsc_mem \<Rightarrow> (llsc_mem, addr) outcome" where
  "lld war v s =
     (if war then bind_outcome (load_linked_ptr v s) (\<lambda>_ s. load_linked_ptr v s) else load_linked_ptr v s)"

lemma workaround_harmless: "ll war v s = load_linked_int v s" "lld war v s = load_linked_ptr v s"
  by (simp_all add: ll_def lld_def load_linked_int_def load_linked_ptr_def)

text \<open>
  \<open>beqz\<close> goes back to the load when \<open>sc\<close> answered 0. In the compare-and-swap the branch \<open>bne\<close>
  leaves the loop when the loaded value is not the expected one.
\<close>

partial_function (option) OPA_shmemi_fetch_add_4 ::
  "addr \<Rightarrow> c_int \<Rightarrow> llsc_mem \<Rightarrow> (llsc_mem, c_int) outcome" where
  "OPA_shmemi_fetch_add_4 v inc s =
     bind_outcome (ll ICE9A_LLSC_WAR v s) (\<lambda>result s.
     bind_outcome (store_conditional_int v (result + inc) s) (\<lambda>stored s.
       if \<not> stored then OPA_shmemi_fetch_add_4 v inc s else ret result s))"

partial_function (option) OPA_shmemi_fetch_add_8 ::
  "addr \<Rightarrow> addr \<Rightarrow> llsc_mem \<Rightarrow> (llsc_mem, addr) outcome" where
  "OPA_shmemi_fetch_add_8 v inc s =
     bind_outcome (lld ICE9A_LLSC_WAR v s) (\<lambda>result s.
     bind_outcome (store_conditional_ptr v (result + inc) s) (\<lambda>stored s.
       if \<not> stored then OPA_shmemi_fetch_add_8 v inc s else ret result s))"

partial_function (option) OPA_shmemi_swap_4 ::
  "addr \<Rightarrow> c_int \<Rightarrow> llsc_mem \<Rightarrow> (llsc_mem, c_int) outcome" where
  "OPA_shmemi_swap_4 v val s =
     bind_outcome (ll ICE9A_LLSC_WAR v s) (\<lambda>result s.
     bind_outcome (store_conditional_int v val s) (\<lambda>stored s.
       if \<not> stored then OPA_shmemi_swap_4 v val s else ret result s))"

partial_function (option) OPA_shmemi_swap_8 ::
  "addr \<Rightarrow> addr \<Rightarrow> llsc_mem \<Rightarrow> (llsc_mem, addr) outcome" where
  "OPA_shmemi_swap_8 v val s =
     bind_outcome (lld ICE9A_LLSC_WAR v s) (\<lambda>result s.
     bind_outcome (store_conditional_ptr v val s) (\<lambda>stored s.
       if \<not> stored then OPA_shmemi_swap_8 v val s else ret result s))"

partial_function (option) OPA_shmemi_cswap_4 ::
  "addr \<Rightarrow> c_int \<Rightarrow> c_int \<Rightarrow> llsc_mem \<Rightarrow> (llsc_mem, c_int) outcome" where
  "OPA_shmemi_cswap_4 v expect val s =
     bind_outcome (ll ICE9A_LLSC_WAR v s) (\<lambda>result s.
       if result \<noteq> expect then ret result s
       else bind_outcome (store_conditional_int v val s) (\<lambda>stored s.
         if \<not> stored then OPA_shmemi_cswap_4 v expect val s else ret result s))"

partial_function (option) OPA_shmemi_cswap_8 ::
  "addr \<Rightarrow> addr \<Rightarrow> addr \<Rightarrow> llsc_mem \<Rightarrow> (llsc_mem, addr) outcome" where
  "OPA_shmemi_cswap_8 v expect val s =
     bind_outcome (lld ICE9A_LLSC_WAR v s) (\<lambda>result s.
       if result \<noteq> expect then ret result s
       else bind_outcome (store_conditional_ptr v val s) (\<lambda>stored s.
         if \<not> stored then OPA_shmemi_cswap_8 v expect val s else ret result s))"

section \<open>The primitives\<close>

definition OPA_add_int_sicortex :: "addr \<Rightarrow> c_int \<Rightarrow> llsc_mem \<Rightarrow> (llsc_mem, unit) outcome" where
  [port_defs]: "OPA_add_int_sicortex ptr val s = void (OPA_shmemi_fetch_add_4 ptr val s)"

definition OPA_cas_ptr_sicortex :: "addr \<Rightarrow> addr \<Rightarrow> addr \<Rightarrow> llsc_mem \<Rightarrow> (llsc_mem, addr) outcome" where
  [port_defs]: "OPA_cas_ptr_sicortex ptr oldv newv s = OPA_shmemi_cswap_8 ptr oldv newv s"

definition OPA_cas_int_sicortex :: "addr \<Rightarrow> c_int \<Rightarrow> c_int \<Rightarrow> llsc_mem \<Rightarrow> (llsc_mem, c_int) outcome" where
  [port_defs]: "OPA_cas_int_sicortex ptr oldv newv s = OPA_shmemi_cswap_4 ptr oldv newv s"

definition OPA_decr_int_sicortex :: "addr \<Rightarrow> llsc_mem \<Rightarrow> (llsc_mem, unit) outcome" where
  [port_defs]: "OPA_decr_int_sicortex ptr s = void (OPA_shmemi_fetch_add_4 ptr (- 1) s)"

definition OPA_decr_and_test_int_sicortex :: "addr \<Rightarrow> llsc_mem \<Rightarrow> (llsc_mem, c_int) outcome" where
  [port_defs]: "OPA_decr_and_test_int_sicortex ptr s =
     bind_outcome (OPA_shmemi_fetch_add_4 ptr (- 1) s) (\<lambda>old s. ret (c_bool (old = 1)) s)"

definition OPA_fetch_and_add_int_sicortex :: "addr \<Rightarrow> c_int \<Rightarrow> llsc_mem \<Rightarrow> (llsc_mem, c_int) outcome" where
  [port_defs]: "OPA_fetch_and_add_int_sicortex ptr val s = OPA_shmemi_fetch_add_4 ptr val s"

definition OPA_fetch_and_decr_int_sicortex :: "addr \<Rightarrow> llsc_mem \<Rightarrow> (llsc_mem, c_int) outcome" where
  [port_defs]: "OPA_fetch_and_decr_int_sicortex ptr s = OPA_shmemi_fetch_add_4 ptr (- 1) s"

definition OPA_fetch_and_incr_int_sicortex :: "addr \<Rightarrow> llsc_mem \<Rightarrow> (llsc_mem, c_int) outcome" where
  [port_defs]: "OPA_fetch_and_incr_int_sicortex ptr s = OPA_shmemi_fetch_add_4 ptr 1 s"

definition OPA_incr_int_sicortex :: "addr \<Rightarrow> llsc_mem \<Rightarrow> (llsc_mem, unit) outcome" where
  [port_defs]: "OPA_incr_int_sicortex ptr s = void (OPA_shmemi_fetch_add_4 ptr 1 s)"

definition OPA_swap_ptr_sicortex :: "addr \<Rightarrow> addr \<Rightarrow> llsc_mem \<Rightarrow> (llsc_mem, addr) outcome" where
  [port_defs]: "OPA_swap_ptr_sicortex ptr val s = OPA_shmemi_swap_8 ptr val s"

definition OPA_swap_int_sicortex :: "addr \<Rightarrow> c_int \<Rightarrow> llsc_mem \<Rightarrow> (llsc_mem, c_int) outcome" where
  [port_defs]: "OPA_swap_int_sicortex ptr val s = OPA_shmemi_swap_4 ptr val s"

section \<open>What the loops do\<close>

text \<open>
  A round that fails leaves the store alone and one failure less to come, so each loop ends; each
  proof is an induction on the failures still to come.
\<close>

lemma reserved_after_failure:
  "\<not> sc_succeeds p (s\<lparr>reservation := Some p\<rparr>) \<Longrightarrow>
     spurious_left (after_sc (s\<lparr>reservation := Some p\<rparr>)) < spurious_left s"
  using spurious_left_after [of "s\<lparr>reservation := Some p\<rparr>" p] by simp

lemma after_sc_at [simp]: "int_at (after_sc s) = int_at s" "ptr_at (after_sc s) = ptr_at s"
  by (simp_all add: after_sc_def)

lemma shmemi_fetch_add_4_yields:
  "yields (\<lambda>_. True) mem.truncate (OPA_shmemi_fetch_add_4 v inc s) (int_at s v)
     (st_int v (int_at s v + inc) (mem.truncate s))"
proof (induction "spurious_left s" arbitrary: s rule: less_induct)
  case less
  let ?s = "s\<lparr>reservation := Some v\<rparr>"
  from less.hyps [of "after_sc ?s"] reserved_after_failure [of v s] show ?case
    by (subst OPA_shmemi_fetch_add_4.simps) (auto simp: workaround_harmless llsc_defs st_after_sc intro: yields_ret)
qed

lemma shmemi_fetch_add_8_yields:
  "yields (\<lambda>_. True) mem.truncate (OPA_shmemi_fetch_add_8 v inc s) (ptr_at s v)
     (st_ptr v (ptr_at s v + inc) (mem.truncate s))"
proof (induction "spurious_left s" arbitrary: s rule: less_induct)
  case less
  let ?s = "s\<lparr>reservation := Some v\<rparr>"
  from less.hyps [of "after_sc ?s"] reserved_after_failure [of v s] show ?case
    by (subst OPA_shmemi_fetch_add_8.simps) (auto simp: workaround_harmless llsc_defs st_after_sc intro: yields_ret)
qed

lemma shmemi_swap_4_yields:
  "yields (\<lambda>_. True) mem.truncate (OPA_shmemi_swap_4 v val s) (int_at s v)
     (st_int v val (mem.truncate s))"
proof (induction "spurious_left s" arbitrary: s rule: less_induct)
  case less
  let ?s = "s\<lparr>reservation := Some v\<rparr>"
  from less.hyps [of "after_sc ?s"] reserved_after_failure [of v s] show ?case
    by (subst OPA_shmemi_swap_4.simps) (auto simp: workaround_harmless llsc_defs st_after_sc intro: yields_ret)
qed

lemma shmemi_swap_8_yields:
  "yields (\<lambda>_. True) mem.truncate (OPA_shmemi_swap_8 v val s) (ptr_at s v)
     (st_ptr v val (mem.truncate s))"
proof (induction "spurious_left s" arbitrary: s rule: less_induct)
  case less
  let ?s = "s\<lparr>reservation := Some v\<rparr>"
  from less.hyps [of "after_sc ?s"] reserved_after_failure [of v s] show ?case
    by (subst OPA_shmemi_swap_8.simps) (auto simp: workaround_harmless llsc_defs st_after_sc intro: yields_ret)
qed

lemma shmemi_cswap_4_yields:
  "yields (\<lambda>_. True) mem.truncate (OPA_shmemi_cswap_4 v expect val s) (int_at s v)
     (if int_at s v = expect then st_int v val (mem.truncate s) else mem.truncate s)"
proof (induction "spurious_left s" arbitrary: s rule: less_induct)
  case less
  let ?s = "s\<lparr>reservation := Some v\<rparr>"
  from less.hyps [of "after_sc ?s"] reserved_after_failure [of v s] show ?case
    by (subst OPA_shmemi_cswap_4.simps) (auto simp: workaround_harmless llsc_defs st_after_sc intro: yields_ret)
qed

lemma shmemi_cswap_8_yields:
  "yields (\<lambda>_. True) mem.truncate (OPA_shmemi_cswap_8 v expect val s) (ptr_at s v)
     (if ptr_at s v = expect then st_ptr v val (mem.truncate s) else mem.truncate s)"
proof (induction "spurious_left s" arbitrary: s rule: less_induct)
  case less
  let ?s = "s\<lparr>reservation := Some v\<rparr>"
  from less.hyps [of "after_sc ?s"] reserved_after_failure [of v s] show ?case
    by (subst OPA_shmemi_cswap_8.simps) (auto simp: workaround_harmless llsc_defs st_after_sc intro: yields_ret)
qed

lemma fetch_decr_yields:
  "yields (\<lambda>_. True) mem.truncate (OPA_shmemi_fetch_add_4 v (- 1) s) (int_at s v)
     (st_int v (int_at s v - 1) (mem.truncate s))"
  using shmemi_fetch_add_4_yields [of v "- 1" s] by simp

lemma fetch_decr_and_test_yields:
  "yields (\<lambda>_. True) mem.truncate
     (bind_outcome (OPA_shmemi_fetch_add_4 v (- 1) s) (\<lambda>old s. ret (c_bool (old = 1)) s))
     (c_bool (int_at s v = 1)) (st_int v (int_at s v - 1) (mem.truncate s))"
  by (rule yields_bind [OF fetch_decr_yields]) simp

lemmas sicortex_yields = shmemi_fetch_add_4_yields shmemi_swap_4_yields shmemi_swap_8_yields
  shmemi_cswap_4_yields shmemi_cswap_8_yields yields_void [OF shmemi_fetch_add_4_yields]
  fetch_decr_yields fetch_decr_and_test_yields yields_void [OF fetch_decr_yields]

section \<open>The contract\<close>

interpretation sicortex: wrapping_primitives "\<lambda>_. True" mem.truncate
  OPA_load_int_sicortex OPA_store_int_sicortex OPA_load_ptr_sicortex OPA_store_ptr_sicortex
  OPA_cas_int_sicortex OPA_cas_ptr_sicortex OPA_swap_int_sicortex OPA_swap_ptr_sicortex
  OPA_fetch_and_add_int_sicortex OPA_add_int_sicortex OPA_incr_int_sicortex OPA_decr_int_sicortex
  OPA_decr_and_test_int_sicortex OPA_fetch_and_incr_int_sicortex OPA_fetch_and_decr_int_sicortex
  by unfold_locales (simp_all add: port_defs sicortex_yields)

interpretation sicortex_ordered: access_primitives "\<lambda>_. True" mem.truncate
  OPA_load_acquire_int_sicortex OPA_store_release_int_sicortex
  OPA_load_acquire_ptr_sicortex OPA_store_release_ptr_sicortex
  by unfold_locales (simp_all add: port_defs yields_def Let_def)

section \<open>Properties\<close>

text \<open>
  The SiCortex port meets the contract and wraps around, however often the machine makes a
  store-conditional fail: every loop ends after the failures still to come, with the store changed
  once.
\<close>

lemma sicortex_meets_contract:
  "wrapping_primitives (\<lambda>_. True) mem.truncate
    OPA_load_int_sicortex OPA_store_int_sicortex OPA_load_ptr_sicortex OPA_store_ptr_sicortex
    OPA_cas_int_sicortex OPA_cas_ptr_sicortex OPA_swap_int_sicortex OPA_swap_ptr_sicortex
    OPA_fetch_and_add_int_sicortex OPA_add_int_sicortex OPA_incr_int_sicortex OPA_decr_int_sicortex
    OPA_decr_and_test_int_sicortex OPA_fetch_and_incr_int_sicortex OPA_fetch_and_decr_int_sicortex"
  by (rule sicortex.wrapping_primitives_axioms)

end
