(* ===== verification/OPA_IA64.thy ===== *)
theory OPA_IA64
  imports OPA_Emulated
begin

text \<open>
  The Itanium port, \<open>src/primitives/opa_gcc_ia64.h\<close>, at \<open>OPA_SIZEOF_INT\<close> 4. Its loads, stores,
  compare-and-swaps, pointer swap and its counters by one meet the contract. Two of its functions
  do not, and the theorems at the end say exactly when: the fetch-and-add of a value that is no
  immediate of the instruction stores that value instead of the sum, and the swap of an \<open>int\<close>
  exchanges eight bytes. The acquiring and releasing accesses are disabled in the source.
\<close>

section \<open>Instructions\<close>

text \<open>
  \<open>fetchadd4\<close> adds one of eight immediates. \<open>cmpxchg4\<close> and \<open>cmpxchg8\<close> compare with \<open>ar.ccv\<close>.
  \<open>xchg8\<close> exchanges eight bytes; on an \<open>int\<close> at \<open>p\<close> these are the \<open>int\<close> at \<open>p\<close> and the one at
  \<open>p + 4\<close>, and \<open>hi\<close> is the upper half of the 64-bit register that holds the value.
\<close>

definition fetchadd4 :: "addr \<Rightarrow> c_int \<Rightarrow> mem \<Rightarrow> c_int \<times> mem" where
  "fetchadd4 p imm m = (int_at m p, st_int p (int_at m p + imm) m)"

definition cmpxchg4 :: "addr \<Rightarrow> c_int \<Rightarrow> c_int \<Rightarrow> mem \<Rightarrow> c_int \<times> mem" where
  "cmpxchg4 p ccv new m = (int_at m p, if int_at m p = ccv then st_int p new m else m)"

definition cmpxchg8 :: "addr \<Rightarrow> addr \<Rightarrow> addr \<Rightarrow> mem \<Rightarrow> addr \<times> mem" where
  "cmpxchg8 p ccv new m = (ptr_at m p, if ptr_at m p = ccv then st_ptr p new m else m)"

definition xchg8_ptr :: "addr \<Rightarrow> addr \<Rightarrow> mem \<Rightarrow> addr \<times> mem" where
  "xchg8_ptr p v m = (ptr_at m p, st_ptr p v m)"

definition xchg8_int :: "addr \<Rightarrow> c_int \<Rightarrow> c_int \<Rightarrow> mem \<Rightarrow> c_int \<times> mem" where
  "xchg8_int p hi lo m = (int_at m p, st_int (p + 4) hi (st_int p lo m))"

lemmas ia64_instructions = fetchadd4_def cmpxchg4_def cmpxchg8_def xchg8_ptr_def xchg8_int_def

section \<open>The primitives\<close>

definition OPA_load_int_ia64 :: "addr \<Rightarrow> mem \<Rightarrow> (mem, c_int) outcome" where
  [port_defs]: "OPA_load_int_ia64 ptr s = ret (int_at s ptr) s"

definition OPA_store_int_ia64 :: "addr \<Rightarrow> c_int \<Rightarrow> mem \<Rightarrow> (mem, unit) outcome" where
  [port_defs]: "OPA_store_int_ia64 ptr val s = ret () (st_int ptr val s)"

definition OPA_load_ptr_ia64 :: "addr \<Rightarrow> mem \<Rightarrow> (mem, addr) outcome" where
  [port_defs]: "OPA_load_ptr_ia64 ptr s = ret (ptr_at s ptr) s"

definition OPA_store_ptr_ia64 :: "addr \<Rightarrow> addr \<Rightarrow> mem \<Rightarrow> (mem, unit) outcome" where
  [port_defs]: "OPA_store_ptr_ia64 ptr val s = ret () (st_ptr ptr val s)"

definition OPA_decr_and_test_int_ia64 :: "addr \<Rightarrow> mem \<Rightarrow> (mem, c_int) outcome" where
  [port_defs]: "OPA_decr_and_test_int_ia64 ptr m =
     (let (val, m) = fetchadd4 ptr (- 1) m in ret (c_bool (val = 1)) m)"

definition OPA_cas_int_ia64 :: "addr \<Rightarrow> c_int \<Rightarrow> c_int \<Rightarrow> mem \<Rightarrow> (mem, c_int) outcome" where
  [port_defs]: "OPA_cas_int_ia64 ptr oldv newv m =
     (let (prev, m) = cmpxchg4 ptr oldv newv m in ret prev m)"

text \<open>The loop of the default case, which compares and swaps in \<open>val\<close> itself.\<close>

partial_function (option) ia64_faa_loop :: "addr \<Rightarrow> c_int \<Rightarrow> c_int \<Rightarrow> mem \<Rightarrow> (mem, c_int) outcome" where
  "ia64_faa_loop ptr val prev m =
     (let cmp = prev in
      bind_outcome (OPA_cas_int_ia64 ptr cmp val m) (\<lambda>prev m.
        if prev \<noteq> cmp then ia64_faa_loop ptr val prev m else ret prev m))"

definition ia64_immediates :: "c_int list" where
  "ia64_immediates = [- 16, - 8, - 4, - 1, 1, 4, 8, 16]"

definition OPA_fetch_and_add_int_ia64 :: "addr \<Rightarrow> c_int \<Rightarrow> mem \<Rightarrow> (mem, c_int) outcome" where
  "OPA_fetch_and_add_int_ia64 ptr val m =
     (if val \<in> set ia64_immediates
      then (let (prev, m) = fetchadd4 ptr val m in ret prev m)
      else bind_outcome (OPA_load_int_ia64 ptr m) (ia64_faa_loop ptr val))"

definition OPA_add_int_ia64 :: "addr \<Rightarrow> c_int \<Rightarrow> mem \<Rightarrow> (mem, unit) outcome" where
  "OPA_add_int_ia64 = OPA_add_int_by_faa OPA_fetch_and_add_int_ia64"

definition OPA_incr_int_ia64 :: "addr \<Rightarrow> mem \<Rightarrow> (mem, c_int) outcome" where
  "OPA_incr_int_ia64 = OPA_incr_int_by_faa OPA_fetch_and_add_int_ia64"

definition OPA_decr_int_ia64 :: "addr \<Rightarrow> mem \<Rightarrow> (mem, c_int) outcome" where
  "OPA_decr_int_ia64 = OPA_decr_int_by_faa OPA_fetch_and_add_int_ia64"

definition OPA_fetch_and_decr_int_ia64 :: "addr \<Rightarrow> mem \<Rightarrow> (mem, c_int) outcome" where
  "OPA_fetch_and_decr_int_ia64 = OPA_fetch_and_decr_int_by_faa OPA_fetch_and_add_int_ia64"

definition OPA_fetch_and_incr_int_ia64 :: "addr \<Rightarrow> mem \<Rightarrow> (mem, c_int) outcome" where
  "OPA_fetch_and_incr_int_ia64 = OPA_fetch_and_incr_int_by_faa OPA_fetch_and_add_int_ia64"

definition OPA_cas_ptr_ia64 :: "addr \<Rightarrow> addr \<Rightarrow> addr \<Rightarrow> mem \<Rightarrow> (mem, addr) outcome" where
  [port_defs]: "OPA_cas_ptr_ia64 ptr oldv newv m =
     (let (prev, m) = cmpxchg8 ptr oldv newv m in ret prev m)"

definition OPA_swap_ptr_ia64 :: "addr \<Rightarrow> addr \<Rightarrow> mem \<Rightarrow> (mem, addr) outcome" where
  [port_defs]: "OPA_swap_ptr_ia64 ptr val m = (let (val, m) = xchg8_ptr ptr val m in ret val m)"

definition OPA_swap_int_ia64 :: "c_int \<Rightarrow> addr \<Rightarrow> c_int \<Rightarrow> mem \<Rightarrow> (mem, c_int) outcome" where
  "OPA_swap_int_ia64 hi ptr val m = (let (val, m) = xchg8_int ptr hi val m in ret val m)"

section \<open>What meets the contract\<close>

interpretation ia64: cas_primitives "\<lambda>_. True" "\<lambda>m. m"
  OPA_load_int_ia64 OPA_store_int_ia64 OPA_load_ptr_ia64 OPA_store_ptr_ia64
  OPA_cas_int_ia64 OPA_cas_ptr_ia64
  by unfold_locales (auto simp: port_defs ia64_instructions)

lemma ia64_swap_ptr: "OPA_swap_ptr_ia64 p v m = ret (ptr_at m p) (st_ptr p v m)"
  by (simp add: port_defs ia64_instructions)

lemma ia64_faa_immediate:
  "v \<in> set ia64_immediates \<Longrightarrow>
     OPA_fetch_and_add_int_ia64 p v m = ret (int_at m p) (st_int p (int_at m p + v) m)"
  by (simp add: OPA_fetch_and_add_int_ia64_def ia64_instructions)

lemma ia64_one_immediate [simp]: "1 \<in> set ia64_immediates" "- 1 \<in> set ia64_immediates"
  by (simp_all add: ia64_immediates_def)

lemma ia64_counters_by_one:
  "OPA_incr_int_ia64 p m = ret (int_at m p) (st_int p (int_at m p + 1) m)"
  "OPA_decr_int_ia64 p m = ret (int_at m p) (st_int p (int_at m p - 1) m)"
  "OPA_fetch_and_incr_int_ia64 p m = ret (int_at m p) (st_int p (int_at m p + 1) m)"
  "OPA_fetch_and_decr_int_ia64 p m = ret (int_at m p) (st_int p (int_at m p - 1) m)"
  "OPA_decr_and_test_int_ia64 p m = ret (c_bool (int_at m p = 1)) (st_int p (int_at m p - 1) m)"
  by (simp_all add: OPA_incr_int_ia64_def OPA_decr_int_ia64_def OPA_fetch_and_incr_int_ia64_def
      OPA_fetch_and_decr_int_ia64_def OPA_incr_int_by_faa_def OPA_decr_int_by_faa_def
      OPA_fetch_and_incr_int_by_faa_def OPA_fetch_and_decr_int_by_faa_def ia64_faa_immediate
      port_defs ia64_instructions)

section \<open>What does not\<close>

lemma ia64_faa_default:
  "v \<notin> set ia64_immediates \<Longrightarrow> OPA_fetch_and_add_int_ia64 p v m = ret (int_at m p) (st_int p v m)"
  by (simp add: OPA_fetch_and_add_int_ia64_def OPA_load_int_ia64_def,
      subst ia64_faa_loop.simps, simp add: port_defs ia64_instructions)

section \<open>Properties\<close>

text \<open>
  C38. The fetch-and-add of the Itanium port is right exactly for the eight immediates of its
  instruction, and, by accident, when the variable holds 0. For any other value it stores the value
  instead of the sum.
\<close>

theorem ia64_fetch_and_add:
  "OPA_fetch_and_add_int_ia64 p v m =
     ret (int_at m p) (if v \<in> set ia64_immediates then st_int p (int_at m p + v) m else st_int p v m) \<and>
   (OPA_fetch_and_add_int_ia64 p v m = ret (int_at m p) (st_int p (int_at m p + v) m) \<longleftrightarrow>
     v \<in> set ia64_immediates \<or> int_at m p = 0)"
proof -
  have "st_int p v m = st_int p (int_at m p + v) m \<longleftrightarrow> int_at m p = 0"
  proof
    assume "st_int p v m = st_int p (int_at m p + v) m"
    then have "int_at (st_int p v m) p = int_at (st_int p (int_at m p + v) m) p" by simp
    then show "int_at m p = 0" by simp
  qed simp
  then show ?thesis
    by (cases "v \<in> set ia64_immediates") (simp_all add: ia64_faa_immediate ia64_faa_default)
qed

text \<open>
  The swap of an \<open>int\<close> of the Itanium port exchanges eight bytes: it returns the previous
  value and stores the new one, but it also overwrites the \<open>int\<close> in the next four bytes with the
  upper half of the register.
\<close>

lemma ia64_swap_int_clobbers:
  "\<exists>m'. OPA_swap_int_ia64 hi p v m = ret (int_at m p) m' \<and> int_at m' p = v \<and> int_at m' (p + 4) = hi"
  by (simp add: OPA_swap_int_ia64_def xchg8_int_def)

end
