(* ===== verification/OPA_Sun.thy ===== *)
theory OPA_Sun
  imports OPA_Contract
begin

text \<open>
  The Solaris port, \<open>src/primitives/opa_sun_atomic_ops.h\<close>. The functions of \<open><atomic.h>\<close> belong to
  the operating system and are an argument of the model; \<open>sun_documented\<close> states what the manual
  page \<open>atomic_ops(3C)\<close> says of them. \<open>OPA_int_t\<close> holds a \<open>uint_t\<close>; the casts between \<open>int\<close> and
  \<open>uint_t\<close> keep the bits. The port computes the previous value back from the new one, in signed
  arithmetic.
\<close>

section \<open>The library\<close>

record 's sun_atomics =
  atomic_add_int :: "addr \<Rightarrow> c_int \<Rightarrow> 's \<Rightarrow> ('s, unit) outcome"
  atomic_inc_uint :: "addr \<Rightarrow> 's \<Rightarrow> ('s, unit) outcome"
  atomic_dec_uint :: "addr \<Rightarrow> 's \<Rightarrow> ('s, unit) outcome"
  atomic_add_int_nv :: "addr \<Rightarrow> c_int \<Rightarrow> 's \<Rightarrow> ('s, c_int) outcome"
  atomic_inc_uint_nv :: "addr \<Rightarrow> 's \<Rightarrow> ('s, c_int) outcome"
  atomic_dec_uint_nv :: "addr \<Rightarrow> 's \<Rightarrow> ('s, c_int) outcome"
  atomic_cas_ptr :: "addr \<Rightarrow> addr \<Rightarrow> addr \<Rightarrow> 's \<Rightarrow> ('s, addr) outcome"
  atomic_cas_uint :: "addr \<Rightarrow> c_int \<Rightarrow> c_int \<Rightarrow> 's \<Rightarrow> ('s, c_int) outcome"
  atomic_swap_ptr :: "addr \<Rightarrow> addr \<Rightarrow> 's \<Rightarrow> ('s, addr) outcome"
  atomic_swap_uint :: "addr \<Rightarrow> c_int \<Rightarrow> 's \<Rightarrow> ('s, c_int) outcome"

text \<open>The functions add modulo the size of the integer; those ending in \<open>_nv\<close> return the new value,
  the compare-and-swaps and the swaps the old one.\<close>

definition sun_documented :: "mem sun_atomics \<Rightarrow> bool" where
  "sun_documented A \<longleftrightarrow>
     (\<forall>p v m. atomic_add_int A p v m = ret () (st_int p (int_at m p + v) m)) \<and>
     (\<forall>p m. atomic_inc_uint A p m = ret () (st_int p (int_at m p + 1) m)) \<and>
     (\<forall>p m. atomic_dec_uint A p m = ret () (st_int p (int_at m p - 1) m)) \<and>
     (\<forall>p v m. atomic_add_int_nv A p v m = ret (int_at m p + v) (st_int p (int_at m p + v) m)) \<and>
     (\<forall>p m. atomic_inc_uint_nv A p m = ret (int_at m p + 1) (st_int p (int_at m p + 1) m)) \<and>
     (\<forall>p m. atomic_dec_uint_nv A p m = ret (int_at m p - 1) (st_int p (int_at m p - 1) m)) \<and>
     (\<forall>p c n m. atomic_cas_ptr A p c n m =
        ret (ptr_at m p) (if ptr_at m p = c then st_ptr p n m else m)) \<and>
     (\<forall>p c n m. atomic_cas_uint A p c n m =
        ret (int_at m p) (if int_at m p = c then st_int p n m else m)) \<and>
     (\<forall>p v m. atomic_swap_ptr A p v m = ret (ptr_at m p) (st_ptr p v m)) \<and>
     (\<forall>p v m. atomic_swap_uint A p v m = ret (int_at m p) (st_int p v m))"

text \<open>Signed subtraction.\<close>

definition c_sub :: "c_int \<Rightarrow> c_int \<Rightarrow> c_fault + c_int" where
  "c_sub a b =
     (if - (2 ^ 31) \<le> sint a - sint b \<and> sint a - sint b < 2 ^ 31 then Inr (a - b)
      else Inl Signed_Overflow)"

section \<open>The primitives\<close>

definition OPA_load_int_sun :: "addr \<Rightarrow> mem \<Rightarrow> (mem, c_int) outcome" where
  [port_defs]: "OPA_load_int_sun ptr s = ret (int_at s ptr) s"

definition OPA_store_int_sun :: "addr \<Rightarrow> c_int \<Rightarrow> mem \<Rightarrow> (mem, unit) outcome" where
  [port_defs]: "OPA_store_int_sun ptr val s = ret () (st_int ptr val s)"

definition OPA_load_ptr_sun :: "addr \<Rightarrow> mem \<Rightarrow> (mem, addr) outcome" where
  [port_defs]: "OPA_load_ptr_sun ptr s = ret (ptr_at s ptr) s"

definition OPA_store_ptr_sun :: "addr \<Rightarrow> addr \<Rightarrow> mem \<Rightarrow> (mem, unit) outcome" where
  [port_defs]: "OPA_store_ptr_sun ptr val s = ret () (st_ptr ptr val s)"

definition OPA_load_acquire_int_sun :: "addr \<Rightarrow> mem \<Rightarrow> (mem, c_int) outcome" where
  [port_defs]: "OPA_load_acquire_int_sun ptr s =
     (let tmp = int_at s ptr in bind_outcome (barrier ''membar_enter'' s) (\<lambda>_ s. ret tmp s))"

definition OPA_store_release_int_sun :: "addr \<Rightarrow> c_int \<Rightarrow> mem \<Rightarrow> (mem, unit) outcome" where
  [port_defs]: "OPA_store_release_int_sun ptr val s =
     bind_outcome (barrier ''membar_exit'' s) (\<lambda>_ s. ret () (st_int ptr val s))"

definition OPA_load_acquire_ptr_sun :: "addr \<Rightarrow> mem \<Rightarrow> (mem, addr) outcome" where
  [port_defs]: "OPA_load_acquire_ptr_sun ptr s =
     (let tmp = ptr_at s ptr in bind_outcome (barrier ''membar_enter'' s) (\<lambda>_ s. ret tmp s))"

definition OPA_store_release_ptr_sun :: "addr \<Rightarrow> addr \<Rightarrow> mem \<Rightarrow> (mem, unit) outcome" where
  [port_defs]: "OPA_store_release_ptr_sun ptr val s =
     bind_outcome (barrier ''membar_exit'' s) (\<lambda>_ s. ret () (st_ptr ptr val s))"

definition OPA_add_int_sun :: "mem sun_atomics \<Rightarrow> addr \<Rightarrow> c_int \<Rightarrow> mem \<Rightarrow> (mem, unit) outcome" where
  [port_defs]: "OPA_add_int_sun A ptr val m =
     atomic_add_int A ptr val m"

definition OPA_incr_int_sun :: "mem sun_atomics \<Rightarrow> addr \<Rightarrow> mem \<Rightarrow> (mem, unit) outcome" where
  [port_defs]: "OPA_incr_int_sun A ptr m =
     atomic_inc_uint A ptr m"

definition OPA_decr_int_sun :: "mem sun_atomics \<Rightarrow> addr \<Rightarrow> mem \<Rightarrow> (mem, unit) outcome" where
  [port_defs]: "OPA_decr_int_sun A ptr m =
     atomic_dec_uint A ptr m"

definition OPA_decr_and_test_int_sun :: "mem sun_atomics \<Rightarrow> addr \<Rightarrow> mem \<Rightarrow> (mem, c_int) outcome" where
  [port_defs]: "OPA_decr_and_test_int_sun A ptr m =
     bind_outcome (atomic_dec_uint_nv A ptr m) (\<lambda>nv m. ret (c_bool (nv = 0)) m)"

definition OPA_fetch_and_add_int_sun :: "mem sun_atomics \<Rightarrow> addr \<Rightarrow> c_int \<Rightarrow> mem \<Rightarrow> (mem, c_int) outcome" where
  [port_defs]: "OPA_fetch_and_add_int_sun A ptr val m =
     bind_outcome (atomic_add_int_nv A ptr val m) (\<lambda>nv m. c_value (c_sub nv val) m)"

definition OPA_fetch_and_decr_int_sun :: "mem sun_atomics \<Rightarrow> addr \<Rightarrow> mem \<Rightarrow> (mem, c_int) outcome" where
  [port_defs]: "OPA_fetch_and_decr_int_sun A ptr m =
     bind_outcome (atomic_dec_uint_nv A ptr m) (\<lambda>nv m. c_value (c_add nv 1) m)"

definition OPA_fetch_and_incr_int_sun :: "mem sun_atomics \<Rightarrow> addr \<Rightarrow> mem \<Rightarrow> (mem, c_int) outcome" where
  [port_defs]: "OPA_fetch_and_incr_int_sun A ptr m =
     bind_outcome (atomic_inc_uint_nv A ptr m) (\<lambda>nv m. c_value (c_sub nv 1) m)"

definition OPA_cas_ptr_sun :: "mem sun_atomics \<Rightarrow> addr \<Rightarrow> addr \<Rightarrow> addr \<Rightarrow> mem \<Rightarrow> (mem, addr) outcome" where
  [port_defs]: "OPA_cas_ptr_sun A ptr oldv newv m =
     atomic_cas_ptr A ptr oldv newv m"

definition OPA_cas_int_sun :: "mem sun_atomics \<Rightarrow> addr \<Rightarrow> c_int \<Rightarrow> c_int \<Rightarrow> mem \<Rightarrow> (mem, c_int) outcome" where
  [port_defs]: "OPA_cas_int_sun A ptr oldv newv m =
     atomic_cas_uint A ptr oldv newv m"

definition OPA_swap_ptr_sun :: "mem sun_atomics \<Rightarrow> addr \<Rightarrow> addr \<Rightarrow> mem \<Rightarrow> (mem, addr) outcome" where
  [port_defs]: "OPA_swap_ptr_sun A ptr val m =
     atomic_swap_ptr A ptr val m"

definition OPA_swap_int_sun :: "mem sun_atomics \<Rightarrow> addr \<Rightarrow> c_int \<Rightarrow> mem \<Rightarrow> (mem, c_int) outcome" where
  [port_defs]: "OPA_swap_int_sun A ptr val m =
     atomic_swap_uint A ptr val m"

section \<open>The contract\<close>

text \<open>An implementation that behaves as documented.\<close>

definition sun_reference :: "mem sun_atomics" where
  "sun_reference = \<lparr>
     atomic_add_int = (\<lambda>p v m. ret () (st_int p (int_at m p + v) m)),
     atomic_inc_uint = (\<lambda>p m. ret () (st_int p (int_at m p + 1) m)),
     atomic_dec_uint = (\<lambda>p m. ret () (st_int p (int_at m p - 1) m)),
     atomic_add_int_nv = (\<lambda>p v m. ret (int_at m p + v) (st_int p (int_at m p + v) m)),
     atomic_inc_uint_nv = (\<lambda>p m. ret (int_at m p + 1) (st_int p (int_at m p + 1) m)),
     atomic_dec_uint_nv = (\<lambda>p m. ret (int_at m p - 1) (st_int p (int_at m p - 1) m)),
     atomic_cas_ptr = (\<lambda>p c n m. ret (ptr_at m p) (if ptr_at m p = c then st_ptr p n m else m)),
     atomic_cas_uint = (\<lambda>p c n m. ret (int_at m p) (if int_at m p = c then st_int p n m else m)),
     atomic_swap_ptr = (\<lambda>p v m. ret (ptr_at m p) (st_ptr p v m)),
     atomic_swap_uint = (\<lambda>p v m. ret (int_at m p) (st_int p v m))\<rparr>"

lemma sun_reference_documented: "sun_documented sun_reference"
  by (simp add: sun_documented_def sun_reference_def)

lemma c_sub_back: "no_overflow a b \<Longrightarrow> c_sub (a + b) b = Inr a"
  using sint_range [of a] by (simp add: c_sub_def no_overflow_sint)

lemma sint_plus_cases:
  "sint (a + b :: c_int) \<in> {sint a + sint b, sint a + sint b - 2 ^ 32, sint a + sint b + 2 ^ 32}"
proof -
  have "sint (a + b) = signed_take_bit 31 (sint a + sint b)"
    by (simp add: sint_word_ariths)
  also have "\<dots> = (sint a + sint b + 2 ^ 31) mod 2 ^ 32 - 2 ^ 31"
    by (simp add: signed_take_bit_eq_take_bit_shift take_bit_eq_mod)
  finally have *: "sint (a + b) = (sint a + sint b + 2 ^ 31) mod 2 ^ 32 - 2 ^ 31" .
  let ?x = "sint a + sint b + 2 ^ 31"
  have range: "- (2 ^ 32) \<le> ?x" "?x < 2 ^ 32 + 2 ^ 32"
    using sint_range [of a] sint_range [of b] by simp_all
  consider "?x < 0" | "0 \<le> ?x" "?x < 2 ^ 32" | "2 ^ 32 \<le> ?x" by linarith
  then have "?x mod 2 ^ 32 \<in> {?x, ?x - 2 ^ 32, ?x + 2 ^ 32}"
  proof cases
    case 1
    with range have "(?x + 2 ^ 32) mod 2 ^ 32 = ?x + 2 ^ 32" by (intro mod_pos_pos_trivial) simp_all
    then show ?thesis by (simp only: mod_add_self2) simp
  next
    case 2
    then show ?thesis by (simp add: mod_pos_pos_trivial)
  next
    case 3
    with range have "(?x - 2 ^ 32) mod 2 ^ 32 = ?x - 2 ^ 32" by (intro mod_pos_pos_trivial) simp_all
    then show ?thesis by (simp only: minus_mod_self2) simp
  qed
  then show ?thesis unfolding * by auto
qed

lemma c_sub_overflow: "\<not> no_overflow a b \<Longrightarrow> c_sub (a + b) b = Inl Signed_Overflow"
  using sint_plus_cases [of a b] sint_range [of a] sint_range [of "a + b"]
  by (auto simp: c_sub_def no_overflow_def)

lemma c_add_back: "no_overflow a (- 1) \<Longrightarrow> c_add (a - 1) 1 = Inr a"
  using sint_range [of a] no_overflow_sint [of a "- 1"] by (simp add: c_add_def no_overflow_def)

lemma sun_port:
  assumes "sun_documented A"
  shows "opa_primitives (\<lambda>_. True) (\<lambda>m. m)
    OPA_load_int_sun OPA_store_int_sun OPA_load_ptr_sun OPA_store_ptr_sun
    (OPA_cas_int_sun A) (OPA_cas_ptr_sun A) (OPA_swap_int_sun A) (OPA_swap_ptr_sun A)
    (OPA_fetch_and_add_int_sun A) (OPA_add_int_sun A) (OPA_incr_int_sun A) (OPA_decr_int_sun A)
    (OPA_decr_and_test_int_sun A) (OPA_fetch_and_incr_int_sun A) (OPA_fetch_and_decr_int_sun A)"
  by unfold_locales
    (use assms in \<open>simp_all add: sun_documented_def port_defs c_sub_back c_add_back\<close>)

interpretation sun_ordered: access_primitives "\<lambda>_. True" "\<lambda>m. m"
  OPA_load_acquire_int_sun OPA_store_release_int_sun
  OPA_load_acquire_ptr_sun OPA_store_release_ptr_sun
  by unfold_locales (simp_all add: port_defs Let_def)

section \<open>Properties\<close>

text \<open>
  The Solaris port meets the contract on every implementation of \<open><atomic.h>\<close> that behaves as
  documented.
\<close>

lemma sun_meets_contract:
  assumes "sun_documented A"
  shows "opa_primitives (\<lambda>_. True) (\<lambda>m. m)
    OPA_load_int_sun OPA_store_int_sun OPA_load_ptr_sun OPA_store_ptr_sun
    (OPA_cas_int_sun A) (OPA_cas_ptr_sun A) (OPA_swap_int_sun A) (OPA_swap_ptr_sun A)
    (OPA_fetch_and_add_int_sun A) (OPA_add_int_sun A) (OPA_incr_int_sun A) (OPA_decr_int_sun A)
    (OPA_decr_and_test_int_sun A) (OPA_fetch_and_incr_int_sun A) (OPA_fetch_and_decr_int_sun A)"
  by (rule sun_port [OF assms])

theorem sun_meets_contract_witness:
  "opa_primitives (\<lambda>_. True) (\<lambda>m. m)
    OPA_load_int_sun OPA_store_int_sun OPA_load_ptr_sun OPA_store_ptr_sun
    (OPA_cas_int_sun sun_reference) (OPA_cas_ptr_sun sun_reference) (OPA_swap_int_sun sun_reference) (OPA_swap_ptr_sun sun_reference)
    (OPA_fetch_and_add_int_sun sun_reference) (OPA_add_int_sun sun_reference) (OPA_incr_int_sun sun_reference) (OPA_decr_int_sun sun_reference)
    (OPA_decr_and_test_int_sun sun_reference) (OPA_fetch_and_incr_int_sun sun_reference) (OPA_fetch_and_decr_int_sun sun_reference)"
  by (rule sun_meets_contract [OF sun_reference_documented])

text \<open>
  The Solaris port computes the previous value back in signed arithmetic: where the other
  ports wrap around, its fetch-and-add updates the variable and then overflows.
\<close>

lemma sun_fetch_and_add_overflows:
  assumes "sun_documented A"
  shows "OPA_fetch_and_add_int_sun A p v m =
    (if no_overflow (int_at m p) v then ret (int_at m p) (st_int p (int_at m p + v) m)
     else fault Signed_Overflow)"
  using assms
  by (simp add: sun_documented_def OPA_fetch_and_add_int_sun_def c_sub_back c_sub_overflow)

end
