(* ===== verification/OPA_NT.thy ===== *)
theory OPA_NT
  imports OPA_Emulated
begin

text \<open>
  The Windows port, \<open>src/primitives/opa_nt_intrinsics.h\<close>, at \<open>OPA_SIZEOF_VOID_P\<close> 8. The interlocked
  functions belong to the compiler's \<open><intrin.h>\<close> and are an argument of the model;
  \<open>nt_documented\<close> states their documented behaviour. \<open>long\<close> has 32 bits on Windows, so the casts
  keep every bit. The compare-exchange functions take the new value before the comparand.
\<close>

section \<open>The library\<close>

record 's nt_intrinsics =
  InterlockedExchangeAdd :: "addr \<Rightarrow> c_int \<Rightarrow> 's \<Rightarrow> ('s, c_int) outcome"
  InterlockedIncrement :: "addr \<Rightarrow> 's \<Rightarrow> ('s, c_int) outcome"
  InterlockedDecrement :: "addr \<Rightarrow> 's \<Rightarrow> ('s, c_int) outcome"
  InterlockedCompareExchange :: "addr \<Rightarrow> c_int \<Rightarrow> c_int \<Rightarrow> 's \<Rightarrow> ('s, c_int) outcome"
  InterlockedCompareExchange64 :: "addr \<Rightarrow> addr \<Rightarrow> addr \<Rightarrow> 's \<Rightarrow> ('s, addr) outcome"
  InterlockedExchange :: "addr \<Rightarrow> c_int \<Rightarrow> 's \<Rightarrow> ('s, c_int) outcome"
  InterlockedExchange64 :: "addr \<Rightarrow> addr \<Rightarrow> 's \<Rightarrow> ('s, addr) outcome"

text \<open>Increment and decrement return the new value, the others the initial one.\<close>

definition nt_documented :: "mem nt_intrinsics \<Rightarrow> bool" where
  "nt_documented A \<longleftrightarrow>
     (\<forall>p v m. InterlockedExchangeAdd A p v m = ret (int_at m p) (st_int p (int_at m p + v) m)) \<and>
     (\<forall>p m. InterlockedIncrement A p m = ret (int_at m p + 1) (st_int p (int_at m p + 1) m)) \<and>
     (\<forall>p m. InterlockedDecrement A p m = ret (int_at m p - 1) (st_int p (int_at m p - 1) m)) \<and>
     (\<forall>p n c m. InterlockedCompareExchange A p n c m =
        ret (int_at m p) (if int_at m p = c then st_int p n m else m)) \<and>
     (\<forall>p n c m. InterlockedCompareExchange64 A p n c m =
        ret (ptr_at m p) (if ptr_at m p = c then st_ptr p n m else m)) \<and>
     (\<forall>p v m. InterlockedExchange A p v m = ret (int_at m p) (st_int p v m)) \<and>
     (\<forall>p v m. InterlockedExchange64 A p v m = ret (ptr_at m p) (st_ptr p v m))"

section \<open>The primitives\<close>

definition OPA_load_int_nt :: "addr \<Rightarrow> mem \<Rightarrow> (mem, c_int) outcome" where
  [port_defs]: "OPA_load_int_nt ptr s = ret (int_at s ptr) s"

definition OPA_store_int_nt :: "addr \<Rightarrow> c_int \<Rightarrow> mem \<Rightarrow> (mem, unit) outcome" where
  [port_defs]: "OPA_store_int_nt ptr val s = ret () (st_int ptr val s)"

definition OPA_load_ptr_nt :: "addr \<Rightarrow> mem \<Rightarrow> (mem, addr) outcome" where
  [port_defs]: "OPA_load_ptr_nt ptr s = ret (ptr_at s ptr) s"

definition OPA_store_ptr_nt :: "addr \<Rightarrow> addr \<Rightarrow> mem \<Rightarrow> (mem, unit) outcome" where
  [port_defs]: "OPA_store_ptr_nt ptr val s = ret () (st_ptr ptr val s)"

definition OPA_load_acquire_int_nt :: "addr \<Rightarrow> mem \<Rightarrow> (mem, c_int) outcome" where
  [port_defs]: "OPA_load_acquire_int_nt ptr s =
     (let tmp = int_at s ptr in bind_outcome (barrier ''_ReadWriteBarrier'' s) (\<lambda>_ s. ret tmp s))"

definition OPA_store_release_int_nt :: "addr \<Rightarrow> c_int \<Rightarrow> mem \<Rightarrow> (mem, unit) outcome" where
  [port_defs]: "OPA_store_release_int_nt ptr val s =
     bind_outcome (barrier ''_ReadWriteBarrier'' s) (\<lambda>_ s. ret () (st_int ptr val s))"

definition OPA_load_acquire_ptr_nt :: "addr \<Rightarrow> mem \<Rightarrow> (mem, addr) outcome" where
  [port_defs]: "OPA_load_acquire_ptr_nt ptr s =
     (let tmp = ptr_at s ptr in bind_outcome (barrier ''_ReadWriteBarrier'' s) (\<lambda>_ s. ret tmp s))"

definition OPA_store_release_ptr_nt :: "addr \<Rightarrow> addr \<Rightarrow> mem \<Rightarrow> (mem, unit) outcome" where
  [port_defs]: "OPA_store_release_ptr_nt ptr val s =
     bind_outcome (barrier ''_ReadWriteBarrier'' s) (\<lambda>_ s. ret () (st_ptr ptr val s))"

definition OPA_add_int_nt :: "mem nt_intrinsics \<Rightarrow> addr \<Rightarrow> c_int \<Rightarrow> mem \<Rightarrow> (mem, unit) outcome" where
  [port_defs]: "OPA_add_int_nt A ptr val m =
     void (InterlockedExchangeAdd A ptr val m)"

definition OPA_incr_int_nt :: "mem nt_intrinsics \<Rightarrow> addr \<Rightarrow> mem \<Rightarrow> (mem, unit) outcome" where
  [port_defs]: "OPA_incr_int_nt A ptr m =
     void (InterlockedIncrement A ptr m)"

definition OPA_decr_int_nt :: "mem nt_intrinsics \<Rightarrow> addr \<Rightarrow> mem \<Rightarrow> (mem, unit) outcome" where
  [port_defs]: "OPA_decr_int_nt A ptr m =
     void (InterlockedDecrement A ptr m)"

definition OPA_decr_and_test_int_nt :: "mem nt_intrinsics \<Rightarrow> addr \<Rightarrow> mem \<Rightarrow> (mem, c_int) outcome" where
  [port_defs]: "OPA_decr_and_test_int_nt A ptr m =
     bind_outcome (InterlockedDecrement A ptr m) (\<lambda>nv m. ret (c_bool (nv = 0)) m)"

definition OPA_fetch_and_add_int_nt :: "mem nt_intrinsics \<Rightarrow> addr \<Rightarrow> c_int \<Rightarrow> mem \<Rightarrow> (mem, c_int) outcome" where
  [port_defs]: "OPA_fetch_and_add_int_nt A ptr val m =
     InterlockedExchangeAdd A ptr val m"

definition OPA_cas_ptr_nt :: "mem nt_intrinsics \<Rightarrow> addr \<Rightarrow> addr \<Rightarrow> addr \<Rightarrow> mem \<Rightarrow> (mem, addr) outcome" where
  [port_defs]: "OPA_cas_ptr_nt A ptr oldv newv m =
     InterlockedCompareExchange64 A ptr newv oldv m"

definition OPA_swap_ptr_nt :: "mem nt_intrinsics \<Rightarrow> addr \<Rightarrow> addr \<Rightarrow> mem \<Rightarrow> (mem, addr) outcome" where
  [port_defs]: "OPA_swap_ptr_nt A ptr val m =
     InterlockedExchange64 A ptr val m"

definition OPA_cas_int_nt :: "mem nt_intrinsics \<Rightarrow> addr \<Rightarrow> c_int \<Rightarrow> c_int \<Rightarrow> mem \<Rightarrow> (mem, c_int) outcome" where
  [port_defs]: "OPA_cas_int_nt A ptr oldv newv m =
     InterlockedCompareExchange A ptr newv oldv m"

definition OPA_swap_int_nt :: "mem nt_intrinsics \<Rightarrow> addr \<Rightarrow> c_int \<Rightarrow> mem \<Rightarrow> (mem, c_int) outcome" where
  [port_defs]: "OPA_swap_int_nt A ptr val m =
     InterlockedExchange A ptr val m"

definition OPA_fetch_and_incr_int_nt :: "mem nt_intrinsics \<Rightarrow> addr \<Rightarrow> mem \<Rightarrow> (mem, c_int) outcome" where
  [port_defs]: "OPA_fetch_and_incr_int_nt A ptr m =
     OPA_fetch_and_incr_int_by_faa (OPA_fetch_and_add_int_nt A) ptr m"

definition OPA_fetch_and_decr_int_nt :: "mem nt_intrinsics \<Rightarrow> addr \<Rightarrow> mem \<Rightarrow> (mem, c_int) outcome" where
  [port_defs]: "OPA_fetch_and_decr_int_nt A ptr m =
     OPA_fetch_and_decr_int_by_faa (OPA_fetch_and_add_int_nt A) ptr m"

section \<open>The contract\<close>

text \<open>An implementation that behaves as documented.\<close>

definition nt_reference :: "mem nt_intrinsics" where
  "nt_reference = \<lparr>
     InterlockedExchangeAdd = (\<lambda>p v m. ret (int_at m p) (st_int p (int_at m p + v) m)),
     InterlockedIncrement = (\<lambda>p m. ret (int_at m p + 1) (st_int p (int_at m p + 1) m)),
     InterlockedDecrement = (\<lambda>p m. ret (int_at m p - 1) (st_int p (int_at m p - 1) m)),
     InterlockedCompareExchange =
       (\<lambda>p n c m. ret (int_at m p) (if int_at m p = c then st_int p n m else m)),
     InterlockedCompareExchange64 =
       (\<lambda>p n c m. ret (ptr_at m p) (if ptr_at m p = c then st_ptr p n m else m)),
     InterlockedExchange = (\<lambda>p v m. ret (int_at m p) (st_int p v m)),
     InterlockedExchange64 = (\<lambda>p v m. ret (ptr_at m p) (st_ptr p v m))\<rparr>"

lemma nt_reference_documented: "nt_documented nt_reference"
  by (simp add: nt_documented_def nt_reference_def)

lemma nt_port:
  assumes "nt_documented A"
  shows "wrapping_primitives (\<lambda>_. True) (\<lambda>m. m)
    OPA_load_int_nt OPA_store_int_nt OPA_load_ptr_nt OPA_store_ptr_nt
    (OPA_cas_int_nt A) (OPA_cas_ptr_nt A) (OPA_swap_int_nt A) (OPA_swap_ptr_nt A)
    (OPA_fetch_and_add_int_nt A) (OPA_add_int_nt A) (OPA_incr_int_nt A) (OPA_decr_int_nt A)
    (OPA_decr_and_test_int_nt A) (OPA_fetch_and_incr_int_nt A) (OPA_fetch_and_decr_int_nt A)"
  by unfold_locales
    (use assms in \<open>simp_all add: nt_documented_def port_defs void_def
      OPA_fetch_and_incr_int_by_faa_def OPA_fetch_and_decr_int_by_faa_def\<close>)

interpretation nt_ordered: access_primitives "\<lambda>_. True" "\<lambda>m. m"
  OPA_load_acquire_int_nt OPA_store_release_int_nt
  OPA_load_acquire_ptr_nt OPA_store_release_ptr_nt
  by unfold_locales (simp_all add: port_defs Let_def)

section \<open>Properties\<close>

text \<open>
  The Windows port meets the contract and wraps around, on every implementation of the
  interlocked functions that behaves as documented.
\<close>

lemma nt_meets_contract:
  assumes "nt_documented A"
  shows "wrapping_primitives (\<lambda>_. True) (\<lambda>m. m)
    OPA_load_int_nt OPA_store_int_nt OPA_load_ptr_nt OPA_store_ptr_nt
    (OPA_cas_int_nt A) (OPA_cas_ptr_nt A) (OPA_swap_int_nt A) (OPA_swap_ptr_nt A)
    (OPA_fetch_and_add_int_nt A) (OPA_add_int_nt A) (OPA_incr_int_nt A) (OPA_decr_int_nt A)
    (OPA_decr_and_test_int_nt A) (OPA_fetch_and_incr_int_nt A) (OPA_fetch_and_decr_int_nt A)"
  by (rule nt_port [OF assms])

theorem nt_meets_contract_witness:
  "wrapping_primitives (\<lambda>_. True) (\<lambda>m. m)
    OPA_load_int_nt OPA_store_int_nt OPA_load_ptr_nt OPA_store_ptr_nt
    (OPA_cas_int_nt nt_reference) (OPA_cas_ptr_nt nt_reference) (OPA_swap_int_nt nt_reference) (OPA_swap_ptr_nt nt_reference)
    (OPA_fetch_and_add_int_nt nt_reference) (OPA_add_int_nt nt_reference) (OPA_incr_int_nt nt_reference) (OPA_decr_int_nt nt_reference)
    (OPA_decr_and_test_int_nt nt_reference) (OPA_fetch_and_incr_int_nt nt_reference) (OPA_fetch_and_decr_int_nt nt_reference)"
  by (rule nt_meets_contract [OF nt_reference_documented])

end
