(* ===== verification/OPA_Ports.thy ===== *)
theory OPA_Ports
  imports OPA_Queue_Facts OPA_Intel OPA_C11 OPA_Gcc_Intrinsics OPA_Llsc_Ports OPA_Sicortex
    OPA_IA64 OPA_Sun OPA_NT OPA_Config
begin

text \<open>
  The layers put together. A port derives the primitives its processor lacks by the emulations; the
  whole interface runs the sanity program; and the queue runs over the pointer primitives of any
  port, with plain accesses for the assignment of structures. The locale \<open>queue_port\<close> is the bridge
  from the contract of the primitives to that of the queue, and every port is an instance of it.
\<close>

section \<open>From the primitives to the queue\<close>



















section \<open>The port that is included\<close>

text \<open>
  The contract of \<open>opa_primitives.h\<close> for the functions a platform header defines, the stronger one
  where the port wraps around. \<open>A\<close> and \<open>W\<close> stand for \<open><atomic.h>\<close> and the Windows functions,
  \<open>hi\<close> for the upper half of the register in the Itanium's exchange.
\<close>

fun meets_contract :: "mem sun_atomics \<Rightarrow> mem nt_intrinsics \<Rightarrow> bool \<Rightarrow> c_int \<Rightarrow> port \<Rightarrow> bool" where
  "meets_contract A W tas_is_swap hi Unsafe \<longleftrightarrow> opa_primitives (\<lambda>_. True) (\<lambda>m. m)
     OPA_load_int_unsafe OPA_store_int_unsafe OPA_load_ptr_unsafe OPA_store_ptr_unsafe
     OPA_cas_int_unsafe OPA_cas_ptr_unsafe OPA_swap_int_unsafe OPA_swap_ptr_unsafe
     OPA_fetch_and_add_int_unsafe OPA_add_int_unsafe OPA_incr_int_unsafe OPA_decr_int_unsafe
     OPA_decr_and_test_int_unsafe OPA_fetch_and_incr_int_unsafe OPA_fetch_and_decr_int_unsafe"
| "meets_contract A W tas_is_swap hi C11 \<longleftrightarrow> wrapping_primitives (\<lambda>_. True) (\<lambda>m. m)
     OPA_load_int_c11 OPA_store_int_c11 OPA_load_ptr_c11 OPA_store_ptr_c11
     OPA_cas_int_c11 OPA_cas_ptr_c11 OPA_swap_int_c11 OPA_swap_ptr_c11
     OPA_fetch_and_add_int_c11 OPA_add_int_c11 OPA_incr_int_c11 OPA_decr_int_c11
     OPA_decr_and_test_int_c11 OPA_fetch_and_incr_int_c11 OPA_fetch_and_decr_int_c11"
| "meets_contract A W tas_is_swap hi Gcc_Ppc \<longleftrightarrow> opa_primitives (\<lambda>_. True) mem.truncate
     OPA_load_int_ppc OPA_store_int_ppc OPA_load_ptr_ppc OPA_store_ptr_ppc
     OPA_cas_int_ppc OPA_cas_ptr_ppc OPA_swap_int_ppc OPA_swap_ptr_ppc
     OPA_fetch_and_add_int_ppc OPA_add_int_ppc OPA_incr_int_ppc OPA_decr_int_ppc
     OPA_decr_and_test_int_ppc OPA_fetch_and_incr_int_ppc OPA_fetch_and_decr_int_ppc"
| "meets_contract A W tas_is_swap hi Gcc_Arm \<longleftrightarrow> opa_primitives (\<lambda>_. True) mem.truncate
     OPA_load_int_arm OPA_store_int_arm OPA_load_ptr_arm OPA_store_ptr_arm
     OPA_cas_int_arm OPA_cas_ptr_arm OPA_swap_int_arm OPA_swap_ptr_arm
     OPA_fetch_and_add_int_arm OPA_add_int_arm OPA_incr_int_arm OPA_decr_int_arm
     OPA_decr_and_test_int_arm OPA_fetch_and_incr_int_arm OPA_fetch_and_decr_int_arm"
| "meets_contract A W tas_is_swap hi Gcc_X86 \<longleftrightarrow> wrapping_primitives (\<lambda>_. True) (\<lambda>m. m)
     OPA_load_int_intel OPA_store_int_intel OPA_load_ptr_intel OPA_store_ptr_intel
     OPA_cas_int_intel OPA_cas_ptr_intel OPA_swap_int_intel OPA_swap_ptr_intel
     OPA_fetch_and_add_int_intel OPA_add_int_intel OPA_incr_int_intel OPA_decr_int_intel
     OPA_decr_and_test_int_intel OPA_fetch_and_incr_int_intel OPA_fetch_and_decr_int_intel"
| "meets_contract A W tas_is_swap hi Gcc_X86_P3 \<longleftrightarrow> wrapping_primitives (\<lambda>_. True) (\<lambda>m. m)
     OPA_load_int_intel OPA_store_int_intel OPA_load_ptr_intel OPA_store_ptr_intel
     OPA_cas_int_intel OPA_cas_ptr_intel OPA_swap_int_intel OPA_swap_ptr_intel
     OPA_fetch_and_add_int_intel OPA_add_int_intel OPA_incr_int_intel OPA_decr_int_intel
     OPA_decr_and_test_int_intel OPA_fetch_and_incr_int_intel OPA_fetch_and_decr_int_intel"
| "meets_contract A W tas_is_swap hi Gcc_IA64 \<longleftrightarrow> opa_primitives (\<lambda>_. True) (\<lambda>m. m)
     OPA_load_int_ia64 OPA_store_int_ia64 OPA_load_ptr_ia64 OPA_store_ptr_ia64
     OPA_cas_int_ia64 OPA_cas_ptr_ia64 (OPA_swap_int_ia64 hi) OPA_swap_ptr_ia64
     OPA_fetch_and_add_int_ia64 OPA_add_int_ia64 (\<lambda>p m. void (OPA_incr_int_ia64 p m))
     (\<lambda>p m. void (OPA_decr_int_ia64 p m))
     OPA_decr_and_test_int_ia64 OPA_fetch_and_incr_int_ia64 OPA_fetch_and_decr_int_ia64"
| "meets_contract A W tas_is_swap hi Gcc_Sicortex \<longleftrightarrow> wrapping_primitives (\<lambda>_. True) mem.truncate
     OPA_load_int_sicortex OPA_store_int_sicortex OPA_load_ptr_sicortex OPA_store_ptr_sicortex
     OPA_cas_int_sicortex OPA_cas_ptr_sicortex OPA_swap_int_sicortex OPA_swap_ptr_sicortex
     OPA_fetch_and_add_int_sicortex OPA_add_int_sicortex OPA_incr_int_sicortex OPA_decr_int_sicortex
     OPA_decr_and_test_int_sicortex OPA_fetch_and_incr_int_sicortex OPA_fetch_and_decr_int_sicortex"
| "meets_contract A W tas_is_swap hi Gcc_Intrinsics \<longleftrightarrow> wrapping_primitives (\<lambda>_. True) (\<lambda>m. m)
     OPA_load_int_gcc OPA_store_int_gcc OPA_load_ptr_gcc OPA_store_ptr_gcc
     OPA_cas_int_gcc OPA_cas_ptr_gcc (OPA_swap_int_gcc tas_is_swap) (OPA_swap_ptr_gcc tas_is_swap)
     OPA_fetch_and_add_int_gcc OPA_add_int_gcc OPA_incr_int_gcc OPA_decr_int_gcc
     OPA_decr_and_test_int_gcc OPA_fetch_and_incr_int_gcc OPA_fetch_and_decr_int_gcc"
| "meets_contract A W tas_is_swap hi Sun \<longleftrightarrow> opa_primitives (\<lambda>_. True) (\<lambda>m. m)
     OPA_load_int_sun OPA_store_int_sun OPA_load_ptr_sun OPA_store_ptr_sun
     (OPA_cas_int_sun A) (OPA_cas_ptr_sun A) (OPA_swap_int_sun A) (OPA_swap_ptr_sun A)
     (OPA_fetch_and_add_int_sun A) (OPA_add_int_sun A) (OPA_incr_int_sun A) (OPA_decr_int_sun A)
     (OPA_decr_and_test_int_sun A) (OPA_fetch_and_incr_int_sun A) (OPA_fetch_and_decr_int_sun A)"
| "meets_contract A W tas_is_swap hi NT \<longleftrightarrow> wrapping_primitives (\<lambda>_. True) (\<lambda>m. m)
     OPA_load_int_nt OPA_store_int_nt OPA_load_ptr_nt OPA_store_ptr_nt
     (OPA_cas_int_nt W) (OPA_cas_ptr_nt W) (OPA_swap_int_nt W) (OPA_swap_ptr_nt W)
     (OPA_fetch_and_add_int_nt W) (OPA_add_int_nt W) (OPA_incr_int_nt W) (OPA_decr_int_nt W)
     (OPA_decr_and_test_int_nt W) (OPA_fetch_and_incr_int_nt W) (OPA_fetch_and_decr_int_nt W)"
| "meets_contract A W tas_is_swap hi By_Lock \<longleftrightarrow> opa_primitives lock_ready mem.truncate
     OPA_load_int_by_lock OPA_store_int_by_lock OPA_load_ptr_by_lock OPA_store_ptr_by_lock
     OPA_cas_int_by_lock OPA_cas_ptr_by_lock OPA_swap_int_by_lock OPA_swap_ptr_by_lock
     OPA_fetch_and_add_int_by_lock OPA_add_int_by_lock OPA_incr_int_by_lock OPA_decr_int_by_lock
     OPA_decr_and_test_int_by_lock OPA_fetch_and_incr_int_by_lock OPA_fetch_and_decr_int_by_lock"

lemma ports_meet_contract:
  "meets_contract A W tas_is_swap hi Unsafe" "meets_contract A W tas_is_swap hi C11"
  "meets_contract A W tas_is_swap hi Gcc_Ppc" "meets_contract A W tas_is_swap hi Gcc_Arm"
  "meets_contract A W tas_is_swap hi Gcc_X86" "meets_contract A W tas_is_swap hi Gcc_X86_P3"
  "meets_contract A W tas_is_swap hi Gcc_Sicortex" "meets_contract A W tas_is_swap hi Gcc_Intrinsics"
  "meets_contract A W tas_is_swap hi By_Lock"
  unfolding meets_contract.simps
  by (rule unsafe.opa_primitives_axioms c11.wrapping_primitives_axioms
      ppc_port.opa_primitives_axioms arm_port.opa_primitives_axioms intel.wrapping_primitives_axioms
      sicortex.wrapping_primitives_axioms gcc.wrapping_primitives_axioms by_lock.opa_primitives_axioms)+

lemma system_ports_meet_contract:
  "sun_documented A \<Longrightarrow> meets_contract A W tas_is_swap hi Sun"
  "nt_documented W \<Longrightarrow> meets_contract A W tas_is_swap hi NT"
  unfolding meets_contract.simps by (rule sun_port nt_port; assumption)+

lemma ia64_breaks_contract: "\<not> meets_contract A W tas_is_swap hi Gcc_IA64"
proof
  assume "meets_contract A W tas_is_swap hi Gcc_IA64"
  then have faa: "faa_primitive (\<lambda>_. True) (\<lambda>m. m) OPA_fetch_and_add_int_ia64"
    by (simp add: opa_primitives_def counter_primitives_def)
  let ?m = "st_int 64 1 zero_mem"
  have "no_overflow (int_at ?m 64) 2" by (simp add: no_overflow_def)
  from faa_primitive.faa_law [OF faa TrueI this]
  have "yields (\<lambda>_. True) (\<lambda>m. m) (OPA_fetch_and_add_int_ia64 64 2 ?m) (int_at ?m 64)
    (st_int 64 (int_at ?m 64 + 2) ?m)" .
  moreover have "OPA_fetch_and_add_int_ia64 64 2 ?m = ret (int_at ?m 64) (st_int 64 2 ?m)"
    by (rule ia64_faa_default) (simp add: ia64_immediates_def)
  ultimately have "st_int 64 2 ?m = st_int 64 (int_at ?m 64 + 2) ?m" by (auto simp: yields_def)
  then have "int_at (st_int 64 2 ?m) 64 = int_at (st_int 64 (int_at ?m 64 + 2) ?m) 64" by simp
  then show False by simp
qed

section \<open>Properties\<close>

text \<open>
  A port with loads and compare-and-swaps that meet their contract gets a swap and a
  fetch-and-add that meet theirs from the loops of \<open>opa_emulated.h\<close>, and from the fetch-and-add all
  the other counters.
\<close>

lemma emulation_by_cas:
  assumes "cas_primitives ok view load_int store_int load_p store_p cas_int cas_p"
  shows "opa_primitives ok view load_int store_int load_p store_p cas_int cas_p
    (OPA_swap_int_by_cas load_int cas_int) (OPA_swap_ptr_by_cas load_p cas_p)
    (OPA_fetch_and_add_int_by_cas load_int cas_int)
    (OPA_add_int_by_faa (OPA_fetch_and_add_int_by_cas load_int cas_int))
    (OPA_incr_int_by_add (OPA_add_int_by_faa (OPA_fetch_and_add_int_by_cas load_int cas_int)))
    (OPA_decr_int_by_add (OPA_add_int_by_faa (OPA_fetch_and_add_int_by_cas load_int cas_int)))
    (OPA_decr_and_test_int_by_fad
      (OPA_fetch_and_decr_int_by_faa (OPA_fetch_and_add_int_by_cas load_int cas_int)))
    (OPA_fetch_and_incr_int_by_faa (OPA_fetch_and_add_int_by_cas load_int cas_int))
    (OPA_fetch_and_decr_int_by_faa (OPA_fetch_and_add_int_by_cas load_int cas_int))"
  by (rule cas_primitives.cas_gives_all [OF assms])

theorem emulation_by_cas_witness:
  "opa_primitives (\<lambda>_. True) (\<lambda>m. m)
    OPA_load_int_ia64 OPA_store_int_ia64 OPA_load_ptr_ia64 OPA_store_ptr_ia64
    OPA_cas_int_ia64 OPA_cas_ptr_ia64
    (OPA_swap_int_by_cas OPA_load_int_ia64 OPA_cas_int_ia64)
    (OPA_swap_ptr_by_cas OPA_load_ptr_ia64 OPA_cas_ptr_ia64)
    (OPA_fetch_and_add_int_by_cas OPA_load_int_ia64 OPA_cas_int_ia64)
    (OPA_add_int_by_faa (OPA_fetch_and_add_int_by_cas OPA_load_int_ia64 OPA_cas_int_ia64))
    (OPA_incr_int_by_add
      (OPA_add_int_by_faa (OPA_fetch_and_add_int_by_cas OPA_load_int_ia64 OPA_cas_int_ia64)))
    (OPA_decr_int_by_add
      (OPA_add_int_by_faa (OPA_fetch_and_add_int_by_cas OPA_load_int_ia64 OPA_cas_int_ia64)))
    (OPA_decr_and_test_int_by_fad (OPA_fetch_and_decr_int_by_faa
      (OPA_fetch_and_add_int_by_cas OPA_load_int_ia64 OPA_cas_int_ia64)))
    (OPA_fetch_and_incr_int_by_faa (OPA_fetch_and_add_int_by_cas OPA_load_int_ia64 OPA_cas_int_ia64))
    (OPA_fetch_and_decr_int_by_faa (OPA_fetch_and_add_int_by_cas OPA_load_int_ia64 OPA_cas_int_ia64))"
  by (rule emulation_by_cas [OF ia64.cas_primitives_axioms])

text \<open>
  A port whose load-linked and store-conditional meet their contract, store-conditionals
  failing only finitely often, gets all the primitives from the loops of \<open>opa_emulated.h\<close>.
\<close>

lemma emulation_by_llsc:
  assumes "llsc_primitives ok view load_int store_int load_p store_p L reserved failures"
  shows "opa_primitives ok view load_int store_int load_p store_p
    (OPA_cas_int_by_llsc L) (OPA_cas_ptr_by_llsc L) (OPA_swap_int_by_llsc L)
    (OPA_swap_ptr_by_llsc L) (OPA_fetch_and_add_int_by_llsc L) (OPA_add_int_by_llsc L)
    (OPA_incr_int_by_llsc L) (OPA_decr_int_by_llsc L) (OPA_decr_and_test_int_by_llsc L)
    (OPA_fetch_and_incr_int_by_llsc L) (OPA_fetch_and_decr_int_by_llsc L)"
  by (rule llsc_primitives.llsc_gives_all [OF assms])

theorem emulation_by_llsc_witness:
  "opa_primitives (\<lambda>_. True) mem.truncate OPA_load_int_arm OPA_store_int_arm OPA_load_ptr_arm OPA_store_ptr_arm
    (OPA_cas_int_by_llsc arm_llsc) (OPA_cas_ptr_by_llsc arm_llsc) (OPA_swap_int_by_llsc arm_llsc)
    (OPA_swap_ptr_by_llsc arm_llsc) (OPA_fetch_and_add_int_by_llsc arm_llsc)
    (OPA_add_int_by_llsc arm_llsc) (OPA_incr_int_by_llsc arm_llsc) (OPA_decr_int_by_llsc arm_llsc)
    (OPA_decr_and_test_int_by_llsc arm_llsc) (OPA_fetch_and_incr_int_by_llsc arm_llsc)
    (OPA_fetch_and_decr_int_by_llsc arm_llsc)"
  by (rule emulation_by_llsc [OF arm.llsc_primitives_axioms])



text \<open>
  The sanity program of the primitives passes on every port that meets the contract: run on
  two different variables, whatever they hold before, all its assertions are true and it leaves 1
  in both.
\<close>

lemma primitives_sanity_test_passes:
  assumes "opa_primitives ok view load_int store_int load_p store_p cas_int cas_p swap_int swap_p
      fetch_and_add_int add_int incr_int decr_int decr_and_test_int fetch_and_incr_int fetch_and_decr_int"
    and "ok s" and "a \<noteq> b"
  shows "\<exists>s'. sanity_main load_int store_int add_int cas_int swap_int a b s = ret True s' \<and> ok s' \<and>
    view s' = st_int a 1 (st_int b 1 (view s))"
  using opa_primitives.sanity_passes [OF assms] by (auto simp: yields_def)

theorem primitives_sanity_test_passes_witness:
  "\<exists>s'. sanity_main OPA_load_int_intel OPA_store_int_intel OPA_add_int_intel OPA_cas_int_intel
     OPA_swap_int_intel 64 128 zero_mem = ret True s'"
  using primitives_sanity_test_passes [OF intel.opa_primitives_axioms TrueI, of 64 128 zero_mem] by auto

text \<open>
  C31. Whatever is configured. The header that \<open>opa_primitives.h\<close> includes under any macros meets
  the contract of the interface, if the functions of the operating system it calls behave as
  documented, unless it is the one for Itanium, which does not; no header is included only when no
  macro is defined.
\<close>

theorem included_port_meets_contract:
  assumes "sun_documented A" and "nt_documented W"
  shows "case included_port c of None \<Rightarrow> c = no_macros
    | Some p \<Rightarrow> meets_contract A W tas_is_swap hi p \<longleftrightarrow> p \<noteq> Gcc_IA64"
proof (cases "included_port c")
  case None
  then have "c = no_macros" by (rule included_port_error [THEN iffD1])
  then show ?thesis unfolding None by simp
next
  case (Some p)
  have "meets_contract A W tas_is_swap hi p" if "p \<noteq> Gcc_IA64"
    using that ports_meet_contract [of A W tas_is_swap hi]
      system_ports_meet_contract(1) [OF assms(1), of W tas_is_swap hi]
      system_ports_meet_contract(2) [OF assms(2), of A tas_is_swap hi]
    by (cases p) (simp_all only: simp_thms)
  with ia64_breaks_contract show ?thesis unfolding Some option.case by blast
qed

theorem included_port_meets_contract_witness:
  "meets_contract sun_reference nt_reference True 0 Gcc_X86 \<and>
   \<not> meets_contract sun_reference nt_reference True 0 Gcc_IA64"
  using included_port_meets_contract [OF sun_reference_documented nt_reference_documented,
      of "no_macros\<lparr>OPA_HAVE_GCC_X86_32_64 := True\<rparr>" True 0]
    included_port_meets_contract [OF sun_reference_documented nt_reference_documented,
      of "no_macros\<lparr>OPA_HAVE_GCC_AND_IA64_ASM := True\<rparr>" True 0]
  by (simp add: included_port_def no_macros_def del: meets_contract.simps)

end
