(* ===== verification/OPA_Barrier_Sanity.thy ===== *)
theory OPA_Barrier_Sanity
  imports OPA_Ports
begin

text \<open>
  \<open>test_barriers_sanity\<close> of \<open>test/test_barriers.c\<close>, as a client of the primitives together with the
  acquire loads and release stores of a port: on one thread, neither these nor the barriers between
  the operations interfere. The locale is the interface the test uses; every port that has it and
  calls no function of the system is an interpretation. The test also tells the fetch-and-add of the Itanium port from a right one.
\<close>

section \<open>The interface\<close>

locale ordered_primitives =
  opa_primitives ok view load_int store_int load_ptr store_ptr cas_int cas_ptr swap_int swap_ptr
    fetch_and_add_int add_int incr_int decr_int decr_and_test_int fetch_and_incr_int fetch_and_decr_int +
  ordered: access_primitives ok view load_acquire_int store_release_int load_acquire_ptr store_release_ptr
  for ok :: "'s \<Rightarrow> bool"
    and view :: "'s \<Rightarrow> mem"
    and load_int store_int load_ptr store_ptr cas_int cas_ptr swap_int swap_ptr
      fetch_and_add_int add_int incr_int decr_int decr_and_test_int
      fetch_and_incr_int fetch_and_decr_int
      load_acquire_int store_release_int load_acquire_ptr store_release_ptr

section \<open>The program\<close>

text \<open>
  The two series of sums on the shared \<open>a\<close> and the local \<open>b\<close>, by the three functions that change
  \<open>a\<close>, with the value expected at the end; then the acquire loads and release stores. \<open>False\<close>
  is the jump to the label \<open>error\<close>. On one thread a barrier does nothing.
\<close>

definition checked_sums ::
  "(addr \<Rightarrow> 's \<Rightarrow> ('s, c_int) outcome) \<Rightarrow> addr \<Rightarrow> c_int \<Rightarrow> c_int \<Rightarrow> 's \<Rightarrow> ('s, bool) outcome" where
  "checked_sums load a expected b s =
     bind_outcome (load a s) (\<lambda>v s.
     if v \<noteq> expected then ret False s
     else bind_outcome (load a s) (\<lambda>v s. ret (b = v) s))"

definition first_sums ::
  "(addr \<Rightarrow> 's \<Rightarrow> ('s, c_int) outcome) \<Rightarrow> (addr \<Rightarrow> c_int \<Rightarrow> 's \<Rightarrow> ('s, unit) outcome) \<Rightarrow>
   (addr \<Rightarrow> c_int \<Rightarrow> 's \<Rightarrow> ('s, unit) outcome) \<Rightarrow> (addr \<Rightarrow> 's \<Rightarrow> ('s, unit) outcome) \<Rightarrow>
   (addr \<Rightarrow> 's \<Rightarrow> ('s, unit) outcome) \<Rightarrow> addr \<Rightarrow> 's \<Rightarrow> ('s, bool) outcome" where
  "first_sums load store add incr decr a s =
     bind_outcome (store a 0 s) (\<lambda>_ s. let b = 0 in
     bind_outcome (add a INT_MIN s) (\<lambda>_ s. bind_outcome (c_value (c_add b INT_MIN) s) (\<lambda>b s.
     bind_outcome (incr a s) (\<lambda>_ s. bind_outcome (c_value (c_add b 1) s) (\<lambda>b s.
     bind_outcome (add a INT_MAX s) (\<lambda>_ s. bind_outcome (c_value (c_add b INT_MAX) s) (\<lambda>b s.
     bind_outcome (decr a s) (\<lambda>_ s. bind_outcome (c_value (c_add b (- 1)) s) (\<lambda>b s.
       checked_sums load a (INT_MIN + 1 + INT_MAX - 1) b s)))))))))"

definition second_sums ::
  "(addr \<Rightarrow> 's \<Rightarrow> ('s, c_int) outcome) \<Rightarrow> (addr \<Rightarrow> c_int \<Rightarrow> 's \<Rightarrow> ('s, unit) outcome) \<Rightarrow>
   (addr \<Rightarrow> c_int \<Rightarrow> 's \<Rightarrow> ('s, unit) outcome) \<Rightarrow> (addr \<Rightarrow> 's \<Rightarrow> ('s, unit) outcome) \<Rightarrow>
   (addr \<Rightarrow> 's \<Rightarrow> ('s, unit) outcome) \<Rightarrow> addr \<Rightarrow> 's \<Rightarrow> ('s, bool) outcome" where
  "second_sums load store add incr decr a s =
     bind_outcome (store a 0 s) (\<lambda>_ s. let b = 0 in
     bind_outcome (add a INT_MAX s) (\<lambda>_ s. bind_outcome (c_value (c_add b INT_MAX) s) (\<lambda>b s.
     bind_outcome (decr a s) (\<lambda>_ s. bind_outcome (c_value (c_add b (- 1)) s) (\<lambda>b s.
     bind_outcome (add a INT_MIN s) (\<lambda>_ s. bind_outcome (c_value (c_add b INT_MIN) s) (\<lambda>b s.
     bind_outcome (incr a s) (\<lambda>_ s. bind_outcome (c_value (c_add b 1) s) (\<lambda>b s.
       checked_sums load a (INT_MAX - 1 + INT_MIN + 1) b s)))))))))"

definition acquire_release_int ::
  "(addr \<Rightarrow> c_int \<Rightarrow> 's \<Rightarrow> ('s, unit) outcome) \<Rightarrow> (addr \<Rightarrow> 's \<Rightarrow> ('s, c_int) outcome) \<Rightarrow>
   (addr \<Rightarrow> c_int \<Rightarrow> 's \<Rightarrow> ('s, unit) outcome) \<Rightarrow> addr \<Rightarrow> 's \<Rightarrow> ('s, bool) outcome" where
  "acquire_release_int store load_acquire store_release a s =
     bind_outcome (store a 5 s) (\<lambda>_ s.
     bind_outcome (load_acquire a s) (\<lambda>b s.
     if b \<noteq> 5 then ret False s
     else bind_outcome (store_release a 0 s) (\<lambda>_ s.
       bind_outcome (load_acquire a s) (\<lambda>b s. ret (b = 0) s))))"

definition acquire_release_ptr ::
  "(addr \<Rightarrow> addr \<Rightarrow> 's \<Rightarrow> ('s, unit) outcome) \<Rightarrow> (addr \<Rightarrow> 's \<Rightarrow> ('s, addr) outcome) \<Rightarrow>
   (addr \<Rightarrow> addr \<Rightarrow> 's \<Rightarrow> ('s, unit) outcome) \<Rightarrow> addr \<Rightarrow> addr \<Rightarrow> 's \<Rightarrow> ('s, bool) outcome" where
  "acquire_release_ptr store load_acquire store_release op obj s =
     bind_outcome (store op obj s) (\<lambda>_ s.
     bind_outcome (load_acquire op s) (\<lambda>p s.
     if p \<noteq> obj then ret False s
     else bind_outcome (store_release op 0 s) (\<lambda>_ s.
       bind_outcome (load_acquire op s) (\<lambda>p s. ret (p = 0) s))))"

definition if_passed :: "('s, bool) outcome \<Rightarrow> ('s \<Rightarrow> ('s, bool) outcome) \<Rightarrow> ('s, bool) outcome" where
  "if_passed out k = bind_outcome out (\<lambda>passed s. if passed then k s else ret False s)"

definition test_barriers_sanity ::
  "(addr \<Rightarrow> 's \<Rightarrow> ('s, c_int) outcome) \<Rightarrow> (addr \<Rightarrow> c_int \<Rightarrow> 's \<Rightarrow> ('s, unit) outcome) \<Rightarrow>
   (addr \<Rightarrow> addr \<Rightarrow> 's \<Rightarrow> ('s, unit) outcome) \<Rightarrow>
   (addr \<Rightarrow> c_int \<Rightarrow> 's \<Rightarrow> ('s, unit) outcome) \<Rightarrow> (addr \<Rightarrow> 's \<Rightarrow> ('s, unit) outcome) \<Rightarrow>
   (addr \<Rightarrow> 's \<Rightarrow> ('s, unit) outcome) \<Rightarrow>
   (addr \<Rightarrow> 's \<Rightarrow> ('s, c_int) outcome) \<Rightarrow> (addr \<Rightarrow> c_int \<Rightarrow> 's \<Rightarrow> ('s, unit) outcome) \<Rightarrow>
   (addr \<Rightarrow> 's \<Rightarrow> ('s, addr) outcome) \<Rightarrow> (addr \<Rightarrow> addr \<Rightarrow> 's \<Rightarrow> ('s, unit) outcome) \<Rightarrow>
   addr \<Rightarrow> addr \<Rightarrow> addr \<Rightarrow> 's \<Rightarrow> ('s, bool) outcome" where
  "test_barriers_sanity load store store_p add incr decr load_acq store_rel load_acq_p store_rel_p a op obj s =
     if_passed (first_sums load store add incr decr a s) (\<lambda>s.
     if_passed (second_sums load store add incr decr a s) (\<lambda>s.
     if_passed (acquire_release_int store load_acq store_rel a s) (\<lambda>s.
       acquire_release_ptr store_p load_acq_p store_rel_p op obj s)))"

section \<open>It passes\<close>

lemma yields_if_passed:
  "yields ok view out True m \<Longrightarrow> (\<And>s. ok s \<Longrightarrow> view s = m \<Longrightarrow> yields ok view (k s) r m') \<Longrightarrow>
     yields ok view (if_passed out k) r m'"
  unfolding if_passed_def by (erule yields_bind) simp

context ordered_primitives
begin

lemma store_then: "ok s \<Longrightarrow> (\<And>t. ok t \<Longrightarrow> view t = st_int p v (view s) \<Longrightarrow> yields ok view (k () t) r m) \<Longrightarrow>
    yields ok view (bind_outcome (store_int p v s) k) r m"
  by (rule yields_bind [OF store_int_law]) auto

text \<open>One sum on the variable and the same one on the local copy.\<close>

lemma both_add:
  assumes "ok s" and "view s = st_int p b m" and n: "no_overflow b v"
    and "\<And>t. ok t \<Longrightarrow> view t = st_int p (b + v) m \<Longrightarrow> yields ok view (k (b + v) t) r m'"
  shows "yields ok view (bind_outcome (add_int p v s) (\<lambda>_ s. bind_outcome (c_value (c_add b v) s) k)) r m'"
    and "v = 1 \<Longrightarrow> yields ok view (bind_outcome (incr_int p s) (\<lambda>_ s. bind_outcome (c_value (c_add b v) s) k)) r m'"
    and "v = - 1 \<Longrightarrow>
      yields ok view (bind_outcome (decr_int p s) (\<lambda>_ s. bind_outcome (c_value (c_add b v) s) k)) r m'"
proof -
  note b = assms(2) c_value_add [OF n]
  show "yields ok view (bind_outcome (add_int p v s) (\<lambda>_ s. bind_outcome (c_value (c_add b v) s) k)) r m'"
    by (rule yields_bind [OF add_law [OF assms(1)]]) (use n in \<open>simp_all add: b assms(4)\<close>)
  show "yields ok view (bind_outcome (incr_int p s) (\<lambda>_ s. bind_outcome (c_value (c_add b v) s) k)) r m'" if "v = 1"
    by (rule yields_bind [OF incr_law [OF assms(1)]]) (use n assms(2,4) in \<open>simp_all add: that c_value_add\<close>)
  show "yields ok view (bind_outcome (decr_int p s) (\<lambda>_ s. bind_outcome (c_value (c_add b v) s) k)) r m'" if "v = - 1"
    by (rule yields_bind [OF decr_law [OF assms(1)]]) (use n assms(2,4) in \<open>simp_all add: that c_value_add\<close>)
qed

lemma sums_checked: "ok s \<Longrightarrow> view s = st_int a b m \<Longrightarrow> b = e \<Longrightarrow>
    yields ok view (checked_sums load_int a e b s) True (st_int a e m)"
  unfolding checked_sums_def
  by (rule yields_bind [OF load_int_law], assumption)
    (auto intro!: yields_bind [OF load_int_law])

lemmas sums_defs = INT_MIN_def INT_MAX_def no_overflow_def

lemma first_sums_pass: "ok s \<Longrightarrow>
    yields ok view (first_sums load_int store_int add_int incr_int decr_int a s) True (st_int a (- 1) (view s))"
  unfolding first_sums_def Let_def
  apply (rule store_then, assumption)
  apply (rule both_add(1), assumption, assumption, simp add: sums_defs)
  apply (rule both_add(2), assumption, assumption, simp add: sums_defs)
  subgoal
    apply (rule both_add(1), assumption, assumption, simp add: sums_defs)
    apply (rule both_add(3), assumption, assumption, simp add: sums_defs)
    subgoal by (drule sums_checked) (simp_all add: INT_MIN_def INT_MAX_def)
    subgoal by simp
    done
  subgoal by simp
  done

lemma second_sums_pass: "ok s \<Longrightarrow>
    yields ok view (second_sums load_int store_int add_int incr_int decr_int a s) True (st_int a (- 1) (view s))"
  unfolding second_sums_def Let_def
  apply (rule store_then, assumption)
  apply (rule both_add(1), assumption, assumption, simp add: sums_defs)
  apply (rule both_add(3), assumption, assumption, simp add: sums_defs)
  subgoal
    apply (rule both_add(1), assumption, assumption, simp add: sums_defs)
    apply (rule both_add(2), assumption, assumption, simp add: sums_defs)
    subgoal by (drule sums_checked) (simp_all add: INT_MIN_def INT_MAX_def)
    subgoal by simp
    done
  subgoal by simp
  done

lemma acquire_release_pass: "ok s \<Longrightarrow>
    yields ok view (acquire_release_int store_int load_acquire_int store_release_int a s) True (st_int a 0 (view s))"
  unfolding acquire_release_int_def
  apply (rule store_then, assumption)
  apply (rule yields_bind [OF ordered.load_int_law], assumption)
  apply simp
  apply (rule yields_bind [OF ordered.store_int_law], assumption)
  apply (rule yields_bind [OF ordered.load_int_law], assumption)
  apply simp
  done

lemma acquire_release_ptr_pass: "ok s \<Longrightarrow>
    yields ok view (acquire_release_ptr store_ptr load_acquire_ptr store_release_ptr op obj s) True
      (st_ptr op 0 (view s))"
  unfolding acquire_release_ptr_def
  apply (rule yields_bind [OF store_ptr_law], assumption)
  apply (rule yields_bind [OF ordered.load_ptr_law], assumption)
  apply simp
  apply (rule yields_bind [OF ordered.store_ptr_law], assumption)
  apply (rule yields_bind [OF ordered.load_ptr_law], assumption)
  apply (simp add: st_ptr_def)
  done

lemma barriers_sanity_passes:
  "ok s \<Longrightarrow> yields ok view
     (test_barriers_sanity load_int store_int store_ptr add_int incr_int decr_int load_acquire_int
       store_release_int load_acquire_ptr store_release_ptr a op obj s) True (st_ptr op 0 (st_int a 0 (view s)))"
  unfolding test_barriers_sanity_def
  apply (rule yields_if_passed [OF first_sums_pass], assumption)
  apply (rule yields_if_passed [OF second_sums_pass], assumption)
  apply (rule yields_if_passed [OF acquire_release_pass], assumption)
  subgoal for s1 s2 s3 using acquire_release_ptr_pass [of s3 op obj] by simp
  done

end

text \<open>The ports that have the whole interface without a library of the system.\<close>

interpretation unsafe_full: ordered_primitives "\<lambda>_. True" "\<lambda>m. m"
  OPA_load_int_unsafe OPA_store_int_unsafe OPA_load_ptr_unsafe OPA_store_ptr_unsafe
  OPA_cas_int_unsafe OPA_cas_ptr_unsafe
  OPA_swap_int_unsafe OPA_swap_ptr_unsafe
  OPA_fetch_and_add_int_unsafe OPA_add_int_unsafe OPA_incr_int_unsafe
  OPA_decr_int_unsafe OPA_decr_and_test_int_unsafe OPA_fetch_and_incr_int_unsafe
  OPA_fetch_and_decr_int_unsafe
  OPA_load_acquire_int_unsafe OPA_store_release_int_unsafe OPA_load_acquire_ptr_unsafe OPA_store_release_ptr_unsafe
  by unfold_locales

interpretation c11_full: ordered_primitives "\<lambda>_. True" "\<lambda>m. m"
  OPA_load_int_c11 OPA_store_int_c11 OPA_load_ptr_c11 OPA_store_ptr_c11
  OPA_cas_int_c11 OPA_cas_ptr_c11
  OPA_swap_int_c11 OPA_swap_ptr_c11
  OPA_fetch_and_add_int_c11 OPA_add_int_c11 OPA_incr_int_c11
  OPA_decr_int_c11 OPA_decr_and_test_int_c11 OPA_fetch_and_incr_int_c11
  OPA_fetch_and_decr_int_c11
  OPA_load_acquire_int_c11 OPA_store_release_int_c11 OPA_load_acquire_ptr_c11 OPA_store_release_ptr_c11
  by unfold_locales

interpretation intel_full: ordered_primitives "\<lambda>_. True" "\<lambda>m. m"
  OPA_load_int_intel OPA_store_int_intel OPA_load_ptr_intel OPA_store_ptr_intel
  OPA_cas_int_intel OPA_cas_ptr_intel
  OPA_swap_int_intel OPA_swap_ptr_intel
  OPA_fetch_and_add_int_intel OPA_add_int_intel OPA_incr_int_intel
  OPA_decr_int_intel OPA_decr_and_test_int_intel OPA_fetch_and_incr_int_intel
  OPA_fetch_and_decr_int_intel
  OPA_load_acquire_int_intel OPA_store_release_int_intel OPA_load_acquire_ptr_intel OPA_store_release_ptr_intel
  by unfold_locales

interpretation ppc_full: ordered_primitives "\<lambda>_. True" mem.truncate
  OPA_load_int_ppc OPA_store_int_ppc OPA_load_ptr_ppc OPA_store_ptr_ppc
  OPA_cas_int_ppc OPA_cas_ptr_ppc
  OPA_swap_int_ppc OPA_swap_ptr_ppc
  OPA_fetch_and_add_int_ppc OPA_add_int_ppc OPA_incr_int_ppc
  OPA_decr_int_ppc OPA_decr_and_test_int_ppc OPA_fetch_and_incr_int_ppc
  OPA_fetch_and_decr_int_ppc
  OPA_load_acquire_int_ppc OPA_store_release_int_ppc OPA_load_acquire_ptr_ppc OPA_store_release_ptr_ppc
  by unfold_locales

interpretation arm_full: ordered_primitives "\<lambda>_. True" mem.truncate
  OPA_load_int_arm OPA_store_int_arm OPA_load_ptr_arm OPA_store_ptr_arm
  OPA_cas_int_arm OPA_cas_ptr_arm
  OPA_swap_int_arm OPA_swap_ptr_arm
  OPA_fetch_and_add_int_arm OPA_add_int_arm OPA_incr_int_arm
  OPA_decr_int_arm OPA_decr_and_test_int_arm OPA_fetch_and_incr_int_arm
  OPA_fetch_and_decr_int_arm
  OPA_load_acquire_int_arm OPA_store_release_int_arm OPA_load_acquire_ptr_arm OPA_store_release_ptr_arm
  by unfold_locales

interpretation sicortex_full: ordered_primitives "\<lambda>_. True" mem.truncate
  OPA_load_int_sicortex OPA_store_int_sicortex OPA_load_ptr_sicortex OPA_store_ptr_sicortex
  OPA_cas_int_sicortex OPA_cas_ptr_sicortex
  OPA_swap_int_sicortex OPA_swap_ptr_sicortex
  OPA_fetch_and_add_int_sicortex OPA_add_int_sicortex OPA_incr_int_sicortex
  OPA_decr_int_sicortex OPA_decr_and_test_int_sicortex OPA_fetch_and_incr_int_sicortex
  OPA_fetch_and_decr_int_sicortex
  OPA_load_acquire_int_sicortex OPA_store_release_int_sicortex OPA_load_acquire_ptr_sicortex OPA_store_release_ptr_sicortex
  by unfold_locales

interpretation by_lock_full: ordered_primitives "lock_ready" mem.truncate
  OPA_load_int_by_lock OPA_store_int_by_lock OPA_load_ptr_by_lock OPA_store_ptr_by_lock
  OPA_cas_int_by_lock OPA_cas_ptr_by_lock
  OPA_swap_int_by_lock OPA_swap_ptr_by_lock
  OPA_fetch_and_add_int_by_lock OPA_add_int_by_lock OPA_incr_int_by_lock
  OPA_decr_int_by_lock OPA_decr_and_test_int_by_lock OPA_fetch_and_incr_int_by_lock
  OPA_fetch_and_decr_int_by_lock
  OPA_load_acquire_int_by_lock OPA_store_release_int_by_lock OPA_load_acquire_ptr_by_lock OPA_store_release_ptr_by_lock
  by unfold_locales

interpretation gcc_full: ordered_primitives "\<lambda>_. True" "\<lambda>m. m"
  OPA_load_int_gcc OPA_store_int_gcc OPA_load_ptr_gcc OPA_store_ptr_gcc
  OPA_cas_int_gcc OPA_cas_ptr_gcc
  "OPA_swap_int_gcc tas_is_swap" "OPA_swap_ptr_gcc tas_is_swap"
  OPA_fetch_and_add_int_gcc OPA_add_int_gcc OPA_incr_int_gcc
  OPA_decr_int_gcc OPA_decr_and_test_int_gcc OPA_fetch_and_incr_int_gcc
  OPA_fetch_and_decr_int_gcc
  OPA_load_acquire_int_gcc OPA_store_release_int_gcc OPA_load_acquire_ptr_gcc OPA_store_release_ptr_gcc
  for tas_is_swap
  by unfold_locales

text \<open>
  The sanity test of the barriers passes on every port with the whole interface, whatever the memory
  holds before.
\<close>

lemma barriers_sanity_test_passes:
  assumes "ordered_primitives ok view load_int store_int load_p store_p cas_int cas_p swap_int swap_p
      fetch_and_add_int add_int incr_int decr_int decr_and_test_int fetch_and_incr_int fetch_and_decr_int
      load_acq store_rel load_acq_p store_rel_p"
    and "ok s"
  shows "\<exists>s'. test_barriers_sanity load_int store_int store_p add_int incr_int decr_int load_acq store_rel
      load_acq_p store_rel_p a op obj s = ret True s' \<and> ok s'"
  using ordered_primitives.barriers_sanity_passes [OF assms, of a op obj] by (auto simp: yields_def)

lemma barriers_sanity_on_arm:
  "\<exists>s'. test_barriers_sanity OPA_load_int_arm OPA_store_int_arm OPA_store_ptr_arm OPA_add_int_arm
     OPA_incr_int_arm OPA_decr_int_arm OPA_load_acquire_int_arm OPA_store_release_int_arm
     OPA_load_acquire_ptr_arm OPA_store_release_ptr_arm a op obj s = ret True s'"
  using barriers_sanity_test_passes [OF arm_full.ordered_primitives_axioms TrueI, of a op obj s] by auto

text \<open>
  On Itanium the first series of sums ends with another value than the expected one: the
  fetch-and-add of \<open>INT_MAX\<close> stores \<open>INT_MAX\<close> instead of the sum.
\<close>

lemma barriers_sanity_finds_ia64:
  "\<exists>m'. test_barriers_sanity OPA_load_int_ia64 OPA_store_int_ia64 OPA_store_ptr_ia64 OPA_add_int_ia64
     (\<lambda>p m. void (OPA_incr_int_ia64 p m)) (\<lambda>p m. void (OPA_decr_int_ia64 p m))
     load_acq store_rel load_acq_p store_rel_p a op obj m = ret False m'"
proof -
  have add: "v \<notin> set ia64_immediates \<Longrightarrow> OPA_add_int_ia64 p v m = ret () (st_int p v m)" for p v m
    by (simp add: OPA_add_int_ia64_def OPA_add_int_by_faa_def ia64_faa_default void_def)
  have step: "v \<in> {1, - 1} \<Longrightarrow> OPA_fetch_and_add_int_ia64 p v m = ret (int_at m p) (st_int p (int_at m p + v) m)" for p v m
    by (auto simp: OPA_fetch_and_add_int_ia64_def ia64_immediates_def ia64_instructions)
  show ?thesis
    by (simp add: test_barriers_sanity_def if_passed_def first_sums_def checked_sums_def add step Let_def
        ia64_immediates_def INT_MIN_def INT_MAX_def c_value_add no_overflow_def void_def port_defs
        OPA_incr_int_ia64_def OPA_decr_int_ia64_def OPA_incr_int_by_faa_def OPA_decr_int_by_faa_def)
qed

end
