(* ===== verification/OPA_Handover.thy ===== *)
theory OPA_Handover
  imports OPA_Reorder
begin

text \<open>
  Handing data over on the machine of \<open>OPA_Reorder\<close>: a thread stores data and then a mark, others
  load the mark and then the data. The lemma \<open>taken_over\<close> is what the acquire loads and release
  stores of the library and the link stores of its queue have in common: who has loaded the mark has
  the data, whatever else these threads and the others do at other places.
\<close>

section \<open>The shape of the threads\<close>

text \<open>
  An access that changes none of the places \<open>P\<close> and does not write the mark \<open>e\<close> to \<open>flag\<close>, and one
  that leaves the local variables up to \<open>n\<close> alone.
\<close>

fun harmless :: "nat set \<Rightarrow> nat \<Rightarrow> c_int \<Rightarrow> access \<Rightarrow> bool" where
  "harmless P flag e (Load v r) = True"
| "harmless P flag e (Store v x) = (v \<notin> P \<and> (v = flag \<longrightarrow> x \<noteq> e))"
| "harmless P flag e (Incr v) = (v \<notin> P \<and> v \<noteq> flag)"
| "harmless P flag e (Swap v x r) = (v \<notin> P \<and> (v = flag \<longrightarrow> x \<noteq> e))"
| "harmless P flag e (Cas v y x r) = (v \<notin> P \<and> (v = flag \<longrightarrow> x \<noteq> e))"

fun local_above :: "nat \<Rightarrow> access \<Rightarrow> bool" where
  "local_above n (Load v r) = (n < r)"
| "local_above n (Store v x) = True"
| "local_above n (Incr v) = True"
| "local_above n (Swap v x r) = (n < r)"
| "local_above n (Cas v y x r) = (n < r)"

fun event_ok :: "(access \<Rightarrow> bool) \<Rightarrow> event \<Rightarrow> bool" where
  "event_ok Q (Access f a) = Q a"
| "event_ok Q (Barrier h) = True"

lemma event_ok_if:
  "event_ok (\<lambda>a. if b then P a else Q a) x = (if b then event_ok P x else event_ok Q x)"
  by (cases x) simp_all

lemma harmless_place:
  "harmless P flag e a \<Longrightarrow> v \<in> P \<Longrightarrow> m_mem (do_access t a m) v = m_mem m v"
  by (cases a) auto

lemma harmless_flag:
  "harmless P flag e a \<Longrightarrow> m_mem m flag \<noteq> e \<Longrightarrow> m_mem (do_access t a m) flag \<noteq> e"
  by (cases a) auto

lemma local_above_same: "local_above n a \<Longrightarrow> r \<le> n \<Longrightarrow> m_local (do_access t a m) t r = m_local m t r"
  by (cases a) auto

text \<open>
  The first accesses of the thread that hands over are the stores of the data, and the access \<open>r\<close>
  is that of the mark; they are in order, directly or by way of accesses in between.
\<close>

definition hands_over :: "rules \<Rightarrow> (nat \<times> c_int) list \<Rightarrow> nat \<Rightarrow> c_int \<Rightarrow> nat \<Rightarrow> event list \<Rightarrow> bool" where
  "hands_over ru ds flag e r es \<longleftrightarrow> length ds \<le> r \<and> r < length es \<and> (\<forall>i < length ds. (before ru es)\<^sup>+\<^sup>+ i r) \<and>
     (\<forall>i < length es. event_ok (\<lambda>a. if i < length ds then a = Store (fst (ds ! i)) (snd (ds ! i))
        else if i = r then a = Store flag e else harmless (fst ` set ds) flag e a) (es ! i))"

text \<open>A thread that takes over loads the mark by the access \<open>c\<close> and the data from the access \<open>b\<close> on.\<close>

definition takes_over :: "rules \<Rightarrow> (nat \<times> c_int) list \<Rightarrow> nat \<Rightarrow> c_int \<Rightarrow> nat \<Rightarrow> nat \<Rightarrow> event list \<Rightarrow> bool" where
  "takes_over ru ds flag e c b es \<longleftrightarrow> c < b \<and>
     (\<forall>k < length ds. b + k < length es \<and> is_access (es ! (b + k)) \<and> before ru es c (b + k)) \<and>
     (\<forall>i < length es. event_ok (\<lambda>a. if i = c then a = Load flag 0
        else if b \<le> i \<and> i < b + length ds then a = Load (fst (ds ! (i - b))) (Suc (i - b))
        else harmless (fst ` set ds) flag e a \<and> local_above (length ds) a) (es ! i))"

definition stands_by :: "(nat \<times> c_int) list \<Rightarrow> nat \<Rightarrow> c_int \<Rightarrow> event list \<Rightarrow> bool" where
  "stands_by ds flag e es \<longleftrightarrow> (\<forall>x \<in> set es. event_ok (harmless (fst ` set ds) flag e) x)"

text \<open>Thread 0 hands over, those of \<open>C\<close> take over, all others stand by.\<close>

definition handover ::
  "rules \<Rightarrow> (nat \<times> c_int) list \<Rightarrow> nat \<Rightarrow> c_int \<Rightarrow> nat \<Rightarrow> nat set \<Rightarrow> nat \<Rightarrow> nat \<Rightarrow> event list list \<Rightarrow> bool" where
  "handover ru ds flag e r C c b ps \<longleftrightarrow> distinct (flag # map fst ds) \<and> 0 < length ps \<and>
     hands_over ru ds flag e r (ps ! 0) \<and>
     (\<forall>t < length ps. 0 < t \<longrightarrow>
        (if t \<in> C then takes_over ru ds flag e c b (ps ! t) else stands_by ds flag e (ps ! t)))"

text \<open>What an access of such a thread can be.\<close>

lemma event_okD: "event_ok Q x \<Longrightarrow> x = Access f a \<Longrightarrow> Q a"
  by simp

lemma hands_over_access:
  assumes "hands_over ru ds flag e r es" and "i < length es" and "es ! i = Access f a"
  shows "if i < length ds then a = Store (fst (ds ! i)) (snd (ds ! i))
    else if i = r then a = Store flag e else harmless (fst ` set ds) flag e a"
proof -
  from assms(1,2) have "event_ok (\<lambda>a. if i < length ds then a = Store (fst (ds ! i)) (snd (ds ! i))
      else if i = r then a = Store flag e else harmless (fst ` set ds) flag e a) (es ! i)"
    unfolding hands_over_def by blast
  from event_okD [OF this assms(3)] show ?thesis .
qed

lemma takes_over_cases:
  assumes "takes_over ru ds flag e c b es" and "i < length es" and "es ! i = Access f a"
  obtains (mark) "i = c" "a = Load flag 0"
    | (data) k where "k < length ds" "i = b + k" "a = Load (fst (ds ! k)) (Suc k)"
    | (skip) "i \<notin> {b..<b + length ds}" "harmless (fst ` set ds) flag e a" "local_above (length ds) a"
proof -
  from assms(1,2) have "event_ok (\<lambda>a. if i = c then a = Load flag 0
      else if b \<le> i \<and> i < b + length ds then a = Load (fst (ds ! (i - b))) (Suc (i - b))
      else harmless (fst ` set ds) flag e a \<and> local_above (length ds) a) (es ! i)"
    unfolding takes_over_def by blast
  from event_okD [OF this assms(3)] show thesis
    using mark data [of "i - b"] skip by (auto split: if_splits)
qed

lemma stands_by_access:
  "stands_by ds flag e es \<Longrightarrow> i < length es \<Longrightarrow> es ! i = Access f a \<Longrightarrow> harmless (fst ` set ds) flag e a"
  using nth_mem [of i es] by (force simp: stands_by_def)

section \<open>Programs of that shape\<close>

lemma hands_overI:
  assumes es: "es = map (\<lambda>(v, x). Access f (Store v x)) ds @ mid @ Access g (Store flag e) # rest"
    and ord: "keeps ru f g \<or> (\<exists>h. Barrier h \<in> set mid \<and> fences ru h Wr Wr) \<or>
      (\<exists>h a. Access h a \<in> set mid \<and> keeps ru f h \<and> keeps ru h g)"
    and other: "\<forall>x \<in> set (mid @ rest). event_ok (harmless (fst ` set ds) flag e) x"
  shows "hands_over ru ds flag e (length ds + length mid) es"
proof -
  let ?n = "length ds" and ?r = "length ds + length mid"
  have nth: "es ! i = Access f (Store (fst (ds ! i)) (snd (ds ! i)))" if "i < ?n" for i
    using that by (simp add: es nth_append split_beta)
  have mid: "es ! (?n + j) = mid ! j" if "j < length mid" for j
    using that by (simp add: es nth_append)
  have mark: "es ! ?r = Access g (Store flag e)" by (simp add: es nth_append)
  have len: "length es = Suc ?r + length rest" by (simp add: es)
  have "(before ru es)\<^sup>+\<^sup>+ i ?r" if i: "i < ?n" for i
    using ord
  proof (elim disjE)
    assume "keeps ru f g"
    with i nth mark show ?thesis by (intro tranclp.r_into_trancl before_keeps [of i ?r es f _ g]) simp_all
  next
    assume "\<exists>h a. Access h a \<in> set mid \<and> keeps ru f h \<and> keeps ru h g"
    then obtain h a j where j: "j < length mid" "mid ! j = Access h a" "keeps ru f h" "keeps ru h g"
      by (auto simp: in_set_conv_nth)
    have "before ru es i (?n + j)"
      using i j nth [OF i] mid by (intro before_keeps [of i "?n + j" es f _ h]) simp_all
    moreover have "before ru es (?n + j) ?r"
      using j mid mark by (intro before_keeps [of "?n + j" ?r es h _ g]) simp_all
    ultimately show ?thesis by (blast intro: tranclp.trancl_into_trancl tranclp.r_into_trancl)
  next
    assume "\<exists>h. Barrier h \<in> set mid \<and> fences ru h Wr Wr"
    then obtain h j where j: "j < length mid" "mid ! j = Barrier h" "fences ru h Wr Wr"
      by (auto simp: in_set_conv_nth)
    show ?thesis
      by (rule tranclp.r_into_trancl [where r = "before ru es", OF before_barrier [of i "?n + j" ?r es f "Store (fst (ds ! i)) (snd (ds ! i))" h g "Store flag e"]])
        (use i j nth [OF i] mid mark len in simp_all)
  qed
  moreover have "event_ok (harmless (fst ` set ds) flag e) (es ! i)"
    if i: "i < length es" "\<not> i < ?n" "i \<noteq> ?r" for i
  proof (cases "i < ?r")
    case True
    with i mid [of "i - ?n"] have "es ! i \<in> set mid" by simp
    with other show ?thesis by simp
  next
    case False
    with i have "es ! i = rest ! (i - Suc ?r)" "i - Suc ?r < length rest"
      by (auto simp: es nth_append nth_Cons' split: if_splits)
    with other show ?thesis by simp
  qed
  ultimately show ?thesis
    using nth mark len unfolding hands_over_def event_ok_if by simp
qed

lemma takes_overI:
  assumes es: "es = pre @ Access g (Load flag 0) # mid @
      map (\<lambda>k. Access f (Load (fst (ds ! k)) (Suc k))) [0..<length ds]"
    and ord: "keeps ru g f \<or> (\<exists>h. Barrier h \<in> set mid \<and> fences ru h Rd Rd)"
    and other: "\<forall>x \<in> set (pre @ mid). event_ok (\<lambda>a. harmless (fst ` set ds) flag e a \<and> local_above (length ds) a) x"
  shows "takes_over ru ds flag e (length pre) (Suc (length pre + length mid)) es"
proof -
  let ?c = "length pre" and ?b = "Suc (length pre + length mid)"
  have nth: "es ! (?b + k) = Access f (Load (fst (ds ! k)) (Suc k))" if "k < length ds" for k
    using that by (simp add: es nth_append)
  have mid: "es ! Suc (?c + j) = mid ! j" if "j < length mid" for j
    using that by (simp add: es nth_append)
  have mark: "es ! ?c = Access g (Load flag 0)" by (simp add: es)
  have len: "length es = ?b + length ds" by (simp add: es)
  have "before ru es ?c (?b + k)" if k: "k < length ds" for k
    using ord
  proof
    assume "keeps ru g f"
    with nth [OF k] mark show ?thesis by (intro before_keeps [of ?c "?b + k" es g _ f]) simp_all
  next
    assume "\<exists>h. Barrier h \<in> set mid \<and> fences ru h Rd Rd"
    then obtain h j where j: "j < length mid" "mid ! j = Barrier h" "fences ru h Rd Rd"
      by (auto simp: in_set_conv_nth)
    show ?thesis
      by (rule before_barrier [of ?c "Suc (?c + j)" "?b + k" es g "Load flag 0" h f "Load (fst (ds ! k)) (Suc k)"])
        (use j k nth [OF k] mid mark len in simp_all)
  qed
  moreover have "event_ok (\<lambda>a. harmless (fst ` set ds) flag e a \<and> local_above (length ds) a) (es ! i)"
    if i: "i < ?b" "i \<noteq> ?c" for i
  proof (cases "i < ?c")
    case True
    then have "es ! i \<in> set pre" by (simp add: es nth_append)
    with other show ?thesis by simp
  next
    case False
    with i mid [of "i - Suc ?c"] have "es ! i \<in> set mid" by simp
    with other show ?thesis by simp
  qed
  moreover have "event_ok (\<lambda>a. a = Load (fst (ds ! (i - ?b))) (Suc (i - ?b))) (es ! i)"
    if "?b \<le> i" "i < ?b + length ds" for i
    using nth [of "i - ?b"] that by simp
  ultimately show ?thesis
    using nth mark len unfolding takes_over_def event_ok_if by (simp add: is_access_def not_le)
qed

section \<open>What was handed over\<close>

text \<open>
  The invariant: stored data stays, the flag does not hold the mark before the thread that hands
  over has stored it, and a thread that has loaded the mark has the data it has loaded.
\<close>

definition handed ::
  "(nat \<times> c_int) list \<Rightarrow> nat \<Rightarrow> c_int \<Rightarrow> nat \<Rightarrow> nat set \<Rightarrow> nat \<Rightarrow> event list list \<Rightarrow> machine \<Rightarrow> bool" where
  "handed ds flag e r C b ps m \<longleftrightarrow>
     (\<forall>i < length ds. i \<in> m_done m 0 \<longrightarrow> m_mem m (fst (ds ! i)) = snd (ds ! i)) \<and>
     (r \<notin> m_done m 0 \<longrightarrow> m_mem m flag \<noteq> e) \<and>
     (\<forall>t < length ps. 0 < t \<and> t \<in> C \<and> m_local m t 0 = e \<longrightarrow> r \<in> m_done m 0 \<and>
        (\<forall>k < length ds. b + k \<in> m_done m t \<longrightarrow> m_local m t (Suc k) = snd (ds ! k)))"

text \<open>A step of the thread that hands over.\<close>

lemma handed_store:
  assumes ok: "handed ds flag e r C b ps m" and dist: "distinct (flag # map fst ds)"
    and len: "length ds \<le> r"
    and a: "if i < length ds then a = Store (fst (ds ! i)) (snd (ds ! i))
      else if i = r then a = Store flag e else harmless (fst ` set ds) flag e a"
  shows "handed ds flag e r C b ps (mark 0 i (do_access 0 a m))"
proof -
  have other: "m_local (do_access 0 a m) t = m_local m t" if "0 < t" for t
    using that by (simp add: do_access_local)
  have place: "fst (ds ! k) \<in> fst ` set ds" "fst (ds ! k) \<noteq> flag" if "k < length ds" for k
    using dist that nth_mem [of k "map fst ds"] by force+
  consider (data) "i < length ds" "a = Store (fst (ds ! i)) (snd (ds ! i))"
    | (flag) "\<not> i < length ds" "i = r" "a = Store flag e"
    | (other) "\<not> i < length ds" "i \<noteq> r" "harmless (fst ` set ds) flag e a"
    using a by (auto split: if_splits)
  then show ?thesis
  proof cases
    case data
    with dist have "fst (ds ! k) = fst (ds ! i) \<longleftrightarrow> k = i" if "k < length ds" for k
      using that nth_eq_iff_index_eq [of "map fst ds" k i] by simp
    then show ?thesis using ok len data place by (auto simp: handed_def)
  next
    case flag
    then show ?thesis using ok place by (auto simp: handed_def)
  next
    case other
    then show ?thesis using ok place \<open>\<And>t. 0 < t \<Longrightarrow> m_local (do_access 0 a m) t = m_local m t\<close>
      by (auto simp: handed_def harmless_place harmless_flag)
  qed
qed

text \<open>The steps of the others, by what they do to memory and to the local variables.\<close>

lemma handed_other:
  assumes ok: "handed ds flag e r C b ps m" and t: "0 < t"
    and a: "harmless (fst ` set ds) flag e a"
    and here: "t \<in> C \<Longrightarrow> m_local (do_access t a m) t 0 = e \<Longrightarrow> r \<in> m_done m 0 \<and>
      (\<forall>k < length ds. b + k = i \<or> b + k \<in> m_done m t \<longrightarrow> m_local (do_access t a m) t (Suc k) = snd (ds ! k))"
  shows "handed ds flag e r C b ps (mark t i (do_access t a m))"
  unfolding handed_def
proof (intro conjI allI impI)
  fix j assume "j < length ds" "j \<in> m_done (mark t i (do_access t a m)) 0"
  with ok t a show "m_mem (mark t i (do_access t a m)) (fst (ds ! j)) = snd (ds ! j)"
    by (simp add: handed_def harmless_place)
next
  assume "r \<notin> m_done (mark t i (do_access t a m)) 0"
  with ok t a show "m_mem (mark t i (do_access t a m)) flag \<noteq> e"
    by (simp add: handed_def harmless_flag)
next
  fix u assume "u < length ps" "0 < u \<and> u \<in> C \<and> m_local (mark t i (do_access t a m)) u 0 = e"
  then show "r \<in> m_done (mark t i (do_access t a m)) 0"
    using ok t here by (cases "u = t") (auto simp: handed_def do_access_local)
next
  fix u k assume "u < length ps" "0 < u \<and> u \<in> C \<and> m_local (mark t i (do_access t a m)) u 0 = e"
    "k < length ds" "b + k \<in> m_done (mark t i (do_access t a m)) u"
  then show "m_local (mark t i (do_access t a m)) u (Suc k) = snd (ds ! k)"
    using ok t here by (cases "u = t") (auto simp: handed_def do_access_local)
qed

lemma handed_reachable:
  assumes "reachable ru ps (start mem) m" and "handover ru ds flag e r C c b ps"
    and "mem flag \<noteq> e" and "e \<noteq> 0"
  shows "handed ds flag e r C b ps m"
  using assms(1)
proof (induction rule: reachable.induct)
  case (reachable_step m t i m')
  note ok = reachable_step.IH and run = reachable_step.hyps(1)
  note hand = assms(2) [unfolded handover_def]
  obtain f a where t: "t < length ps" and i: "i < length (ps ! t)" "i \<notin> m_done m t" "ps ! t ! i = Access f a"
    and m': "m' = mark t i (do_access t a m)"
    using reachable_step.hyps(2) by (rule performE)
  consider (giver) "t = 0" | (taker) "0 < t" "t \<in> C" | (other) "0 < t" "t \<notin> C" by blast
  then show ?case
  proof cases
    case giver
    with hand i have "hands_over ru ds flag e r (ps ! t)" by simp
    from hands_over_access [OF this i(1,3)] this handed_store [OF ok, of i a] hand giver show ?thesis
      by (simp add: m' hands_over_def)
  next
    case other
    with hand t have "stands_by ds flag e (ps ! t)" by simp
    from stands_by_access [OF this i(1,3)] have "harmless (fst ` set ds) flag e a" .
    then show ?thesis unfolding m' using ok other by (intro handed_other) simp_all
  next
    case taker
    with hand t have con: "takes_over ru ds flag e c b (ps ! t)" by simp
    then have cb: "c < b" and load: "\<And>k. k < length ds \<Longrightarrow> before ru (ps ! t) c (b + k)"
      by (simp_all add: takes_over_def)
    have flag: "m_mem m flag = e \<Longrightarrow> r \<in> m_done m 0"
      using ok by (auto simp: handed_def)
    have had: "m_local m t 0 = e \<Longrightarrow> r \<in> m_done m 0 \<and>
        (\<forall>k < length ds. b + k \<in> m_done m t \<longrightarrow> m_local m t (Suc k) = snd (ds ! k))"
      using ok taker t by (simp add: handed_def)
    from con i(1,3) show ?thesis
      unfolding m'
    proof (cases rule: takes_over_cases)
      case mark
      have "b + k \<notin> m_done m t" if "k < length ds" for k
        using reachable_done [OF run, of "b + k" t] load [OF that] i(2) mark(1) by blast
      with mark cb flag show "handed ds flag e r C b ps (mark t i (do_access t a m))"
        by (intro handed_other [OF ok taker(1)]) auto
    next
      case (data k)
      have "m_mem m (fst (ds ! k)) = snd (ds ! k)" if "r \<in> m_done m 0"
        using done_closed [OF _ run that] hand ok data(1) by (auto simp: handed_def hands_over_def)
      with data had show "handed ds flag e r C b ps (mark t i (do_access t a m))"
        by (intro handed_other [OF ok taker(1)]) auto
    next
      case skip
      show "handed ds flag e r C b ps (mark t i (do_access t a m))"
      proof (rule handed_other [OF ok taker(1) skip(2)])
        have "b + k \<noteq> i" if "k < length ds" for k using skip(1) that by auto
        then show "m_local (do_access t a m) t 0 = e \<Longrightarrow> r \<in> m_done m 0 \<and> (\<forall>k < length ds.
            b + k = i \<or> b + k \<in> m_done m t \<longrightarrow> m_local (do_access t a m) t (Suc k) = snd (ds ! k))"
          using had skip(3) by (simp add: local_above_same)
      qed
    qed
  qed
qed (use assms in \<open>simp add: handed_def start_def\<close>)

lemma taken_over:
  assumes "reachable ru ps (start mem) m" and "handover ru ds flag e r C c b ps"
    and "mem flag \<noteq> e" and "e \<noteq> 0"
    and t: "0 < t" "t < length ps" "t \<in> C" "finished ps t m" "m_local m t 0 = e" and k: "k < length ds"
  shows "m_local m t (Suc k) = snd (ds ! k)"
proof -
  from assms(2) t(1-3) have "takes_over ru ds flag e c b (ps ! t)" by (simp add: handover_def)
  with k t(4) have "b + k \<in> m_done m t" by (simp add: finished_def takes_over_def)
  with handed_reachable [OF assms(1-4)] t k show ?thesis by (simp add: handed_def)
qed

end
