(* ===== verification/OPA_Publish.thy ===== *)
theory OPA_Publish
  imports OPA_Litmus OPA_Handover
begin

text \<open>
  Two uses of the order between threads: data that is published by a release store and consumed
  behind an acquire load, and two threads that each announce themselves, pass
  \<open>OPA_read_write_barrier\<close>, and look for the other.
\<close>

section \<open>The programs\<close>

text \<open>
  A publisher stores the data \<open>ds\<close> and then 1 to the flag by \<open>OPA_store_release_int\<close>. A consumer
  loads the flag by \<open>OPA_load_acquire_int\<close> to its local variable 0 and then the data to the next
  ones. \<open>i\<close> is the local variable of the bodies of the GCC port.
\<close>

definition publish_thread :: "port \<Rightarrow> nat \<Rightarrow> (nat \<times> c_int) list \<Rightarrow> nat \<Rightarrow> event list option" where
  "publish_thread p i ds flag =
     map_option (\<lambda>rel. map (\<lambda>(v, x). store_int p v x) ds @ rel) (store_release_of p i flag 1)"

definition consume_thread :: "port \<Rightarrow> nat \<Rightarrow> (nat \<times> c_int) list \<Rightarrow> nat \<Rightarrow> event list option" where
  "consume_thread p i ds flag =
     map_option (\<lambda>acq. acq @ map (\<lambda>k. load_int p (fst (ds ! k)) (Suc k)) [0..<length ds])
       (load_acquire_of p i flag 0)"

text \<open>One publisher and \<open>n\<close> consumers; \<open>tmp t\<close> is the local variable \<open>i\<close> of thread \<open>t\<close>.\<close>

definition publish_test ::
  "port \<Rightarrow> (nat \<Rightarrow> nat) \<Rightarrow> (nat \<times> c_int) list \<Rightarrow> nat \<Rightarrow> nat \<Rightarrow> event list list option" where
  "publish_test p tmp ds flag n =
     those (map (\<lambda>t. if t = 0 then publish_thread p (tmp t) ds flag
       else consume_thread p (tmp t) ds flag) [0..<Suc n])"

definition store_buffering :: "port \<Rightarrow> event list list" where
  "store_buffering p =
     [[store_int p 0 1, Barrier (read_write_barrier (barriers_of p)), load_int p 1 0],
      [store_int p 1 1, Barrier (read_write_barrier (barriers_of p)), load_int p 0 0]]"

section \<open>The ports\<close>

text \<open>
  The ports whose acquire loads and release stores are documented to do their work: all but the
  unsafe one, Itanium, where they do not compile, Solaris, where \<open>membar_enter\<close> follows a load, and
  the GCC built-ins.
\<close>

definition acquire_ports :: "port set" where
  "acquire_ports = {C11, Gcc_Ppc, Gcc_Arm, Gcc_X86, Gcc_X86_P3, Gcc_Sicortex, NT, By_Lock}"

text \<open>The barriers in their bodies, and how they access the flag.\<close>

definition half_barrier :: "port \<Rightarrow> instr list" where
  "half_barrier p = (case p of Gcc_Ppc \<Rightarrow> [Lwsync] | Gcc_Arm \<Rightarrow> [Dsb] | Gcc_X86 \<Rightarrow> [Compiler_Barrier]
     | Gcc_X86_P3 \<Rightarrow> [Compiler_Barrier] | Gcc_Sicortex \<Rightarrow> [Sync_Mips] | NT \<Rightarrow> [Read_Write_Barrier_Msc]
     | _ \<Rightarrow> [])"

definition flag_moves :: "port \<Rightarrow> instr \<times> instr" where
  "flag_moves p = (case p of C11 \<Rightarrow> (Load_Acquire, Store_Release) | By_Lock \<Rightarrow> (Mutex_Section, Mutex_Section)
     | _ \<Rightarrow> (Plain_Access, Plain_Access))"

lemma acquire_port_cases:
  assumes "p \<in> acquire_ports"
  obtains "p = C11" | "p = Gcc_Ppc" | "p = Gcc_Arm" | "p = Gcc_X86" | "p = Gcc_X86_P3" | "p = Gcc_Sicortex"
    | "p = NT" | "p = By_Lock"
  using assms by (auto simp: acquire_ports_def)

lemma acquire_port_bodies:
  assumes "p \<in> acquire_ports"
  shows "store_release_of p i flag x = Some (map Barrier (half_barrier p) @ [Access (snd (flag_moves p)) (Store flag x)])"
    and "load_acquire_of p i flag r = Some (Access (fst (flag_moves p)) (Load flag r) # map Barrier (half_barrier p))"
  using assms
  by (rule acquire_port_cases; simp add: half_barrier_def flag_moves_def acquire_release_defs int_access_defs barriers_defs)+

lemma acquire_port_order:
  assumes "p \<in> acquire_ports"
  shows "documented_keeps (snd (int_moves_of p)) (snd (flag_moves p)) \<or>
      (\<exists>h \<in> set (half_barrier p). documented_fences p h Wr Wr)"
    and "documented_keeps (fst (flag_moves p)) (fst (int_moves_of p)) \<or>
      (\<exists>h \<in> set (half_barrier p). documented_fences p h Rd Rd)"
  using assms
  by (rule acquire_port_cases; simp add: half_barrier_def flag_moves_def int_access_defs documented_defs)+

lemma those_map_Some: "those (map (\<lambda>t. Some (f t)) xs) = Some (map f xs)"
  by (induction xs) simp_all

lemma publish_test_handover:
  assumes ru: "stricter ru (documented_rules p)" and p: "p \<in> acquire_ports"
    and "distinct (flag # map fst ds)" and ps: "publish_test p tmp ds flag n = Some ps"
  shows "length ps = Suc n" and "handover ru ds flag 1 (length ds + length (half_barrier p)) {1..n} 0
    (Suc (length (half_barrier p))) ps"
proof -
  let ?hs = "map Barrier (half_barrier p)"
  let ?w = "map (\<lambda>(v, x). store_int p v x) ds @ ?hs @ Access (snd (flag_moves p)) (Store flag 1) # []"
  let ?r = "[] @ Access (fst (flag_moves p)) (Load flag 0) # ?hs @
    map (\<lambda>k. load_int p (fst (ds ! k)) (Suc k)) [0..<length ds]"
  have "publish_thread p i ds flag = Some ?w" "consume_thread p i ds flag = Some ?r" for i
    by (simp_all add: publish_thread_def consume_thread_def acquire_port_bodies [OF p])
  then have "publish_test p tmp ds flag n = those (map (\<lambda>t. Some (if t = 0 then ?w else ?r)) [0..<Suc n])"
    unfolding publish_test_def by (intro arg_cong [of _ _ those] map_cong) auto
  with ps have e: "ps = map (\<lambda>t. if t = 0 then ?w else ?r) [0..<Suc n]"
    unfolding those_map_Some by simp
  have "hands_over ru ds flag 1 (length ds + length ?hs) ?w"
    by (rule hands_overI [OF refl]) (use acquire_port_order(1) [OF p] ru in
      \<open>auto simp: stricter_def documented_rules_def\<close>)
  moreover have "takes_over ru ds flag 1 (length ([] :: event list)) (Suc (length ([] :: event list) + length ?hs)) ?r"
    by (rule takes_overI [OF refl]) (use acquire_port_order(2) [OF p] ru in
      \<open>auto simp: stricter_def documented_rules_def\<close>)
  moreover have "ps ! 0 = ?w" "\<And>t. t < Suc n \<Longrightarrow> 0 < t \<Longrightarrow> ps ! t = ?r" "length ps = Suc n"
    by (simp_all add: e nth_append del: upt_Suc)
  ultimately show "length ps = Suc n" "handover ru ds flag 1 (length ds + length (half_barrier p)) {1..n} 0
      (Suc (length (half_barrier p))) ps"
    using assms(3) by (simp_all add: handover_def)
qed

section \<open>The full barrier\<close>

text \<open>The ports whose \<open>OPA_read_write_barrier\<close> orders everything, and those where a store may stay behind.\<close>

definition full_barrier_ports :: "port set" where
  "full_barrier_ports = {Gcc_Ppc, Gcc_Arm, Gcc_X86, Gcc_X86_P3, Gcc_IA64, Gcc_Sicortex, Gcc_Intrinsics, By_Lock}"

definition half_barrier_ports :: "port set" where
  "half_barrier_ports = {C11, Sun, NT}"

lemma store_buffering_length [simp]: "length (store_buffering p) = 2"
  by (simp add: store_buffering_def)

lemma full_barrier_before:
  assumes "stricter ru (documented_rules p)" and "p \<in> full_barrier_ports" and "t < 2"
  shows "before ru (store_buffering p ! t) 0 2"
proof -
  have "documented_keeps (snd (int_moves_of p)) (fst (int_moves_of p)) \<or>
      documented_fences p (read_write_barrier (barriers_of p)) Wr Rd"
    using assms(2) by (auto simp: full_barrier_ports_def documented_defs int_access_defs barriers_defs)
  with assms(1,3) show ?thesis
    by (auto simp: before_def between_def store_buffering_def stricter_def documented_rules_def less_2_cases_iff)
qed

definition sb_ok :: "machine \<Rightarrow> bool" where
  "sb_ok m \<longleftrightarrow> (0 \<in> m_done m 0 \<longrightarrow> m_mem m 0 = 1) \<and> (0 \<in> m_done m 1 \<longrightarrow> m_mem m 1 = 1) \<and>
     (2 \<in> m_done m 0 \<and> 2 \<in> m_done m 1 \<longrightarrow> m_local m 0 0 = 1 \<or> m_local m 1 0 = 1)"

lemma sb_ok_reachable:
  assumes "reachable ru (store_buffering p) (start (\<lambda>v. 0)) m"
    and "\<And>t. t < 2 \<Longrightarrow> before ru (store_buffering p ! t) 0 2"
  shows "sb_ok m"
  using assms
proof (induction rule: reachable.induct)
  case (reachable_step m t k m')
  have closed: "u < 2 \<Longrightarrow> 2 \<in> m_done m u \<Longrightarrow> 0 \<in> m_done m u" for u
    using reachable_done [OF reachable_step.hyps(1), of 2 u] reachable_step.prems by blast
  obtain f a where t: "t < 2" and k: "k < length (store_buffering p ! t)" "store_buffering p ! t ! k = Access f a"
    and m': "m' = mark t k (do_access t a m)"
    using reachable_step.hyps(2) by (rule performE) simp
  from t have t01: "t = 0 \<or> t = 1" by linarith
  with k(1) have "k < 3" by (auto simp: store_buffering_def)
  then have "k = 0 \<or> k = 1 \<or> k = 2" by linarith
  with t01 k(2) have "t = 0 \<and> k = 0 \<and> a = Store 0 1 \<or> t = 0 \<and> k = 2 \<and> a = Load 1 0 \<or>
      t = 1 \<and> k = 0 \<and> a = Store 1 1 \<or> t = 1 \<and> k = 2 \<and> a = Load 0 0"
    by (elim disjE) (simp_all add: store_buffering_def)
  moreover have "2 \<in> m_done m 0 \<longrightarrow> 0 \<in> m_done m 0" "2 \<in> m_done m 1 \<longrightarrow> 0 \<in> m_done m 1"
    using closed [of 0] closed [of 1] by simp_all
  ultimately show ?case
    using reachable_step.IH [OF reachable_step.prems] by (elim disjE) (simp_all add: sb_ok_def m')
qed (simp add: sb_ok_def start_def)

section \<open>Schedules that show a missing order\<close>

definition tmp_at :: "nat \<Rightarrow> nat" where
  "tmp_at t = 1000 + t"

text \<open>
  The consumer exchanges its local variable and loads the data, the publisher runs, and then the
  flag is loaded.
\<close>

definition late_flag :: "(nat \<times> nat) list" where
  "late_flag = [(1, 0), (1, 2), (1, 3), (0, 0), (0, 1), (0, 2), (0, 3), (1, 1)]"

text \<open>Both loads first.\<close>

definition loads_first :: "(nat \<times> nat) list" where
  "loads_first = [(0, 2), (1, 2), (0, 0), (1, 0)]"

definition both_zero :: "event list list \<Rightarrow> machine \<Rightarrow> bool" where
  "both_zero ps m \<longleftrightarrow> finished ps 0 m \<and> finished ps 1 m \<and> m_local m 0 0 = 0 \<and> m_local m 1 0 = 0"

definition gcc_test :: "event list list" where
  "gcc_test = the (publish_test Gcc_Intrinsics tmp_at [(1, 42)] 0 1)"

lemma gcc_test_some: "publish_test Gcc_Intrinsics tmp_at [(1, 42)] 0 1 = Some gcc_test"
  by (simp add: gcc_test_def publish_test_def publish_thread_def consume_thread_def)

lemma gcc_late_flag:
  "outcome_of (documented_rules Gcc_Intrinsics) gcc_test late_flag
     (\<lambda>m. finished gcc_test 0 m \<and> finished gcc_test 1 m \<and> m_local m 1 0 = 1 \<and> m_local m 1 1 = 0)"
  by code_simp

lemma half_barrier_loads_first:
  "p \<in> half_barrier_ports \<Longrightarrow>
     outcome_of (documented_rules p) (store_buffering p) loads_first (both_zero (store_buffering p))"
proof -
  have "outcome_of (documented_rules C11) (store_buffering C11) loads_first (both_zero (store_buffering C11))"
    "outcome_of (documented_rules Sun) (store_buffering Sun) loads_first (both_zero (store_buffering Sun))"
    "outcome_of (documented_rules NT) (store_buffering NT) loads_first (both_zero (store_buffering NT))"
    by code_simp+
  then show "p \<in> half_barrier_ports \<Longrightarrow> ?thesis" by (auto simp: half_barrier_ports_def)
qed

text \<open>The publisher runs and then the consumer, on PowerPC.\<close>

definition in_turn :: "(nat \<times> nat) list" where
  "in_turn = [(0, 0), (0, 2), (1, 0), (1, 2)]"

definition ppc_test :: "event list list" where
  "ppc_test = the (publish_test Gcc_Ppc tmp_at [(1, 42)] 0 1)"

lemma ppc_test_some: "publish_test Gcc_Ppc tmp_at [(1, 42)] 0 1 = Some ppc_test"
  by (simp add: ppc_test_def publish_test_def publish_thread_def consume_thread_def)

lemma ppc_in_turn:
  "outcome_of (documented_rules Gcc_Ppc) ppc_test in_turn
     (\<lambda>m. finished ppc_test 1 m \<and> m_local m 1 0 = 1)"
  by code_simp

section \<open>Properties\<close>

text \<open>
  C11. Release and acquire publish data. On each port of \<open>acquire_ports\<close>, for any data, any number of
  consumers and any order of the accesses that the documented rules (or stricter ones) allow, a
  consumer whose \<open>OPA_load_acquire_int\<close> has returned the 1 that the publisher stored last by
  \<open>OPA_store_release_int\<close> loads all the data that the publisher had stored before.
\<close>

theorem release_acquire_publishes:
  assumes "stricter ru (documented_rules p)" and "p \<in> acquire_ports" and "distinct (flag # map fst ds)"
    and "publish_test p tmp ds flag n = Some ps" and "reachable ru ps (start (\<lambda>v. 0)) m"
    and "t \<in> {1..n}" and "finished ps t m" and "m_local m t 0 = 1" and "k < length ds"
  shows "m_local m t (Suc k) = snd (ds ! k)"
proof -
  note test = publish_test_handover [OF assms(1-4)]
  from assms(6) test(1) have "0 < t" "t < length ps" by simp_all
  then show ?thesis using taken_over [OF assms(5) test(2) _ _ _ _ assms(6-9)] by simp
qed

theorem release_acquire_publishes_witness:
  "\<exists>m. reachable (documented_rules Gcc_Ppc) ppc_test (start (\<lambda>v. 0)) m \<and> m_local m 1 0 = 1 \<and>
     m_local m 1 1 = 42"
proof -
  obtain m where m: "reachable (documented_rules Gcc_Ppc) ppc_test (start (\<lambda>v. 0)) m"
    "finished ppc_test 1 m" "m_local m 1 0 = 1"
    using outcome_ofD [OF ppc_in_turn] by blast
  have "m_local m 1 (Suc 0) = snd ([(1, 42)] ! 0 :: nat \<times> c_int)"
    using release_acquire_publishes [OF stricter_refl _ _ ppc_test_some m(1) _ m(2,3), of 0]
    by (simp add: acquire_ports_def)
  with m show ?thesis by auto
qed

text \<open>
  C12. The acquire load of the GCC port does not do it. Its exchange of a local variable keeps later
  accesses behind the exchange, and nothing keeps the load of the flag before it: the manual allows
  a run in which both threads finish, the consumer has loaded 1 from the flag, and has loaded the
  old value of the data.
\<close>

theorem gcc_load_acquire_overtaken:
  "\<exists>ps m. publish_test Gcc_Intrinsics tmp_at [(1, 42)] 0 1 = Some ps \<and>
     reachable (documented_rules Gcc_Intrinsics) ps (start (\<lambda>v. 0)) m \<and>
     finished ps 0 m \<and> finished ps 1 m \<and> m_local m 1 0 = 1 \<and> m_local m 1 1 = 0"
  using gcc_test_some outcome_ofD [OF gcc_late_flag] by blast

text \<open>
  \<open>OPA_read_write_barrier\<close>, port by port. Two threads store to a variable each, pass the
  barrier, and load the variable of the other. On PowerPC, ARM, x86, Itanium, SiCortex, with the GCC
  built-ins and with the lock at least one of them sees the store of the other. The acquire-release
  fence of C11, the two half barriers of Solaris and the compiler barrier of Windows leave a store
  behind a later load, and there is a run in which neither sees the other.
\<close>

lemma full_barrier_port_by_port:
  "(p \<in> full_barrier_ports \<longrightarrow> (\<forall>ru m. stricter ru (documented_rules p) \<and>
      reachable ru (store_buffering p) (start (\<lambda>v. 0)) m \<longrightarrow> \<not> both_zero (store_buffering p) m)) \<and>
   (p \<in> half_barrier_ports \<longrightarrow> (\<exists>m. reachable (documented_rules p) (store_buffering p) (start (\<lambda>v. 0)) m \<and>
      both_zero (store_buffering p) m))"
proof (intro conjI impI allI)
  fix ru m assume p: "p \<in> full_barrier_ports"
    and run: "stricter ru (documented_rules p) \<and> reachable ru (store_buffering p) (start (\<lambda>v. 0)) m"
  then have "sb_ok m" using sb_ok_reachable full_barrier_before by blast
  moreover have "2 \<in> m_done m t" if "finished (store_buffering p) t m" "t = 0 \<or> t = 1" for t
    using that by (auto simp: finished_def store_buffering_def is_access_def)
  ultimately show "\<not> both_zero (store_buffering p) m" by (auto simp: both_zero_def sb_ok_def)
next
  assume "p \<in> half_barrier_ports"
  from outcome_ofD [OF half_barrier_loads_first [OF this]]
  show "\<exists>m. reachable (documented_rules p) (store_buffering p) (start (\<lambda>v. 0)) m \<and>
      both_zero (store_buffering p) m" .
qed

theorem full_barrier_port_by_port_witness:
  "(\<exists>m. reachable (documented_rules C11) (store_buffering C11) (start (\<lambda>v. 0)) m \<and>
      both_zero (store_buffering C11) m) \<and>
   \<not> (\<exists>m. reachable (documented_rules Gcc_X86) (store_buffering Gcc_X86) (start (\<lambda>v. 0)) m \<and>
      both_zero (store_buffering Gcc_X86) m)"
proof
  show "\<exists>m. reachable (documented_rules C11) (store_buffering C11) (start (\<lambda>v. 0)) m \<and>
      both_zero (store_buffering C11) m"
    using full_barrier_port_by_port [of C11] by (simp add: half_barrier_ports_def)
  show "\<not> (\<exists>m. reachable (documented_rules Gcc_X86) (store_buffering Gcc_X86) (start (\<lambda>v. 0)) m \<and>
      both_zero (store_buffering Gcc_X86) m)"
    using full_barrier_port_by_port [of Gcc_X86] stricter_refl unfolding full_barrier_ports_def by blast
qed

end
