(* ===== verification/OPA_Queue_Contents.thy ===== *)
theory OPA_Queue_Contents
  imports OPA_Litmus OPA_Handover
begin

text \<open>
  What the barriers of the queue are there for: the contents of an element. An enqueuer fills the
  element and enqueues it; the dequeuer finds the element, takes it off the queue and reads it. The
  threads are paths through \<open>opa_queue.h\<close> on the machine of \<open>OPA_Reorder\<close>, so their accesses may be
  done in any order the port does not exclude.
\<close>

section \<open>Paths through the queue\<close>

text \<open>
  The variables that one element meets: the cells of the queue, the link of the element enqueued
  just before it, and its own link.
\<close>

record queue_places =
  at_head :: nat
  at_tail :: nat
  at_shadow :: nat
  at_prev :: nat
  at_next :: nat

definition places_of :: "queue_places \<Rightarrow> nat list" where
  "places_of q = [at_head q, at_tail q, at_shadow q, at_prev q, at_next q]"

text \<open>
  A path is what one run through the code does, branches taken and values stored. Where the code
  goes through \<open>OPA_load_ptr\<close> or \<open>OPA_store_ptr\<close> the access is that of the port, which is the same
  for pointers as for ints; an \<open>OPA_Shm_rel_addr_t\<close> that is copied is loaded and stored plainly.
  Accesses to the code's own local variables (\<open>r_elt\<close>, \<open>_r_e\<close>, \<open>old_tail\<close>) are left out.
  \<open>r\<close> is a local variable that is not looked at again.
\<close>

definition copy_path :: "nat \<Rightarrow> nat \<Rightarrow> c_int \<Rightarrow> nat \<Rightarrow> event list" where
  "copy_path to source x r = [Access Plain_Access (Load source r), Access Plain_Access (Store to x)]"

text \<open>Where an enqueue links the element \<open>e\<close>: to the head if the tail was null, else to the last element.\<close>

definition link_place :: "queue_places \<Rightarrow> bool \<Rightarrow> nat" where
  "link_place q tail_was_null = (if tail_was_null then at_head q else at_prev q)"

definition enqueue_path :: "bool \<Rightarrow> port \<Rightarrow> queue_places \<Rightarrow> bool \<Rightarrow> c_int \<Rightarrow> event list" where
  "enqueue_path tas p q tail_was_null e =
     [store_int p (at_next q) 0,
      Barrier (write_barrier (barriers_of p)),
      Access (swap_ptr_of tas p) (Swap (at_tail q) e 0),
      Access Plain_Access (Store (link_place q tail_was_null) e)]"

text \<open>
  \<open>OPA_Queue_is_empty\<close>: the shadow head is not null; nothing is there; or the head is \<open>e\<close>, which goes
  to the shadow head. The test of the head loads to \<open>test\<close>.
\<close>

datatype is_empty_case = Shadow_Set | Nothing_There | Head_Set c_int

fun is_empty_path :: "port \<Rightarrow> queue_places \<Rightarrow> is_empty_case \<Rightarrow> nat \<Rightarrow> nat \<Rightarrow> event list" where
  "is_empty_path p q Shadow_Set test r = [load_int p (at_shadow q) r]"
| "is_empty_path p q Nothing_There test r = [load_int p (at_shadow q) r, load_int p (at_head q) r]"
| "is_empty_path p q (Head_Set e) test r =
     [load_int p (at_shadow q) r, load_int p (at_head q) test] @
     copy_path (at_shadow q) (at_head q) e r @ [store_int p (at_head q) 0]"

text \<open>
  \<open>OPA_Queue_dequeue\<close> of the element \<open>x\<close> whose link is \<open>nxt\<close>: another element \<open>y\<close> is linked to it; it
  is the last one, and the compare-and-swap sets the tail to null; or the compare-and-swap comes too
  late, and after \<open>n\<close> rounds of the busy wait \<open>y\<close> is linked. The test of the link that finds it set
  loads to \<open>test\<close>.
\<close>

datatype dequeue_case = Followed c_int | Last | Overtaken nat c_int

fun unlink_path :: "port \<Rightarrow> queue_places \<Rightarrow> nat \<Rightarrow> c_int \<Rightarrow> dequeue_case \<Rightarrow> nat \<Rightarrow> nat \<Rightarrow> event list" where
  "unlink_path p q nxt x (Followed y) test r = load_int p nxt test # copy_path (at_shadow q) nxt y r"
| "unlink_path p q nxt x Last test r =
     [load_int p nxt r, store_int p (at_shadow q) 0, Access (cas_ptr_of p) (Cas (at_tail q) x 0 r)]"
| "unlink_path p q nxt x (Overtaken n y) test r =
     [load_int p nxt r, store_int p (at_shadow q) 0, Access (cas_ptr_of p) (Cas (at_tail q) x 0 r)] @
     replicate n (load_int p nxt r) @ load_int p nxt test # copy_path (at_shadow q) nxt y r"

definition dequeue_path :: "port \<Rightarrow> queue_places \<Rightarrow> nat \<Rightarrow> c_int \<Rightarrow> dequeue_case \<Rightarrow> nat \<Rightarrow> nat \<Rightarrow> event list" where
  "dequeue_path p q nxt x how test r =
     Access Plain_Access (Load (at_shadow q) r) # unlink_path p q nxt x how test r @
     [store_int p nxt 0, Barrier (read_barrier (barriers_of p))]"

text \<open>
  The clients. The enqueuer stores the data \<open>ds\<close> to the element and enqueues it. The dequeuer finds
  the element by the load to its local variable 0, dequeues it, and loads the data to the next
  ones. When the tail was null it finds the element at the head, after \<open>n\<close> polls of the empty queue;
  else at the link of the element \<open>x\<close>, which it dequeues before, at once or after the busy wait.
\<close>

definition fill_and_enqueue ::
  "bool \<Rightarrow> port \<Rightarrow> queue_places \<Rightarrow> bool \<Rightarrow> (nat \<times> c_int) list \<Rightarrow> c_int \<Rightarrow> event list" where
  "fill_and_enqueue tas p q tail_was_null ds e =
     map (\<lambda>(v, x). Access Plain_Access (Store v x)) ds @ enqueue_path tas p q tail_was_null e"

definition find_path ::
  "port \<Rightarrow> queue_places \<Rightarrow> bool \<Rightarrow> nat \<Rightarrow> c_int \<Rightarrow> bool \<Rightarrow> c_int \<Rightarrow> nat \<Rightarrow> event list" where
  "find_path p q tail_was_null n x waits e r =
     (if tail_was_null
      then concat (replicate n (is_empty_path p q Nothing_There r r)) @ is_empty_path p q (Head_Set e) 0 r
      else dequeue_path p q (at_prev q) x (if waits then Overtaken n e else Followed e) 0 r @
        is_empty_path p q Shadow_Set r r)"

definition dequeue_and_read ::
  "port \<Rightarrow> queue_places \<Rightarrow> bool \<Rightarrow> nat \<Rightarrow> c_int \<Rightarrow> bool \<Rightarrow> (nat \<times> c_int) list \<Rightarrow> c_int \<Rightarrow> dequeue_case \<Rightarrow> event list" where
  "dequeue_and_read p q tail_was_null n x waits ds e how =
     find_path p q tail_was_null n x waits e (Suc (length ds)) @
     dequeue_path p q (at_next q) e how (Suc (length ds)) (Suc (length ds)) @
     map (\<lambda>k. Access Plain_Access (Load (fst (ds ! k)) (Suc k))) [0..<length ds]"

section \<open>They hand the contents over\<close>

text \<open>
  The ports whose write barrier orders stores and whose read barrier orders loads. With the mutex
  both are empty, as \<open>lock/unlock provides barrier\<close>: there the critical sections between the data and
  the link, and that of the load that finds the element, are what orders.
\<close>

definition barrier_ports :: "port set" where
  "barrier_ports = {C11, Gcc_Ppc, Gcc_Arm, Gcc_X86, Gcc_X86_P3, Gcc_IA64, Gcc_Sicortex, Gcc_Intrinsics,
     Sun, NT}"

lemma barrier_port_fences:
  assumes "stricter ru (documented_rules p)" and "p \<in> barrier_ports"
  shows "fences ru (write_barrier (barriers_of p)) Wr Wr" "fences ru (read_barrier (barriers_of p)) Rd Rd"
  using assms by (auto simp: barrier_ports_def documented_defs barriers_defs)

lemma threaded_port: "p \<noteq> Unsafe \<Longrightarrow> p \<in> barrier_ports \<or> p = By_Lock"
  by (cases p) (simp_all add: barrier_ports_def)

lemma section_keeps:
  assumes "stricter ru (documented_rules By_Lock)"
  shows "keeps ru f (snd (int_moves_of By_Lock))" "keeps ru (snd (int_moves_of By_Lock)) f"
    "keeps ru (fst (int_moves_of By_Lock)) f"
  using assms by (simp_all add: documented_defs int_access_defs)

text \<open>The accesses of the paths to the queue are harmless.\<close>

abbreviation tame :: "(nat \<times> c_int) list \<Rightarrow> nat \<Rightarrow> c_int \<Rightarrow> event \<Rightarrow> bool" where
  "tame ds flag e \<equiv> event_ok (\<lambda>a. harmless (fst ` set ds) flag e a \<and> local_above (length ds) a)"

definition apart :: "queue_places \<Rightarrow> (nat \<times> c_int) list \<Rightarrow> bool" where
  "apart q ds \<longleftrightarrow> distinct (places_of q @ map fst ds)"

lemma apartD:
  assumes "apart q ds"
  shows "v \<in> set (places_of q) \<Longrightarrow> v \<notin> fst ` set ds" and "distinct (link_place q b # map fst ds)"
    and "at_shadow q \<noteq> link_place q b" "at_tail q \<noteq> link_place q b" "at_next q \<noteq> link_place q b"
proof -
  from assms have "set (places_of q) \<inter> fst ` set ds = {}" by (simp add: apart_def)
  then show "v \<in> set (places_of q) \<Longrightarrow> v \<notin> fst ` set ds" by blast
qed (use assms in \<open>auto simp: apart_def places_of_def link_place_def\<close>)

lemmas apart_places = apartD(1) [unfolded places_of_def, simplified]

lemma dequeue_path_tame:
  assumes "apart q ds" and "e \<noteq> 0" and "nxt \<in> {at_prev q, at_next q}"
  shows "\<forall>x \<in> set (dequeue_path p q nxt y how (Suc (length ds)) (Suc (length ds))).
    tame ds (link_place q b) e x"
  using assms(2,3) apartD(3-5) [OF assms(1), of b] apart_places [OF assms(1)]
  by (cases how) (auto simp: dequeue_path_def copy_path_def)

text \<open>The load that finds the element, and what is before and after it.\<close>

lemma find_path_split:
  assumes "apart q ds" and "e \<noteq> 0"
  obtains pre mid where "find_path p q b n x waits e (Suc (length ds)) =
      pre @ load_int p (link_place q b) 0 # mid" "\<forall>y \<in> set (pre @ mid). tame ds (link_place q b) e y"
proof (cases b)
  case True
  let ?r = "Suc (length ds)"
  have "find_path p q b n x waits e ?r =
      (concat (replicate n (is_empty_path p q Nothing_There ?r ?r)) @ [load_int p (at_shadow q) ?r]) @
      load_int p (link_place q b) 0 #
      (copy_path (at_shadow q) (at_head q) e ?r @ [store_int p (at_head q) 0])"
    using True by (simp add: find_path_def link_place_def)
  then show thesis
    by (rule that) (use True assms apartD(3) [OF assms(1), of b] apart_places [OF assms(1)] in
      \<open>auto simp: copy_path_def\<close>)
next
  case False
  let ?r = "Suc (length ds)"
  let ?tail = "copy_path (at_shadow q) (at_prev q) e ?r @
    [store_int p (at_prev q) 0, Barrier (read_barrier (barriers_of p))] @ [load_int p (at_shadow q) ?r]"
  show thesis
  proof (cases waits)
    case True
    have "find_path p q b n x waits e ?r =
        ([Access Plain_Access (Load (at_shadow q) ?r), load_int p (at_prev q) ?r, store_int p (at_shadow q) 0,
          Access (cas_ptr_of p) (Cas (at_tail q) x 0 ?r)] @ replicate n (load_int p (at_prev q) ?r)) @
        load_int p (link_place q b) 0 # ?tail"
      using False True by (simp add: find_path_def link_place_def dequeue_path_def)
    then show thesis
      by (rule that) (use False assms apartD(3,4) [OF assms(1), of b] apart_places [OF assms(1)] in
        \<open>auto simp: copy_path_def\<close>)
  next
    case waits: False
    have "find_path p q b n x waits e ?r = [Access Plain_Access (Load (at_shadow q) ?r)] @
        load_int p (link_place q b) 0 # ?tail"
      using False waits by (simp add: find_path_def link_place_def dequeue_path_def)
    then show thesis
      by (rule that) (use False assms apartD(3) [OF assms(1), of b] apart_places [OF assms(1)] in
        \<open>auto simp: copy_path_def\<close>)
  qed
qed

lemma enqueuer_hands_over:
  assumes "stricter ru (documented_rules p)" and "p \<noteq> Unsafe" and "apart q ds" and "e \<noteq> 0"
  shows "hands_over ru ds (link_place q b) e (length ds + 3) (fill_and_enqueue tas p q b ds e)"
proof -
  let ?mid = "[store_int p (at_next q) 0, Barrier (write_barrier (barriers_of p)),
    Access (swap_ptr_of tas p) (Swap (at_tail q) e 0)]"
  have "hands_over ru ds (link_place q b) e (length ds + length ?mid) (fill_and_enqueue tas p q b ds e)"
  proof (rule hands_overI [where rest = "[]"])
    show "fill_and_enqueue tas p q b ds e = map (\<lambda>(v, x). Access Plain_Access (Store v x)) ds @ ?mid @
        Access Plain_Access (Store (link_place q b) e) # []"
      by (simp add: fill_and_enqueue_def enqueue_path_def)
    show "keeps ru Plain_Access Plain_Access \<or> (\<exists>h. Barrier h \<in> set ?mid \<and> fences ru h Wr Wr) \<or>
        (\<exists>h a. Access h a \<in> set ?mid \<and> keeps ru Plain_Access h \<and> keeps ru h Plain_Access)"
      using threaded_port [OF assms(2)]
    proof
      assume "p \<in> barrier_ports"
      from barrier_port_fences(1) [OF assms(1) this] show ?thesis by auto
    next
      assume "p = By_Lock"
      with section_keeps [of ru Plain_Access] assms(1) show ?thesis by auto
    qed
  qed (use apartD(4,5) [OF assms(3), of b]
    apart_places [OF assms(3)] in auto)
  then show ?thesis by (simp add: eval_nat_numeral)
qed

lemma dequeuer_takes_over:
  assumes "stricter ru (documented_rules p)" and "p \<noteq> Unsafe" and "apart q ds" and "e \<noteq> 0"
  shows "\<exists>c s. takes_over ru ds (link_place q b) e c s (dequeue_and_read p q b n x waits ds e how)"
proof -
  obtain pre mid where find: "find_path p q b n x waits e (Suc (length ds)) =
      pre @ load_int p (link_place q b) 0 # mid"
    and tame: "\<forall>y \<in> set (pre @ mid). tame ds (link_place q b) e y"
    by (rule find_path_split [OF assms(3,4)])
  let ?deq = "dequeue_path p q (at_next q) e how (Suc (length ds)) (Suc (length ds))"
  have "takes_over ru ds (link_place q b) e (length pre) (Suc (length pre + length (mid @ ?deq)))
      (dequeue_and_read p q b n x waits ds e how)"
  proof (rule takes_overI)
    show "dequeue_and_read p q b n x waits ds e how = pre @ load_int p (link_place q b) 0 # (mid @ ?deq) @
        map (\<lambda>k. Access Plain_Access (Load (fst (ds ! k)) (Suc k))) [0..<length ds]"
      by (simp add: dequeue_and_read_def find)
    show "keeps ru (fst (int_moves_of p)) Plain_Access \<or>
        (\<exists>h. Barrier h \<in> set (mid @ ?deq) \<and> fences ru h Rd Rd)"
      using threaded_port [OF assms(2)]
    proof
      assume "p \<in> barrier_ports"
      from barrier_port_fences(2) [OF assms(1) this] show ?thesis
        by (intro disjI2 exI [of _ "read_barrier (barriers_of p)"]) (simp add: dequeue_path_def)
    qed (use section_keeps(3) [of ru] assms(1) in simp)
    show "\<forall>y \<in> set (pre @ mid @ ?deq). tame ds (link_place q b) e y"
      using tame dequeue_path_tame [OF assms(3,4), of "at_next q" p e how b] by auto
  qed
  then show ?thesis by blast
qed

text \<open>Other threads may do anything but write the data or enqueue the element again.\<close>

definition others_apart :: "queue_places \<Rightarrow> bool \<Rightarrow> (nat \<times> c_int) list \<Rightarrow> c_int \<Rightarrow> event list list \<Rightarrow> bool" where
  "others_apart q tail_was_null ds e os \<longleftrightarrow> list_all (stands_by ds (link_place q tail_was_null) e) os"

lemma contents_arrive:
  assumes "stricter ru (documented_rules p)" and "p \<noteq> Unsafe" and "apart q ds" and "e \<noteq> 0"
    and ps: "ps = fill_and_enqueue tas p q b ds e # dequeue_and_read p q b n x waits ds e how # os"
    and os: "others_apart q b ds e os" and mem: "mem (link_place q b) \<noteq> e"
    and run: "reachable ru ps (start mem) m" and fin: "finished ps 1 m" and "m_local m 1 0 = e"
    and "k < length ds"
  shows "m_local m 1 (Suc k) = snd (ds ! k)"
proof -
  obtain c s where "takes_over ru ds (link_place q b) e c s (dequeue_and_read p q b n x waits ds e how)"
    using dequeuer_takes_over [OF assms(1-4)] by blast
  moreover have "stands_by ds (link_place q b) e (ps ! t)" if "t < length ps" "0 < t" "t \<noteq> 1" for t
    using that os nth_mem [of "t - 2" os]
    by (auto simp: ps others_apart_def list_all_iff nth_Cons' eval_nat_numeral)
  ultimately have "handover ru ds (link_place q b) e (length ds + 3) {1} c s ps"
    using enqueuer_hands_over [OF assms(1-4), of b tas] apartD(2) [OF assms(3), of b]
    unfolding handover_def by (simp add: ps)
  from taken_over [OF run this mem assms(4) _ _ _ fin assms(10,11)] show ?thesis by (simp add: ps)
qed

text \<open>The client of another element is such a thread.\<close>

lemma other_enqueuer_apart:
  assumes "apart q ds" and "y \<noteq> e" and "e \<noteq> 0"
    and "set (places_of q') \<inter> fst ` set ds = {}" and "fst ` set ds' \<inter> insert (link_place q b) (fst ` set ds) = {}"
  shows "stands_by ds (link_place q b) e (fill_and_enqueue tas p q' b' ds' y)"
proof -
  have "v \<notin> fst ` set ds \<and> v \<noteq> link_place q b" if "(v, z) \<in> set ds'" for v z
    using assms(5) that by force
  then show ?thesis
    using assms(2-4) by (auto simp: stands_by_def fill_and_enqueue_def enqueue_path_def places_of_def
      link_place_def)
qed

section \<open>Runs\<close>

text \<open>
  One word of data, an element that meets an empty queue and is the last one when it is dequeued. In
  the first schedule the threads run one after the other. In the second the enqueuer stores the data
  last of all, and the dequeuer goes through its program in order: its accesses depend on each other,
  and no processor is asked to overlook that.
\<close>

definition some_places :: queue_places where
  "some_places = \<lparr>at_head = 0, at_tail = 1, at_shadow = 2, at_prev = 3, at_next = 4\<rparr>"

definition contents_test :: "port \<Rightarrow> event list list" where
  "contents_test p =
     [fill_and_enqueue True p some_places True [(5, 42)] 1,
      dequeue_and_read p some_places True 0 0 False [(5, 42)] 1 Last]"

definition dequeuer_in_order :: "(nat \<times> nat) list" where
  "dequeuer_in_order = map (Pair 1) ([0..<10] @ [11])"

definition data_first :: "(nat \<times> nat) list" where
  "data_first = [(0, 0), (0, 1), (0, 3), (0, 4)] @ dequeuer_in_order"

definition data_last :: "(nat \<times> nat) list" where
  "data_last = [(0, 1), (0, 3), (0, 4)] @ dequeuer_in_order @ [(0, 0)]"

definition found_with :: "c_int \<Rightarrow> event list list \<Rightarrow> machine \<Rightarrow> bool" where
  "found_with x ps m \<longleftrightarrow> finished ps 0 m \<and> finished ps 1 m \<and> m_local m 1 0 = 1 \<and> m_local m 1 1 = x"

text \<open>The accesses of the thread \<open>t\<close> are done in the order of its program.\<close>

definition in_program_order :: "nat \<Rightarrow> (nat \<times> nat) list \<Rightarrow> bool" where
  "in_program_order t ks \<longleftrightarrow> sorted (map snd (filter (\<lambda>k. fst k = t) ks))"

lemma data_last_dequeuer: "in_program_order 1 data_last"
  by code_simp

lemma data_last_overtaken:
  "outcome_of (documented_rules Unsafe) (contents_test Unsafe) data_last (found_with 0 (contents_test Unsafe))"
  by code_simp

lemma by_lock_data_first:
  "outcome_of (documented_rules By_Lock) (contents_test By_Lock) data_first
     (\<lambda>m. finished (contents_test By_Lock) 1 m \<and> m_local m 1 0 = 1)"
  by code_simp

lemma ppc_data_first:
  "outcome_of (documented_rules Gcc_Ppc) (contents_test Gcc_Ppc) data_first
     (\<lambda>m. finished (contents_test Gcc_Ppc) 1 m \<and> m_local m 1 0 = 1)"
  by code_simp

text \<open>
  A client that reads the element it peeks at has no read barrier: \<open>OPA_Queue_peek_head\<close> loads the
  shadow head, for the test and for the address. On the C11 port nothing then orders the loads of
  the data behind the one that found the element; other ports are left with what the processor does
  for loads whose address depends on another.
\<close>

definition peek_path :: "port \<Rightarrow> queue_places \<Rightarrow> nat \<Rightarrow> event list" where
  "peek_path p q r = [load_int p (at_shadow q) r, Access Plain_Access (Load (at_shadow q) r)]"

definition peek_and_read ::
  "port \<Rightarrow> queue_places \<Rightarrow> bool \<Rightarrow> nat \<Rightarrow> c_int \<Rightarrow> bool \<Rightarrow> (nat \<times> c_int) list \<Rightarrow> c_int \<Rightarrow> event list" where
  "peek_and_read p q tail_was_null n x waits ds e =
     find_path p q tail_was_null n x waits e (Suc (length ds)) @ peek_path p q (Suc (length ds)) @
     map (\<lambda>k. Access Plain_Access (Load (fst (ds ! k)) (Suc k))) [0..<length ds]"

definition peek_test :: "port \<Rightarrow> event list list" where
  "peek_test p =
     [fill_and_enqueue True p some_places True [(5, 42)] 1,
      peek_and_read p some_places True 0 0 False [(5, 42)] 1]"

lemma peek_is_not_ordered:
  "outcome_of (documented_rules C11) (peek_test C11)
     ((1, 7) # [(0, 0), (0, 1), (0, 3), (0, 4)] @ map (Pair 1) [0..<7]) (found_with 0 (peek_test C11))"
  by code_simp

section \<open>Properties\<close>

text \<open>
  C9. The contents of an element arrive with it, on every port with threads. However the element was
  enqueued and found and dequeued, in any order of the accesses that the documented rules (or
  stricter ones) allow, and with any other threads that leave the data alone and do not enqueue the
  element, a dequeuer that has found the element reads what was stored to it before the enqueue: by
  the two barriers of the queue, and with the mutex, where these are empty, by its sections. The
  unsafe port has neither: there is a run, the dequeuer's accesses in the order of the program, in
  which the element is found and dequeued and its contents are still the old ones.
\<close>

theorem queue_hands_over_contents:
  "(p \<noteq> Unsafe \<longrightarrow> (\<forall>ru tas q b n x waits ds e how os mem m k.
      stricter ru (documented_rules p) \<and> apart q ds \<and> e \<noteq> 0 \<and> others_apart q b ds e os \<and>
      mem (link_place q b) \<noteq> e \<and>
      reachable ru (fill_and_enqueue tas p q b ds e # dequeue_and_read p q b n x waits ds e how # os)
        (start mem) m \<and>
      finished (fill_and_enqueue tas p q b ds e # dequeue_and_read p q b n x waits ds e how # os) 1 m \<and>
      m_local m 1 0 = e \<and> k < length ds \<longrightarrow> m_local m 1 (Suc k) = snd (ds ! k))) \<and>
   (p = Unsafe \<longrightarrow> (\<exists>m. in_program_order 1 data_last \<and>
      play (documented_rules p) (contents_test p) data_last (start (\<lambda>v. 0)) = Some m \<and>
      found_with 0 (contents_test p) m))"
  using contents_arrive [OF _ _ _ _ refl] outcome_of_play [OF data_last_overtaken] data_last_dequeuer by blast

theorem queue_hands_over_contents_witness:
  "(\<exists>m. play (documented_rules Gcc_Ppc) (contents_test Gcc_Ppc) data_first (start (\<lambda>v. 0)) = Some m \<and>
      m_local m 1 0 = 1 \<and> m_local m 1 1 = 42) \<and>
   (\<exists>m. play (documented_rules By_Lock) (contents_test By_Lock) data_first (start (\<lambda>v. 0)) = Some m \<and>
      m_local m 1 0 = 1 \<and> m_local m 1 1 = 42)"
proof
  have apart: "apart some_places [(5, 42)]" by code_simp
  obtain m where m: "play (documented_rules Gcc_Ppc) (contents_test Gcc_Ppc) data_first (start (\<lambda>v. 0)) = Some m"
    "finished (contents_test Gcc_Ppc) 1 m" "m_local m 1 0 = 1"
    using outcome_of_play [OF ppc_data_first] by blast
  have "m_local m 1 (Suc 0) = snd ([(5, 42)] ! 0 :: nat \<times> c_int)"
    using play_reachable [OF m(1)] m(2,3) apart
    by (intro conjunct1 [OF queue_hands_over_contents [of Gcc_Ppc], rule_format, of "documented_rules Gcc_Ppc"
      some_places "[(5, 42)]" 1 True "[]" "\<lambda>v. 0" True 0 0 False Last m 0])
      (simp_all add: others_apart_def contents_test_def)
  with m show "\<exists>m. play (documented_rules Gcc_Ppc) (contents_test Gcc_Ppc) data_first (start (\<lambda>v. 0)) = Some m \<and>
      m_local m 1 0 = 1 \<and> m_local m 1 1 = 42" by auto
next
  have apart: "apart some_places [(5, 42)]" by code_simp
  obtain m where m: "play (documented_rules By_Lock) (contents_test By_Lock) data_first (start (\<lambda>v. 0)) = Some m"
    "finished (contents_test By_Lock) 1 m" "m_local m 1 0 = 1"
    using outcome_of_play [OF by_lock_data_first] by blast
  have "m_local m 1 (Suc 0) = snd ([(5, 42)] ! 0 :: nat \<times> c_int)"
    using play_reachable [OF m(1)] m(2,3) apart
    by (intro conjunct1 [OF queue_hands_over_contents [of By_Lock], rule_format, of "documented_rules By_Lock"
      some_places "[(5, 42)]" 1 True "[]" "\<lambda>v. 0" True 0 0 False Last m 0])
      (simp_all add: others_apart_def contents_test_def)
  with m show "\<exists>m. play (documented_rules By_Lock) (contents_test By_Lock) data_first (start (\<lambda>v. 0)) = Some m \<and>
      m_local m 1 0 = 1 \<and> m_local m 1 1 = 42" by auto
qed

end
