(* ===== verification/OPA_Queue_Owners.thy ===== *)
theory OPA_Queue_Owners
  imports OPA_Queue_Order
begin

text \<open>
  Who owns the elements of the concurrent queue. At every moment each element of the segment is in
  exactly one place: with the clients, with an enqueuer that has not swapped the tail yet, in the
  queue, or with the dequeuer on its way out.
\<close>

fun unswapped_elt :: "enq_pc \<Rightarrow> addr option" where
  "unswapped_elt (P_Null e r) = Some r"
| "unswapped_elt (P_Swap r) = Some r"
| "unswapped_elt _ = None"

definition unswapped :: "(nat \<Rightarrow> enq_pc) \<Rightarrow> addr set" where
  "unswapped pp = {r. \<exists>p. unswapped_elt (pp p) = Some r}"

lemma unswapped_same: "unswapped_elt x = unswapped_elt (pp p) \<Longrightarrow> unswapped (pp(p := x)) = unswapped pp"
  unfolding unswapped_def by (rule Collect_cong) (metis fun_upd_apply)

lemma unswapped_new:
  "unswapped_elt (pp p) = None \<Longrightarrow> unswapped_elt x = Some r \<Longrightarrow>
     unswapped (pp(p := x)) = insert r (unswapped pp)"
  unfolding unswapped_def insert_Collect
  by (rule Collect_cong) (metis fun_upd_apply option.distinct(1) option.inject)

lemma unswapped_owned: "unswapped_elt pc = Some r \<Longrightarrow> elt_of pc = Some r"
  by (cases pc) auto

lemma unswapped_gone:
  assumes "owners_distinct pp" and "unswapped_elt (pp p) = Some r" and "unswapped_elt x = None"
  shows "unswapped (pp(p := x)) = unswapped pp - {r}"
proof (rule set_eqI)
  fix z
  have own: "q = p" if "unswapped_elt (pp q) = Some r" for q
    using assms(1) unswapped_owned [OF that] unswapped_owned [OF assms(2)] by (simp add: owners_distinct_def)
  have "z \<noteq> r \<Longrightarrow> unswapped_elt (pp q) = Some z \<Longrightarrow> q \<noteq> p" for q
    using assms(2) by (metis option.inject)
  then show "z \<in> unswapped (pp(p := x)) \<longleftrightarrow> z \<in> unswapped pp - {r}"
    unfolding unswapped_def mem_Collect_eq Diff_iff singleton_iff
    using own assms(3) by (metis fun_upd_apply option.distinct(1))
qed

lemma unswapped_private: "q_inv base s xs \<Longrightarrow> r \<in> unswapped (enqs s) \<Longrightarrow> private_elt s xs r"
proof -
  assume inv: "q_inv base s xs" and "r \<in> unswapped (enqs s)"
  then obtain p where "unswapped_elt (enqs s p) = Some r" by (auto simp: unswapped_def)
  with q_invD(7) [OF inv, of p] show ?thesis by (auto simp: enq_ok_def split: enq_pc.splits)
qed

definition places :: "qstate \<Rightarrow> addr list \<Rightarrow> addr set" where
  "places s xs = avail s \<union> unswapped (enqs s) \<union> set xs \<union> held (deq s)"

text \<open>What a step of the dequeuer does to the two places it touches.\<close>

lemma dequeuer_step_places:
  assumes "dequeuer_step b s = Some (l, s')"
  shows "enqs s' = enqs s \<and> swap_of l = [] \<and>
    held (deq s) \<union> set (removal_of l) = set (map (cell b) (return_of l)) \<union> held (deq s') \<and>
    avail s' = avail s \<union> set (map (cell b) (return_of l))"
  by (cases "deq s")
    (use assms in \<open>auto simp: dequeuer_step_eq held_def Let_def split: if_splits\<close>)

text \<open>What a step of the specification does to the content.\<close>

lemma spec_step_content:
  "spec_step bd (xs, P) l (ys, P') \<Longrightarrow> xs @ swap_of l = removal_of l @ ys"
  by (auto elim!: spec_stepE)

lemma places_step:
  assumes inv: "q_inv base s xs" and step: "q_step base bd s l s'"
    and spec: "spec_step bd (xs, P) l (ys, P')"
  shows "places s' ys = places s xs"
  using step
proof cases
  case (Call_Enqueue p elt)
  then show ?thesis using spec
    by (auto simp: enqueue_call_def places_def unswapped_new Let_def split: if_splits elim!: spec_stepE)
next
  case (Enqueuer p)
  note own = unswapped_gone [OF q_invD(8) [OF inv], of p]
  have swapped_elt: "unswapped_elt (enqs s p) = Some r \<Longrightarrow> r \<in> unswapped (enqs s)" for r
    by (auto simp: unswapped_def)
  show ?thesis
    by (cases "enqs s p")
      (use Enqueuer spec own swapped_elt in \<open>auto simp: enqueue_step_def places_def unswapped_same Let_def
        split: if_splits elim!: spec_stepE\<close>)
next
  case Call_Is_Empty
  then show ?thesis using spec
    by (auto simp: is_empty_call_def places_def held_def split: deq_pc.splits if_splits elim!: spec_stepE)
next
  case Call_Peek
  then show ?thesis using spec
    by (auto simp: peek_call_def places_def held_def split: deq_pc.splits if_splits elim!: spec_stepE)
next
  case Call_Dequeue
  then show ?thesis using spec
    by (auto simp: dequeue_call_def places_def held_def split: deq_pc.splits if_splits elim!: spec_stepE)
next
  case Dequeuer
  note d = dequeuer_step_places [OF Dequeuer]
  with spec_step_content [OF spec] have "set xs = set (removal_of l) \<union> set ys"
    by (metis append_Nil2 set_append)
  with d show ?thesis by (auto simp: places_def)
qed

lemma places_run:
  assumes "q_run base bd (q_init elts) ls t"
  shows "\<exists>xs. q_inv base t xs \<and> swapped ls = removed ls @ xs \<and> places t xs = elts"
  using assms
proof (induction "q_init elts" ls t rule: q_run.induct)
  case Run_Nil
  have "places (q_init elts) [] = elts"
    by (simp add: places_def unswapped_def held_def q_init_def)
  then show ?case using q_inv_init by (intro exI [of _ "[]"]) (simp add: history_defs)
next
  case (Run_Snoc ls t l u)
  then obtain xs where inv: "q_inv base t xs" and h: "swapped ls = removed ls @ xs"
    and pl: "places t xs = elts" by blast
  from simulated_step [OF inv Run_Snoc.hyps(3)] obtain ys where inv': "q_inv base u ys"
    and spec: "spec_step bd (xs, pend (enqs t)) l (ys, pend (enqs u))"
    by (auto simp: simulated_def)
  from places_step [OF inv Run_Snoc.hyps(3) spec] pl have "places u ys = elts" by simp
  moreover have "swapped (ls @ [l]) = removed (ls @ [l]) @ ys"
    using spec h by (elim spec_stepE) (auto simp: history_defs simp flip: append_assoc)
  ultimately show ?case using inv' by blast
qed

text \<open>
  C14. The elements are conserved. In every reachable state each element is in exactly one place: with
  the clients, with one enqueuer that has not swapped the tail yet, on the queue, or with the
  dequeuer that has removed it and not yet returned it; on the queue it is once.
\<close>

theorem elements_conserved:
  assumes "q_run base bd (q_init elts) ls s"
  shows "\<exists>xs. swapped ls = removed ls @ xs \<and> distinct xs \<and>
    avail s \<union> unswapped (enqs s) \<union> set xs \<union> held (deq s) = elts \<and>
    avail s \<inter> set xs = {} \<and> held (deq s) \<inter> (avail s \<union> set xs) = {} \<and>
    unswapped (enqs s) \<inter> (avail s \<union> set xs \<union> held (deq s)) = {} \<and> owners_distinct (enqs s)"
proof -
  obtain xs where inv: "q_inv base s xs" and h: "swapped ls = removed ls @ xs" and pl: "places s xs = elts"
    using places_run [OF assms] by blast
  have "unswapped (enqs s) \<inter> (avail s \<union> set xs \<union> held (deq s)) = {}"
    using unswapped_private [OF inv] by (auto simp: private_elt_def)
  with inv h pl show ?thesis
    by (intro exI [of _ xs]) (auto simp: q_inv_def places_def)
qed

theorem elements_conserved_witness:
  "\<exists>xs. swapped sample_labels = removed sample_labels @ xs \<and> distinct xs \<and>
     avail sample_end \<union> unswapped (enqs sample_end) \<union> set xs \<union> held (deq sample_end) = {64, 128}"
  using elements_conserved [OF sample_run] by blast

end
