(* ===== verification/OPA_Queue_Loops.thy ===== *)
theory OPA_Queue_Loops
  imports OPA_Queue_Owners OPA_Config
begin

text \<open>
  The concurrent queue on ports that have no single instruction for the swap or the
  compare-and-swap of the tail. \<open>OPA_swap_ptr\<close> and \<open>OPA_cas_ptr\<close> are then the loops of
  \<open>opa_emulated.h\<close> (or the same loops in the assembly of \<open>opa_gcc_sicortex.h\<close>), and other threads
  run between the accesses of a round. A simulation by \<open>OPA_Queue_Threads\<close>, whose swap and
  compare-and-swap are one step, carries its theorems over to all these ports.
\<close>

section \<open>How a port does it\<close>

datatype rmw_style =
    One_Step
  | Cas_Loop
  | Llsc_Loop
  | Load_Store

text \<open>
  From the instruction that \<open>swap_ptr_of\<close> or \<open>cas_ptr_of\<close> names. A critical section of the mutex is
  one step by what \<open>OPA_Lock_Threads\<close> shows; the unsafe port loads and then stores.
\<close>

fun swap_style :: "instr \<Rightarrow> rmw_style" where
  "swap_style Plain_Access = Load_Store"
| "swap_style Lwarx_Stwcx = Llsc_Loop"
| "swap_style Ldrex_Strex = Llsc_Loop"
| "swap_style Ll_Sc_Mips = Llsc_Loop"
| "swap_style Val_Compare_And_Swap = Cas_Loop"
| "swap_style _ = One_Step"

fun cas_style :: "instr \<Rightarrow> rmw_style" where
  "cas_style Val_Compare_And_Swap = One_Step"
| "cas_style i = swap_style i"

section \<open>State\<close>

text \<open>
  Beside the queue, what the loops hold: the value an enqueuer has loaded from the tail and tries
  to replace (\<open>prev\<close> or \<open>cmp\<close> of the C text), the same for the dequeuer, and which processors hold a
  reservation of the tail.
\<close>

record lqueue =
  lq :: qstate
  e_found :: "nat \<Rightarrow> addr option"
  d_found :: "addr option"
  e_reserved :: "nat \<Rightarrow> bool"
  d_reserved :: bool

text \<open>
  \<open>On_Queue\<close> marks a step of the queue; \<open>Retry p\<close> a round of the enqueuer \<open>p\<close> that failed because
  the tail was written since it was loaded; \<open>Skip_Access\<close> a load and a failure without a reason.
\<close>

datatype loop_label =
    On_Queue qlabel
  | Retry nat
  | Skip_Access

section \<open>Steps\<close>

text \<open>A store to the tail takes away all reservations of it.\<close>

definition store_tail :: "addr \<Rightarrow> lqueue \<Rightarrow> lqueue" where
  "store_tail r s =
     s\<lparr>lq := (lq s)\<lparr>q_tail := r\<rparr>, e_reserved := (\<lambda>_. False), d_reserved := False\<rparr>"

text \<open>The swap returns \<open>r_prev\<close> to \<open>OPA_Queue_enqueue\<close>.\<close>

definition swap_returns :: "addr \<Rightarrow> nat \<Rightarrow> addr \<Rightarrow> addr \<Rightarrow> lqueue \<Rightarrow> lqueue" where
  "swap_returns b p r_prev r_elt s =
     s\<lparr>lq := (lq s)\<lparr>enqs := (enqs (lq s))(p := if r_prev = OPA_SHM_REL_NULL then P_Head r_elt
                                            else P_Link (abs_of b r_prev) r_elt)\<rparr>,
       e_found := (e_found s)(p := None)\<rparr>"

text \<open>
  The swap at once; one access of \<open>OPA_swap_ptr_by_cas\<close>, whose failed compare-and-swap returns the
  value for the next round; one access of \<open>OPA_swap_ptr_by_llsc\<close>; one of the unsafe swap.
  \<open>spurious\<close> is the processor's choice to let a store-conditional fail without a reason.
\<close>

definition swap_tail_one_step :: "addr \<Rightarrow> nat \<Rightarrow> addr \<Rightarrow> lqueue \<Rightarrow> loop_label \<times> lqueue" where
  "swap_tail_one_step b p r_elt s =
     (On_Queue (Swapped p r_elt), swap_returns b p (q_tail (lq s)) r_elt (store_tail r_elt s))"

definition swap_tail_by_cas :: "addr \<Rightarrow> nat \<Rightarrow> addr \<Rightarrow> lqueue \<Rightarrow> loop_label \<times> lqueue" where
  "swap_tail_by_cas b p r_elt s =
     (let tail = q_tail (lq s) in
      case e_found s p of
        None \<Rightarrow> (Skip_Access, s\<lparr>e_found := (e_found s)(p \<mapsto> tail)\<rparr>)
      | Some cmp \<Rightarrow>
          if tail = cmp
          then (On_Queue (Swapped p r_elt), swap_returns b p tail r_elt (store_tail r_elt s))
          else (Retry p, s\<lparr>e_found := (e_found s)(p \<mapsto> tail)\<rparr>))"

definition swap_tail_by_llsc :: "bool \<Rightarrow> addr \<Rightarrow> nat \<Rightarrow> addr \<Rightarrow> lqueue \<Rightarrow> loop_label \<times> lqueue" where
  "swap_tail_by_llsc spurious b p r_elt s =
     (case e_found s p of
        None \<Rightarrow> (Skip_Access, s\<lparr>e_found := (e_found s)(p \<mapsto> q_tail (lq s)),
                           e_reserved := (e_reserved s)(p := True)\<rparr>)
      | Some prev \<Rightarrow>
          if e_reserved s p \<and> \<not> spurious
          then (On_Queue (Swapped p r_elt), swap_returns b p prev r_elt (store_tail r_elt s))
          else (if e_reserved s p then Skip_Access else Retry p,
                s\<lparr>e_found := (e_found s)(p := None), e_reserved := (e_reserved s)(p := False)\<rparr>))"

definition swap_tail_unsafe :: "addr \<Rightarrow> nat \<Rightarrow> addr \<Rightarrow> lqueue \<Rightarrow> loop_label \<times> lqueue" where
  "swap_tail_unsafe b p r_elt s =
     (case e_found s p of
        None \<Rightarrow> (Skip_Access, s\<lparr>e_found := (e_found s)(p \<mapsto> q_tail (lq s))\<rparr>)
      | Some prev \<Rightarrow>
          (On_Queue (Swapped p r_elt), swap_returns b p prev r_elt (store_tail r_elt s)))"

text \<open>
  The dequeuer's compare-and-swap of the tail from \<open>r\<close> to null: at once; one access of
  \<open>OPA_cas_ptr_by_llsc\<close>, which leaves the loop when the load-linked finds another value; one of the
  unsafe one.
\<close>

definition cas_stored :: "addr \<Rightarrow> lqueue \<Rightarrow> lqueue" where
  "cas_stored r s = (let s = store_tail OPA_SHM_REL_NULL s
     in s\<lparr>lq := (lq s)\<lparr>deq := D_Clear r\<rparr>, d_found := None\<rparr>)"

definition cas_tail_one_step :: "addr \<Rightarrow> lqueue \<Rightarrow> loop_label \<times> lqueue" where
  "cas_tail_one_step r s =
     (if q_tail (lq s) = r then (On_Queue (Removed r), cas_stored r s)
      else (On_Queue Tau, s\<lparr>lq := (lq s)\<lparr>deq := D_Wait r\<rparr>\<rparr>))"

definition cas_tail_by_llsc :: "bool \<Rightarrow> addr \<Rightarrow> lqueue \<Rightarrow> loop_label \<times> lqueue" where
  "cas_tail_by_llsc spurious r s =
     (case d_found s of
        None \<Rightarrow>
          (let prev = q_tail (lq s); s = s\<lparr>d_reserved := True\<rparr> in
           if prev = r then (Skip_Access, s\<lparr>d_found := Some prev\<rparr>)
           else (On_Queue Tau, s\<lparr>lq := (lq s)\<lparr>deq := D_Wait r\<rparr>\<rparr>))
      | Some prev \<Rightarrow>
          if d_reserved s \<and> \<not> spurious then (On_Queue (Removed r), cas_stored r s)
          else (Skip_Access, s\<lparr>d_found := None, d_reserved := False\<rparr>))"

definition cas_tail_unsafe :: "addr \<Rightarrow> lqueue \<Rightarrow> loop_label \<times> lqueue" where
  "cas_tail_unsafe r s =
     (case d_found s of
        None \<Rightarrow>
          (let prev = q_tail (lq s) in
           if prev = r then (Skip_Access, s\<lparr>d_found := Some prev\<rparr>)
           else (On_Queue Tau, s\<lparr>lq := (lq s)\<lparr>deq := D_Wait r\<rparr>\<rparr>))
      | Some prev \<Rightarrow> (On_Queue (Removed r), cas_stored r s))"

fun swap_tail :: "rmw_style \<Rightarrow> bool \<Rightarrow> addr \<Rightarrow> nat \<Rightarrow> addr \<Rightarrow> lqueue \<Rightarrow> loop_label \<times> lqueue" where
  "swap_tail One_Step spurious = swap_tail_one_step"
| "swap_tail Cas_Loop spurious = swap_tail_by_cas"
| "swap_tail Llsc_Loop spurious = swap_tail_by_llsc spurious"
| "swap_tail Load_Store spurious = swap_tail_unsafe"

fun cas_tail :: "rmw_style \<Rightarrow> bool \<Rightarrow> addr \<Rightarrow> lqueue \<Rightarrow> loop_label \<times> lqueue" where
  "cas_tail One_Step spurious = cas_tail_one_step"
| "cas_tail Cas_Loop spurious = cas_tail_one_step"
| "cas_tail Llsc_Loop spurious = cas_tail_by_llsc spurious"
| "cas_tail Load_Store spurious = cas_tail_unsafe"

text \<open>All other accesses are those of \<open>OPA_Queue_Threads\<close>.\<close>

definition lift_q :: "lqueue \<Rightarrow> (qlabel \<times> qstate) option \<Rightarrow> (loop_label \<times> lqueue) option" where
  "lift_q s = map_option (\<lambda>(l, q). (On_Queue l, s\<lparr>lq := q\<rparr>))"

definition loop_enqueuer :: "rmw_style \<Rightarrow> bool \<Rightarrow> addr \<Rightarrow> nat \<Rightarrow> lqueue \<Rightarrow> (loop_label \<times> lqueue) option" where
  "loop_enqueuer sw spurious b p s =
     (case enqs (lq s) p of
        P_Swap r_elt \<Rightarrow> Some (swap_tail sw spurious b p r_elt s)
      | _ \<Rightarrow> lift_q s (enqueue_step b p (lq s)))"

definition loop_dequeuer :: "rmw_style \<Rightarrow> bool \<Rightarrow> addr \<Rightarrow> lqueue \<Rightarrow> (loop_label \<times> lqueue) option" where
  "loop_dequeuer cs spurious b s =
     (case deq (lq s) of
        D_Cas r \<Rightarrow> Some (cas_tail cs spurious r s)
      | _ \<Rightarrow> lift_q s (dequeuer_step b (lq s)))"

datatype loop_action =
    Loop_Call q_action
  | Loop_Enqueuer nat bool
  | Loop_Dequeuer bool

text \<open>A call, an access of an enqueuer or one of the dequeuer.\<close>

fun loop_exec ::
  "rmw_style \<times> rmw_style \<Rightarrow> (nat \<Rightarrow> addr) \<Rightarrow> addr \<Rightarrow> loop_action \<Rightarrow> lqueue \<Rightarrow> (loop_label \<times> lqueue) option" where
  "loop_exec st base bd (Loop_Call a) s =
     (case a of Go_Enqueuer p \<Rightarrow> None | Go_Dequeuer \<Rightarrow> None | _ \<Rightarrow> lift_q s (q_exec base bd a (lq s)))"
| "loop_exec st base bd (Loop_Enqueuer p spurious) s = loop_enqueuer (fst st) spurious (base p) p s"
| "loop_exec st base bd (Loop_Dequeuer spurious) s = loop_dequeuer (snd st) spurious bd s"

inductive loop_run ::
  "rmw_style \<times> rmw_style \<Rightarrow> (nat \<Rightarrow> addr) \<Rightarrow> addr \<Rightarrow> lqueue \<Rightarrow> loop_label list \<Rightarrow> lqueue \<Rightarrow> bool"
  for st :: "rmw_style \<times> rmw_style" and base :: "nat \<Rightarrow> addr" and bd :: addr where
  Loop_Nil: "loop_run st base bd s [] s"
| Loop_Snoc: "loop_run st base bd s ls t \<Longrightarrow> loop_exec st base bd a t = Some (l, u) \<Longrightarrow>
    loop_run st base bd s (ls @ [l]) u"

definition loop_init :: "addr set \<Rightarrow> lqueue" where
  "loop_init elts = \<lparr>lq = q_init elts, e_found = (\<lambda>_. None), d_found = None,
     e_reserved = (\<lambda>_. False), d_reserved = False\<rparr>"

fun queue_label :: "loop_label \<Rightarrow> qlabel list" where
  "queue_label (On_Queue l) = [l]"
| "queue_label _ = []"

definition queue_labels :: "loop_label list \<Rightarrow> qlabel list" where
  "queue_labels ls = concat (map queue_label ls)"

text \<open>The two styles of a port.\<close>

definition port_styles :: "bool \<Rightarrow> port \<Rightarrow> rmw_style \<times> rmw_style" where
  "port_styles tas_is_swap port =
     (swap_style (swap_ptr_of tas_is_swap port), cas_style (cas_ptr_of port))"

lemma port_styles_atomic: "port \<noteq> Unsafe \<Longrightarrow>
    fst (port_styles tas port) \<noteq> Load_Store \<and> snd (port_styles tas port) \<noteq> Load_Store"
  by (cases port; cases tas) (simp_all add: port_styles_def pointer_rmw_defs)

section \<open>The loops do what the single steps do\<close>

text \<open>
  A reservation vouches for the value that was loaded, and the dequeuer has loaded the value it
  compares with.
\<close>

definition loop_inv :: "rmw_style \<Rightarrow> lqueue \<Rightarrow> bool" where
  "loop_inv cs s \<longleftrightarrow>
     (\<forall>p v. e_reserved s p \<longrightarrow> e_found s p = Some v \<longrightarrow> v = q_tail (lq s)) \<and>
     (\<forall>v. d_found s = Some v \<longrightarrow>
        cs = Llsc_Loop \<and> deq (lq s) = D_Cas v \<and> (d_reserved s \<longrightarrow> q_tail (lq s) = v))"

text \<open>What a step of either machine has to do with the other one.\<close>

definition loop_matched :: "(nat \<Rightarrow> addr) \<Rightarrow> addr \<Rightarrow> lqueue \<Rightarrow> loop_label \<Rightarrow> lqueue \<Rightarrow> bool" where
  "loop_matched base bd s l s' \<longleftrightarrow>
     (case l of On_Queue k \<Rightarrow> q_step base bd (lq s) k (lq s') | _ \<Rightarrow> lq s' = lq s)"

text \<open>Only the swap and the compare-and-swap write the tail, and only the dequeuer moves the dequeuer.\<close>

lemma enqueue_step_tail: "enqueue_step b p s = Some (l, s') \<Longrightarrow> \<forall>r. enqs s p \<noteq> P_Swap r \<Longrightarrow>
    q_tail s' = q_tail s \<and> deq s' = deq s"
  by (auto simp: enqueue_step_def split: enq_pc.splits)

lemma dequeuer_step_tail: "dequeuer_step b s = Some (l, s') \<Longrightarrow> \<forall>r. deq s \<noteq> D_Cas r \<Longrightarrow>
    q_tail s' = q_tail s"
  by (auto simp: dequeuer_step_eq Let_def split: deq_pc.splits if_splits)

lemma call_tail: "q_exec base bd a s = Some (l, s') \<Longrightarrow> \<forall>p. a \<noteq> Go_Enqueuer p \<Longrightarrow> a \<noteq> Go_Dequeuer \<Longrightarrow>
    q_tail s' = q_tail s \<and> (\<forall>r. deq s = D_Cas r \<longrightarrow> deq s' = deq s)"
  by (cases a) (auto simp: enqueue_call_def is_empty_call_def peek_call_def dequeue_call_def Let_def
      split: deq_pc.splits if_splits)

lemma lift_qD: "lift_q s x = Some (l, s') \<Longrightarrow> \<exists>k q. x = Some (k, q) \<and> l = On_Queue k \<and> s' = s\<lparr>lq := q\<rparr>"
  by (auto simp: lift_q_def)

lemma loop_inv_frame: "loop_inv cs s \<Longrightarrow> q_tail q = q_tail (lq s) \<Longrightarrow>
    (\<forall>r. deq (lq s) = D_Cas r \<longrightarrow> deq q = deq (lq s)) \<Longrightarrow> loop_inv cs (s\<lparr>lq := q\<rparr>)"
  by (fastforce simp: loop_inv_def)

lemmas tail_defs = swap_tail_one_step_def swap_tail_by_cas_def swap_tail_by_llsc_def
  cas_tail_one_step_def cas_tail_by_llsc_def store_tail_def swap_returns_def cas_stored_def Let_def

lemma swap_tail_inv: "loop_inv cs s \<Longrightarrow> swap_tail sw spurious b p r s = (l, s') \<Longrightarrow> sw \<noteq> Load_Store \<Longrightarrow> loop_inv cs s'"
  by (cases sw) (auto simp: loop_inv_def tail_defs split: option.splits if_splits)

lemma swap_tail_matched:
  assumes "loop_inv cs s" and "swap_tail sw spurious (base p) p r s = (l, s')" and "sw \<noteq> Load_Store"
    and pc: "enqs (lq s) p = P_Swap r"
  shows "loop_matched base bd s l s'"
proof (cases "\<exists>k. l = On_Queue k")
  case True
  have "enqueue_step (base p) p (lq s) = Some (Swapped p r, lq s') \<and> l = On_Queue (Swapped p r)"
    using assms True by (cases sw)
      (auto simp: enqueue_step_def loop_inv_def tail_defs split: option.splits if_splits)
  then show ?thesis by (auto simp: loop_matched_def intro: q_step.Enqueuer)
next
  case False
  with assms show ?thesis
    by (cases sw) (auto simp: loop_matched_def tail_defs split: option.splits if_splits)
qed

lemma cas_tail_inv: "loop_inv cs s \<Longrightarrow> cas_tail cs spurious r s = (l, s') \<Longrightarrow> cs \<noteq> Load_Store \<Longrightarrow>
    deq (lq s) = D_Cas r \<Longrightarrow> loop_inv cs s'"
  by (cases cs) (auto simp: loop_inv_def tail_defs split: option.splits if_splits)

lemma cas_tail_matched:
  assumes "loop_inv cs s" and "cas_tail cs spurious r s = (l, s')" and "cs \<noteq> Load_Store"
    and pc: "deq (lq s) = D_Cas r"
  shows "loop_matched base bd s l s'"
proof (cases "\<exists>k. l = On_Queue k")
  case True
  then obtain k where k: "l = On_Queue k" ..
  have "dequeuer_step bd (lq s) = Some (k, lq s')"
    using assms k by (cases cs)
      (auto simp: dequeuer_step_eq loop_inv_def tail_defs split: option.splits if_splits)
  then show ?thesis by (auto simp: loop_matched_def k intro: q_step.Dequeuer)
next
  case False
  with assms show ?thesis
    by (cases cs) (auto simp: loop_matched_def tail_defs split: option.splits if_splits)
qed

lemma loop_step:
  assumes "loop_inv (snd st) s" and "loop_exec st base bd a s = Some (l, s')"
    and "fst st \<noteq> Load_Store" "snd st \<noteq> Load_Store"
  shows "loop_inv (snd st) s' \<and> loop_matched base bd s l s'"
proof (cases a)
  case (Loop_Call c)
  with assms(2) obtain k q where c: "q_exec base bd c (lq s) = Some (k, q)" and l: "l = On_Queue k"
    and s': "s' = s\<lparr>lq := q\<rparr>" and "\<forall>p. c \<noteq> Go_Enqueuer p" "c \<noteq> Go_Dequeuer"
    by (auto split: q_action.splits dest!: lift_qD)
  with call_tail [OF c] loop_inv_frame [OF assms(1)] q_exec_step [OF c] show ?thesis
    by (simp add: loop_matched_def)
next
  case (Loop_Enqueuer p spurious)
  with assms(2) have e: "loop_enqueuer (fst st) spurious (base p) p s = Some (l, s')" by simp
  show ?thesis
  proof (cases "\<exists>r. enqs (lq s) p = P_Swap r")
    case True
    with e swap_tail_inv swap_tail_matched assms show ?thesis
      by (fastforce simp: loop_enqueuer_def)
  next
    case False
    with e have "lift_q s (enqueue_step (base p) p (lq s)) = Some (l, s')"
      by (simp add: loop_enqueuer_def split: enq_pc.splits)
    from lift_qD [OF this] obtain k q where k: "enqueue_step (base p) p (lq s) = Some (k, q)"
      and "l = On_Queue k" "s' = s\<lparr>lq := q\<rparr>" by blast
    with enqueue_step_tail [OF k] False loop_inv_frame [OF assms(1)] q_step.Enqueuer [of base p, OF k]
    show ?thesis by (simp add: loop_matched_def)
  qed
next
  case (Loop_Dequeuer spurious)
  with assms(2) have d: "loop_dequeuer (snd st) spurious bd s = Some (l, s')" by simp
  show ?thesis
  proof (cases "\<exists>r. deq (lq s) = D_Cas r")
    case True
    with d cas_tail_inv cas_tail_matched assms show ?thesis
      by (fastforce simp: loop_dequeuer_def)
  next
    case False
    with d have "lift_q s (dequeuer_step bd (lq s)) = Some (l, s')"
      by (simp add: loop_dequeuer_def split: deq_pc.splits)
    from lift_qD [OF this] obtain k q where k: "dequeuer_step bd (lq s) = Some (k, q)"
      and "l = On_Queue k" "s' = s\<lparr>lq := q\<rparr>" by blast
    with dequeuer_step_tail [OF k] False loop_inv_frame [OF assms(1)] q_step.Dequeuer [OF k]
    show ?thesis by (simp add: loop_matched_def)
  qed
qed

lemma queue_labels_snoc: "queue_labels (ls @ [l]) = queue_labels ls @ queue_label l"
  by (simp add: queue_labels_def)

lemma loop_run_matched:
  assumes "loop_run st base bd (loop_init elts) ls s"
    and "fst st \<noteq> Load_Store" "snd st \<noteq> Load_Store"
  shows "loop_inv (snd st) s \<and> q_run base bd (q_init elts) (queue_labels ls) (lq s)"
  using assms
proof (induction "loop_init elts" ls s rule: loop_run.induct)
  case Loop_Nil
  show ?case by (simp add: loop_inv_def loop_init_def queue_labels_def Run_Nil)
next
  case (Loop_Snoc ls s a l u)
  then have IH: "loop_inv (snd st) s" "q_run base bd (q_init elts) (queue_labels ls) (lq s)" by auto
  from loop_step [OF IH(1) Loop_Snoc.hyps(3) Loop_Snoc.prems]
  have "loop_inv (snd st) u" and m: "loop_matched base bd s l u" by auto
  moreover have "q_run base bd (q_init elts) (queue_labels (ls @ [l])) (lq u)"
    using m IH(2) Run_Snoc [OF IH(2)]
    by (cases l) (auto simp: loop_matched_def queue_labels_snoc)
  ultimately show ?case by simp
qed

section \<open>Who pays for a failed round\<close>

text \<open>An enqueuer whose next try must fail.\<close>

definition enq_stale :: "rmw_style \<Rightarrow> nat \<Rightarrow> lqueue \<Rightarrow> bool" where
  "enq_stale sw p s \<longleftrightarrow>
     (case (sw, e_found s p) of
        (Cas_Loop, Some cmp) \<Rightarrow> cmp \<noteq> q_tail (lq s)
      | (Llsc_Loop, Some prev) \<Rightarrow> \<not> e_reserved s p
      | _ \<Rightarrow> False)"

text \<open>The label of a step that may have written the tail.\<close>

fun tail_writes :: "loop_label \<Rightarrow> nat" where
  "tail_writes (On_Queue l) = length (swap_of l) + length (removal_of l)"
| "tail_writes _ = 0"

definition paid :: "rmw_style \<Rightarrow> nat \<Rightarrow> lqueue \<Rightarrow> loop_label \<Rightarrow> lqueue \<Rightarrow> bool" where
  "paid sw p s l s' \<longleftrightarrow>
     (if l = Retry p then enq_stale sw p s \<and> \<not> enq_stale sw p s'
      else enq_stale sw p s' \<longrightarrow> enq_stale sw p s \<or> tail_writes l > 0)"

lemma paid_frame: "e_found s' = e_found s \<Longrightarrow> e_reserved s' = e_reserved s \<Longrightarrow>
    q_tail (lq s') = q_tail (lq s) \<Longrightarrow> l \<noteq> Retry p \<Longrightarrow> paid sw p s l s'"
  by (cases sw; cases "e_found s p") (simp_all add: paid_def enq_stale_def)

lemma swap_tail_paid: "swap_tail sw spurious b q r s = (l, s') \<Longrightarrow> paid sw p s l s'"
  by (cases sw) (auto simp: paid_def enq_stale_def tail_defs swap_tail_unsafe_def
      split: option.splits if_splits)

lemma cas_tail_paid: "cas_tail cs spurious r s = (l, s') \<Longrightarrow> paid sw p s l s'"
  by (cases cs) (auto simp: paid_def enq_stale_def tail_defs cas_tail_unsafe_def
      split: option.splits if_splits rmw_style.splits)

lemma loop_paid:
  assumes "loop_exec st base bd a s = Some (l, s')"
  shows "paid (fst st) p s l s'"
proof (cases a)
  case (Loop_Call c)
  with assms obtain k q where c: "q_exec base bd c (lq s) = Some (k, q)" and "l = On_Queue k"
    "s' = s\<lparr>lq := q\<rparr>" "\<forall>p. c \<noteq> Go_Enqueuer p" "c \<noteq> Go_Dequeuer"
    by (auto split: q_action.splits dest!: lift_qD)
  with call_tail [OF c] show ?thesis by (intro paid_frame) auto
next
  case (Loop_Enqueuer q spurious)
  with assms show ?thesis
    by (cases "enqs (lq s) q")
      (auto simp: loop_enqueuer_def swap_tail_paid enqueue_step_tail intro!: paid_frame dest!: lift_qD)
next
  case (Loop_Dequeuer spurious)
  with assms show ?thesis
    by (cases "deq (lq s)")
      (auto simp: loop_dequeuer_def cas_tail_paid dequeuer_step_tail intro!: paid_frame dest!: lift_qD)
qed

lemma loop_retries:
  assumes "loop_run st base bd (loop_init elts) ls s"
  shows "count_list ls (Retry p) + (if enq_stale (fst st) p s then 1 else 0) \<le> sum_list (map tail_writes ls)"
  using assms
proof (induction "loop_init elts" ls s rule: loop_run.induct)
  case Loop_Nil
  show ?case by (simp add: enq_stale_def loop_init_def split: rmw_style.split)
next
  case (Loop_Snoc ls s a l u)
  then show ?case using loop_paid [OF Loop_Snoc.hyps(3), of p]
    by (auto simp: paid_def split: if_splits)
qed

lemma tail_writes_labels:
  "sum_list (map tail_writes ls) = length (swapped (queue_labels ls)) + length (removed (queue_labels ls))"
proof (induction ls)
  case (Cons l ls)
  then show ?case by (cases l) (auto simp: queue_labels_def history_defs)
qed (simp add: queue_labels_def history_defs)

section \<open>Properties\<close>

text \<open>A schedule, to be evaluated.\<close>

fun loop_schedule ::
  "rmw_style \<times> rmw_style \<Rightarrow> (nat \<Rightarrow> addr) \<Rightarrow> addr \<Rightarrow> loop_action list \<Rightarrow> loop_label list \<Rightarrow> lqueue \<Rightarrow>
   (loop_label list \<times> lqueue) option" where
  "loop_schedule st base bd [] ls s = Some (ls, s)"
| "loop_schedule st base bd (a # as) ls s =
     (case loop_exec st base bd a s of None \<Rightarrow> None
      | Some (l, u) \<Rightarrow> loop_schedule st base bd as (ls @ [l]) u)"

lemma loop_schedule_run:
  "loop_schedule st base bd as ls s = Some (ks, t) \<Longrightarrow> loop_run st base bd s0 ls s \<Longrightarrow>
     loop_run st base bd s0 ks t"
  by (induction as arbitrary: ls s) (auto split: option.splits intro: Loop_Snoc)

definition loop_labels_of :: "rmw_style \<times> rmw_style \<Rightarrow> loop_action list \<Rightarrow> loop_label list" where
  "loop_labels_of st as =
     fst (the (loop_schedule st sample_base 65536 as [] (loop_init {64, 128})))"

definition loop_end_of :: "rmw_style \<times> rmw_style \<Rightarrow> loop_action list \<Rightarrow> lqueue" where
  "loop_end_of st as =
     snd (the (loop_schedule st sample_base 65536 as [] (loop_init {64, 128})))"

lemma loop_run_of:
  "\<not> Option.is_none (loop_schedule st sample_base 65536 as [] (loop_init {64, 128})) \<Longrightarrow>
     loop_run st sample_base 65536 (loop_init {64, 128}) (loop_labels_of st as) (loop_end_of st as)"
  by (auto simp: Option.is_none_def loop_labels_of_def loop_end_of_def
      intro: loop_schedule_run [OF _ Loop_Nil])

text \<open>
  Two enqueuers load the tail before either stores, so one of them has to go round again; then the
  dequeuer takes both elements. The second schedule has the accesses of the loops by
  compare-and-swap, the third those of the unsafe port.
\<close>

definition both_load :: "loop_action list" where
  "both_load =
     [Loop_Call (Start_Enqueue 0 4160), Loop_Call (Start_Enqueue 1 8320),
      Loop_Enqueuer 0 False, Loop_Enqueuer 1 False, Loop_Enqueuer 0 False, Loop_Enqueuer 1 False,
      Loop_Enqueuer 1 False, Loop_Enqueuer 0 False]"

definition take_first :: "loop_action list" where
  "take_first = [Loop_Call Start_Is_Empty, Loop_Dequeuer False, Loop_Dequeuer False, Loop_Dequeuer False,
     Loop_Dequeuer False, Loop_Call Start_Dequeue]"

definition llsc_schedule :: "loop_action list" where
  "llsc_schedule = both_load @ replicate 3 (Loop_Enqueuer 0 False) @ [Loop_Enqueuer 1 False] @
     take_first @ replicate 4 (Loop_Dequeuer False) @
     [Loop_Call Start_Is_Empty, Loop_Call Start_Dequeue, Loop_Dequeuer False, Loop_Dequeuer False,
      Loop_Dequeuer False, Loop_Dequeuer True, Loop_Dequeuer False, Loop_Dequeuer False, Loop_Dequeuer False]"

lemma llsc_run:
  "loop_run (port_styles False Gcc_Arm) sample_base 65536 (loop_init {64, 128})
     (loop_labels_of (port_styles False Gcc_Arm) llsc_schedule)
     (loop_end_of (port_styles False Gcc_Arm) llsc_schedule)"
  by (rule loop_run_of) code_simp

definition cas_schedule :: "loop_action list" where
  "cas_schedule = both_load @ replicate 2 (Loop_Enqueuer 0 False) @ [Loop_Enqueuer 1 False]"

lemma cas_run:
  "loop_run (port_styles False Gcc_Intrinsics) sample_base 65536 (loop_init {64, 128})
     (loop_labels_of (port_styles False Gcc_Intrinsics) cas_schedule)
     (loop_end_of (port_styles False Gcc_Intrinsics) cas_schedule)"
  by (rule loop_run_of) code_simp

text \<open>
  Why the swap has to be atomic: on the unsafe port both enqueuers find the tail null, both write
  the head, and the dequeuer never sees the element that was swapped in first.
\<close>

definition unsafe_schedule :: "loop_action list" where
  "unsafe_schedule = both_load @ [Loop_Enqueuer 1 False, Loop_Enqueuer 0 False] @ take_first @
     replicate 4 (Loop_Dequeuer False)"

lemma unsafe_swap_loses_element:
  "\<exists>ls s. loop_run (port_styles tas Unsafe) sample_base 65536 (loop_init {64, 128}) ls s \<and>
     swapped (queue_labels ls) = [128, 64] \<and> removed (queue_labels ls) = [64]"
proof -
  let ?st = "(Load_Store, Load_Store)"
  have "port_styles tas Unsafe = ?st" by (simp add: port_styles_def pointer_rmw_defs)
  moreover have "\<not> Option.is_none (loop_schedule ?st sample_base 65536 unsafe_schedule [] (loop_init {64, 128}))"
    "swapped (queue_labels (loop_labels_of ?st unsafe_schedule)) = [128, 64]"
    "removed (queue_labels (loop_labels_of ?st unsafe_schedule)) = [64]"
    by code_simp+
  ultimately show ?thesis using loop_run_of by metis
qed

text \<open>
  C3. The queue over the loops of a port. On every port but the unsafe one, whether the tail is
  swapped and compared by one instruction, by a loop over a compare-and-swap or by a loop over
  load-linked and store-conditional with spurious failures, and however the accesses of the loops
  are interleaved with those of the other threads, a run is a run of the queue with single swaps and
  compare-and-swaps when loads and failed rounds are left out, and it ends in the same state of the queue.
  So elements come out in the order of their successful swaps.
\<close>

theorem queue_over_loops_refines:
  assumes "loop_run (port_styles tas_is_swap port) base bd (loop_init elts) ls s"
    and "port \<noteq> Unsafe"
  shows "q_run base bd (q_init elts) (queue_labels ls) (lq s) \<and>
    prefix (map (cell bd) (dequeued_elts (queue_labels ls))) (swapped (queue_labels ls))"
  using loop_run_matched [OF assms(1)] port_styles_atomic [OF assms(2)] run_fifo by blast

theorem queue_over_loops_refines_witness:
  "prefix (map (cell 65536) (dequeued_elts
     (queue_labels (loop_labels_of (port_styles False Gcc_Arm) llsc_schedule)))) [128, 64] \<and>
   dequeued_elts (queue_labels (loop_labels_of (port_styles False Gcc_Arm) llsc_schedule)) =
     [abs_of 65536 128, abs_of 65536 64]"
proof -
  let ?ls = "queue_labels (loop_labels_of (port_styles False Gcc_Arm) llsc_schedule)"
  have "swapped ?ls = [128, 64]" "dequeued_elts ?ls = [abs_of 65536 128, abs_of 65536 64]"
    by code_simp+
  with queue_over_loops_refines [OF llsc_run] show ?thesis by simp
qed

text \<open>
  C23. Over the loops an enqueue is lock-free: a round of an enqueuer that failed because of other
  threads was paid for by one of them writing the tail. An enqueuer has failed at most as often as
  elements were put on the queue or taken off it in the whole run.
\<close>

theorem enqueue_over_loops_lock_free:
  assumes "loop_run (port_styles tas_is_swap port) base bd (loop_init elts) ls s"
  shows "count_list ls (Retry p) \<le>
    length (swapped (queue_labels ls)) + length (removed (queue_labels ls))"
  using loop_retries [OF assms, of p] by (simp add: tail_writes_labels split: if_splits)

theorem enqueue_over_loops_lock_free_witness:
  "count_list (loop_labels_of (port_styles False Gcc_Intrinsics) cas_schedule) (Retry 0) = 1 \<and>
   1 \<le> length (swapped (queue_labels (loop_labels_of (port_styles False Gcc_Intrinsics) cas_schedule))) +
     length (removed (queue_labels (loop_labels_of (port_styles False Gcc_Intrinsics) cas_schedule)))"
proof -
  have "count_list (loop_labels_of (port_styles False Gcc_Intrinsics) cas_schedule) (Retry 0) = 1"
    by code_simp
  with enqueue_over_loops_lock_free [OF cas_run, of 0] show ?thesis by simp
qed

end
