(* ===== verification/OPA_Queue_Test.thy ===== *)
theory OPA_Queue_Test
  imports OPA_Queue_Owners OPA_Test_Config
begin

text \<open>
  \<open>test_queue_threaded\<close> of \<open>test/test_queue.c\<close> as a client of the concurrent queue: enqueuing
  threads that put numbered elements on the queue and one thread that takes them off, checks the
  numbers and counts its errors. Every access to a shared cell of the queue is a step; what a thread
  does between two of them touches only its own variables and elements no other thread has, and is
  done together with one of them. All threads are in one process, so the base address is 0.
\<close>

section \<open>Configurations\<close>

text \<open>The iterations of an enqueuing thread; \<open>k\<close> is \<open>curr_test\<close>.\<close>

definition THREADED_NITER :: nat where
  "THREADED_NITER = 500000"

definition thread_niter :: "nat \<Rightarrow> nat" where
  "thread_niter k = THREADED_NITER div iter_reduction ! k"

text \<open>
  The bound of the dequeuer's loop, \<open>1000 * niter\<close>, is a product of \<open>int\<close>s.
\<close>

definition loop_limit :: "nat \<Rightarrow> c_fault + int" where
  "loop_limit niter =
     (if 1000 * int niter < 2 ^ 31 then Inr (1000 * int niter) else Inl Signed_Overflow)"

section \<open>State\<close>

text \<open>
  Where the dequeuing thread is: before \<open>calloc\<close>, at the loop condition, inside the calls of its
  loop, inside the last \<open>OPA_Queue_is_empty\<close>, returned, stopped by an assertion or in undefined
  behaviour.
\<close>

datatype client_pc =
    T_Calloc
  | T_Loop
  | T_Empty
  | T_Peek
  | T_Recheck
  | T_Dequeue
  | T_Final
  | T_Return nat
  | T_Assert_Failed
  | T_Fault c_fault

text \<open>
  The queue; the fields of the elements at their addresses; of each enqueuing thread the loop
  counter and the exit value; the local variables of the dequeuing thread. \<open>malloc\<close> takes an element
  of \<open>avail\<close>, or none, and \<open>free\<close> is part of its return to \<open>avail\<close>.
\<close>

record tstate =
  tq :: qstate
  threadno :: "addr \<Rightarrow> nat"
  sequenceno :: "addr \<Rightarrow> nat"
  e_i :: "nat \<Rightarrow> nat"
  e_exit :: "nat \<Rightarrow> nat option"
  d_pc :: client_pc
  d_i :: int
  ndequeues :: nat
  peek_counter :: nat
  peek_element :: "addr option"
  expect_sn :: "nat list"
  nerrors :: nat

section \<open>The enqueuing threads\<close>

text \<open>
  One round of the loop up to the call: \<open>malloc\<close>, \<open>OPA_Queue_header_init\<close>, the two fields. The
  increment of the loop counter is done here as well.
\<close>

definition header_init_q :: "addr \<Rightarrow> qstate \<Rightarrow> qstate" where
  "header_init_q e q = q\<lparr>q_next := (q_next q)(cell 0 e := OPA_SHM_REL_NULL)\<rparr>"

definition create_and_enqueue :: "nat \<Rightarrow> nat \<Rightarrow> addr \<Rightarrow> tstate \<Rightarrow> tstate option" where
  "create_and_enqueue niter p e s =
     (if e_exit s p = None \<and> enqs (tq s) p = P_Idle \<and> e_i s p < niter \<and> e \<in> avail (tq s) then
        (case enqueue_call 0 p e (header_init_q e (tq s)) of
           None \<Rightarrow> None
         | Some q \<Rightarrow> Some (s\<lparr>tq := q, threadno := (threadno s)(e := p),
             sequenceno := (sequenceno s)(e := e_i s p), e_i := (e_i s)(p := Suc (e_i s p))\<rparr>))
      else None)"

definition malloc_fails :: "nat \<Rightarrow> nat \<Rightarrow> tstate \<Rightarrow> tstate option" where
  "malloc_fails niter p s =
     (if e_exit s p = None \<and> enqs (tq s) p = P_Idle \<and> e_i s p < niter
      then Some (s\<lparr>e_exit := (e_exit s)(p \<mapsto> 1)\<rparr>) else None)"

definition enqueuer_exits :: "nat \<Rightarrow> nat \<Rightarrow> tstate \<Rightarrow> tstate option" where
  "enqueuer_exits niter p s =
     (if e_exit s p = None \<and> enqs (tq s) p = P_Idle \<and> \<not> e_i s p < niter
      then Some (s\<lparr>e_exit := (e_exit s)(p \<mapsto> 0)\<rparr>) else None)"

definition enqueuer_access :: "nat \<Rightarrow> tstate \<Rightarrow> (qlabel \<times> tstate) option" where
  "enqueuer_access p s = map_option (\<lambda>(l, q). (l, s\<lparr>tq := q\<rparr>)) (enqueue_step 0 p (tq s))"

section \<open>The dequeuing thread\<close>

text \<open>One access of a call: its first one when the thread is not inside a call of the queue yet.\<close>

definition d_access :: "(qstate \<Rightarrow> (qlabel \<times> qstate) option) \<Rightarrow> tstate \<Rightarrow> (qlabel \<times> tstate) option" where
  "d_access call s = map_option (\<lambda>(l, q). (l, s\<lparr>tq := q\<rparr>))
     (case deq (tq s) of C_Idle b \<Rightarrow> call (tq s) | _ \<Rightarrow> dequeuer_step 0 (tq s))"

text \<open>What the thread does when a call returns, before its next call.\<close>

definition peek_due :: "tstate \<Rightarrow> tstate" where
  "peek_due s =
     (let s = s\<lparr>peek_counter := Suc (peek_counter s)\<rparr> in
      if peek_counter s = 100 then s\<lparr>d_pc := T_Peek\<rparr> else s\<lparr>d_pc := T_Dequeue\<rparr>)"

definition empty_returns :: "bool \<Rightarrow> tstate \<Rightarrow> tstate" where
  "empty_returns b s =
     (if \<not> b then peek_due s else s\<lparr>d_i := d_i s + 1, d_pc := T_Loop\<rparr>)"

definition peek_returns :: "addr option \<Rightarrow> tstate \<Rightarrow> tstate" where
  "peek_returns e s =
     s\<lparr>peek_element := e, nerrors := nerrors s + (if e = None then 1 else 0),
       peek_counter := 0, d_pc := T_Recheck\<rparr>"

definition recheck_returns :: "bool \<Rightarrow> tstate \<Rightarrow> tstate" where
  "recheck_returns b s = s\<lparr>d_pc := if b then T_Return 1 else T_Dequeue\<rparr>"

definition peek_errors :: "addr \<Rightarrow> tstate \<Rightarrow> nat" where
  "peek_errors e s =
     (case peek_element s of
        None \<Rightarrow> 0
      | Some pe \<Rightarrow>
          if threadno s pe \<noteq> threadno s e \<or> sequenceno s pe \<noteq> sequenceno s e then 1 else 0)"

definition sequence_errors :: "nat \<Rightarrow> addr \<Rightarrow> tstate \<Rightarrow> nat" where
  "sequence_errors nenqueuers e s =
     (if threadno s e \<ge> nenqueuers then 1
      else if sequenceno s e \<noteq> expect_sn s ! threadno s e then 1 else 0)"

definition dequeue_returns :: "nat \<Rightarrow> addr \<Rightarrow> tstate \<Rightarrow> tstate" where
  "dequeue_returns nenqueuers e s =
     s\<lparr>ndequeues := Suc (ndequeues s),
       nerrors := nerrors s + peek_errors e s + sequence_errors nenqueuers e s,
       peek_element := None,
       expect_sn := (if threadno s e \<ge> nenqueuers then expect_sn s
                     else (expect_sn s)[threadno s e := Suc (sequenceno s e)]),
       d_i := d_i s + 1, d_pc := T_Loop\<rparr>"

definition loop_ends :: "nat \<Rightarrow> tstate \<Rightarrow> tstate" where
  "loop_ends niter s =
     s\<lparr>nerrors := nerrors s + (if ndequeues s \<noteq> niter then 1 else 0), d_pc := T_Final\<rparr>"

definition final_returns :: "nat \<Rightarrow> bool \<Rightarrow> tstate \<Rightarrow> tstate" where
  "final_returns n b s =
     (let s = s\<lparr>nerrors := nerrors s + (if \<not> b then 1 else 0)\<rparr> in
      s\<lparr>d_pc := if nerrors s = 0 \<and> \<not> (\<forall>x \<in> set (expect_sn s). x = n) then T_Assert_Failed
               else T_Return (if nerrors s \<noteq> 0 then 1 else 0)\<rparr>)"

definition loop_condition :: "nat \<Rightarrow> tstate \<Rightarrow> tstate" where
  "loop_condition niter s =
     (if ndequeues s < niter then
        (case loop_limit niter of
           Inl f \<Rightarrow> s\<lparr>d_pc := T_Fault f\<rparr>
         | Inr limit \<Rightarrow> if d_i s < limit then s\<lparr>d_pc := T_Empty\<rparr> else loop_ends niter s)
      else loop_ends niter s)"

text \<open>
  The return of a call, by the place of the call; other labels are accesses inside a call.
\<close>

fun call_returns :: "nat \<Rightarrow> nat \<Rightarrow> client_pc \<Rightarrow> qlabel \<Rightarrow> tstate \<Rightarrow> tstate" where
  "call_returns nenqueuers n T_Empty (Is_Empty b) s = empty_returns b s"
| "call_returns nenqueuers n T_Peek Peek_Null s = peek_returns None s"
| "call_returns nenqueuers n T_Peek (Peeked e) s = peek_returns (Some e) s"
| "call_returns nenqueuers n T_Recheck (Is_Empty b) s = recheck_returns b s"
| "call_returns nenqueuers n T_Dequeue (Dequeued e) s = dequeue_returns nenqueuers e s"
| "call_returns nenqueuers n T_Final (Is_Empty b) s = final_returns n b s"
| "call_returns nenqueuers n pc l s = s"

text \<open>The call a thread is about to make, or is in.\<close>

fun call_at :: "client_pc \<Rightarrow> (qstate \<Rightarrow> (qlabel \<times> qstate) option) option" where
  "call_at T_Empty = Some is_empty_call"
| "call_at T_Peek = Some peek_call"
| "call_at T_Recheck = Some is_empty_call"
| "call_at T_Dequeue = Some dequeue_call"
| "call_at T_Final = Some is_empty_call"
| "call_at _ = None"

text \<open>\<open>ok\<close> tells whether \<open>calloc\<close> finds memory.\<close>

definition dequeue_thread :: "nat \<Rightarrow> nat \<Rightarrow> bool \<Rightarrow> tstate \<Rightarrow> tstate option" where
  "dequeue_thread nenqueuers n ok s =
     (case call_at (d_pc s) of
        Some call \<Rightarrow>
          map_option (\<lambda>(l, s'). call_returns nenqueuers n (d_pc s) l s') (d_access call s)
      | None \<Rightarrow>
          (case d_pc s of
             T_Calloc \<Rightarrow>
               Some (if ok then s\<lparr>expect_sn := replicate nenqueuers 0, d_pc := T_Loop\<rparr>
                     else s\<lparr>d_pc := T_Return 1\<rparr>)
           | T_Loop \<Rightarrow> Some (loop_condition (n * nenqueuers) s)
           | _ \<Rightarrow> None))"

section \<open>The test\<close>

datatype t_action =
    Create nat addr
  | No_Memory nat
  | Enqueuer_Access nat
  | Enqueuer_Exit nat
  | Dequeue_Thread bool

fun t_exec :: "nat \<Rightarrow> nat \<Rightarrow> t_action \<Rightarrow> tstate \<Rightarrow> tstate option" where
  "t_exec nenqueuers n (Create p e) s =
     (if p < nenqueuers then create_and_enqueue n p e s else None)"
| "t_exec nenqueuers n (No_Memory p) s = (if p < nenqueuers then malloc_fails n p s else None)"
| "t_exec nenqueuers n (Enqueuer_Access p) s = map_option snd (enqueuer_access p s)"
| "t_exec nenqueuers n (Enqueuer_Exit p) s = (if p < nenqueuers then enqueuer_exits n p s else None)"
| "t_exec nenqueuers n (Dequeue_Thread ok) s = dequeue_thread nenqueuers n ok s"

definition t_init :: "addr set \<Rightarrow> tstate" where
  "t_init heap = \<lparr>tq = q_init heap, threadno = (\<lambda>_. 0), sequenceno = (\<lambda>_. 0), e_i = (\<lambda>_. 0),
     e_exit = (\<lambda>_. None), d_pc = T_Calloc, d_i = 0, ndequeues = 0, peek_counter = 0,
     peek_element = None, expect_sn = [], nerrors = 0\<rparr>"

inductive t_reach :: "nat \<Rightarrow> nat \<Rightarrow> addr set \<Rightarrow> tstate \<Rightarrow> bool"
  for nenqueuers :: nat and n :: nat and heap :: "addr set" where
  T_Start: "t_reach nenqueuers n heap (t_init heap)"
| T_Step: "t_reach nenqueuers n heap s \<Longrightarrow> t_exec nenqueuers n a s = Some s' \<Longrightarrow>
    t_reach nenqueuers n heap s'"

text \<open>
  The return value of \<open>test_queue_threaded\<close>, once all threads have been joined.
\<close>

definition test_result :: "nat \<Rightarrow> tstate \<Rightarrow> nat option" where
  "test_result nenqueuers s =
     (if \<forall>p \<in> set [0..<nenqueuers]. e_exit s p \<noteq> None then
        (case d_pc s of
           T_Return v \<Rightarrow>
             (let errors = v + length (filter (\<lambda>p. e_exit s p \<noteq> Some 0) [0..<nenqueuers])
              in Some (if errors \<noteq> 0 then 1 else 0))
         | _ \<Rightarrow> None)
      else None)"

section \<open>The invariant of the numbers\<close>

text \<open>
  The elements the dequeuer has still to return, in their order, and the one an enqueuer has not
  put on the queue yet.
\<close>

definition coming :: "qstate \<Rightarrow> addr list \<Rightarrow> addr list" where
  "coming q xs = held_list (deq q) @ xs"

definition own_list :: "enq_pc \<Rightarrow> addr list" where
  "own_list pc = (case unswapped_elt pc of None \<Rightarrow> [] | Some r \<Rightarrow> [r])"

definition expected :: "tstate \<Rightarrow> nat \<Rightarrow> nat" where
  "expected s p = (if p < length (expect_sn s) then expect_sn s ! p else 0)"

text \<open>
  Of each thread, the elements on their way carry the numbers from the expected one up to its loop
  counter.
\<close>

definition numbered :: "tstate \<Rightarrow> addr list \<Rightarrow> nat \<Rightarrow> bool" where
  "numbered s xs p \<longleftrightarrow>
     expected s p \<le> e_i s p \<and>
     map (sequenceno s) (filter (\<lambda>r. threadno s r = p) (coming (tq s) xs @ own_list (enqs (tq s) p))) =
       [expected s p..<e_i s p]"

definition num_inv :: "nat \<Rightarrow> nat \<Rightarrow> tstate \<Rightarrow> addr list \<Rightarrow> bool" where
  "num_inv nenqueuers n s xs \<longleftrightarrow>
     q_inv (\<lambda>_. 0) (tq s) xs \<and>
     (\<forall>p r. unswapped_elt (enqs (tq s) p) = Some r \<longrightarrow> p < nenqueuers \<and> threadno s r = p) \<and>
     (\<forall>r \<in> set (coming (tq s) xs). threadno s r < nenqueuers) \<and>
     (\<forall>p < nenqueuers. e_i s p \<le> n \<and> numbered s xs p \<and>
        (\<forall>v. e_exit s p = Some v \<longrightarrow> (v = 0 \<longleftrightarrow> e_i s p = n)))"

lemma cell_0 [simp]: "cell 0 e = e" "abs_of 0 r = r"
  by (simp_all add: cell_def abs_of_def OPA_Shm_rel_to_abs_def)

lemma expected_tq [simp]: "expected (s\<lparr>tq := q\<rparr>) p = expected s p"
  by (simp add: expected_def)

lemma num_invD:
  assumes "num_inv nenqueuers n s xs"
  shows "q_inv (\<lambda>_. 0) (tq s) xs"
    "unswapped_elt (enqs (tq s) p) = Some r \<Longrightarrow> p < nenqueuers \<and> threadno s r = p"
    "r \<in> set (coming (tq s) xs) \<Longrightarrow> threadno s r < nenqueuers"
    "p < nenqueuers \<Longrightarrow> e_i s p \<le> n" "p < nenqueuers \<Longrightarrow> numbered s xs p"
    "p < nenqueuers \<Longrightarrow> e_exit s p = Some v \<Longrightarrow> v = 0 \<longleftrightarrow> e_i s p = n"
  using assms by (auto simp: num_inv_def)

lemma map_cell_0 [simp]: "map (cell 0) xs = xs"
  by (simp add: map_idI)

lemma Cons_eq_upt: "x # xs = [i..<j] \<longleftrightarrow> i < j \<and> x = i \<and> xs = [Suc i..<j]"
  using upt_eq_Cons_conv [of i j x xs] by auto

lemma fields_other: "e \<notin> set xs \<Longrightarrow>
    map (f(e := v)) (filter (\<lambda>r. (g(e := w)) r = p) xs) = map f (filter (\<lambda>r. g r = p) xs)"
  by (induction xs) auto

lemma num_inv_client:
  "tq s' = tq s \<Longrightarrow> threadno s' = threadno s \<Longrightarrow> sequenceno s' = sequenceno s \<Longrightarrow> e_i s' = e_i s \<Longrightarrow>
   e_exit s' = e_exit s \<Longrightarrow> expect_sn s' = expect_sn s \<Longrightarrow>
     num_inv nenqueuers n s' xs = num_inv nenqueuers n s xs"
  by (simp add: num_inv_def numbered_def expected_def)

text \<open>A step of the queue, and the elements on their way.\<close>

lemma step_coming:
  assumes inv: "q_inv base q xs" and step: "q_step base bd q l q'"
  shows "\<exists>ys. q_inv base q' ys \<and> coming q xs @ swap_of l = map (cell bd) (return_of l) @ coming q' ys \<and>
    spec_step bd (xs, pend (enqs q)) l (ys, pend (enqs q'))"
proof -
  from simulated_step [OF inv step] obtain ys where "q_inv base q' ys"
    and spec: "spec_step bd (xs, pend (enqs q)) l (ys, pend (enqs q'))"
    by (auto simp: simulated_def)
  moreover have "coming q xs @ swap_of l = map (cell bd) (return_of l) @ coming q' ys"
    using spec_step_content [OF spec] step_history [OF step]
    by (simp add: coming_def)
  ultimately show ?thesis by blast
qed

text \<open>An access of an enqueuer moves its element from its own hands to the queue, if anything.\<close>

lemma enqueue_step_own:
  "enqueue_step b p q = Some (l, q') \<Longrightarrow>
     own_list (enqs q p) = swap_of l @ own_list (enqs q' p) \<and> return_of l = [] \<and>
     (\<forall>r. unswapped_elt (enqs q' p) = Some r \<longrightarrow> unswapped_elt (enqs q p) = Some r)"
  by (auto simp: enqueue_step_def own_list_def Let_def split: enq_pc.splits if_splits)

lemma own_list_swapped: "r \<in> set (swap_of l) \<Longrightarrow> enqueue_step b p q = Some (l, q') \<Longrightarrow>
    unswapped_elt (enqs q p) = Some r"
  by (auto simp: enqueue_step_def Let_def split: enq_pc.splits if_splits)

lemma num_inv_enqueuer:
  assumes inv: "num_inv nenqueuers n s xs" and step: "enqueue_step 0 p (tq s) = Some (l, q)"
  shows "\<exists>ys. num_inv nenqueuers n (s\<lparr>tq := q\<rparr>) ys \<and> deq q = deq (tq s) \<and>
    coming q ys = coming (tq s) xs @ swap_of l"
proof -
  have "q_step (\<lambda>_. 0) 0 (tq s) l q" using step by (intro q_step.Enqueuer)
  from step_coming [OF num_invD(1) [OF inv] this] enqueue_step_own [OF step] obtain ys
    where q: "q_inv (\<lambda>_. 0) q ys" and c: "coming q ys = coming (tq s) xs @ swap_of l"
      and own: "own_list (enqs (tq s) p) = swap_of l @ own_list (enqs q p)"
      and u: "\<And>r. unswapped_elt (enqs q p) = Some r \<Longrightarrow> unswapped_elt (enqs (tq s) p) = Some r"
    by auto
  note others = enqueue_step_others [OF step]
  have t: "p < nenqueuers \<and> threadno s r = p" if "r \<in> set (swap_of l)" for r
    using num_invD(2) [OF inv] own_list_swapped [OF that step] by blast
  have "numbered (s\<lparr>tq := q\<rparr>) ys p'" if "p' < nenqueuers" for p'
  proof (cases "p' = p")
    case True
    with num_invD(5) [OF inv that] own c show ?thesis by (simp add: numbered_def)
  next
    case False
    then have "filter (\<lambda>r. threadno s r = p') (swap_of l) = []" using t by (auto simp: filter_empty_conv)
    with num_invD(5) [OF inv that] False c others show ?thesis
      by (simp add: numbered_def)
  qed
  moreover have "unswapped_elt (enqs q p') = Some r \<Longrightarrow> p' < nenqueuers \<and> threadno s r = p'" for p' r
    using num_invD(2) [OF inv, of p' r] u others by (cases "p' = p") auto
  moreover have "\<forall>r \<in> set (coming q ys). threadno s r < nenqueuers"
    using num_invD(3) [OF inv] t c by auto
  moreover have "deq q = deq (tq s)"
    using step by (auto simp: enqueue_step_def Let_def split: enq_pc.splits)
  ultimately show ?thesis using inv q c by (intro exI [of _ ys]) (auto simp: num_inv_def)
qed

lemma header_init_inv:
  assumes inv: "q_inv (\<lambda>_. 0) q xs" and e: "e \<in> avail q"
  shows "q_inv (\<lambda>_. 0) (header_init_q e q) xs"
proof -
  from e q_invD(9) [OF inv] have x: "e \<notin> set xs" by auto
  have "enq_ok 0 (header_init_q e q) xs (enqs q p)" for p
    using q_invD(7) [OF inv, of p]
    by (auto simp: enq_ok_def private_elt_def header_init_q_def OPA_SHM_REL_NULL_def split: enq_pc.splits)
  moreover have "chain (pend (enqs q)) ((q_next q)(e := 0)) xs"
    using q_invD(4) [OF inv] x by (simp add: chain_frame del: fun_upd_apply)
  moreover have "deq_ok (header_init_q e q)"
  proof -
    have "eff_shadow q = z \<Longrightarrow> z \<noteq> 0 \<Longrightarrow> z \<noteq> e" for z
      using pending_front(1) [OF inv, of z] x by auto
    then show ?thesis
      using q_invD(6) [OF inv]
      by (cases "deq q") (auto simp: header_init_q_def deq_ok_def eff_shadow_def)
  qed
  moreover have "eff_head (header_init_q e q) = eff_head q" "eff_shadow (header_init_q e q) = eff_shadow q"
    by (simp_all add: header_init_q_def eff_head_def eff_shadow_def cong: deq_pc.case_cong)
  ultimately show ?thesis
    using inv by (simp add: q_inv_def header_init_q_def OPA_SHM_REL_NULL_def del: fun_upd_apply)
qed

lemma num_inv_create:
  assumes inv: "num_inv nenqueuers n s xs" and p: "p < nenqueuers"
    and step: "create_and_enqueue n p e s = Some s'"
  shows "num_inv nenqueuers n s' xs \<and> deq (tq s') = deq (tq s)"
proof -
  from step obtain q where e: "e \<in> avail (tq s)" and idle: "enqs (tq s) p = P_Idle" "e_exit s p = None"
    and i: "e_i s p < n" and call: "enqueue_call 0 p e (header_init_q e (tq s)) = Some q"
    and s': "s' = s\<lparr>tq := q, threadno := (threadno s)(e := p), sequenceno := (sequenceno s)(e := e_i s p),
        e_i := (e_i s)(p := Suc (e_i s p))\<rparr>"
    by (auto simp: create_and_enqueue_def split: if_splits option.splits)
  note q_inv = num_invD(1) [OF inv]
  from call have q: "deq q = deq (tq s)" "enqs q = (enqs (tq s))(p := P_Null e e)"
    by (auto simp: enqueue_call_def header_init_q_def Let_def split: if_splits)
  from simulated_enqueue_call [OF header_init_inv [OF q_inv e], of p e, where bd = 0] call
  have inv': "q_inv (\<lambda>_. 0) q xs" by (auto simp: simulated_def elim: spec_stepE)
  have e_new: "e \<notin> set (coming (tq s) xs)"
    using e q_invD(9,10) [OF q_inv] by (auto simp: coming_def held_list_def held_def split: deq_pc.splits)
  have e_own: "unswapped_elt (enqs (tq s) p') \<noteq> Some e" for p'
    using unswapped_private [OF q_inv, of e] e by (auto simp: private_elt_def unswapped_def)
  have "numbered s' xs p'" if "p' < nenqueuers" for p'
  proof -
    let ?old = "coming (tq s) xs @ own_list (enqs (tq s) p')"
    have "e \<notin> set ?old" using e_new e_own [of p'] by (auto simp: own_list_def split: option.splits)
    then have "map (sequenceno s') (filter (\<lambda>r. threadno s' r = p') ?old) =
        map (sequenceno s) (filter (\<lambda>r. threadno s r = p') ?old)"
      using fields_other [of e ?old] by (simp add: s' del: fun_upd_apply map_append filter_append)
    with num_invD(5) [OF inv that] show ?thesis
      using q idle by (cases "p' = p")
        (auto simp: numbered_def expected_def own_list_def coming_def s')
  qed
  moreover have "unswapped_elt (enqs q p') = Some r \<Longrightarrow> p' < nenqueuers \<and> threadno s' r = p'" for p' r
    using num_invD(2) [OF inv, of p' r] e_own [of p'] p by (auto simp: q s' split: if_splits)
  ultimately show ?thesis
    using inv inv' q e_new idle i by (auto simp: num_inv_def coming_def s')
qed

text \<open>A step of the dequeuing thread inside a call, and what its return takes off.\<close>

lemma d_access_cases:
  assumes "d_access call s = Some (l, s')"
  obtains q where "s' = s\<lparr>tq := q\<rparr>" "call (tq s) = Some (l, q)" "\<exists>b. deq (tq s) = C_Idle b"
  | q where "s' = s\<lparr>tq := q\<rparr>" "dequeuer_step 0 (tq s) = Some (l, q)" "\<nexists>b. deq (tq s) = C_Idle b"
  using assms unfolding d_access_def by (cases "deq (tq s)") auto

lemma call_step: "call q = Some (l, q') \<Longrightarrow> call \<in> {is_empty_call, peek_call, dequeue_call} \<Longrightarrow>
    q_step base bd q l q' \<and> enqs q' = enqs q \<and> swap_of l = []"
  by (auto intro: q_step.intros)
    (auto simp: is_empty_call_def peek_call_def dequeue_call_def split: deq_pc.splits if_splits)

lemma d_access_step:
  assumes "d_access call s = Some (l, s')" and "call \<in> {is_empty_call, peek_call, dequeue_call}"
  shows "\<exists>q. s' = s\<lparr>tq := q\<rparr> \<and> q_step (\<lambda>_. 0) 0 (tq s) l q \<and> enqs q = enqs (tq s) \<and> swap_of l = []"
  using assms(1)
proof (cases rule: d_access_cases)
  case (1 q)
  with call_step [OF 1(2) assms(2)] show ?thesis by blast
next
  case (2 q)
  with dequeuer_step_places [OF 2(2)] q_step.Dequeuer [OF 2(2)] show ?thesis by auto
qed

lemma num_inv_access:
  assumes inv: "num_inv nenqueuers n s xs" and step: "d_access call s = Some (l, s')"
    and call: "call \<in> {is_empty_call, peek_call, dequeue_call}"
  shows "\<exists>ys P Q. q_inv (\<lambda>_. 0) (tq s') ys \<and> coming (tq s) xs = return_of l @ coming (tq s') ys \<and>
    spec_step 0 (xs, P) l (ys, Q) \<and> (\<exists>q. s' = s\<lparr>tq := q\<rparr> \<and> enqs q = enqs (tq s))"
proof -
  from d_access_step [OF step call] obtain q where s': "s' = s\<lparr>tq := q\<rparr>"
    and q: "q_step (\<lambda>_. 0) 0 (tq s) l q" "enqs q = enqs (tq s)" "swap_of l = []" by blast
  from step_coming [OF num_invD(1) [OF inv] q(1)] q(2,3) s' show ?thesis by fastforce
qed

text \<open>An access that returns no element leaves the numbers as they are.\<close>

lemma num_inv_keep:
  assumes inv: "num_inv nenqueuers n s xs" and q: "q_inv (\<lambda>_. 0) q ys" "enqs q = enqs (tq s)"
    and c: "coming (tq s) xs = coming q ys"
  shows "num_inv nenqueuers n (s\<lparr>tq := q\<rparr>) ys"
  using inv q unfolding num_inv_def numbered_def by (simp add: c)

text \<open>The element a dequeue returns carries the expected number.\<close>

lemma num_inv_return:
  assumes inv: "num_inv nenqueuers n s xs" and q: "q_inv (\<lambda>_. 0) q ys" "enqs q = enqs (tq s)"
    and c: "coming (tq s) xs = e # coming q ys" and len: "length (expect_sn s) = nenqueuers"
  shows "threadno s e < nenqueuers \<and> sequenceno s e = expect_sn s ! threadno s e \<and>
    num_inv nenqueuers n (s\<lparr>tq := q,
      expect_sn := (expect_sn s)[threadno s e := Suc (sequenceno s e)]\<rparr>) ys" (is "_ \<and> _ \<and> num_inv _ _ ?s' _")
proof -
  from num_invD(3) [OF inv, of e] c have t: "threadno s e < nenqueuers" by simp
  have "numbered s xs (threadno s e)" by (rule num_invD(5) [OF inv t])
  then have le: "expected s (threadno s e) < e_i s (threadno s e)"
    and sn: "sequenceno s e = expect_sn s ! threadno s e"
    using t len by (auto simp: numbered_def c expected_def Cons_eq_upt)
  have "numbered ?s' ys p" if "p < nenqueuers" for p
    using num_invD(5) [OF inv that] t len le sn q(2)
    by (cases "p = threadno s e")
      (auto simp: numbered_def c expected_def Cons_eq_upt nth_list_update)
  moreover have "\<forall>r \<in> set (coming q ys). threadno s r < nenqueuers"
    using num_invD(3) [OF inv] c by auto
  ultimately show ?thesis using inv t sn q by (simp add: num_inv_def)
qed

text \<open>When everything has been taken off, nothing is on its way.\<close>

lemma sum_list_bound: "\<forall>x \<in> set es. x \<le> n \<Longrightarrow> sum_list es \<le> n * length (es :: nat list)"
  by (induction es) auto

lemma sum_list_all: "\<forall>x \<in> set es. x \<le> n \<Longrightarrow> sum_list es = n * length es \<Longrightarrow> \<forall>x \<in> set es. x = (n :: nat)"
proof (induction es)
  case (Cons x es)
  then have "sum_list es \<le> n * length es" by (simp add: sum_list_bound)
  with Cons show ?case by auto
qed simp

lemma expect_sn_bound:
  assumes inv: "num_inv nenqueuers n s xs" and len: "length (expect_sn s) = nenqueuers"
  shows "\<forall>x \<in> set (expect_sn s). x \<le> n"
proof -
  have "expect_sn s ! p \<le> n" if "p < nenqueuers" for p
    using num_invD(4,5) [OF inv that] that len by (simp add: numbered_def expected_def)
  with len show ?thesis by (auto simp: in_set_conv_nth)
qed

lemma all_taken:
  assumes inv: "num_inv nenqueuers n s xs" and len: "length (expect_sn s) = nenqueuers"
    and all: "sum_list (expect_sn s) = n * nenqueuers"
  shows "(\<forall>x \<in> set (expect_sn s). x = n) \<and> (\<forall>p < nenqueuers. e_i s p = n) \<and> coming (tq s) xs = []"
proof -
  have le: "expect_sn s ! p \<le> e_i s p \<and> e_i s p \<le> n" if "p < nenqueuers" for p
    using num_invD(4,5) [OF inv that] that len by (simp add: numbered_def expected_def)
  from sum_list_all [OF expect_sn_bound [OF inv len]] all len have x: "\<forall>x \<in> set (expect_sn s). x = n" by simp
  then have i: "e_i s p = n \<and> expected s p = n" if "p < nenqueuers" for p
    using le [OF that] bspec [OF x nth_mem, of p] that len by (auto simp: expected_def)
  have "filter (\<lambda>r. threadno s r = p) (coming (tq s) xs) = []" if "p < nenqueuers" for p
    using num_invD(5) [OF inv that] i [OF that] by (simp add: numbered_def)
  then have "threadno s r \<noteq> p" if "p < nenqueuers" "r \<in> set (coming (tq s) xs)" for p r
    using that by (auto simp: filter_empty_conv)
  then have none: "\<forall>r. r \<notin> set (coming (tq s) xs)" using num_invD(3) [OF inv] by blast
  have "coming (tq s) xs = []" by (cases "coming (tq s) xs") (use none in auto)
  with x i show ?thesis by simp
qed

section \<open>The invariant of the dequeuing thread\<close>

text \<open>Inside which call of the queue the thread can be.\<close>

fun in_is_empty :: "deq_pc \<Rightarrow> bool" where
  "in_is_empty E_Head = True"
| "in_is_empty E_Read = True"
| "in_is_empty (E_Shadow v) = True"
| "in_is_empty E_Clear = True"
| "in_is_empty _ = False"

fun in_dequeue :: "deq_pc \<Rightarrow> bool" where
  "in_dequeue (C_Idle b) = False"
| "in_dequeue (K_Read b) = False"
| "in_dequeue c = (\<not> in_is_empty c)"

definition idle :: "deq_pc \<Rightarrow> bool" where
  "idle c \<longleftrightarrow> (\<exists>b. c = C_Idle b)"

fun client_ok :: "client_pc \<Rightarrow> deq_pc \<Rightarrow> bool" where
  "client_ok T_Empty c = (idle c \<or> in_is_empty c)"
| "client_ok T_Final c = (idle c \<or> in_is_empty c)"
| "client_ok T_Peek c = (c = C_Idle True \<or> c = K_Read True)"
| "client_ok T_Recheck c = (c = C_Idle True)"
| "client_ok T_Dequeue c = (c = C_Idle True \<or> in_dequeue c)"
| "client_ok _ c = idle c"

lemma idle_C_Idle [simp]: "idle (C_Idle b)"
  by (simp add: idle_def)

text \<open>What the labels of an access are, by the call it belongs to.\<close>

lemma is_empty_call_label: "is_empty_call q = Some (l, q') \<Longrightarrow>
    l = Tau \<and> deq q' = E_Head \<or> l = Is_Empty False \<and> deq q' = C_Idle True"
  by (auto simp: is_empty_call_def split: deq_pc.splits if_splits)

lemma is_empty_step_label: "dequeuer_step b q = Some (l, q') \<Longrightarrow> in_is_empty (deq q) \<Longrightarrow>
    l = Tau \<and> in_is_empty (deq q') \<or> l = Is_Empty True \<and> idle (deq q') \<or>
    l = Is_Empty False \<and> deq q' = C_Idle True"
  by (cases "deq q") (auto simp: dequeuer_step_eq idle_def split: if_splits)

lemma is_empty_labels:
  assumes "d_access is_empty_call s = Some (l, s')" and "idle (deq (tq s)) \<or> in_is_empty (deq (tq s))"
  shows "l = Tau \<and> in_is_empty (deq (tq s')) \<or> l = Is_Empty True \<and> idle (deq (tq s')) \<or>
    l = Is_Empty False \<and> deq (tq s') = C_Idle True"
  using assms(1)
proof (cases rule: d_access_cases)
  case (1 q)
  from is_empty_call_label [OF 1(2)] 1(1) show ?thesis by auto
next
  case (2 q)
  with assms(2) is_empty_step_label [OF 2(2)] show ?thesis by (simp add: idle_def)
qed

lemma primed_shadow: "q_inv base q xs \<Longrightarrow> deq q = C_Idle True \<or> deq q = K_Read True \<Longrightarrow> q_shadow q \<noteq> 0"
  by (drule q_invD(6)) (auto simp: deq_ok_def)

lemma recheck_labels:
  assumes "d_access is_empty_call s = Some (l, s')" and "deq (tq s) = C_Idle True"
    and "q_inv base (tq s) xs"
  shows "l = Is_Empty False \<and> deq (tq s') = C_Idle True"
  using assms primed_shadow [OF assms(3)]
  by (auto simp: d_access_def is_empty_call_def OPA_SHM_REL_NULL_def)

lemma peek_labels:
  assumes "d_access peek_call s = Some (l, s')" and c: "deq (tq s) = C_Idle True \<or> deq (tq s) = K_Read True"
    and "q_inv base (tq s) xs"
  shows "l = Tau \<and> deq (tq s') = K_Read True \<or> (\<exists>e. l = Peeked e \<and> deq (tq s') = C_Idle True)"
  using assms(1)
proof (cases rule: d_access_cases)
  case (1 q)
  with c primed_shadow [OF assms(3)] show ?thesis by (auto simp: peek_call_def OPA_SHM_REL_NULL_def)
next
  case (2 q)
  with c show ?thesis by (auto simp: dequeuer_step_eq)
qed

lemma dequeue_step_label: "dequeuer_step b q = Some (l, q') \<Longrightarrow> in_dequeue (deq q) \<Longrightarrow>
    (l = Tau \<or> (\<exists>r. l = Removed r)) \<and> in_dequeue (deq q') \<or> (\<exists>e. l = Dequeued e \<and> idle (deq q'))"
  by (cases "deq q") (auto simp: dequeuer_step_eq idle_def Let_def split: if_splits)

lemma dequeue_labels:
  assumes "d_access dequeue_call s = Some (l, s')" and "deq (tq s) = C_Idle True \<or> in_dequeue (deq (tq s))"
  shows "(l = Tau \<or> (\<exists>r. l = Removed r)) \<and> in_dequeue (deq (tq s')) \<or>
    (\<exists>e. l = Dequeued e \<and> idle (deq (tq s')))"
  using assms(1)
proof (cases rule: d_access_cases)
  case (1 q)
  then show ?thesis by (auto simp: dequeue_call_def split: deq_pc.splits if_splits)
next
  case (2 q)
  with assms(2) dequeue_step_label [OF 2(2)] show ?thesis by auto
qed

text \<open>
  A peeked element is the first one on its way. Errors are counted only when the loop has run out
  of iterations before all elements came.
\<close>

definition peek_ok :: "tstate \<Rightarrow> addr list \<Rightarrow> bool" where
  "peek_ok s xs \<longleftrightarrow>
     (\<forall>k. peek_element s = Some k \<longrightarrow>
        (d_pc s = T_Recheck \<or> d_pc s = T_Dequeue) \<and> (\<exists>zs. coming (tq s) xs = k # zs))"

definition out_of_iterations :: "nat \<Rightarrow> nat \<Rightarrow> int \<Rightarrow> bool" where
  "out_of_iterations niter nd i \<longleftrightarrow> nd \<noteq> niter \<and> 1000 * int niter \<le> i"

fun errors_at :: "nat \<Rightarrow> nat \<Rightarrow> client_pc \<Rightarrow> nat list \<Rightarrow> nat \<Rightarrow> int \<Rightarrow> nat \<Rightarrow> bool" where
  "errors_at m n T_Calloc es nd i err = (es = [] \<and> err = 0)"
| "errors_at m n T_Final es nd i err =
     (length es = m \<and> (err = 0 \<and> nd = n * m \<or> err = 1 \<and> out_of_iterations (n * m) nd i))"
| "errors_at m n (T_Return v) es nd i err =
     (v = 0 \<and> length es = m \<and> nd = n * m \<or> v = 1 \<and> (es = [] \<or> out_of_iterations (n * m) nd i))"
| "errors_at m n T_Assert_Failed es nd i err = False"
| "errors_at m n (T_Fault f) es nd i err = (loop_limit (n * m) = Inl f)"
| "errors_at m n _ es nd i err = (length es = m \<and> err = 0)"

definition errors_ok :: "nat \<Rightarrow> nat \<Rightarrow> tstate \<Rightarrow> bool" where
  "errors_ok nenqueuers n s \<longleftrightarrow> ndequeues s = sum_list (expect_sn s) \<and>
     errors_at nenqueuers n (d_pc s) (expect_sn s) (ndequeues s) (d_i s) (nerrors s)"

lemma client_frame: "d_pc s' = d_pc s \<Longrightarrow> nerrors s' = nerrors s \<Longrightarrow> expect_sn s' = expect_sn s \<Longrightarrow>
    ndequeues s' = ndequeues s \<Longrightarrow> d_i s' = d_i s \<Longrightarrow> errors_ok m n s' = errors_ok m n s"
  by (simp add: errors_ok_def)

definition t_inv :: "nat \<Rightarrow> nat \<Rightarrow> tstate \<Rightarrow> addr list \<Rightarrow> bool" where
  "t_inv nenqueuers n s xs \<longleftrightarrow>
     num_inv nenqueuers n s xs \<and> client_ok (d_pc s) (deq (tq s)) \<and> peek_ok s xs \<and> errors_ok nenqueuers n s"

section \<open>Every step keeps the invariant\<close>

text \<open>The threads that enqueue.\<close>

lemma coming_cases: "coming q xs = z # zs \<Longrightarrow> coming q' ys = coming q xs @ ws \<Longrightarrow> \<exists>us. coming q' ys = z # us"
  by simp

lemma t_inv_enqueuer:
  assumes inv: "t_inv nenqueuers n s xs" and step: "enqueuer_access p s = Some (l, s')"
  shows "\<exists>ys. t_inv nenqueuers n s' ys"
proof -
  from step obtain q where q: "enqueue_step 0 p (tq s) = Some (l, q)" and s': "s' = s\<lparr>tq := q\<rparr>"
    by (auto simp: enqueuer_access_def)
  from inv have "num_inv nenqueuers n s xs" by (simp add: t_inv_def)
  from num_inv_enqueuer [OF this q] obtain ys where "num_inv nenqueuers n s' ys"
    and d: "deq q = deq (tq s)" and c: "coming q ys = coming (tq s) xs @ swap_of l" by (auto simp: s')
  moreover have "peek_ok s' ys" using inv c by (fastforce simp: t_inv_def peek_ok_def s')
  moreover have "errors_ok nenqueuers n s'"
    using inv client_frame [of s' s] by (simp add: t_inv_def s')
  ultimately show ?thesis using inv by (auto simp: t_inv_def s')
qed

lemma t_inv_create:
  assumes inv: "t_inv nenqueuers n s xs" and p: "p < nenqueuers" and step: "create_and_enqueue n p e s = Some s'"
  shows "t_inv nenqueuers n s' xs"
proof -
  from inv have "num_inv nenqueuers n s xs" by (simp add: t_inv_def)
  note num = num_inv_create [OF this p step]
  moreover have "d_pc s' = d_pc s" "peek_element s' = peek_element s" "nerrors s' = nerrors s"
    "expect_sn s' = expect_sn s" "ndequeues s' = ndequeues s" "d_i s' = d_i s"
    using step by (auto simp: create_and_enqueue_def split: if_splits option.splits)
  ultimately show ?thesis
    using inv client_frame [of s' s] by (simp add: t_inv_def peek_ok_def coming_def)
qed

lemma t_inv_exit:
  assumes inv: "t_inv nenqueuers n s xs" and "p < nenqueuers"
    and "malloc_fails n p s = Some s' \<or> enqueuer_exits n p s = Some s'"
  shows "t_inv nenqueuers n s' xs"
proof -
  from assms(3) obtain v where s': "s' = s\<lparr>e_exit := (e_exit s)(p \<mapsto> v)\<rparr>"
    and v: "v = 0 \<longleftrightarrow> \<not> e_i s p < n"
    by (auto simp: malloc_fails_def enqueuer_exits_def split: if_splits)
  from inv have num: "num_inv nenqueuers n s xs" by (simp add: t_inv_def)
  have "e_i s p \<le> n" by (rule num_invD(4) [OF num assms(2)])
  with v have "num_inv nenqueuers n s' xs"
    using num by (auto simp: num_inv_def numbered_def expected_def s')
  with inv client_frame [of s' s] show ?thesis by (simp add: t_inv_def peek_ok_def s')
qed

text \<open>The calls of the dequeuing thread.\<close>

lemma t_inv_access:
  assumes inv: "t_inv nenqueuers n s xs" and step: "d_access call s = Some (l, s1)"
    and call: "call \<in> {is_empty_call, peek_call, dequeue_call}" and "return_of l = []"
  shows "\<exists>ys P Q. num_inv nenqueuers n s1 ys \<and> s1 = s\<lparr>tq := tq s1\<rparr> \<and> coming (tq s1) ys = coming (tq s) xs \<and>
    spec_step 0 (xs, P) l (ys, Q)"
proof -
  from inv have num: "num_inv nenqueuers n s xs" by (simp add: t_inv_def)
  from num_inv_access [OF num step call] assms(4) obtain ys P Q q
    where q: "q_inv (\<lambda>_. 0) q ys" "enqs q = enqs (tq s)" and co: "coming (tq s) xs = coming q ys"
      and s1: "s1 = s\<lparr>tq := q\<rparr>" and spec: "spec_step 0 (xs, P) l (ys, Q)" by auto
  from num_inv_keep [OF num q co] co s1 spec show ?thesis by auto
qed

text \<open>An access in the middle of a call.\<close>

lemma t_inv_inside:
  assumes "t_inv nenqueuers n s xs" and "num_inv nenqueuers n s1 ys" and s1: "s1 = s\<lparr>tq := tq s1\<rparr>"
    and "coming (tq s1) ys = coming (tq s) xs" and "client_ok (d_pc s) (deq (tq s1))"
  shows "t_inv nenqueuers n s1 ys"
proof -
  obtain q where q: "s1 = s\<lparr>tq := q\<rparr>" using s1 by blast
  with client_frame [of s1 s] assms show ?thesis by (simp add: t_inv_def peek_ok_def)
qed

text \<open>The returns of the calls.\<close>

lemma t_inv_empty:
  assumes inv: "t_inv nenqueuers n s xs" and pc: "d_pc s = T_Empty"
    and step: "d_access is_empty_call s = Some (l, s1)"
  shows "\<exists>ys. t_inv nenqueuers n (call_returns nenqueuers n T_Empty l s1) ys"
proof -
  from inv pc have c: "idle (deq (tq s)) \<or> in_is_empty (deq (tq s))" and p: "peek_element s = None"
    and e: "errors_ok nenqueuers n s" by (auto simp: t_inv_def peek_ok_def)
  note lab = is_empty_labels [OF step c]
  then have "return_of l = []" by auto
  with t_inv_access [OF inv step] obtain ys q where num: "num_inv nenqueuers n s1 ys"
    and s1: "s1 = s\<lparr>tq := q\<rparr>" and co: "coming (tq s1) ys = coming (tq s) xs" by blast
  show ?thesis
  proof (cases "l = Tau")
    case True
    with lab t_inv_inside [OF inv num _ co] pc show ?thesis by (auto simp: s1)
  next
    case False
    with lab obtain b where l: "l = Is_Empty b" and d: "idle (deq (tq s1))"
      and prim: "\<not> b \<Longrightarrow> deq (tq s1) = C_Idle True" by (auto simp: idle_def)
    have "num_inv nenqueuers n (empty_returns b s1) ys"
      using num by (subst num_inv_client [where s = s1]) (auto simp: empty_returns_def peek_due_def Let_def)
    with p e pc d prim show ?thesis
      by (intro exI [of _ ys])
        (auto simp: l t_inv_def s1 empty_returns_def peek_due_def peek_ok_def errors_ok_def Let_def)
  qed
qed

lemma t_inv_final:
  assumes inv: "t_inv nenqueuers n s xs" and pc: "d_pc s = T_Final"
    and step: "d_access is_empty_call s = Some (l, s1)"
  shows "\<exists>ys. t_inv nenqueuers n (call_returns nenqueuers n T_Final l s1) ys"
proof -
  from inv pc have c: "idle (deq (tq s)) \<or> in_is_empty (deq (tq s))" and p: "peek_element s = None"
    and e: "errors_ok nenqueuers n s" and num0: "num_inv nenqueuers n s xs"
    by (auto simp: t_inv_def peek_ok_def)
  note lab = is_empty_labels [OF step c]
  then have "return_of l = []" by auto
  with t_inv_access [OF inv step] obtain ys q P Q where num: "num_inv nenqueuers n s1 ys"
    and s1: "s1 = s\<lparr>tq := q\<rparr>" and co: "coming (tq s1) ys = coming (tq s) xs"
    and spec: "spec_step 0 (xs, P) l (ys, Q)" by blast
  show ?thesis
  proof (cases "l = Tau")
    case True
    with lab t_inv_inside [OF inv num _ co] pc show ?thesis by (auto simp: s1)
  next
    case False
    with lab obtain b where l: "l = Is_Empty b" and d: "idle (deq (tq s1))" by (auto simp: idle_def)
    have all: "b \<and> (\<forall>x \<in> set (expect_sn s). x = n)" if "nerrors s = 0"
    proof -
      from that e pc have "sum_list (expect_sn s) = n * nenqueuers" "length (expect_sn s) = nenqueuers"
        by (auto simp: errors_ok_def)
      from all_taken [OF num0 this(2,1)] spec show ?thesis
        by (auto simp: l coming_def spec_empty_iff)
    qed
    have "num_inv nenqueuers n (final_returns n b s1) ys"
      using num by (subst num_inv_client [where s = s1]) (auto simp: final_returns_def Let_def)
    with p e pc d all show ?thesis
      by (intro exI [of _ ys])
        (auto simp: l t_inv_def s1 final_returns_def peek_ok_def errors_ok_def Let_def)
  qed
qed

lemma t_inv_recheck:
  assumes inv: "t_inv nenqueuers n s xs" and pc: "d_pc s = T_Recheck"
    and step: "d_access is_empty_call s = Some (l, s1)"
  shows "\<exists>ys. t_inv nenqueuers n (call_returns nenqueuers n T_Recheck l s1) ys"
proof -
  from inv pc have c: "deq (tq s) = C_Idle True" and p: "peek_ok s xs"
    and e: "errors_ok nenqueuers n s" and "num_inv nenqueuers n s xs" by (auto simp: t_inv_def)
  from recheck_labels [OF step c num_invD(1) [OF this(4)]]
  have l: "l = Is_Empty False" and d: "deq (tq s1) = C_Idle True" by auto
  then have "return_of l = []" by simp
  with t_inv_access [OF inv step] obtain ys q where num: "num_inv nenqueuers n s1 ys"
    and s1: "s1 = s\<lparr>tq := q\<rparr>" and co: "coming (tq s1) ys = coming (tq s) xs" by blast
  have "num_inv nenqueuers n (recheck_returns False s1) ys"
    using num by (subst num_inv_client [where s = s1]) (auto simp: recheck_returns_def)
  with p e pc d co show ?thesis
    by (intro exI [of _ ys]) (auto simp: l t_inv_def s1 recheck_returns_def peek_ok_def errors_ok_def)
qed

lemma t_inv_peek:
  assumes inv: "t_inv nenqueuers n s xs" and pc: "d_pc s = T_Peek"
    and step: "d_access peek_call s = Some (l, s1)"
  shows "\<exists>ys. t_inv nenqueuers n (call_returns nenqueuers n T_Peek l s1) ys"
proof -
  from inv pc have c: "deq (tq s) = C_Idle True \<or> deq (tq s) = K_Read True"
    and e: "errors_ok nenqueuers n s" and "num_inv nenqueuers n s xs" by (auto simp: t_inv_def)
  note lab = peek_labels [OF step c num_invD(1) [OF this(3)]]
  then have "return_of l = []" by auto
  with t_inv_access [OF inv step] obtain ys q P Q where num: "num_inv nenqueuers n s1 ys"
    and s1: "s1 = s\<lparr>tq := q\<rparr>" and co: "coming (tq s1) ys = coming (tq s) xs"
    and spec: "spec_step 0 (xs, P) l (ys, Q)" by blast
  show ?thesis
  proof (cases "l = Tau")
    case True
    with lab t_inv_inside [OF inv num _ co] pc show ?thesis by (auto simp: s1)
  next
    case False
    with lab obtain k where l: "l = Peeked k" and d: "deq (tq s1) = C_Idle True" by auto
    from spec have "\<exists>zs. coming (tq s1) ys = k # zs"
      by (auto simp: l coming_def d held_list_def elim: spec_stepE)
    moreover have "num_inv nenqueuers n (peek_returns (Some k) s1) ys"
      using num by (subst num_inv_client [where s = s1]) (auto simp: peek_returns_def)
    moreover have "nerrors s = 0" using e pc by (simp add: errors_ok_def)
    ultimately show ?thesis using e pc d
      by (intro exI [of _ ys]) (simp_all add: l t_inv_def s1 peek_returns_def peek_ok_def errors_ok_def)
  qed
qed

lemma num_inv_dequeue_returns:
  "num_inv m n (s\<lparr>tq := q, expect_sn := (expect_sn s)[threadno s e := Suc (sequenceno s e)]\<rparr>) ys \<Longrightarrow>
     threadno s e < m \<Longrightarrow> num_inv m n (dequeue_returns m e (s\<lparr>tq := q\<rparr>)) ys"
  by (subst num_inv_client
      [where s = "s\<lparr>tq := q, expect_sn := (expect_sn s)[threadno s e := Suc (sequenceno s e)]\<rparr>"])
    (simp_all add: dequeue_returns_def)

lemma t_inv_dequeue:
  assumes inv: "t_inv nenqueuers n s xs" and pc: "d_pc s = T_Dequeue"
    and step: "d_access dequeue_call s = Some (l, s1)"
  shows "\<exists>ys. t_inv nenqueuers n (call_returns nenqueuers n T_Dequeue l s1) ys"
proof -
  from inv pc have c: "deq (tq s) = C_Idle True \<or> in_dequeue (deq (tq s))" and p: "peek_ok s xs"
    and e: "errors_ok nenqueuers n s" and num: "num_inv nenqueuers n s xs" by (auto simp: t_inv_def)
  note lab = dequeue_labels [OF step c]
  show ?thesis
  proof (cases "\<exists>e. l = Dequeued e")
    case False
    with lab have "return_of l = []" "in_dequeue (deq (tq s1))" "\<forall>e. l \<noteq> Dequeued e" by auto
    with t_inv_access [OF inv step] obtain ys where "num_inv nenqueuers n s1 ys"
      "s1 = s\<lparr>tq := tq s1\<rparr>" "coming (tq s1) ys = coming (tq s) xs" by blast
    from t_inv_inside [OF inv this] pc \<open>in_dequeue (deq (tq s1))\<close> have "t_inv nenqueuers n s1 ys" by simp
    with False show ?thesis by (cases l) auto
  next
    case True
    then obtain z where l: "l = Dequeued z" and d: "idle (deq (tq s1))" using lab by auto
    from num_inv_access [OF num step] obtain ys q where q: "q_inv (\<lambda>_. 0) q ys" "enqs q = enqs (tq s)"
      and co: "coming (tq s) xs = z # coming q ys" and s1: "s1 = s\<lparr>tq := q\<rparr>" by (auto simp: l)
    have len: "length (expect_sn s) = nenqueuers" "nerrors s = 0" "ndequeues s = sum_list (expect_sn s)"
      using e pc by (simp_all add: errors_ok_def)
    from num_inv_return [OF num q co len(1)] have t: "threadno s z < nenqueuers"
      and sn: "sequenceno s z = expect_sn s ! threadno s z"
      and num': "num_inv nenqueuers n (s\<lparr>tq := q,
        expect_sn := (expect_sn s)[threadno s z := Suc (sequenceno s z)]\<rparr>) ys" by auto
    from num_inv_dequeue_returns [OF num' t] have "num_inv nenqueuers n (dequeue_returns nenqueuers z s1) ys"
      by (simp add: s1)
    moreover have "peek_errors z s1 = 0" "sequence_errors nenqueuers z s1 = 0"
      using p co t sn by (auto simp: peek_ok_def peek_errors_def sequence_errors_def s1 split: option.split)
    moreover have "Suc (sum_list (expect_sn s)) =
        sum_list ((expect_sn s)[threadno s z := Suc (expect_sn s ! threadno s z)])"
      using t len(1) by (simp add: sum_list_update)
    ultimately show ?thesis
      using pc d t len sn by (intro exI [of _ ys])
        (simp add: l t_inv_def s1 dequeue_returns_def peek_ok_def errors_ok_def)
  qed
qed

text \<open>The steps that make no call.\<close>

lemma t_inv_local:
  assumes inv: "t_inv nenqueuers n s xs" and "call_at (d_pc s) = None"
    and step: "dequeue_thread nenqueuers n ok s = Some s'"
  shows "t_inv nenqueuers n s' xs"
proof (cases "d_pc s")
  case T_Calloc
  with inv have es: "expect_sn s = []" and num: "num_inv nenqueuers n s xs"
    by (auto simp: t_inv_def errors_ok_def)
  have "num_inv nenqueuers n (s\<lparr>expect_sn := replicate nenqueuers 0\<rparr>) xs"
    using num es by (simp add: num_inv_def numbered_def expected_def)
  then have "num_inv nenqueuers n s' xs"
    using T_Calloc step num
    by (subst num_inv_client [where s = "if ok then s\<lparr>expect_sn := replicate nenqueuers 0\<rparr> else s"])
      (auto simp: dequeue_thread_def)
  with T_Calloc step inv show ?thesis
    by (cases ok) (auto simp: dequeue_thread_def t_inv_def peek_ok_def errors_ok_def sum_list_replicate)
next
  case T_Loop
  with inv have num: "num_inv nenqueuers n s xs" and len: "length (expect_sn s) = nenqueuers"
    by (simp_all add: t_inv_def errors_ok_def)
  have "sum_list (expect_sn s) \<le> n * nenqueuers"
    using sum_list_bound [OF expect_sn_bound [OF num len]] len by simp
  moreover have "num_inv nenqueuers n s' xs"
    using T_Loop step num by (subst num_inv_client [where s = s])
      (auto simp: dequeue_thread_def loop_condition_def loop_ends_def split: sum.splits)
  ultimately show ?thesis using T_Loop step inv
    by (auto simp: dequeue_thread_def loop_condition_def loop_ends_def t_inv_def peek_ok_def errors_ok_def
        idle_def out_of_iterations_def loop_limit_def split: if_splits)
qed (use assms in \<open>auto simp: dequeue_thread_def\<close>)

lemma t_inv_dequeue_thread:
  assumes inv: "t_inv nenqueuers n s xs" and step: "dequeue_thread nenqueuers n ok s = Some s'"
  shows "\<exists>ys. t_inv nenqueuers n s' ys"
proof (cases "call_at (d_pc s)")
  case None
  with t_inv_local [OF inv None step] show ?thesis by blast
next
  case (Some call)
  with step obtain l s1 where a: "d_access call s = Some (l, s1)"
    and s': "s' = call_returns nenqueuers n (d_pc s) l s1" by (auto simp: dequeue_thread_def)
  show ?thesis unfolding s'
    by (cases "d_pc s") (use Some a inv in \<open>auto intro: t_inv_empty t_inv_peek t_inv_recheck t_inv_dequeue t_inv_final\<close>)
qed

lemma t_inv_step:
  assumes "t_inv nenqueuers n s xs" and "t_exec nenqueuers n a s = Some s'"
  shows "\<exists>ys. t_inv nenqueuers n s' ys"
  using assms
  by (cases a) (auto split: if_splits intro: t_inv_create t_inv_exit t_inv_enqueuer t_inv_dequeue_thread)

lemma t_inv_init: "t_inv nenqueuers n (t_init heap) []"
  using q_inv_init [of "\<lambda>_. 0" heap]
  by (simp add: t_inv_def t_init_def num_inv_def numbered_def expected_def coming_def held_list_def
      own_list_def q_init_def peek_ok_def errors_ok_def)

lemma t_reach_inv: "t_reach nenqueuers n heap s \<Longrightarrow> \<exists>xs. t_inv nenqueuers n s xs"
  by (induction rule: t_reach.induct) (blast intro: t_inv_init t_inv_step)+

section \<open>Properties\<close>

text \<open>A run to be evaluated: one enqueuing thread, two elements.\<close>

fun t_schedule :: "nat \<Rightarrow> nat \<Rightarrow> t_action list \<Rightarrow> tstate \<Rightarrow> tstate option" where
  "t_schedule nenqueuers n [] s = Some s"
| "t_schedule nenqueuers n (a # as) s =
     (case t_exec nenqueuers n a s of None \<Rightarrow> None | Some s' \<Rightarrow> t_schedule nenqueuers n as s')"

lemma t_schedule_reach: "t_schedule nenqueuers n as s = Some t \<Longrightarrow> t_reach nenqueuers n heap s \<Longrightarrow>
    t_reach nenqueuers n heap t"
  by (induction as arbitrary: s) (auto split: option.splits intro: T_Step)

definition two_element_test :: "t_action list" where
  "two_element_test =
     [Dequeue_Thread True, Create 0 64] @ replicate 2 (Enqueuer_Access 0) @
     replicate 4 (Dequeue_Thread False) @
     [Enqueuer_Access 0, Create 0 128] @ replicate 3 (Enqueuer_Access 0) @ [Enqueuer_Exit 0] @
     replicate 20 (Dequeue_Thread False)"

definition two_element_end :: tstate where
  "two_element_end = the (t_schedule 1 2 two_element_test (t_init {64, 128}))"

lemma two_element_run: "t_reach 1 2 {64, 128} two_element_end"
proof -
  have "\<not> Option.is_none (t_schedule 1 2 two_element_test (t_init {64, 128}))" by code_simp
  then show ?thesis
    by (auto simp: two_element_end_def Option.is_none_def intro: t_schedule_reach [OF _ T_Start])
qed

text \<open>
  C15. The threaded queue test passes. However the accesses of any number of enqueuing threads and of
  the dequeuing thread are interleaved, and whether or not \<open>malloc\<close> fails, the test returns 0 exactly
  when all elements came; if it returns 1, \<open>calloc\<close> failed or the loop ran out of its
  \<open>1000 * niter\<close> iterations before they came. No element is out of sequence, no peeked element differs
  from the one dequeued next, the queue is empty at the end, and the assertion holds.
\<close>

theorem queue_threaded_test_passes:
  assumes "t_reach nenqueuers n heap s" and "0 < n * nenqueuers"
  shows "d_pc s \<noteq> T_Assert_Failed \<and>
    (\<forall>v. test_result nenqueuers s = Some v \<longrightarrow>
       (if ndequeues s = n * nenqueuers then v = 0
        else v = 1 \<and> (expect_sn s = [] \<or> 1000 * int (n * nenqueuers) \<le> d_i s)))"
proof -
  from t_reach_inv [OF assms(1)] obtain xs where num: "num_inv nenqueuers n s xs"
    and e: "errors_ok nenqueuers n s" by (auto simp: t_inv_def)
  have "if ndequeues s = n * nenqueuers then v = 0
      else v = 1 \<and> (expect_sn s = [] \<or> 1000 * int (n * nenqueuers) \<le> d_i s)"
    if r: "test_result nenqueuers s = Some v" for v
  proof -
    let ?bad = "filter (\<lambda>p. e_exit s p \<noteq> Some 0) [0..<nenqueuers]"
    from r obtain w where joined: "\<forall>p \<in> set [0..<nenqueuers]. e_exit s p \<noteq> None"
      and pc: "d_pc s = T_Return w" and v: "v = (if w + length ?bad \<noteq> 0 then 1 else 0)"
      by (auto simp: test_result_def Let_def split: if_splits client_pc.splits)
    have "?bad = []" if "w = 0"
    proof -
      from that e pc have "length (expect_sn s) = nenqueuers" "sum_list (expect_sn s) = n * nenqueuers"
        by (auto simp: errors_ok_def)
      from all_taken [OF num this] num_invD(6) [OF num] joined show ?thesis
        by (fastforce simp: filter_empty_conv)
    qed
    with v e pc assms(2) show ?thesis by (auto simp: errors_ok_def out_of_iterations_def)
  qed
  moreover have "d_pc s \<noteq> T_Assert_Failed" using e by (auto simp: errors_ok_def)
  ultimately show ?thesis by blast
qed

theorem queue_threaded_test_passes_witness:
  "test_result 1 two_element_end = Some 0 \<and> ndequeues two_element_end = 2 \<and>
   d_pc two_element_end \<noteq> T_Assert_Failed"
proof -
  have "ndequeues two_element_end = 2" "\<not> Option.is_none (test_result 1 two_element_end)" by code_simp+
  with queue_threaded_test_passes [OF two_element_run] show ?thesis by (auto simp: Option.is_none_def)
qed

text \<open>
  C37. The bound of the test's loop overflows. In the configurations with ten and with a hundred
  threads \<open>1000 * niter\<close> is beyond the range of \<open>int\<close>, and the dequeuing thread evaluates it before its first
  iteration; with two and with four threads this never happens.
\<close>

theorem queue_test_bound_overflows:
  assumes "k < length num_threads" and "num_threads ! k \<noteq> 1"
  shows "(\<exists>s. t_reach (num_threads ! k - 1) (thread_niter k) heap s \<and> d_pc s = T_Fault Signed_Overflow) \<longleftrightarrow>
    10 \<le> num_threads ! k"
proof -
  let ?m = "num_threads ! k - 1" and ?n = "thread_niter k"
  have k: "k = 1 \<or> k = 2 \<or> k = 3 \<or> k = 4" using assms by (auto simp: num_threads_def less_Suc_eq)
  then have lim: "loop_limit (?n * ?m) = Inl Signed_Overflow \<longleftrightarrow> 10 \<le> num_threads ! k"
    and pos: "0 < ?n * ?m"
    by (auto simp: num_threads_def thread_niter_def THREADED_NITER_def iter_reduction_def loop_limit_def)
  have "loop_limit (?n * ?m) = Inl Signed_Overflow" if "t_reach ?m ?n heap s" "d_pc s = T_Fault Signed_Overflow" for s
    using t_reach_inv [OF that(1)] that(2) by (auto simp: t_inv_def errors_ok_def)
  moreover have "\<exists>s. t_reach ?m ?n heap s \<and> d_pc s = T_Fault Signed_Overflow"
    if "loop_limit (?n * ?m) = Inl Signed_Overflow"
  proof -
    have "map_option d_pc (t_schedule ?m ?n [Dequeue_Thread True, Dequeue_Thread True] (t_init heap)) =
        Some (T_Fault Signed_Overflow)"
      using that pos by (simp add: dequeue_thread_def t_init_def loop_condition_def)
    then obtain s where s: "t_schedule ?m ?n [Dequeue_Thread True, Dequeue_Thread True] (t_init heap) = Some s"
      and pc: "d_pc s = T_Fault Signed_Overflow" by (auto simp only: map_option_eq_Some)
    from t_schedule_reach [OF s T_Start] pc show ?thesis by blast
  qed
  ultimately show ?thesis using lim by blast
qed

theorem queue_test_bound_overflows_witness:
  "(\<exists>s. t_reach 9 500000 {} s \<and> d_pc s = T_Fault Signed_Overflow) \<and>
   \<not> (\<exists>s. t_reach 3 500000 {} s \<and> d_pc s = T_Fault Signed_Overflow)"
  using queue_test_bound_overflows [of 3 "{}"] queue_test_bound_overflows [of 2 "{}"]
  by (simp add: num_threads_def thread_niter_def THREADED_NITER_def iter_reduction_def)

end
