(* ===== verification/OPA_Queue_Early.thy ===== *)
theory OPA_Queue_Early
  imports OPA_Queue_Order
begin

text \<open>
  The queue on a machine that does the dequeuer's loads early. A load is done at any time before the
  code comes to it, so what the code works with may be out of date: the dequeuer has a view of every
  cell that others write, the value of the last load of the cell that was done, and reads its view.
  Loads of one cell stay in order, and a load is not done before an earlier store of the thread to
  the same cell; nothing else holds a load back, no address and no branch it depends on, and
  \<open>OPA_read_barrier\<close> only if \<open>rb\<close> says that it orders loads. The tail is read by the swaps and
  compare-and-swaps alone, which act on the memory, and the shadow head is the dequeuer's own.
\<close>

section \<open>The machine\<close>

record estate =
  e_q :: qstate
  v_head :: addr
  v_next :: "addr \<Rightarrow> addr"

abbreviation set_deq :: "deq_pc \<Rightarrow> estate \<Rightarrow> estate" where
  "set_deq c s \<equiv> s\<lparr>e_q := (e_q s)\<lparr>deq := c\<rparr>\<rparr>"

text \<open>A load that is done early, of the head or of the link of an element.\<close>

definition load_head :: "estate \<Rightarrow> estate" where
  "load_head s = s\<lparr>v_head := q_head (e_q s)\<rparr>"

definition load_next :: "addr \<Rightarrow> estate \<Rightarrow> estate" where
  "load_next c s = s\<lparr>v_next := (v_next s)(c := q_next (e_q s) c)\<rparr>"

text \<open>
  The accesses of \<open>OPA_Queue_is_empty\<close> and \<open>OPA_Queue_dequeue\<close>; a store goes to the memory and to
  the view. After the read barrier no view is older than the barrier.
\<close>

definition early_is_empty_step :: "estate \<Rightarrow> (qlabel \<times> estate) option" where
  "early_is_empty_step s =
     (case deq (e_q s) of
        E_Head \<Rightarrow>
          if v_head s = OPA_SHM_REL_NULL then Some (Is_Empty True, set_deq (C_Idle False) s)
          else Some (Tau, set_deq E_Read s)
      | E_Read \<Rightarrow> Some (Tau, set_deq (E_Shadow (v_head s)) s)
      | E_Shadow v \<Rightarrow> Some (Tau, s\<lparr>e_q := (e_q s)\<lparr>q_shadow := v, deq := E_Clear\<rparr>\<rparr>)
      | E_Clear \<Rightarrow> Some (Is_Empty False,
          s\<lparr>e_q := (e_q s)\<lparr>q_head := OPA_SHM_REL_NULL, deq := C_Idle True\<rparr>, v_head := OPA_SHM_REL_NULL\<rparr>)
      | _ \<Rightarrow> None)"

definition read_barrier_done :: "bool \<Rightarrow> estate \<Rightarrow> estate" where
  "read_barrier_done rb s =
     (if rb then s\<lparr>v_head := q_head (e_q s), v_next := q_next (e_q s)\<rparr> else s)"

definition early_dequeue_step :: "bool \<Rightarrow> addr \<Rightarrow> estate \<Rightarrow> (qlabel \<times> estate) option" where
  "early_dequeue_step rb b s =
     (case deq (e_q s) of
        D_Next r \<Rightarrow>
          (let e = abs_of b r in
           if v_next s (cell b e) \<noteq> OPA_SHM_REL_NULL then Some (Tau, set_deq (D_Read r) s)
           else Some (Tau, set_deq (D_Null r) s))
      | D_Read r \<Rightarrow> Some (Tau, set_deq (D_Shadow r (v_next s (cell b (abs_of b r)))) s)
      | D_Shadow r v \<Rightarrow> Some (Removed r, s\<lparr>e_q := (e_q s)\<lparr>q_shadow := v, deq := D_Clear r\<rparr>\<rparr>)
      | D_Null r \<Rightarrow> Some (Tau, s\<lparr>e_q := (e_q s)\<lparr>q_shadow := OPA_SHM_REL_NULL, deq := D_Cas r\<rparr>\<rparr>)
      | D_Cas r \<Rightarrow>
          (let old_tail = q_tail (e_q s) in
           if old_tail = r
           then Some (Removed r, s\<lparr>e_q := (e_q s)\<lparr>q_tail := OPA_SHM_REL_NULL, deq := D_Clear r\<rparr>\<rparr>)
           else Some (Tau, set_deq (D_Wait r) s))
      | D_Wait r \<Rightarrow>
          if v_next s (cell b (abs_of b r)) = OPA_SHM_REL_NULL then Some (Tau, s)
          else Some (Tau, set_deq (D_WRead r) s)
      | D_WRead r \<Rightarrow> Some (Tau, set_deq (D_WShadow r (v_next s (cell b (abs_of b r)))) s)
      | D_WShadow r v \<Rightarrow> Some (Removed r, s\<lparr>e_q := (e_q s)\<lparr>q_shadow := v, deq := D_Clear r\<rparr>\<rparr>)
      | D_Clear r \<Rightarrow>
          (let e = abs_of b r in
           Some (Dequeued e, read_barrier_done rb
             (s\<lparr>e_q := (e_q s)\<lparr>q_next := (q_next (e_q s))(cell b e := OPA_SHM_REL_NULL),
                              deq := C_Idle False, avail := insert (cell b e) (avail (e_q s))\<rparr>,
                v_next := (v_next s)(cell b e := OPA_SHM_REL_NULL)\<rparr>)))
      | _ \<Rightarrow> None)"

text \<open>
  All other steps are those of the sequentially consistent machine: the enqueuers, the calls, and
  \<open>OPA_Queue_peek_head\<close>, which load nothing but the shadow head.
\<close>

inductive e_step :: "bool \<Rightarrow> (nat \<Rightarrow> addr) \<Rightarrow> addr \<Rightarrow> estate \<Rightarrow> qlabel \<Rightarrow> estate \<Rightarrow> bool"
  for rb :: bool and base :: "nat \<Rightarrow> addr" and bd :: addr where
  Early_Head: "e_step rb base bd s Tau (load_head s)"
| Early_Next: "e_step rb base bd s Tau (load_next c s)"
| Early_Call_Enqueue: "enqueue_call (base p) p elt (e_q s) = Some q \<Longrightarrow> e_step rb base bd s Tau (s\<lparr>e_q := q\<rparr>)"
| Early_Enqueuer: "enqueue_step (base p) p (e_q s) = Some (l, q) \<Longrightarrow> e_step rb base bd s l (s\<lparr>e_q := q\<rparr>)"
| Early_Call_Is_Empty: "is_empty_call (e_q s) = Some (l, q) \<Longrightarrow> e_step rb base bd s l (s\<lparr>e_q := q\<rparr>)"
| Early_Call_Peek: "peek_call (e_q s) = Some (l, q) \<Longrightarrow> e_step rb base bd s l (s\<lparr>e_q := q\<rparr>)"
| Early_Call_Dequeue: "dequeue_call (e_q s) = Some (l, q) \<Longrightarrow> e_step rb base bd s l (s\<lparr>e_q := q\<rparr>)"
| Early_Peek: "peek_step bd (e_q s) = Some (l, q) \<Longrightarrow> e_step rb base bd s l (s\<lparr>e_q := q\<rparr>)"
| Early_Is_Empty: "early_is_empty_step s = Some (l, s') \<Longrightarrow> e_step rb base bd s l s'"
| Early_Dequeue: "early_dequeue_step rb bd s = Some (l, s') \<Longrightarrow> e_step rb base bd s l s'"

inductive_cases e_stepE: "e_step rb base bd s l s'"

inductive e_run :: "bool \<Rightarrow> (nat \<Rightarrow> addr) \<Rightarrow> addr \<Rightarrow> estate \<Rightarrow> qlabel list \<Rightarrow> estate \<Rightarrow> bool"
  for rb :: bool and base :: "nat \<Rightarrow> addr" and bd :: addr where
  Early_Nil: "e_run rb base bd s [] s"
| Early_Snoc: "e_run rb base bd s ls t \<Longrightarrow> e_step rb base bd t l u \<Longrightarrow> e_run rb base bd s (ls @ [l]) u"

definition e_init :: "addr set \<Rightarrow> estate" where
  "e_init elts = \<lparr>e_q = q_init elts, v_head = OPA_SHM_REL_NULL, v_next = (\<lambda>_. 0)\<rparr>"

section \<open>What a view can be\<close>

text \<open>
  A view is up to date or null. Behind it is that an element that is neither on the queue nor being
  taken off has a null link, so that nobody but the dequeuer changes a link that is not null.
\<close>

definition views_ok :: "estate \<Rightarrow> addr list \<Rightarrow> bool" where
  "views_ok s xs \<longleftrightarrow>
     (v_head s = 0 \<or> v_head s = q_head (e_q s)) \<and>
     (\<forall>c. v_next s c = 0 \<or> v_next s c = q_next (e_q s) c) \<and>
     (\<forall>c. c \<notin> set xs \<and> c \<notin> held (deq (e_q s)) \<longrightarrow> q_next (e_q s) c = 0) \<and>
     (deq (e_q s) = E_Read \<longrightarrow> v_head s \<noteq> 0) \<and>
     (\<forall>r. deq (e_q s) = D_Read r \<or> deq (e_q s) = D_WRead r \<longrightarrow> v_next s r \<noteq> 0)"

definition e_inv :: "(nat \<Rightarrow> addr) \<Rightarrow> estate \<Rightarrow> addr list \<Rightarrow> bool" where
  "e_inv base s xs \<longleftrightarrow> q_inv base (e_q s) xs \<and> views_ok s xs"

text \<open>The abstract queue, which may answer 1 at any time.\<close>

inductive early_spec_step :: "addr \<Rightarrow> addr list \<times> addr set \<Rightarrow> qlabel \<Rightarrow> addr list \<times> addr set \<Rightarrow> bool"
  for bd :: addr where
  Early_Spec: "spec_step bd a l c \<Longrightarrow> early_spec_step bd a l c"
| Early_Empty: "early_spec_step bd a (Is_Empty True) a"

definition early_simulated :: "(nat \<Rightarrow> addr) \<Rightarrow> addr \<Rightarrow> addr list \<Rightarrow> estate \<Rightarrow> qlabel \<Rightarrow> estate \<Rightarrow> bool" where
  "early_simulated base bd xs s l s' \<longleftrightarrow> (\<exists>ys. e_inv base s' ys \<and>
     early_spec_step bd (xs, pend (enqs (e_q s))) l (ys, pend (enqs (e_q s'))))"

lemma e_invD:
  assumes "e_inv base s xs"
  shows "q_inv base (e_q s) xs" and "views_ok s xs"
  using assms by (simp_all add: e_inv_def)

lemma views_okD:
  assumes "views_ok s xs"
  shows "v_head s = 0 \<or> v_head s = q_head (e_q s)" and "v_next s c = 0 \<or> v_next s c = q_next (e_q s) c"
    and "c \<notin> set xs \<Longrightarrow> c \<notin> held (deq (e_q s)) \<Longrightarrow> q_next (e_q s) c = 0"
    and "deq (e_q s) = E_Read \<Longrightarrow> v_head s \<noteq> 0"
    and "deq (e_q s) = D_Read r \<Longrightarrow> v_next s r \<noteq> 0" and "deq (e_q s) = D_WRead r \<Longrightarrow> v_next s r \<noteq> 0"
  using assms by (auto simp: views_ok_def)

section \<open>Steps of the dequeuer\<close>

text \<open>
  A step on the dequeuer's view is a step of the sequentially consistent dequeuer, or a load found
  an old null: the answer 1, the test of the link, or one more round of the busy wait.
\<close>

lemma early_is_empty_cases:
  assumes "early_is_empty_step s = Some (l, s')" and "views_ok s xs"
  shows "dequeuer_step bd (e_q s) = Some (l, e_q s') \<or>
    deq (e_q s) = E_Head \<and> l = Is_Empty True \<and> s' = set_deq (C_Idle False) s"
proof -
  have "v_head s \<noteq> 0 \<Longrightarrow> q_head (e_q s) = v_head s" using views_okD(1) [OF assms(2)] by auto
  with views_okD(4) [OF assms(2)] assms(1) show ?thesis
    by (auto simp: early_is_empty_step_def dequeuer_step_eq OPA_SHM_REL_NULL_def
      split: deq_pc.splits if_splits)
qed

lemma early_dequeue_cases:
  assumes "early_dequeue_step rb bd s = Some (l, s')" and "views_ok s xs"
  shows "dequeuer_step bd (e_q s) = Some (l, e_q s') \<or>
    l = Tau \<and> (\<exists>r. deq (e_q s) = D_Next r \<and> s' = set_deq (D_Null r) s \<or> deq (e_q s) = D_Wait r \<and> s' = s)"
proof -
  have "v_next s c \<noteq> 0 \<Longrightarrow> q_next (e_q s) c = v_next s c" for c
    using views_okD(2) [OF assms(2), of c] by auto
  with views_okD(5,6) [OF assms(2)] assms(1) show ?thesis
    by (auto simp: early_dequeue_step_def dequeuer_step_eq OPA_SHM_REL_NULL_def read_barrier_done_def Let_def
      split: deq_pc.splits if_splits)
qed

text \<open>The list after a step of the specification, by the label.\<close>

definition list_step :: "addr list \<Rightarrow> qlabel \<Rightarrow> addr list \<Rightarrow> bool" where
  "list_step xs l ys \<longleftrightarrow>
     (case l of Removed x \<Rightarrow> xs = x # ys | Swapped p r \<Rightarrow> ys = xs @ [r] | _ \<Rightarrow> ys = xs)"

lemma spec_step_list: "spec_step bd (xs, P) l (ys, Q) \<Longrightarrow> list_step xs l ys"
  by (erule spec_stepE) (simp_all add: list_step_def)

text \<open>Steps that leave the cells and the views alone.\<close>

lemma views_frame:
  assumes "views_ok s xs" and "v_head s' = v_head s" "v_next s' = v_next s"
    and "q_head (e_q s') = q_head (e_q s)" "q_next (e_q s') = q_next (e_q s)"
    and "set xs \<union> held (deq (e_q s)) \<subseteq> set ys \<union> held (deq (e_q s'))"
    and "deq (e_q s') = E_Read \<longrightarrow> v_head s \<noteq> 0"
    and "\<forall>r. deq (e_q s') = D_Read r \<or> deq (e_q s') = D_WRead r \<longrightarrow> v_next s r \<noteq> 0"
  shows "views_ok s' ys"
proof -
  have "c \<notin> set xs \<and> c \<notin> held (deq (e_q s))" if "c \<notin> set ys \<and> c \<notin> held (deq (e_q s'))" for c
    using that assms(6) by blast
  with assms(1) have "\<forall>c. c \<notin> set ys \<and> c \<notin> held (deq (e_q s')) \<longrightarrow> q_next (e_q s) c = 0"
    by (simp add: views_ok_def)
  with assms show ?thesis by (simp add: views_ok_def)
qed

lemma views_is_empty:
  assumes v: "views_ok s xs" and step: "early_is_empty_step s = Some (l, s')" and ys: "list_step xs l ys"
  shows "views_ok s' ys"
proof (cases "deq (e_q s) = E_Clear")
  case True
  with step ys have "ys = xs" "s' = s\<lparr>e_q := (e_q s)\<lparr>q_head := 0, deq := C_Idle True\<rparr>, v_head := 0\<rparr>"
    by (auto simp: early_is_empty_step_def list_step_def OPA_SHM_REL_NULL_def)
  with True views_okD(2,3) [OF v] show ?thesis by (simp add: views_ok_def held_def)
next
  case False
  with step ys show ?thesis
    by (intro views_frame [OF v])
      (auto simp: early_is_empty_step_def list_step_def held_def OPA_SHM_REL_NULL_def
        split: deq_pc.splits if_splits)
qed

lemma views_dequeue:
  assumes v: "views_ok s xs" and step: "early_dequeue_step rb bd s = Some (l, s')" and ys: "list_step xs l ys"
  shows "views_ok s' ys"
proof (cases "\<exists>r. deq (e_q s) = D_Clear r")
  case True
  then obtain r where d: "deq (e_q s) = D_Clear r" by blast
  let ?n = "(q_next (e_q s))(r := 0)" and ?v = "(v_next s)(r := 0)"
  have n: "\<forall>c. c \<notin> set xs \<longrightarrow> ?n c = 0" using views_okD(3) [OF v] d by (auto simp: held_def)
  have "ys = xs" "s' = read_barrier_done rb (s\<lparr>e_q := (e_q s)\<lparr>q_next := ?n, deq := C_Idle False,
      avail := insert r (avail (e_q s))\<rparr>, v_next := ?v\<rparr>)"
    using d step ys by (auto simp: early_dequeue_step_def list_step_def Let_def OPA_SHM_REL_NULL_def)
  moreover have "\<forall>c. ?v c = 0 \<or> ?v c = ?n c" using views_okD(2) [OF v] by auto
  ultimately show ?thesis
    using n views_okD(1) [OF v]
    by (cases rb) (simp_all add: views_ok_def held_def read_barrier_done_def del: fun_upd_apply)
next
  case False
  with step ys show ?thesis
    by (intro views_frame [OF v])
      (auto simp: early_dequeue_step_def list_step_def held_def OPA_SHM_REL_NULL_def Let_def
        split: deq_pc.splits if_splits)
qed

lemma stale_inv:
  assumes inv: "q_inv base q xs"
    and "deq q = E_Head \<and> d = C_Idle False \<or> (\<exists>r. deq q = D_Next r \<and> d = D_Null r)"
  shows "q_inv base (q\<lparr>deq := d\<rparr>) xs"
  using q_invD(5,6) [OF inv] assms(2)
  by (intro inv_dequeuer [OF inv, where h = "q_head q" and sh = "q_shadow q" and d = d])
    (auto simp: dequeuer_facts)

lemma early_dequeuer_simulated:
  assumes inv: "e_inv base s xs"
    and step: "early_is_empty_step s = Some (l, s') \<or> early_dequeue_step rb bd s = Some (l, s')"
  shows "early_simulated base bd xs s l s'"
proof -
  note q = e_invD(1) [OF inv] and v = e_invD(2) [OF inv]
  have views: "list_step xs l ys \<Longrightarrow> views_ok s' ys" for ys
    using step views_is_empty [OF v] views_dequeue [OF v] by blast
  consider (same) "dequeuer_step bd (e_q s) = Some (l, e_q s')"
    | (answer) "deq (e_q s) = E_Head" "l = Is_Empty True" "s' = set_deq (C_Idle False) s"
    | (link) r where "l = Tau" "deq (e_q s) = D_Next r" "s' = set_deq (D_Null r) s"
    | (wait) "l = Tau" "s' = s"
    using step early_is_empty_cases [OF _ v, of l s' bd] early_dequeue_cases [OF _ v, of rb bd l s'] by blast
  then show ?thesis
  proof cases
    case same
    from simulated_dequeuer_step [OF q same] views spec_step_list show ?thesis
      unfolding simulated_def early_simulated_def e_inv_def by (blast intro: Early_Spec)
  next
    case answer
    with stale_inv [OF q] views [of xs] show ?thesis
      unfolding early_simulated_def e_inv_def by (auto simp: list_step_def intro: Early_Empty)
  next
    case link
    with stale_inv [OF q] views [of xs] show ?thesis
      unfolding early_simulated_def e_inv_def by (auto simp: list_step_def intro: Early_Spec Spec_Tau)
  next
    case wait
    with inv show ?thesis
      unfolding early_simulated_def by (auto intro: Early_Spec Spec_Tau)
  qed
qed

section \<open>The other steps\<close>

lemma views_enqueuer:
  assumes v: "views_ok s xs" and inv: "q_inv base (e_q s) xs"
    and step: "enqueue_step (base p) p (e_q s) = Some (l, q)"
    and ys: "list_step xs l ys"
  shows "views_ok (s\<lparr>e_q := q\<rparr>) ys"
proof (cases "enqs (e_q s) p")
  case P_Idle
  with step show ?thesis by (simp add: enqueue_step_def)
next
  case (P_Null elt r)
  with q_invD(7) [OF inv, of p] have "private_elt (e_q s) xs r" "cell (base p) elt = r"
    by (simp_all add: enq_ok_def)
  with views_okD(3) [OF v] have "q_next (e_q s) (cell (base p) elt) = 0" by (simp add: private_elt_def)
  then have "(q_next (e_q s))(cell (base p) elt := 0) = q_next (e_q s)" by auto
  with P_Null step v ys show ?thesis
    by (auto simp: enqueue_step_def views_ok_def list_step_def OPA_SHM_REL_NULL_def)
next
  case (P_Swap r)
  with step v ys show ?thesis by (auto simp: enqueue_step_def views_ok_def list_step_def Let_def)
next
  case (P_Head r)
  then have "r \<in> pend (enqs (e_q s))" by (intro pendI [of _ p]) simp
  moreover from q_invD(7) [OF inv, of p] P_Head have "xs \<noteq> []" "hd xs = r" by (simp_all add: enq_ok_def)
  ultimately have "eff_head (e_q s) = 0" "eff_shadow (e_q s) = 0"
    using q_invD(5) [OF inv] by (simp_all add: front_def)
  with q_invD(6) [OF inv] have "q_head (e_q s) = 0"
    by (cases "deq (e_q s)") (auto simp: deq_ok_def eff_head_def eff_shadow_def)
  with P_Head step v ys show ?thesis by (auto simp: enqueue_step_def views_ok_def list_step_def)
next
  case (P_Link a r)
  with q_invD(7) [OF inv, of p] have adj: "adjacent xs (cell (base p) a) r" by (simp add: enq_ok_def)
  have "r \<in> pend (enqs (e_q s))" using P_Link by (intro pendI [of _ p]) simp
  with chain_adjacent [OF q_invD(4) [OF inv] adj] have "q_next (e_q s) (cell (base p) a) = 0" by simp
  with views_okD(2) [OF v, of "cell (base p) a"] have "v_next s (cell (base p) a) = 0" by auto
  then have link: "\<forall>c. v_next s c = 0 \<or> v_next s c = (if c = cell (base p) a then r else q_next (e_q s) c)"
    using views_okD(2) [OF v] by auto
  have "cell (base p) a \<in> set xs" using adjacent_mem [OF adj] by simp
  with views_okD(3) [OF v] have "\<forall>c. c \<notin> set xs \<and> c \<notin> held (deq (e_q s)) \<longrightarrow>
      (if c = cell (base p) a then r else q_next (e_q s) c) = 0" by auto
  moreover have "ys = xs" "q = (e_q s)\<lparr>q_next := (q_next (e_q s))(cell (base p) a := r),
      enqs := (enqs (e_q s))(p := P_Idle)\<rparr>"
    using P_Link step ys by (auto simp: enqueue_step_def list_step_def)
  ultimately show ?thesis using link views_okD(1,4-6) [OF v] by (simp add: views_ok_def)
qed

lemma early_step_of:
  assumes inv: "e_inv base s xs" and step: "q_step base bd (e_q s) l q"
    and views: "\<And>ys P Q. spec_step bd (xs, P) l (ys, Q) \<Longrightarrow> views_ok (s\<lparr>e_q := q\<rparr>) ys"
  shows "early_simulated base bd xs s l (s\<lparr>e_q := q\<rparr>)"
  using simulated_step [OF e_invD(1) [OF inv] step] views
  unfolding simulated_def early_simulated_def e_inv_def by (auto intro: Early_Spec)

lemma early_call_simulated:
  assumes inv: "e_inv base s xs"
    and step: "is_empty_call (e_q s) = Some (l, q) \<or> peek_call (e_q s) = Some (l, q) \<or>
      dequeue_call (e_q s) = Some (l, q) \<or> peek_step bd (e_q s) = Some (l, q)"
  shows "early_simulated base bd xs s l (s\<lparr>e_q := q\<rparr>)"
proof (rule early_step_of [OF inv])
  have "is_empty_step (e_q s) = None" if "peek_step bd (e_q s) = Some (l, q)"
    using that by (auto simp: peek_step_def is_empty_step_def split: deq_pc.splits)
  then show "q_step base bd (e_q s) l q"
    using step by (auto simp: dequeuer_step_def intro: q_step.intros)
next
  fix ys P Q
  assume "spec_step bd (xs, P) l (ys, Q)"
  from spec_step_list [OF this] step have "ys = xs"
    by (auto simp: is_empty_call_def peek_call_def dequeue_call_def peek_step_def list_step_def
      split: deq_pc.splits if_splits)
  moreover from step have "q_head q = q_head (e_q s)" "q_next q = q_next (e_q s)"
      "held (deq q) = held (deq (e_q s))"
      "deq q = deq (e_q s) \<or> deq q \<noteq> E_Read \<and> (\<forall>r. deq q \<noteq> D_Read r \<and> deq q \<noteq> D_WRead r)"
    by (auto simp: is_empty_call_def peek_call_def dequeue_call_def peek_step_def held_def
      split: deq_pc.splits if_splits)
  ultimately show "views_ok (s\<lparr>e_q := q\<rparr>) ys"
    using views_okD(4-6) [OF e_invD(2) [OF inv]] by (intro views_frame [OF e_invD(2) [OF inv]]) auto
qed

lemma early_enqueuer_simulated:
  assumes inv: "e_inv base s xs" and step: "enqueue_step (base p) p (e_q s) = Some (l, q)"
  shows "early_simulated base bd xs s l (s\<lparr>e_q := q\<rparr>)"
proof (rule early_step_of [OF inv Enqueuer [where base = base and p = p, OF step]])
  fix ys P Q
  assume "spec_step bd (xs, P) l (ys, Q)"
  from spec_step_list [OF this] show "views_ok (s\<lparr>e_q := q\<rparr>) ys"
    by (rule views_enqueuer [OF e_invD(2,1) [OF inv] step])
qed

lemma early_call_enqueue_simulated:
  assumes inv: "e_inv base s xs" and step: "enqueue_call (base p) p elt (e_q s) = Some q"
  shows "early_simulated base bd xs s Tau (s\<lparr>e_q := q\<rparr>)"
proof (rule early_step_of [OF inv Call_Enqueue [where base = base and p = p, OF step]])
  fix ys P Q
  assume "spec_step bd (xs, P) Tau (ys, Q)"
  from spec_step_list [OF this] have "ys = xs" by (simp add: list_step_def)
  moreover from step have "q_head q = q_head (e_q s)" "q_next q = q_next (e_q s)" "deq q = deq (e_q s)"
    by (auto simp: enqueue_call_def Let_def split: if_splits)
  ultimately show "views_ok (s\<lparr>e_q := q\<rparr>) ys"
    using views_okD(4-6) [OF e_invD(2) [OF inv]] by (intro views_frame [OF e_invD(2) [OF inv]]) auto
qed

lemma early_load_simulated:
  assumes inv: "e_inv base s xs" and s': "s' = load_head s \<or> s' = load_next c s"
  shows "early_simulated base bd xs s Tau s'"
proof -
  note q = e_invD(1) [OF inv]
  have "q_head (e_q s) \<noteq> 0" if "deq (e_q s) = E_Read" using q_invD(6) [OF q] that by (simp add: deq_ok_def)
  moreover have "q_next (e_q s) r \<noteq> 0" if "deq (e_q s) = D_Read r \<or> deq (e_q s) = D_WRead r" for r
    using q_invD(6) [OF q] that by (auto simp: deq_ok_def)
  moreover note views_okD(2) [OF e_invD(2) [OF inv]]
  ultimately have "e_inv base s' xs"
    using inv s' by (elim disjE) (simp_all add: e_inv_def views_ok_def load_head_def load_next_def)
  moreover have "e_q s' = e_q s" using s' by (auto simp: load_head_def load_next_def)
  ultimately show ?thesis unfolding early_simulated_def by (auto intro: Early_Spec Spec_Tau)
qed

section \<open>Runs\<close>

lemma early_simulated_step: "e_inv base s xs \<Longrightarrow> e_step rb base bd s l s' \<Longrightarrow> early_simulated base bd xs s l s'"
  by (erule e_stepE)
    (blast intro: early_load_simulated early_call_enqueue_simulated early_enqueuer_simulated
      early_call_simulated early_dequeuer_simulated)+

lemma e_inv_init: "e_inv base (e_init elts) []"
  using q_inv_init by (auto simp: e_inv_def e_init_def views_ok_def q_init_def OPA_SHM_REL_NULL_def)

lemma early_history:
  "early_spec_step bd a l c \<Longrightarrow> fst a @ swap_of l = removal_of l @ fst c"
  by (erule early_spec_step.cases) (auto elim!: spec_stepE)

lemma early_step_returns:
  "e_step rb base bd s l s' \<Longrightarrow>
     held_list (deq (e_q s)) @ removal_of l = map (cell bd) (return_of l) @ held_list (deq (e_q s'))"
  by (erule e_stepE)
    (auto simp: enqueue_call_def enqueue_step_def is_empty_call_def peek_call_def dequeue_call_def
      peek_step_def early_is_empty_step_def early_dequeue_step_def load_head_def load_next_def
      read_barrier_done_def held_list_def Let_def split: enq_pc.splits deq_pc.splits if_splits)

text \<open>What is on the queue after a run, and what has been returned.\<close>

lemma early_content:
  assumes "e_run rb base bd (e_init elts) ls t"
  shows "\<exists>xs. e_inv base t xs \<and> swapped ls = removed ls @ xs \<and>
    removed ls = map (cell bd) (dequeued_elts ls) @ held_list (deq (e_q t))"
  using assms
proof (induction "e_init elts" ls t rule: e_run.induct)
  case Early_Nil
  show ?case using e_inv_init by (auto simp: history_defs held_list_def e_init_def q_init_def)
next
  case (Early_Snoc ls t l u)
  then obtain xs where inv: "e_inv base t xs" and xs: "swapped ls = removed ls @ xs"
    and ret: "removed ls = map (cell bd) (dequeued_elts ls) @ held_list (deq (e_q t))" by blast
  from early_simulated_step [OF inv Early_Snoc.hyps(3)] obtain ys where ys: "e_inv base u ys"
    "xs @ swap_of l = removal_of l @ ys"
    by (auto simp: early_simulated_def dest: early_history)
  with xs ret early_step_returns [OF Early_Snoc.hyps(3)] show ?case
    by (intro exI [of _ ys]) (simp add: history_defs)
qed

section \<open>What the answer 1 is worth\<close>

text \<open>
  The effective shadow head goes to null only with the removal of the last element; from then on,
  until an element is moved to it, there was a moment when nothing could be found.
\<close>

lemma shadow_frame: "deq q' = deq q \<Longrightarrow> q_shadow q' = q_shadow q \<Longrightarrow> eff_shadow q' = eff_shadow q"
  by (simp add: eff_shadow_def cong: deq_pc.case_cong)

lemma shadow_call_enqueue: "enqueue_call b p elt q = Some q' \<Longrightarrow> eff_shadow q' = eff_shadow q"
  by (rule shadow_frame) (auto simp: enqueue_call_def Let_def split: if_splits)

lemma shadow_enqueuer:
  "enqueue_step b p q = Some (l, q') \<Longrightarrow> removal_of l = [] \<and> eff_shadow q' = eff_shadow q"
  by (intro conjI shadow_frame)
    (auto simp: enqueue_step_def Let_def split: enq_pc.splits if_splits)

lemma shadow_call:
  assumes "is_empty_call q = Some (l, q') \<or> peek_call q = Some (l, q') \<or> dequeue_call q = Some (l, q')"
    and "deq_ok q"
  shows "removal_of l = [] \<and> eff_shadow q' = eff_shadow q"
  using assms
  by (cases "deq q")
    (auto simp: is_empty_call_def peek_call_def dequeue_call_def deq_ok_def eff_shadow_def
      OPA_SHM_REL_NULL_def split: if_splits)

lemma shadow_peek:
  "peek_step bd q = Some (l, q') \<Longrightarrow> removal_of l = [] \<and> eff_shadow q' = eff_shadow q"
  by (cases "deq q") (auto simp: peek_step_def eff_shadow_def)

lemma shadow_is_empty:
  assumes "early_is_empty_step s = Some (l, s')" and "deq_ok (e_q s)" and "eff_shadow (e_q s') = 0"
  shows "removal_of l = [] \<and> eff_shadow (e_q s) = 0"
  using assms
  by (cases "deq (e_q s)")
    (auto simp: early_is_empty_step_def deq_ok_def eff_shadow_def split: if_splits)

lemma shadow_dequeue:
  assumes "early_dequeue_step rb bd s = Some (l, s')" and "views_ok s xs" "deq_ok (e_q s)"
    and "eff_shadow (e_q s') = 0" and "eff_shadow (e_q s) \<noteq> 0 \<or> removal_of l \<noteq> []"
  shows "q_tail (e_q s') = 0"
  using assms(1,3-5) views_okD(5,6) [OF assms(2)]
  by (cases "deq (e_q s)")
    (auto simp: early_dequeue_step_def read_barrier_done_def deq_ok_def eff_shadow_def OPA_SHM_REL_NULL_def
      Let_def split: if_splits)

lemma early_shadow_null:
  assumes step: "e_step rb base bd t l u" and inv: "e_inv base t xs"
    and null: "eff_shadow (e_q u) = 0" "eff_shadow (e_q t) \<noteq> 0 \<or> removal_of l \<noteq> []"
  shows "q_tail (e_q u) = 0"
proof -
  note d = q_invD(6) [OF e_invD(1) [OF inv]]
  consider (dequeue) "early_dequeue_step rb bd t = Some (l, u)"
    | (other) "removal_of l = [] \<and> eff_shadow (e_q t) = 0"
    using step
    by (rule e_stepE)
      (use null(1) in \<open>auto simp: load_head_def load_next_def
        dest: shadow_call_enqueue shadow_enqueuer
          shadow_call [OF disjI1 d] shadow_call [OF disjI2 [OF disjI1] d] shadow_call [OF disjI2 [OF disjI2] d]
          shadow_peek shadow_is_empty [OF _ d]\<close>)
  then show ?thesis
    using shadow_dequeue [OF _ e_invD(2) [OF inv] d null] null(2) by cases auto
qed

lemma early_quiet:
  assumes "e_run rb base bd (e_init elts) ls t" and "eff_shadow (e_q t) = 0"
  shows "\<exists>ls1 ls2 t1. ls = ls1 @ ls2 \<and> removed ls2 = [] \<and> e_run rb base bd (e_init elts) ls1 t1 \<and>
    (pend (enqs (e_q t1)) = {} \<longrightarrow> removed ls1 = swapped ls1)"
  using assms
proof (induction "e_init elts" ls t rule: e_run.induct)
  case Early_Nil
  show ?case
    by (rule exI [of _ "[]"], rule exI [of _ "[]"]) (auto simp: history_defs intro: e_run.Early_Nil)
next
  case (Early_Snoc ls t l u)
  have run: "e_run rb base bd (e_init elts) (ls @ [l]) u"
    using Early_Snoc.hyps(1,3) by (rule e_run.Early_Snoc)
  obtain xs where xs: "e_inv base t xs" using early_content [OF Early_Snoc.hyps(1)] by blast
  obtain ys where ys: "e_inv base u ys" and c: "swapped (ls @ [l]) = removed (ls @ [l]) @ ys"
    using early_content [OF run] by blast
  show ?case
  proof (cases "ys = []")
    case True
    with run c show ?thesis
      by (intro exI [of _ "ls @ [l]"] exI [of _ "[]"] exI [of _ u]) (simp add: history_defs)
  next
    case False
    with q_invD(2,3) [OF e_invD(1) [OF ys]] have "q_tail (e_q u) \<noteq> 0" by (metis last_in_set)
    with early_shadow_null [OF Early_Snoc.hyps(3) xs Early_Snoc.prems]
    have t: "eff_shadow (e_q t) = 0" "removal_of l = []" by blast+
    from Early_Snoc.hyps(2) [OF t(1)] obtain ls1 ls2 t1 where "ls = ls1 @ ls2" "removed ls2 = []"
      "e_run rb base bd (e_init elts) ls1 t1" "pend (enqs (e_q t1)) = {} \<longrightarrow> removed ls1 = swapped ls1"
      by blast
    with t(2) show ?thesis
      by (intro exI [of _ ls1] exI [of _ "ls2 @ [l]"] exI [of _ t1]) (simp add: history_defs)
  qed
qed

section \<open>Loads that are not early\<close>

text \<open>
  When the load the code has come to is done just then, the step is the sequentially consistent one,
  so the dequeuer is held up as little as there.
\<close>

definition load_now :: "estate \<Rightarrow> estate" where
  "load_now s =
     (case deq (e_q s) of
        E_Head \<Rightarrow> load_head s
      | E_Read \<Rightarrow> load_head s
      | D_Next r \<Rightarrow> load_next r s
      | D_Read r \<Rightarrow> load_next r s
      | D_Wait r \<Rightarrow> load_next r s
      | D_WRead r \<Rightarrow> load_next r s
      | _ \<Rightarrow> s)"

lemma load_now_step:
  assumes "dequeuer_step bd (e_q s) = Some (l, q)"
  shows "\<exists>s'. e_step rb base bd (load_now s) l s' \<and> e_q s' = q"
proof -
  have "\<exists>s'. (early_is_empty_step (load_now s) = Some (l, s') \<or> early_dequeue_step rb bd (load_now s) = Some (l, s') \<or>
      peek_step bd (e_q (load_now s)) = Some (l, e_q s') \<and> s' = load_now s\<lparr>e_q := e_q s'\<rparr>) \<and> e_q s' = q"
    using assms
    by (cases "deq (e_q s)")
      (auto simp: dequeuer_step_eq load_now_def load_head_def load_next_def early_is_empty_step_def
        early_dequeue_step_def peek_step_def read_barrier_done_def Let_def split: if_splits
        intro!: exI [of _ "s\<lparr>e_q := q\<rparr>"])
  then show ?thesis by (metis Early_Is_Empty Early_Dequeue Early_Peek)
qed

section \<open>A schedule\<close>

datatype e_action =
    Do_Load_Head
  | Do_Load_Next addr
  | Do_Queue q_action
  | Do_Is_Empty
  | Do_Dequeue

text \<open>\<open>Do_Queue\<close> stands for a call or a step of an enqueuer.\<close>

fun e_exec :: "bool \<Rightarrow> (nat \<Rightarrow> addr) \<Rightarrow> addr \<Rightarrow> e_action \<Rightarrow> estate \<Rightarrow> (qlabel \<times> estate) option" where
  "e_exec rb base bd Do_Load_Head s = Some (Tau, load_head s)"
| "e_exec rb base bd (Do_Load_Next c) s = Some (Tau, load_next c s)"
| "e_exec rb base bd (Do_Queue Go_Dequeuer) s = None"
| "e_exec rb base bd (Do_Queue a) s = map_option (\<lambda>(l, q). (l, s\<lparr>e_q := q\<rparr>)) (q_exec base bd a (e_q s))"
| "e_exec rb base bd Do_Is_Empty s = early_is_empty_step s"
| "e_exec rb base bd Do_Dequeue s = early_dequeue_step rb bd s"

fun e_schedule ::
  "bool \<Rightarrow> (nat \<Rightarrow> addr) \<Rightarrow> addr \<Rightarrow> e_action list \<Rightarrow> qlabel list \<times> estate \<Rightarrow> (qlabel list \<times> estate) option" where
  "e_schedule rb base bd [] (ls, s) = Some (ls, s)"
| "e_schedule rb base bd (a # as) (ls, s) =
     (case e_exec rb base bd a s of None \<Rightarrow> None
      | Some (l, s') \<Rightarrow> e_schedule rb base bd as (ls @ [l], s'))"

lemma e_exec_step: "e_exec rb base bd a s = Some (l, s') \<Longrightarrow> e_step rb base bd s l s'"
proof (cases a)
  case (Do_Queue x)
  then show "e_exec rb base bd a s = Some (l, s') \<Longrightarrow> ?thesis"
    by (cases x) (auto intro: e_step.intros)
qed (auto intro: e_step.intros)

lemma e_schedule_run:
  "e_schedule rb base bd as (ls, s) = Some (ks, t) \<Longrightarrow> e_run rb base bd s0 ls s \<Longrightarrow> e_run rb base bd s0 ks t"
proof (induction as arbitrary: ls s)
  case (Cons a as)
  then obtain l s' where "e_exec rb base bd a s = Some (l, s')"
    "e_schedule rb base bd as (ls @ [l], s') = Some (ks, t)"
    by (auto split: option.splits)
  with Cons.IH Cons.prems(2) show ?case by (blast intro: Early_Snoc e_exec_step)
qed simp

text \<open>
  The dequeuer's load of the head is done first, then an element is enqueued from beginning to end,
  and then \<open>OPA_Queue_is_empty\<close> is called, on the old load; and once more, on a new one, and the
  element is dequeued.
\<close>

definition old_load :: "e_action list" where
  "old_load =
     [Do_Load_Head, Do_Queue (Start_Enqueue 0 4160), Do_Queue (Go_Enqueuer 0), Do_Queue (Go_Enqueuer 0),
      Do_Queue (Go_Enqueuer 0), Do_Queue Start_Is_Empty, Do_Is_Empty]"

definition then_new_load :: "e_action list" where
  "then_new_load =
     [Do_Queue Start_Is_Empty, Do_Load_Head, Do_Is_Empty, Do_Is_Empty, Do_Is_Empty, Do_Is_Empty,
      Do_Queue Start_Dequeue, Do_Dequeue, Do_Dequeue, Do_Dequeue, Do_Dequeue]"

definition old_load_labels :: "qlabel list" where
  "old_load_labels = [Tau, Tau, Tau, Swapped 0 64, Enqueued 0 64, Tau]"

definition new_load_labels :: "qlabel list" where
  "new_load_labels = [Tau, Tau, Tau, Tau, Tau, Is_Empty False, Tau, Tau, Tau, Removed 64, Dequeued 65600]"

lemma old_load_outcome:
  "map_option (\<lambda>(ls, t). (ls, enqs (e_q t) 0)) (e_schedule rb sample_base 65536 old_load ([], e_init {64})) =
     Some (old_load_labels @ [Is_Empty True], P_Idle)"
  by code_simp

lemma new_load_outcome:
  "map_option fst (e_schedule True sample_base 65536 (old_load @ then_new_load) ([], e_init {64})) =
     Some (old_load_labels @ [Is_Empty True] @ new_load_labels)"
  by code_simp

lemma old_load_run: "\<exists>t. e_run True sample_base 65536 (e_init {64}) (old_load_labels @ [Is_Empty True]) t"
proof -
  obtain t where
    "e_schedule True sample_base 65536 old_load ([], e_init {64}) = Some (old_load_labels @ [Is_Empty True], t)"
    using old_load_outcome [of True] by (auto simp: map_option_eq_Some)
  from e_schedule_run [OF this Early_Nil] show ?thesis ..
qed

lemma new_load_run: "\<exists>t. e_run True sample_base 65536 (e_init {64})
    (old_load_labels @ [Is_Empty True] @ new_load_labels) t"
proof -
  obtain t where "e_schedule True sample_base 65536 (old_load @ then_new_load) ([], e_init {64}) =
      Some (old_load_labels @ [Is_Empty True] @ new_load_labels, t)"
    using new_load_outcome by (auto simp: map_option_eq_Some)
  from e_schedule_run [OF this Early_Nil] show ?thesis ..
qed

section \<open>Properties\<close>

text \<open>
  C10. Loads that are done early do no harm. However early the dequeuer's loads are done, with or
  without a read barrier that stops them, the elements returned are the first ones swapped in, in
  this order; when \<open>OPA_Queue_is_empty\<close> answers 0 there is an element; and when it answers 1 there
  was a moment, with no removal since, at which everything put on the queue had been taken off, or
  an enqueue was half done.
\<close>

theorem early_loads_do_no_harm:
  assumes run: "e_run rb base bd (e_init elts) ls t"
  shows "prefix (map (cell bd) (dequeued_elts ls)) (swapped ls) \<and>
    (\<forall>ks. ls = ks @ [Is_Empty False] \<longrightarrow> strict_prefix (removed ks) (swapped ks)) \<and>
    (\<forall>ks. ls = ks @ [Is_Empty True] \<longrightarrow>
      (\<exists>ls1 ls2 t1. ks = ls1 @ ls2 \<and> removed ls2 = [] \<and> e_run rb base bd (e_init elts) ls1 t1 \<and>
        (pend (enqs (e_q t1)) = {} \<longrightarrow> removed ls1 = swapped ls1)))"
proof (intro conjI allI impI)
  show "prefix (map (cell bd) (dequeued_elts ls)) (swapped ls)" using early_content [OF run] by auto
next
  fix ks assume "ls = ks @ [Is_Empty False]"
  with run obtain s where s: "e_run rb base bd (e_init elts) ks s" "e_step rb base bd s (Is_Empty False) t"
    by (auto elim: e_run.cases)
  obtain xs where inv: "e_inv base s xs" and xs: "swapped ks = removed ks @ xs"
    using early_content [OF s(1)] by blast
  from early_simulated_step [OF inv s(2)] have "xs \<noteq> []"
    by (auto simp: early_simulated_def spec_empty_iff elim: early_spec_step.cases)
  with xs show "strict_prefix (removed ks) (swapped ks)" by (simp add: strict_prefix_def)
next
  fix ks assume "ls = ks @ [Is_Empty True]"
  with run obtain s where s: "e_run rb base bd (e_init elts) ks s" "e_step rb base bd s (Is_Empty True) t"
    by (auto elim: e_run.cases)
  obtain xs where inv: "q_inv base (e_q s) xs" using early_content [OF s(1)] e_invD(1) by blast
  from s(2) have "deq (e_q s) = E_Head"
    by (elim e_stepE) (auto simp: enqueue_step_def is_empty_call_def peek_call_def dequeue_call_def peek_step_def
      early_is_empty_step_def early_dequeue_step_def Let_def split: enq_pc.splits deq_pc.splits if_splits)
  with q_invD(6) [OF inv] have "eff_shadow (e_q s) = 0" by (simp add: deq_ok_def eff_shadow_def)
  from early_quiet [OF s(1) this] show "\<exists>ls1 ls2 t1. ks = ls1 @ ls2 \<and> removed ls2 = [] \<and>
      e_run rb base bd (e_init elts) ls1 t1 \<and> (pend (enqs (e_q t1)) = {} \<longrightarrow> removed ls1 = swapped ls1)" .
qed

theorem early_loads_do_no_harm_witness:
  "(\<exists>ls1 ls2. old_load_labels = ls1 @ ls2 \<and> removed ls2 = [] \<and> ls1 \<noteq> old_load_labels) \<and>
   prefix (map (cell 65536) (dequeued_elts (old_load_labels @ [Is_Empty True] @ new_load_labels)))
     (swapped (old_load_labels @ [Is_Empty True] @ new_load_labels)) \<and>
   dequeued_elts (old_load_labels @ [Is_Empty True] @ new_load_labels) = [65600]"
proof (intro conjI)
  obtain t where "e_run True sample_base 65536 (e_init {64}) (old_load_labels @ [Is_Empty True]) t"
    using old_load_run by blast
  from early_loads_do_no_harm [OF this] have "\<exists>ls1 ls2. old_load_labels = ls1 @ ls2 \<and> removed ls2 = []" by blast
  then show "\<exists>ls1 ls2. old_load_labels = ls1 @ ls2 \<and> removed ls2 = [] \<and> ls1 \<noteq> old_load_labels"
    by (intro exI [of _ "[]"] exI [of _ old_load_labels]) (simp add: old_load_labels_def removed_def)
  show "prefix (map (cell 65536) (dequeued_elts (old_load_labels @ [Is_Empty True] @ new_load_labels)))
     (swapped (old_load_labels @ [Is_Empty True] @ new_load_labels))"
    using new_load_run early_loads_do_no_harm by blast
  show "dequeued_elts (old_load_labels @ [Is_Empty True] @ new_load_labels) = [65600]" by code_simp
qed

end
