(* ===== verification/OPA_Layout.thy ===== *)
theory OPA_Layout
  imports OPA_Queue
begin

text \<open>
  The layout of \<open>OPA_Queue_info_t\<close> as the compiler computes it, and the cache lines its three
  pointers fall into, which is what the padding of the structure is for.
\<close>

text \<open>
  Fields of a structure by size and alignment: where each starts, and the end rounded up to the
  alignment of the structure.
\<close>

definition round_up :: "nat \<Rightarrow> nat \<Rightarrow> nat" where
  "round_up n a = (n + a - 1) div a * a"

fun field_offsets :: "nat \<Rightarrow> (nat \<times> nat) list \<Rightarrow> nat list" where
  "field_offsets n [] = []"
| "field_offsets n ((sz, align) # fs) = round_up n align # field_offsets (round_up n align + sz) fs"

fun fields_end :: "nat \<Rightarrow> (nat \<times> nat) list \<Rightarrow> nat" where
  "fields_end n [] = n"
| "fields_end n ((sz, align) # fs) = fields_end (round_up n align + sz) fs"

definition struct_size :: "(nat \<times> nat) list \<Rightarrow> nat" where
  "struct_size fs = round_up (fields_end 0 fs) (fold max (map snd fs) 1)"

text \<open>\<open>OPA_Shm_rel_addr_t\<close> is one pointer.\<close>

definition sizeof_OPA_Shm_rel_addr_t :: nat where
  "sizeof_OPA_Shm_rel_addr_t = 8"

definition cacheline :: nat where
  "cacheline = unat OPA_QUEUE_CACHELINE_PADDING"

definition OPA_Queue_info_t_fields :: "(nat \<times> nat) list" where
  "OPA_Queue_info_t_fields =
     [(sizeof_OPA_Shm_rel_addr_t, sizeof_OPA_Shm_rel_addr_t),
      (sizeof_OPA_Shm_rel_addr_t, sizeof_OPA_Shm_rel_addr_t),
      (cacheline - 2 * sizeof_OPA_Shm_rel_addr_t, 1),
      (sizeof_OPA_Shm_rel_addr_t, sizeof_OPA_Shm_rel_addr_t),
      (cacheline - sizeof_OPA_Shm_rel_addr_t, 1)]"

definition OPA_Queue_element_hdr_t_fields :: "(nat \<times> nat) list" where
  "OPA_Queue_element_hdr_t_fields = [(sizeof_OPA_Shm_rel_addr_t, sizeof_OPA_Shm_rel_addr_t)]"

definition cache_line_of :: "addr \<Rightarrow> nat" where
  "cache_line_of a = unat a div cacheline"

lemma cacheline_eq: "cacheline = 128"
  by (simp add: cacheline_def OPA_QUEUE_CACHELINE_PADDING_def)

lemma info_offsets:
  "field_offsets 0 OPA_Queue_info_t_fields = [0, 8, 16, 128, 136]"
  "struct_size OPA_Queue_info_t_fields = 256"
  by (simp_all add: OPA_Queue_info_t_fields_def sizeof_OPA_Shm_rel_addr_t_def cacheline_eq round_up_def
      struct_size_def)

lemma unat_field: "unat q + 256 < 2 ^ 64 \<Longrightarrow> k \<le> 256 \<Longrightarrow> unat (q + of_nat k :: addr) = unat q + k"
  by (simp add: unat_word_ariths unsigned_of_nat take_bit_eq_mod)

lemma line_plus:
  fixes n :: nat
  assumes "j \<le> 128"
  shows "(n + j) div 128 = n div 128 + (if n mod 128 + j < 128 then 0 else 1)"
proof -
  have "n + j = (n mod 128 + j) + n div 128 * 128" by simp
  then have "(n + j) div 128 = n div 128 + (n mod 128 + j) div 128"
    by (metis add.commute div_mult_self1 zero_neq_numeral)
  also have "(n mod 128 + j) div 128 = (if n mod 128 + j < 128 then 0 else 1)"
  proof (cases "n mod 128 + j < 128")
    case False
    moreover have "n mod 128 < 128" by simp
    ultimately show ?thesis using assms by (simp add: div_nat_eqI)
  qed simp
  finally show ?thesis .
qed

text \<open>
  C40. The cells of the queue lie where the compiler puts the fields of \<open>OPA_Queue_info_t\<close>, which takes
  two cache lines of 128 bytes. The shadow head never shares a line with the head; it shares one
  with the tail exactly when the structure starts in the last eight bytes of a line, and otherwise,
  in particular when the structure starts a line, the head and the tail are in one line and the
  shadow head is in the next.
\<close>

theorem cells_in_cache_lines:
  assumes "unat q + struct_size OPA_Queue_info_t_fields < 2 ^ 64"
  shows "map unat [head_at q, tail_at q, shadow_head_at q] =
      map (\<lambda>i. unat q + field_offsets 0 OPA_Queue_info_t_fields ! i) [0, 1, 3] \<and>
    struct_size OPA_Queue_info_t_fields = 2 * cacheline \<and>
    cache_line_of (shadow_head_at q) = Suc (cache_line_of (head_at q)) \<and>
    (cache_line_of (tail_at q) = cache_line_of (shadow_head_at q) \<longleftrightarrow> 120 \<le> unat q mod cacheline) \<and>
    (cache_line_of (tail_at q) = cache_line_of (head_at q) \<longleftrightarrow> unat q mod cacheline < 120)"
proof -
  from assms have b: "unat q + 256 < 2 ^ 64" by (simp add: info_offsets)
  have t: "unat (tail_at q) = unat q + 8" and s: "unat (shadow_head_at q) = unat q + 128"
    using unat_field [OF b, of 8] unat_field [OF b, of 128]
    by (simp_all add: tail_at_def shadow_head_at_def OPA_QUEUE_CACHELINE_PADDING_def)
  have lines: "(n + 128) div 128 = Suc (n div 128)"
    "(n + 8) div 128 = Suc (n div 128) \<longleftrightarrow> 120 \<le> n mod 128"
    "(n + 8) div 128 = n div 128 \<longleftrightarrow> n mod 128 < 120" for n :: nat
    using line_plus [of 128 n] line_plus [of 8 n] by auto
  show ?thesis
    unfolding cache_line_of_def cacheline_eq info_offsets list.map head_at_def t s lines
    by simp
qed

theorem cells_in_cache_lines_witness:
  "cache_line_of (tail_at 4096) = cache_line_of (head_at 4096) \<and>
   cache_line_of (tail_at 4216) = cache_line_of (shadow_head_at 4216)"
  using cells_in_cache_lines [of 4096] cells_in_cache_lines [of 4216]
  by (simp add: info_offsets cacheline_eq)

end
