(* ===== verification/OPA_Types.thy ===== *)
theory OPA_Types
  imports OPA_Config OPA_Layout
begin

text \<open>
  The types \<open>OPA_int_t\<close> and \<open>OPA_ptr_t\<close> of every port, and the widths at which its operations access
  their fields: the operand sizes the headers choose from \<open>OPA_SIZEOF_INT\<close> and
  \<open>OPA_SIZEOF_VOID_P\<close>, or leave to the type, or fix.
\<close>

section \<open>The types\<close>

text \<open>What \<open>configure\<close> measures, in bytes; the three data models in use.\<close>

record data_model =
  sizeof_int :: nat
  sizeof_long :: nat
  sizeof_void_p :: nat

definition ilp32 :: data_model where
  "ilp32 = \<lparr>sizeof_int = 4, sizeof_long = 4, sizeof_void_p = 4\<rparr>"

definition lp64 :: data_model where
  "lp64 = \<lparr>sizeof_int = 4, sizeof_long = 8, sizeof_void_p = 8\<rparr>"

definition llp64 :: data_model where
  "llp64 = \<lparr>sizeof_int = 4, sizeof_long = 4, sizeof_void_p = 8\<rparr>"

datatype c_type =
    C_Int
  | C_Long
  | C_Uint
  | C_Void_Ptr
  | C_Int_Ptr
  | Atomic_Int
  | Atomic_Intptr

datatype initializer =
    Braces
  | Atomic_Var_Init

text \<open>
  A field \<open>v\<close>: its type, whether it is \<open>volatile\<close>, and the alignment asked for. A structure with
  only this field has its size rounded up to the alignment.
\<close>

record v_field =
  v_type :: c_type
  v_volatile :: bool
  v_aligned :: "nat option"

record port_types =
  int_t :: v_field
  ptr_t :: v_field
  int_t_initializer :: initializer
  ptr_t_initializer :: initializer

definition plain :: "c_type \<Rightarrow> v_field" where
  "plain t = \<lparr>v_type = t, v_volatile = True, v_aligned = None\<rparr>"

definition types_unsafe :: port_types where
  "types_unsafe =
     \<lparr>int_t = (plain C_Int)\<lparr>v_volatile := False\<rparr>, ptr_t = (plain C_Int_Ptr)\<lparr>v_volatile := False\<rparr>,
      int_t_initializer = Braces, ptr_t_initializer = Braces\<rparr>"

definition types_by_lock :: port_types where
  "types_by_lock = \<lparr>int_t = plain C_Int, ptr_t = plain C_Int_Ptr,
     int_t_initializer = Braces, ptr_t_initializer = Braces\<rparr>"

definition types_c11 :: port_types where
  "types_c11 =
     \<lparr>int_t = (plain Atomic_Int)\<lparr>v_volatile := False\<rparr>, ptr_t = (plain Atomic_Intptr)\<lparr>v_volatile := False\<rparr>,
      int_t_initializer = Atomic_Var_Init, ptr_t_initializer = Atomic_Var_Init\<rparr>"

definition types_ppc :: port_types where
  "types_ppc =
     \<lparr>int_t = (plain C_Int)\<lparr>v_aligned := Some 8\<rparr>, ptr_t = (plain C_Void_Ptr)\<lparr>v_aligned := Some 8\<rparr>,
      int_t_initializer = Braces, ptr_t_initializer = Braces\<rparr>"

definition types_arm :: port_types where
  "types_arm =
     \<lparr>int_t = (plain C_Int)\<lparr>v_aligned := Some 8\<rparr>, ptr_t = (plain C_Void_Ptr)\<lparr>v_aligned := Some 8\<rparr>,
      int_t_initializer = Braces, ptr_t_initializer = Braces\<rparr>"

definition types_x86 :: port_types where
  "types_x86 = \<lparr>int_t = plain C_Int, ptr_t = plain C_Void_Ptr,
     int_t_initializer = Braces, ptr_t_initializer = Braces\<rparr>"

definition types_ia64 :: port_types where
  "types_ia64 = \<lparr>int_t = plain C_Int, ptr_t = plain C_Void_Ptr,
     int_t_initializer = Braces, ptr_t_initializer = Braces\<rparr>"

definition types_sicortex :: port_types where
  "types_sicortex = \<lparr>int_t = plain C_Int, ptr_t = plain C_Int_Ptr,
     int_t_initializer = Braces, ptr_t_initializer = Braces\<rparr>"

definition types_gcc :: port_types where
  "types_gcc = \<lparr>int_t = plain C_Int, ptr_t = plain C_Void_Ptr,
     int_t_initializer = Braces, ptr_t_initializer = Braces\<rparr>"

definition types_sun :: port_types where
  "types_sun = \<lparr>int_t = plain C_Uint, ptr_t = plain C_Void_Ptr,
     int_t_initializer = Braces, ptr_t_initializer = Braces\<rparr>"

definition types_nt :: port_types where
  "types_nt = \<lparr>int_t = plain C_Long, ptr_t = plain C_Void_Ptr,
     int_t_initializer = Braces, ptr_t_initializer = Braces\<rparr>"

fun types_of :: "port \<Rightarrow> port_types" where
  "types_of Unsafe = types_unsafe"
| "types_of C11 = types_c11"
| "types_of Gcc_Ppc = types_ppc"
| "types_of Gcc_Arm = types_arm"
| "types_of Gcc_X86 = types_x86"
| "types_of Gcc_X86_P3 = types_x86"
| "types_of Gcc_IA64 = types_ia64"
| "types_of Gcc_Sicortex = types_sicortex"
| "types_of Gcc_Intrinsics = types_gcc"
| "types_of Sun = types_sun"
| "types_of NT = types_nt"
| "types_of By_Lock = types_by_lock"

lemmas types_defs = types_unsafe_def types_by_lock_def types_c11_def types_ppc_def types_arm_def
  types_x86_def types_ia64_def types_sicortex_def types_gcc_def types_sun_def types_nt_def plain_def

fun type_size :: "data_model \<Rightarrow> c_type \<Rightarrow> nat" where
  "type_size dm C_Int = sizeof_int dm"
| "type_size dm C_Long = sizeof_long dm"
| "type_size dm C_Uint = sizeof_int dm"
| "type_size dm C_Void_Ptr = sizeof_void_p dm"
| "type_size dm C_Int_Ptr = sizeof_void_p dm"
| "type_size dm Atomic_Int = sizeof_int dm"
| "type_size dm Atomic_Intptr = sizeof_void_p dm"

text \<open>A scalar is aligned to its size unless more is asked for.\<close>

definition field_align :: "data_model \<Rightarrow> v_field \<Rightarrow> nat" where
  "field_align dm f = (case v_aligned f of None \<Rightarrow> type_size dm (v_type f)
     | Some a \<Rightarrow> max a (type_size dm (v_type f)))"

definition sizeof_field_struct :: "data_model \<Rightarrow> v_field \<Rightarrow> nat" where
  "sizeof_field_struct dm f = struct_size [(type_size dm (v_type f), field_align dm f)]"

section \<open>The widths of the accesses\<close>

text \<open>
  The read-modify-writes of the interface. A port by load-linked and store-conditional has its pair
  for each of the two types under all of them.
\<close>

datatype rmw_op =
    Add_Op
  | Incr_Op
  | Decr_Op
  | Decr_And_Test_Op
  | Fetch_And_Add_Op
  | Cas_Int_Op
  | Swap_Int_Op
  | Cas_Ptr_Op
  | Swap_Ptr_Op

definition on_ptr :: "rmw_op \<Rightarrow> bool" where
  "on_ptr op \<longleftrightarrow> op = Cas_Ptr_Op \<or> op = Swap_Ptr_Op"

definition op_field :: "port \<Rightarrow> rmw_op \<Rightarrow> v_field" where
  "op_field port op = (if on_ptr op then ptr_t (types_of port) else int_t (types_of port))"

text \<open>\<open>None\<close> is an \<open>#error\<close> of the header.\<close>

text \<open>x86: the suffix of the four operations that name one, else the size of the register operand.\<close>

definition OPA_SS_x86 :: "data_model \<Rightarrow> nat option" where
  "OPA_SS_x86 dm = (if sizeof_int dm = 4 then Some 4 else if sizeof_int dm = 8 then Some 8 else None)"

fun width_x86 :: "data_model \<Rightarrow> rmw_op \<Rightarrow> nat option" where
  "width_x86 dm Cas_Ptr_Op = (case OPA_SS_x86 dm of None \<Rightarrow> None | Some _ \<Rightarrow> Some (sizeof_void_p dm))"
| "width_x86 dm Swap_Ptr_Op = (case OPA_SS_x86 dm of None \<Rightarrow> None | Some _ \<Rightarrow> Some (sizeof_void_p dm))"
| "width_x86 dm Fetch_And_Add_Op = (case OPA_SS_x86 dm of None \<Rightarrow> None | Some _ \<Rightarrow> Some (sizeof_int dm))"
| "width_x86 dm Cas_Int_Op = (case OPA_SS_x86 dm of None \<Rightarrow> None | Some _ \<Rightarrow> Some (sizeof_int dm))"
| "width_x86 dm Swap_Int_Op = (case OPA_SS_x86 dm of None \<Rightarrow> None | Some _ \<Rightarrow> Some (sizeof_int dm))"
| "width_x86 dm _ = OPA_SS_x86 dm"

text \<open>PowerPC and ARM: \<open>lwarx\<close> and \<open>ldrex\<close> for \<open>int\<close>, the suffix for pointers.\<close>

definition OPA_SS_ppc :: "data_model \<Rightarrow> nat option" where
  "OPA_SS_ppc dm = (if sizeof_void_p dm = 4 then Some 4 else if sizeof_void_p dm = 8 then Some 8 else None)"

definition OPA_SS_arm :: "data_model \<Rightarrow> nat option" where
  "OPA_SS_arm dm = (if sizeof_void_p dm = 4 then Some 4 else if sizeof_void_p dm = 8 then Some 8 else None)"

definition width_llsc :: "nat option \<Rightarrow> rmw_op \<Rightarrow> nat option" where
  "width_llsc ss op = (if on_ptr op then ss else case ss of None \<Rightarrow> None | Some _ \<Rightarrow> Some 4)"

text \<open>
  The registers of ARM v7 have 4 bytes. \<open>ldrexd\<close> and \<open>strexd\<close>, which the suffix asks for with 8-byte
  pointers, move a pair of registers, and the header names one: there is no such access.
\<close>

definition width_arm :: "data_model \<Rightarrow> rmw_op \<Rightarrow> nat option" where
  "width_arm dm op = (case width_llsc (OPA_SS_arm dm) op of None \<Rightarrow> None
     | Some w \<Rightarrow> if w \<le> 4 then Some w else None)"

text \<open>
  Itanium: \<open>fetchadd4\<close>, the two compare-and-swaps, and \<open>xchg8\<close> for both swaps. The branch for
  8-byte \<open>int\<close>s has a \<open>break\<close> outside of a loop, which does not compile.
\<close>

definition cas_int_width_ia64 :: "data_model \<Rightarrow> nat option" where
  "cas_int_width_ia64 dm = (if sizeof_int dm = 8 then None else if sizeof_int dm = 4 then Some 4 else None)"

definition cas_ptr_width_ia64 :: nat where
  "cas_ptr_width_ia64 = 8"

definition swap_ptr_width_ia64 :: nat where
  "swap_ptr_width_ia64 = 8"

definition swap_int_width_ia64 :: nat where
  "swap_int_width_ia64 = 8"

fun width_ia64 :: "data_model \<Rightarrow> rmw_op \<Rightarrow> nat option" where
  "width_ia64 dm Cas_Int_Op = cas_int_width_ia64 dm"
| "width_ia64 dm Cas_Ptr_Op = map_option (\<lambda>_. cas_ptr_width_ia64) (cas_int_width_ia64 dm)"
| "width_ia64 dm Swap_Ptr_Op = map_option (\<lambda>_. swap_ptr_width_ia64) (cas_int_width_ia64 dm)"
| "width_ia64 dm Swap_Int_Op = map_option (\<lambda>_. swap_int_width_ia64) (cas_int_width_ia64 dm)"
| "width_ia64 dm _ = map_option (\<lambda>_. 4) (cas_int_width_ia64 dm)"

text \<open>SiCortex: the \<open>_4\<close> functions for \<open>int\<close>, the \<open>_4\<close> or \<open>_8\<close> ones for pointers.\<close>

definition cas_ptr_width_sicortex :: "data_model \<Rightarrow> nat option" where
  "cas_ptr_width_sicortex dm =
     (if sizeof_void_p dm = 8 then Some 8 else if sizeof_void_p dm = 4 then Some 4 else None)"

definition swap_ptr_width_sicortex :: "data_model \<Rightarrow> nat option" where
  "swap_ptr_width_sicortex dm =
     (if sizeof_void_p dm = 8 then Some 8 else if sizeof_void_p dm = 4 then Some 4 else None)"

fun width_sicortex :: "data_model \<Rightarrow> rmw_op \<Rightarrow> nat option" where
  "width_sicortex dm Cas_Ptr_Op = cas_ptr_width_sicortex dm"
| "width_sicortex dm Swap_Ptr_Op = swap_ptr_width_sicortex dm"
| "width_sicortex dm _ = map_option (\<lambda>_. 4) (cas_ptr_width_sicortex dm)"

text \<open>Windows: the intrinsics on \<open>long\<close>, and for 8-byte pointers the ones on \<open>__int64\<close>.\<close>

definition cas_ptr_width_nt :: "data_model \<Rightarrow> nat option" where
  "cas_ptr_width_nt dm =
     (if sizeof_void_p dm = 4 then Some (sizeof_long dm) else if sizeof_void_p dm = 8 then Some 8 else None)"

definition swap_ptr_width_nt :: "data_model \<Rightarrow> nat option" where
  "swap_ptr_width_nt dm =
     (if sizeof_void_p dm = 4 then Some (sizeof_long dm) else if sizeof_void_p dm = 8 then Some 8 else None)"

fun width_nt :: "data_model \<Rightarrow> rmw_op \<Rightarrow> nat option" where
  "width_nt dm Cas_Ptr_Op = cas_ptr_width_nt dm"
| "width_nt dm Swap_Ptr_Op = swap_ptr_width_nt dm"
| "width_nt dm _ = map_option (\<lambda>_. sizeof_long dm) (cas_ptr_width_nt dm)"

text \<open>
  Solaris: the functions on \<open>uint_t\<close>, \<open>atomic_add_int\<close>, \<open>atomic_inc_uint\<close>, \<open>atomic_dec_uint\<close>,
  \<open>atomic_cas_uint\<close> and \<open>atomic_swap_uint\<close>, have the width of an \<open>int\<close> whatever the field is;
  \<open>atomic_cas_ptr\<close> and \<open>atomic_swap_ptr\<close> take a \<open>void *\<close> and have that of a pointer.
\<close>

fun width_sun :: "data_model \<Rightarrow> rmw_op \<Rightarrow> nat option" where
  "width_sun dm Cas_Ptr_Op = Some (sizeof_void_p dm)"
| "width_sun dm Swap_Ptr_Op = Some (sizeof_void_p dm)"
| "width_sun dm _ = Some (sizeof_int dm)"

text \<open>
  The generic functions of C11, the built-ins of GCC and the plain accesses of the unsafe and of the
  lock-based port have the width of the type of the variable.
\<close>

definition width_of_type :: "port \<Rightarrow> data_model \<Rightarrow> rmw_op \<Rightarrow> nat option" where
  "width_of_type port dm op = Some (type_size dm (v_type (op_field port op)))"

fun access_width :: "port \<Rightarrow> data_model \<Rightarrow> rmw_op \<Rightarrow> nat option" where
  "access_width Gcc_X86 = width_x86"
| "access_width Gcc_X86_P3 = width_x86"
| "access_width Gcc_Ppc = (\<lambda>dm. width_llsc (OPA_SS_ppc dm))"
| "access_width Gcc_Arm = width_arm"
| "access_width Gcc_IA64 = width_ia64"
| "access_width Gcc_Sicortex = width_sicortex"
| "access_width NT = width_nt"
| "access_width Sun = width_sun"
| "access_width port = width_of_type port"

lemmas width_defs = OPA_SS_x86_def OPA_SS_ppc_def OPA_SS_arm_def width_llsc_def width_arm_def cas_int_width_ia64_def
  cas_ptr_width_ia64_def swap_ptr_width_ia64_def swap_int_width_ia64_def cas_ptr_width_sicortex_def
  swap_ptr_width_sicortex_def cas_ptr_width_nt_def swap_ptr_width_nt_def width_of_type_def
  on_ptr_def op_field_def

text \<open>
  What the interface asks for: the operations on \<open>OPA_int_t\<close> are on values of type \<open>int\<close>, those on
  \<open>OPA_ptr_t\<close> on values of type \<open>void *\<close>. An access fits when it has the width of such a value, the
  variable has room for exactly one, and the variable is aligned to it.
\<close>

definition value_size :: "data_model \<Rightarrow> rmw_op \<Rightarrow> nat" where
  "value_size dm op = (if on_ptr op then sizeof_void_p dm else sizeof_int dm)"

definition access_fits :: "port \<Rightarrow> data_model \<Rightarrow> rmw_op \<Rightarrow> bool" where
  "access_fits port dm op \<longleftrightarrow>
     access_width port dm op = Some (value_size dm op) \<and>
     type_size dm (v_type (op_field port op)) = value_size dm op \<and>
     value_size dm op dvd field_align dm (op_field port op)"

text \<open>The ports for the BG/P and for ARM ask for an 8-byte boundary, the others for none.\<close>

definition asked_align :: "port \<Rightarrow> nat" where
  "asked_align port = (if port = Gcc_Ppc \<or> port = Gcc_Arm then 8 else 1)"

section \<open>Facts\<close>

text \<open>With 8-byte pointers the relative addresses of the queue take 8 bytes on every port.\<close>

lemma relative_address_size:
  "sizeof_void_p dm = 8 \<Longrightarrow> sizeof_field_struct dm (ptr_t (types_of port)) = sizeof_OPA_Shm_rel_addr_t"
  by (cases port) (simp_all add: types_defs sizeof_field_struct_def struct_size_def field_align_def
      round_up_def sizeof_OPA_Shm_rel_addr_t_def)

text \<open>Loads and stores that the compiler may drop or merge are those of the unsafe port.\<close>

lemma droppable_accesses:
  "\<not> v_volatile (int_t (types_of port)) \<and> int_t_initializer (types_of port) \<noteq> Atomic_Var_Init \<longleftrightarrow>
     port = Unsafe"
  by (cases port) (simp_all add: types_defs)

text \<open>
  C39. The accesses fit the variables. In every data model in use, each read-modify-write of each port
  accesses as many bytes as the \<open>int\<close> or the pointer it is about has, these are the bytes of the
  variable, and no header stops with an error; except that on Itanium the swap of an \<open>int\<close> is 8 bytes
  wide, and so are the operations on pointers where these have 4 bytes, that on ARM there are none on
  8-byte pointers, and that the \<open>long\<close> of the Windows port is no \<open>int\<close> where \<open>long\<close> has 8 bytes, as it
  has not on Windows. But for this last case the variables of a type are as far apart in an array as
  they are aligned: by the size of their value, and by 8 bytes at least on PowerPC and ARM.
\<close>

theorem accesses_fit:
  assumes "dm \<in> {ilp32, lp64, llp64}"
  shows "(access_fits port dm op \<longleftrightarrow>
      \<not> (port = Gcc_IA64 \<and> (op = Swap_Int_Op \<or> on_ptr op \<and> dm = ilp32) \<or>
         port = Gcc_Arm \<and> on_ptr op \<and> dm \<noteq> ilp32 \<or>
         port = NT \<and> \<not> on_ptr op \<and> dm = lp64)) \<and>
    (port = NT \<and> \<not> on_ptr op \<and> dm = lp64 \<or>
      field_align dm (op_field port op) = max (asked_align port) (value_size dm op) \<and>
      sizeof_field_struct dm (op_field port op) = max (asked_align port) (value_size dm op))"
  using assms
  by (elim insertE emptyE; cases port; cases op)
    (simp_all add: access_fits_def value_size_def asked_align_def width_defs types_defs field_align_def
      sizeof_field_struct_def struct_size_def round_up_def ilp32_def lp64_def llp64_def)

theorem accesses_fit_witness:
  "access_fits Gcc_Ppc lp64 Swap_Ptr_Op \<and> \<not> access_fits Gcc_IA64 lp64 Swap_Int_Op \<and>
   \<not> access_fits Gcc_IA64 ilp32 Cas_Ptr_Op \<and> \<not> access_fits Gcc_Arm lp64 Cas_Ptr_Op \<and>
   sizeof_field_struct lp64 (int_t types_ppc) = 8"
  using accesses_fit [of lp64 Gcc_Ppc Swap_Ptr_Op] accesses_fit [of lp64 Gcc_IA64 Swap_Int_Op]
    accesses_fit [of ilp32 Gcc_IA64 Cas_Ptr_Op] accesses_fit [of lp64 Gcc_Arm Cas_Ptr_Op]
    accesses_fit [of lp64 Gcc_Ppc Add_Op]
  by (simp add: on_ptr_def op_field_def asked_align_def value_size_def ilp32_def lp64_def)

end
