(* ===== verification/OPA_Lock_Threads.thy ===== *)
theory OPA_Lock_Threads
  imports OPA_Unsafe OPA_By_Lock
begin

text \<open>
  The lock-based primitives of \<open>src/primitives/opa_by_lock.h\<close> run by any number of threads. Every
  access to an \<open>OPA_int_t\<close> or \<open>OPA_ptr_t\<close> inside a critical section is a step of its own, so the
  primitives are far from atomic as code; the theorem is that the lock makes them so. The same
  bodies without the lock are those of \<open>opa_unsafe.h\<close>, and there an update can be lost.
\<close>

section \<open>Bodies as programs of single accesses\<close>

datatype 'a prog =
    Done 'a
  | Abort c_fault
  | Rd_Int addr "c_int \<Rightarrow> 'a prog"
  | Wr_Int addr c_int "'a prog"
  | Rd_Ptr addr "addr \<Rightarrow> 'a prog"
  | Wr_Ptr addr addr "'a prog"

fun prog_step :: "'a prog \<Rightarrow> mem \<Rightarrow> ('a prog \<times> mem) option" where
  "prog_step (Done x) m = None"
| "prog_step (Abort f) m = None"
| "prog_step (Rd_Int p k) m = Some (k (int_at m p), m)"
| "prog_step (Wr_Int p v c) m = Some (c, st_int p v m)"
| "prog_step (Rd_Ptr p k) m = Some (k (ptr_at m p), m)"
| "prog_step (Wr_Ptr p v c) m = Some (c, st_ptr p v m)"

text \<open>The same program run without interruption.\<close>

primrec run_prog :: "'a prog \<Rightarrow> mem \<Rightarrow> (mem, 'a) outcome" where
  "run_prog (Done x) m = ret x m"
| "run_prog (Abort f) m = fault f"
| "run_prog (Rd_Int p k) m = run_prog (k (int_at m p)) m"
| "run_prog (Wr_Int p v c) m = run_prog c (st_int p v m)"
| "run_prog (Rd_Ptr p k) m = run_prog (k (ptr_at m p)) m"
| "run_prog (Wr_Ptr p v c) m = run_prog c (st_ptr p v m)"

lemma run_prog_step: "prog_step c m = Some (c', m') \<Longrightarrow> run_prog c m = run_prog c' m'"
  by (cases c) auto

text \<open>The calls of the interface, with their arguments, and their results.\<close>

datatype prim =
    Load_Int addr
  | Store_Int addr c_int
  | Load_Ptr addr
  | Store_Ptr addr addr
  | Add_Int addr c_int
  | Cas_Ptr addr addr addr
  | Cas_Int addr c_int c_int
  | Decr_And_Test_Int addr
  | Decr_Int addr
  | Fetch_And_Add_Int addr c_int
  | Fetch_And_Decr_Int addr
  | Fetch_And_Incr_Int addr
  | Incr_Int addr
  | Swap_Ptr addr addr
  | Swap_Int addr c_int

datatype val =
    V_Unit
  | V_Int c_int
  | V_Ptr addr

text \<open>\<open>ptr->v += val\<close>: a read, the sum, a write.\<close>

definition add_in_place :: "addr \<Rightarrow> c_int \<Rightarrow> (c_int \<Rightarrow> 'a prog) \<Rightarrow> 'a prog" where
  "add_in_place ptr v k =
     Rd_Int ptr (\<lambda>x. case c_add x v of Inl f \<Rightarrow> Abort f | Inr y \<Rightarrow> Wr_Int ptr y (k y))"

text \<open>The statements between \<open>OPA_IPC_SINGLE_CS_ENTER\<close> and \<open>OPA_IPC_SINGLE_CS_EXIT\<close>.\<close>

fun critical :: "prim \<Rightarrow> val prog" where
  "critical (Load_Int ptr) = Rd_Int ptr (\<lambda>retval. Done (V_Int retval))"
| "critical (Store_Int ptr v) = Wr_Int ptr v (Done V_Unit)"
| "critical (Load_Ptr ptr) = Rd_Ptr ptr (\<lambda>retval. Done (V_Ptr retval))"
| "critical (Store_Ptr ptr v) = Wr_Ptr ptr v (Done V_Unit)"
| "critical (Add_Int ptr v) = add_in_place ptr v (\<lambda>_. Done V_Unit)"
| "critical (Cas_Ptr ptr oldv newv) =
     Rd_Ptr ptr (\<lambda>prev. if prev = oldv then Wr_Ptr ptr newv (Done (V_Ptr prev)) else Done (V_Ptr prev))"
| "critical (Cas_Int ptr oldv newv) =
     Rd_Int ptr (\<lambda>prev. if prev = oldv then Wr_Int ptr newv (Done (V_Int prev)) else Done (V_Int prev))"
| "critical (Decr_And_Test_Int ptr) =
     add_in_place ptr (- 1) (\<lambda>new_val. Done (V_Int (c_bool (0 = new_val))))"
| "critical (Decr_Int ptr) = add_in_place ptr (- 1) (\<lambda>_. Done V_Unit)"
| "critical (Fetch_And_Add_Int ptr v) =
     Rd_Int ptr (\<lambda>prev. add_in_place ptr v (\<lambda>_. Done (V_Int prev)))"
| "critical (Fetch_And_Decr_Int ptr) =
     Rd_Int ptr (\<lambda>prev. add_in_place ptr (- 1) (\<lambda>_. Done (V_Int prev)))"
| "critical (Fetch_And_Incr_Int ptr) =
     Rd_Int ptr (\<lambda>prev. add_in_place ptr 1 (\<lambda>_. Done (V_Int prev)))"
| "critical (Incr_Int ptr) = add_in_place ptr 1 (\<lambda>_. Done V_Unit)"
| "critical (Swap_Ptr ptr v) = Rd_Ptr ptr (\<lambda>prev. Wr_Ptr ptr v (Done (V_Ptr prev)))"
| "critical (Swap_Int ptr v) = Rd_Int ptr (\<lambda>prev. Wr_Int ptr v (Done (V_Int prev)))"

text \<open>The function a call runs when its thread is alone, on the unsafe and on the lock-based port.\<close>

definition map_val :: "('a \<Rightarrow> val) \<Rightarrow> ('s, 'a) outcome \<Rightarrow> ('s, val) outcome" where
  "map_val h out = bind_outcome out (\<lambda>x s. ret (h x) s)"

fun unsafe_prim :: "prim \<Rightarrow> mem \<Rightarrow> (mem, val) outcome" where
  "unsafe_prim (Load_Int p) m = map_val V_Int (OPA_load_int_unsafe p m)"
| "unsafe_prim (Store_Int p v) m = map_val (\<lambda>_. V_Unit) (OPA_store_int_unsafe p v m)"
| "unsafe_prim (Load_Ptr p) m = map_val V_Ptr (OPA_load_ptr_unsafe p m)"
| "unsafe_prim (Store_Ptr p v) m = map_val (\<lambda>_. V_Unit) (OPA_store_ptr_unsafe p v m)"
| "unsafe_prim (Add_Int p v) m = map_val (\<lambda>_. V_Unit) (OPA_add_int_unsafe p v m)"
| "unsafe_prim (Cas_Ptr p a b) m = map_val V_Ptr (OPA_cas_ptr_unsafe p a b m)"
| "unsafe_prim (Cas_Int p a b) m = map_val V_Int (OPA_cas_int_unsafe p a b m)"
| "unsafe_prim (Decr_And_Test_Int p) m = map_val V_Int (OPA_decr_and_test_int_unsafe p m)"
| "unsafe_prim (Decr_Int p) m = map_val (\<lambda>_. V_Unit) (OPA_decr_int_unsafe p m)"
| "unsafe_prim (Fetch_And_Add_Int p v) m = map_val V_Int (OPA_fetch_and_add_int_unsafe p v m)"
| "unsafe_prim (Fetch_And_Decr_Int p) m = map_val V_Int (OPA_fetch_and_decr_int_unsafe p m)"
| "unsafe_prim (Fetch_And_Incr_Int p) m = map_val V_Int (OPA_fetch_and_incr_int_unsafe p m)"
| "unsafe_prim (Incr_Int p) m = map_val (\<lambda>_. V_Unit) (OPA_incr_int_unsafe p m)"
| "unsafe_prim (Swap_Ptr p v) m = map_val V_Ptr (OPA_swap_ptr_unsafe p v m)"
| "unsafe_prim (Swap_Int p v) m = map_val V_Int (OPA_swap_int_unsafe p v m)"

fun by_lock_prim :: "prim \<Rightarrow> lock_mem \<Rightarrow> (lock_mem, val) outcome" where
  "by_lock_prim (Load_Int p) m = map_val V_Int (OPA_load_int_by_lock p m)"
| "by_lock_prim (Store_Int p v) m = map_val (\<lambda>_. V_Unit) (OPA_store_int_by_lock p v m)"
| "by_lock_prim (Load_Ptr p) m = map_val V_Ptr (OPA_load_ptr_by_lock p m)"
| "by_lock_prim (Store_Ptr p v) m = map_val (\<lambda>_. V_Unit) (OPA_store_ptr_by_lock p v m)"
| "by_lock_prim (Add_Int p v) m = map_val (\<lambda>_. V_Unit) (OPA_add_int_by_lock p v m)"
| "by_lock_prim (Cas_Ptr p a b) m = map_val V_Ptr (OPA_cas_ptr_by_lock p a b m)"
| "by_lock_prim (Cas_Int p a b) m = map_val V_Int (OPA_cas_int_by_lock p a b m)"
| "by_lock_prim (Decr_And_Test_Int p) m = map_val V_Int (OPA_decr_and_test_int_by_lock p m)"
| "by_lock_prim (Decr_Int p) m = map_val (\<lambda>_. V_Unit) (OPA_decr_int_by_lock p m)"
| "by_lock_prim (Fetch_And_Add_Int p v) m = map_val V_Int (OPA_fetch_and_add_int_by_lock p v m)"
| "by_lock_prim (Fetch_And_Decr_Int p) m = map_val V_Int (OPA_fetch_and_decr_int_by_lock p m)"
| "by_lock_prim (Fetch_And_Incr_Int p) m = map_val V_Int (OPA_fetch_and_incr_int_by_lock p m)"
| "by_lock_prim (Incr_Int p) m = map_val (\<lambda>_. V_Unit) (OPA_incr_int_by_lock p m)"
| "by_lock_prim (Swap_Ptr p v) m = map_val V_Ptr (OPA_swap_ptr_by_lock p v m)"
| "by_lock_prim (Swap_Int p v) m = map_val V_Int (OPA_swap_int_by_lock p v m)"

lemma map_val_simps [simp]: "map_val h (ret x s) = ret (h x) s" "map_val h (fault f) = fault f"
  by (simp_all add: map_val_def)

lemma run_critical: "run_prog (critical op) m = unsafe_prim op m"
  by (cases op) (simp_all add: port_defs add_in_place_def Let_def split: sum.split)

text \<open>Alone, a lock-based primitive does what its body does between a lock and an unlock.\<close>

lemma by_lock_prim_ret:
  "lock_ready s \<Longrightarrow> unsafe_prim op (mem.truncate s) = ret v m \<Longrightarrow>
     \<exists>s'. by_lock_prim op s = ret v s' \<and> lock_ready s' \<and> mem.truncate s' = m"
  by (cases op) (auto simp: port_defs by_lock_run split: if_splits)

lemma by_lock_prim_fault:
  "lock_ready s \<Longrightarrow> unsafe_prim op (mem.truncate s) = fault f \<Longrightarrow> by_lock_prim op s = fault f"
  by (cases op) (auto simp: port_defs by_lock_run split: if_splits)

lemma c_add_Inl: "c_add a b = Inl f \<Longrightarrow> f = Signed_Overflow"
  by (auto simp: c_add_def split: if_splits)

lemma unsafe_prim_outcome:
  "(\<exists>v m'. unsafe_prim op m = ret v m') \<or> unsafe_prim op m = fault Signed_Overflow"
  by (cases op) (auto simp: port_defs Let_def split: sum.splits dest: c_add_Inl)

section \<open>Threads and the lock\<close>

text \<open>
  A thread outside, waiting in \<open>pthread_mutex_lock\<close> for its call, or inside the critical section
  with the rest of its body. The mutex is known by its owner.
\<close>

datatype thread =
    Outside
  | Waiting prim
  | Inside prim "val prog"

record lmach =
  l_mem :: mem
  l_owner :: "nat option"
  l_thr :: "nat \<Rightarrow> thread"

datatype llabel =
    L_Tau
  | L_Done nat prim val

definition l_call :: "nat \<Rightarrow> prim \<Rightarrow> lmach \<Rightarrow> lmach option" where
  "l_call t op s =
     (case l_thr s t of Outside \<Rightarrow> Some (s\<lparr>l_thr := (l_thr s)(t := Waiting op)\<rparr>) | _ \<Rightarrow> None)"

definition l_go :: "nat \<Rightarrow> lmach \<Rightarrow> (llabel \<times> lmach) option" where
  "l_go t s =
     (case l_thr s t of
        Outside \<Rightarrow> None
      | Waiting op \<Rightarrow>
          if l_owner s = None
          then Some (L_Tau, s\<lparr>l_owner := Some t, l_thr := (l_thr s)(t := Inside op (critical op))\<rparr>)
          else None
      | Inside op (Done v) \<Rightarrow>
          Some (L_Done t op v, s\<lparr>l_owner := None, l_thr := (l_thr s)(t := Outside)\<rparr>)
      | Inside op c \<Rightarrow>
          map_option (\<lambda>(c', m). (L_Tau, s\<lparr>l_mem := m, l_thr := (l_thr s)(t := Inside op c')\<rparr>))
            (prog_step c (l_mem s)))"

inductive l_step :: "lmach \<Rightarrow> llabel \<Rightarrow> lmach \<Rightarrow> bool" where
  L_Call: "l_call t op s = Some s' \<Longrightarrow> l_step s L_Tau s'"
| L_Go: "l_go t s = Some (l, s') \<Longrightarrow> l_step s l s'"

inductive l_run :: "lmach \<Rightarrow> llabel list \<Rightarrow> lmach \<Rightarrow> bool" where
  L_Nil: "l_run s [] s"
| L_Snoc: "l_run s ls t \<Longrightarrow> l_step t l u \<Longrightarrow> l_run s (ls @ [l]) u"

definition l_init :: "mem \<Rightarrow> lmach" where
  "l_init m = \<lparr>l_mem = m, l_owner = None, l_thr = (\<lambda>_. Outside)\<rparr>"

text \<open>The calls that returned, in order, with their results; and running calls one after another.\<close>

fun done_of :: "llabel \<Rightarrow> (prim \<times> val) list" where
  "done_of L_Tau = []"
| "done_of (L_Done t op v) = [(op, v)]"

definition completed :: "llabel list \<Rightarrow> (prim \<times> val) list" where
  "completed ls = concat (map done_of ls)"

fun sequentially :: "mem \<Rightarrow> (prim \<times> val) list \<Rightarrow> mem \<Rightarrow> bool" where
  "sequentially m [] m' \<longleftrightarrow> m' = m"
| "sequentially m ((op, v) # ops) m' \<longleftrightarrow>
     (case unsafe_prim op m of
        Some (Inr (v', m1)) \<Rightarrow> v' = v \<and> sequentially m1 ops m' | _ \<Rightarrow> False)"

lemma sequentially_Cons:
  "sequentially m ((op, v) # ops) m' \<longleftrightarrow> (\<exists>m1. unsafe_prim op m = ret v m1 \<and> sequentially m1 ops m')"
  by (auto simp: ret_def split: option.splits sum.splits)

declare sequentially.simps(2) [simp del]

lemma sequentially_snoc:
  "sequentially m (ops @ [(op, v)]) m' \<longleftrightarrow>
     (\<exists>m1. sequentially m ops m1 \<and> unsafe_prim op m1 = ret v m')"
  by (induction ops arbitrary: m) (auto simp: sequentially_Cons, blast+)

section \<open>The lock makes the bodies atomic\<close>

text \<open>
  The invariant, with the memory \<open>m\<close> as the last release left it: the owner is the one thread
  inside, and what is left of its body leads from the present memory to where its whole body leads
  from \<open>m\<close>.
\<close>

definition l_inv :: "lmach \<Rightarrow> mem \<Rightarrow> bool" where
  "l_inv s m \<longleftrightarrow>
     (\<forall>t. l_owner s = Some t \<longleftrightarrow> (\<exists>op c. l_thr s t = Inside op c)) \<and>
     (l_owner s = None \<longrightarrow> l_mem s = m) \<and>
     (\<forall>t op c. l_thr s t = Inside op c \<longrightarrow> run_prog c (l_mem s) = unsafe_prim op m)"

lemma l_inv_init: "l_inv (l_init m) m"
  by (simp add: l_inv_def l_init_def)

lemma l_inv_owner: "l_inv s m \<Longrightarrow> l_thr s t = Inside op c \<Longrightarrow> l_owner s = Some t"
  unfolding l_inv_def by blast

lemma l_inv_body: "l_inv s m \<Longrightarrow> l_thr s t = Inside op c \<Longrightarrow> run_prog c (l_mem s) = unsafe_prim op m"
  unfolding l_inv_def by blast

lemma l_inv_unique: "l_inv s m \<Longrightarrow> l_thr s t = Inside op c \<Longrightarrow> l_thr s u = Inside op' c' \<Longrightarrow> u = t"
  using l_inv_owner [of s m t op c] l_inv_owner [of s m u op' c'] by simp

lemma l_inv_step:
  assumes "l_inv s m" and "l_step s l s'"
  shows "case l of L_Tau \<Rightarrow> l_inv s' m
    | L_Done t op v \<Rightarrow> \<exists>m'. unsafe_prim op m = ret v m' \<and> l_inv s' m'"
  using assms(2)
proof cases
  case (L_Call t op)
  with assms(1) show ?thesis
    by (auto simp: l_call_def l_inv_def split: thread.splits if_splits)
next
  case (L_Go t)
  show ?thesis
  proof (cases "l_thr s t")
    case Outside
    with L_Go show ?thesis by (simp add: l_go_def)
  next
    case (Waiting op)
    with L_Go assms(1) show ?thesis
      by (auto simp: l_go_def l_inv_def run_critical split: if_splits)
  next
    case (Inside op c)
    note own = l_inv_owner [OF assms(1) Inside] l_inv_unique [OF assms(1) Inside]
      and c = l_inv_body [OF assms(1) Inside]
    show ?thesis
    proof (cases "\<exists>v. c = Done v")
      case True
      then obtain v where v: "c = Done v" by blast
      with L_Go Inside have l: "l = L_Done t op v"
        and s': "s' = s\<lparr>l_owner := None, l_thr := (l_thr s)(t := Outside)\<rparr>"
        by (auto simp: l_go_def)
      have "l_thr s' u \<noteq> Inside op' c'" for u op' c'
        using own(2) [of u op' c'] by (cases "u = t") (auto simp: s')
      then have "l_inv s' (l_mem s)" by (simp add: l_inv_def s')
      with c v show ?thesis by (intro exI [of _ "l_mem s"] conjI | simp add: l)+
    next
      case False
      with L_Go Inside obtain c' m' where step: "prog_step c (l_mem s) = Some (c', m')" and l: "l = L_Tau"
        and s': "s' = s\<lparr>l_mem := m', l_thr := (l_thr s)(t := Inside op c')\<rparr>"
        by (cases c) (auto simp: l_go_def)
      have inside: "l_thr s' u = Inside op' d \<Longrightarrow> u = t \<and> op' = op \<and> d = c'" for u op' d
        using own(2) [of u op' d] by (cases "u = t") (auto simp: s')
      have mine: "l_thr s' t = Inside op c'" by (simp add: s')
      have "(l_owner s' = Some u) = (\<exists>op c. l_thr s' u = Inside op c)" for u
      proof
        assume "l_owner s' = Some u"
        with own(1) have "u = t" by (simp add: s')
        with mine show "\<exists>op c. l_thr s' u = Inside op c" by blast
      next
        assume "\<exists>op c. l_thr s' u = Inside op c"
        with inside have "u = t" by blast
        with own(1) show "l_owner s' = Some u" by (simp add: s')
      qed
      moreover have rest: "run_prog c' m' = unsafe_prim op m"
        using c unfolding run_prog_step [OF step] .
      then have "run_prog d (l_mem s') = unsafe_prim op' m" if "l_thr s' u = Inside op' d" for u op' d
        using inside [OF that] by (simp add: s')
      ultimately have "l_inv s' m" using own(1) by (simp add: l_inv_def s')
      then show ?thesis by (simp add: l)
    qed
  qed
qed

lemma l_run_sequential:
  "l_run s ls t \<Longrightarrow> l_inv s m \<Longrightarrow> \<exists>m'. sequentially m (completed ls) m' \<and> l_inv t m'"
proof (induction rule: l_run.induct)
  case (L_Nil s)
  then show ?case by (auto simp: completed_def)
next
  case (L_Snoc s ls t l u)
  then obtain m' where "sequentially m (completed ls) m'" "l_inv t m'" by blast
  with l_inv_step [OF this(2) L_Snoc.hyps(2)] show ?case
    by (cases l) (auto simp: completed_def sequentially_snoc)
qed

text \<open>A schedule, to be evaluated: who is to call, and whose turn it is.\<close>

datatype l_action =
    Start nat prim
  | Turn nat

fun l_schedule :: "l_action list \<Rightarrow> lmach \<Rightarrow> (llabel list \<times> lmach) option" where
  "l_schedule [] s = Some ([], s)"
| "l_schedule (a # as) s =
     (case (case a of Start t op \<Rightarrow> map_option (\<lambda>s'. (L_Tau, s')) (l_call t op s) | Turn t \<Rightarrow> l_go t s) of
        None \<Rightarrow> None
      | Some (l, s') \<Rightarrow> map_option (\<lambda>(ls, t). (l # ls, t)) (l_schedule as s'))"

lemma l_run_Cons: "l_step s l s' \<Longrightarrow> l_run s' ls t \<Longrightarrow> l_run s (l # ls) t"
proof (rotate_tac, induction rule: l_run.induct)
  case (L_Nil s')
  then show ?case using L_Snoc [OF l_run.L_Nil, of s l s'] by simp
next
  case (L_Snoc s' ls t k u)
  then show ?case using l_run.L_Snoc [of s "l # ls" t k u] by simp
qed

lemma l_schedule_run: "l_schedule as s = Some (ls, t) \<Longrightarrow> l_run s ls t"
  by (induction as arbitrary: s ls)
    (auto split: option.splits l_action.splits intro: L_Nil l_run_Cons L_Call L_Go)

definition l_labels :: "l_action list \<Rightarrow> lmach \<Rightarrow> llabel list" where
  "l_labels as s = fst (the (l_schedule as s))"

definition l_end :: "l_action list \<Rightarrow> lmach \<Rightarrow> lmach" where
  "l_end as s = snd (the (l_schedule as s))"

lemma l_schedule_of_run:
  "\<not> Option.is_none (l_schedule as s) \<Longrightarrow> l_run s (l_labels as s) (l_end as s)"
  by (auto simp: Option.is_none_def l_labels_def l_end_def intro: l_schedule_run)

text \<open>Tickets: the results of fetch-and-increments that run one after another.\<close>

lemma sequential_tickets:
  "sequentially m ops m' \<Longrightarrow> \<forall>(op, v) \<in> set ops. op = Fetch_And_Incr_Int p \<Longrightarrow>
     map snd ops = map (\<lambda>i. V_Int (int_at m p + of_nat i)) [0..<length ops]"
proof (induction ops arbitrary: m)
  case (Cons a ops)
  obtain op v where a: "a = (op, v)" by (cases a)
  with Cons.prems(2) have op: "op = Fetch_And_Incr_Int p" by simp
  from Cons.prems(1) obtain m1 where m1: "unsafe_prim op m = ret v m1" and seq: "sequentially m1 ops m'"
    by (auto simp: a sequentially_Cons)
  from m1 have v: "v = V_Int (int_at m p)" and p: "int_at m1 p = int_at m p + 1"
    by (auto simp: op OPA_fetch_and_incr_int_unsafe_def Let_def c_add_def split: if_splits)
  from Cons.IH [OF seq] Cons.prems(2)
  have "map snd ops = map (\<lambda>i. V_Int (int_at m p + of_nat (Suc i))) [0..<length ops]"
    by (simp add: p add.assoc)
  then show ?case
    by (simp add: a v upt_conv_Cons map_Suc_upt [symmetric] del: upt_Suc map_Suc_upt)
qed simp

section \<open>Threads without the lock\<close>

text \<open>The unsafe primitives: the same bodies, entered without a lock.\<close>

definition u_go :: "nat \<Rightarrow> lmach \<Rightarrow> (llabel \<times> lmach) option" where
  "u_go t s =
     (case l_thr s t of
        Outside \<Rightarrow> None
      | Waiting op \<Rightarrow> Some (L_Tau, s\<lparr>l_thr := (l_thr s)(t := Inside op (critical op))\<rparr>)
      | Inside op (Done v) \<Rightarrow> Some (L_Done t op v, s\<lparr>l_thr := (l_thr s)(t := Outside)\<rparr>)
      | Inside op c \<Rightarrow>
          map_option (\<lambda>(c', m). (L_Tau, s\<lparr>l_mem := m, l_thr := (l_thr s)(t := Inside op c')\<rparr>))
            (prog_step c (l_mem s)))"

fun u_schedule :: "l_action list \<Rightarrow> lmach \<Rightarrow> (llabel list \<times> lmach) option" where
  "u_schedule [] s = Some ([], s)"
| "u_schedule (a # as) s =
     (case (case a of Start t op \<Rightarrow> map_option (\<lambda>s'. (L_Tau, s')) (l_call t op s) | Turn t \<Rightarrow> u_go t s) of
        None \<Rightarrow> None
      | Some (l, s') \<Rightarrow> map_option (\<lambda>(ls, t). (l # ls, t)) (u_schedule as s'))"

section \<open>Properties\<close>

text \<open>Two threads that take a ticket each, their accesses interleaved.\<close>

definition two_tickets :: "l_action list" where
  "two_tickets = [Start 0 (Fetch_And_Incr_Int 64), Start 1 (Fetch_And_Incr_Int 64), Turn 1, Turn 1,
     Turn 1, Turn 1, Turn 1, Turn 0, Turn 0, Turn 0, Turn 0, Turn 0]"

lemma two_tickets_run:
  "l_run (l_init zero_mem) (l_labels two_tickets (l_init zero_mem)) (l_end two_tickets (l_init zero_mem))"
  by (rule l_schedule_of_run) code_simp

lemma l_run_completed:
  "l_run (l_init m) ls t \<Longrightarrow> \<exists>m'. sequentially m (completed ls) m'"
  using l_run_sequential [OF _ l_inv_init] by blast

text \<open>
  C26. The lock makes the primitives atomic. In every run of any number of threads, with the
  accesses inside the critical sections interleaved in any way the lock allows, the calls that
  returned have the results they have when run one after another in the order in which they
  returned, and whenever the lock is free the memory is the one this sequence leaves.
\<close>

theorem lock_based_primitives_atomic:
  assumes "l_run (l_init m) ls t"
  shows "\<exists>m'. sequentially m (completed ls) m' \<and> (l_owner t = None \<longrightarrow> l_mem t = m')"
  using l_run_sequential [OF assms l_inv_init] by (auto simp: l_inv_def)

theorem lock_based_primitives_atomic_witness:
  "\<exists>m'. sequentially zero_mem
     [(Fetch_And_Incr_Int 64, V_Int 0), (Fetch_And_Incr_Int 64, V_Int 1)] m'"
proof -
  have "completed (l_labels two_tickets (l_init zero_mem)) =
    [(Fetch_And_Incr_Int 64, V_Int 0), (Fetch_And_Incr_Int 64, V_Int 1)]"
    by code_simp
  with lock_based_primitives_atomic [OF two_tickets_run] show ?thesis by auto
qed

text \<open>
  Mutual exclusion. In every reachable state at most one thread is inside a critical section,
  and it owns the lock.
\<close>

lemma critical_sections_exclude:
  assumes "l_run (l_init m) ls s" and "l_thr s t = Inside op c" and "l_thr s u = Inside op' c'"
  shows "t = u \<and> l_owner s = Some t"
proof -
  obtain m' where inv: "l_inv s m'" using l_run_sequential [OF assms(1) l_inv_init] by blast
  show ?thesis using l_inv_unique [OF inv assms(3,2)] l_inv_owner [OF inv assms(2)] by simp
qed

theorem critical_sections_exclude_witness:
  "l_owner (l_end [Start 5 (Incr_Int 64), Turn 5] (l_init zero_mem)) = Some 5"
proof -
  let ?as = "[Start 5 (Incr_Int 64), Turn 5]"
  have "l_run (l_init zero_mem) (l_labels ?as (l_init zero_mem)) (l_end ?as (l_init zero_mem))"
    by (rule l_schedule_of_run) code_simp
  moreover have "l_thr (l_end ?as (l_init zero_mem)) 5 = Inside (Incr_Int 64) (critical (Incr_Int 64))"
    by (simp add: l_end_def l_init_def l_call_def l_go_def)
  ultimately show ?thesis using critical_sections_exclude by blast
qed

text \<open>
  Tickets. When all calls are fetch-and-increments of one variable, the results are the
  consecutive values from its initial one on, in the order in which the calls return, so no two
  threads get the same ticket.
\<close>

lemma lock_based_tickets:
  assumes "l_run (l_init m) ls t"
    and "\<forall>(op, v) \<in> set (completed ls). op = Fetch_And_Incr_Int p"
  shows "map snd (completed ls) =
    map (\<lambda>i. V_Int (int_at m p + of_nat i)) [0..<length (completed ls)]"
  using l_run_completed [OF assms(1)] sequential_tickets [OF _ assms(2)] by blast

theorem lock_based_tickets_witness:
  "map snd (completed (l_labels two_tickets (l_init zero_mem))) = [V_Int 0, V_Int 1]"
proof -
  let ?done = "completed (l_labels two_tickets (l_init zero_mem))"
  have len: "length ?done = 2" by code_simp
  have "\<forall>(op, v) \<in> set ?done. op = Fetch_And_Incr_Int 64" by code_simp
  from lock_based_tickets [OF two_tickets_run this] show ?thesis
    unfolding len by (simp add: zero_mem_def upt_conv_Cons numeral_2_eq_2)
qed

text \<open>
  Without the lock an update can be lost. Two threads increment a variable that holds 0 with
  the unsafe primitive; both calls return and the variable holds 1, which no order of the two
  calls gives.
\<close>

lemma unsafe_increment_lost:
  "\<exists>as ls s. u_schedule as (l_init zero_mem) = Some (ls, s) \<and>
     completed ls = [(Incr_Int 64, V_Unit), (Incr_Int 64, V_Unit)] \<and>
     int_at (l_mem s) 64 = 1 \<and> \<not> sequentially zero_mem (completed ls) (l_mem s)"
proof -
  let ?as = "[Start 0 (Incr_Int 64), Start 1 (Incr_Int 64), Turn 0, Turn 1, Turn 0, Turn 1,
    Turn 0, Turn 0, Turn 1, Turn 1]"
  let ?o = "u_schedule ?as (l_init zero_mem)"
  have "map_option (\<lambda>(ls, s). (completed ls, int_at (l_mem s) 64)) ?o =
    Some ([(Incr_Int 64, V_Unit), (Incr_Int 64, V_Unit)], 1)"
    by code_simp
  then obtain ls s where run: "?o = Some (ls, s)"
    and ls: "completed ls = [(Incr_Int 64, V_Unit), (Incr_Int 64, V_Unit)]"
    and one: "int_at (l_mem s) 64 = 1"
    by (cases ?o) auto
  have "int_at m' 64 = 2" if "sequentially zero_mem (completed ls) m'" for m'
    using that
    by (auto simp: ls sequentially_Cons OPA_incr_int_unsafe_def c_add_def zero_mem_def
        split: if_splits)
  with one have "\<not> sequentially zero_mem (completed ls) (l_mem s)" by fastforce
  with run ls one show ?thesis by blast
qed

text \<open>
  C36. The lock-based primitives are the unsafe ones between a lock and an unlock. When the mutex is
  set up and free, each of the fifteen calls returns what the unsafe one returns on the same
  memory, leaves the same memory and the mutex free again; it faults exactly when the unsafe one
  does, on a signed overflow.
\<close>

theorem lock_based_refines_unsafe:
  assumes "lock_ready s"
  shows "if unsafe_prim op (mem.truncate s) = fault Signed_Overflow
    then by_lock_prim op s = fault Signed_Overflow
    else \<exists>v s'. by_lock_prim op s = ret v s' \<and> lock_ready s' \<and>
      unsafe_prim op (mem.truncate s) = ret v (mem.truncate s')"
  using unsafe_prim_outcome [of op "mem.truncate s"] by_lock_prim_ret [OF assms, of op]
    by_lock_prim_fault [OF assms, of op] by auto

theorem lock_based_refines_unsafe_witness:
  "\<exists>v s'. by_lock_prim (Fetch_And_Add_Int 64 5)
      \<lparr>int_at = (\<lambda>_. 7), ptr_at = (\<lambda>_. 0), OPA_emulation_lock = 8, mutex_at = (\<lambda>_. Unlocked)\<rparr> =
      ret v s' \<and> lock_ready s'"
proof -
  let ?s = "\<lparr>int_at = (\<lambda>_. 7), ptr_at = (\<lambda>_. 0), OPA_emulation_lock = 8, mutex_at = (\<lambda>_. Unlocked)\<rparr>"
  have "lock_ready ?s" by (simp add: lock_ready_def)
  moreover have "unsafe_prim (Fetch_And_Add_Int 64 5) (mem.truncate ?s) \<noteq> fault Signed_Overflow"
    by (simp add: mem.truncate_def OPA_fetch_and_add_int_unsafe_def Let_def c_add_def no_overflow_def)
  ultimately show ?thesis
    using lock_based_refines_unsafe [of ?s "Fetch_And_Add_Int 64 5"] by auto
qed

end
