(* ===== verification/OPA_Rmw_Threads.thy ===== *)
theory OPA_Rmw_Threads
  imports OPA_Lock_Threads OPA_Emulated
begin

text \<open>
  The loops of \<open>src/primitives/opa_emulated.h\<close> run by any number of threads: the read-modify-write
  operations on \<open>int\<close> and on pointer variables by compare-and-swap, and those by load-linked and
  store-conditional, among plain loads and stores. A load, a store, a compare-and-swap, a
  load-linked and a store-conditional are one step each, and between two of them any other thread
  may take any number of steps.
\<close>

section \<open>Operations\<close>

datatype place =
    Int_At addr
  | Ptr_At addr

fun read_place :: "place \<Rightarrow> mem \<Rightarrow> val" where
  "read_place (Int_At p) m = V_Int (int_at m p)"
| "read_place (Ptr_At p) m = V_Ptr (ptr_at m p)"

fun write_place :: "place \<Rightarrow> val \<Rightarrow> mem \<Rightarrow> mem" where
  "write_place (Int_At p) (V_Int v) m = st_int p v m"
| "write_place (Ptr_At p) (V_Ptr v) m = st_ptr p v m"
| "write_place _ _ m = m"

text \<open>
  The variable of an operation; the value it stores when it finds a value, \<open>None\<close> when it stores
  nothing, a fault when the sum overflows; and its result.
\<close>

fun rmw_place :: "prim \<Rightarrow> place" where
  "rmw_place (Load_Int p) = Int_At p"
| "rmw_place (Store_Int p v) = Int_At p"
| "rmw_place (Load_Ptr p) = Ptr_At p"
| "rmw_place (Store_Ptr p v) = Ptr_At p"
| "rmw_place (Add_Int p v) = Int_At p"
| "rmw_place (Cas_Ptr p oldv newv) = Ptr_At p"
| "rmw_place (Cas_Int p oldv newv) = Int_At p"
| "rmw_place (Decr_And_Test_Int p) = Int_At p"
| "rmw_place (Decr_Int p) = Int_At p"
| "rmw_place (Fetch_And_Add_Int p v) = Int_At p"
| "rmw_place (Fetch_And_Decr_Int p) = Int_At p"
| "rmw_place (Fetch_And_Incr_Int p) = Int_At p"
| "rmw_place (Incr_Int p) = Int_At p"
| "rmw_place (Swap_Ptr p v) = Ptr_At p"
| "rmw_place (Swap_Int p v) = Int_At p"

fun some_sum :: "val \<Rightarrow> c_int \<Rightarrow> c_fault + val option" where
  "some_sum (V_Int x) v = (case c_add x v of Inl f \<Rightarrow> Inl f | Inr y \<Rightarrow> Inr (Some (V_Int y)))"
| "some_sum _ v = Inr None"

fun rmw_next :: "prim \<Rightarrow> val \<Rightarrow> c_fault + val option" where
  "rmw_next (Load_Int p) x = Inr None"
| "rmw_next (Store_Int p v) x = Inr (Some (V_Int v))"
| "rmw_next (Load_Ptr p) x = Inr None"
| "rmw_next (Store_Ptr p v) x = Inr (Some (V_Ptr v))"
| "rmw_next (Add_Int p v) x = some_sum x v"
| "rmw_next (Cas_Ptr p oldv newv) x = Inr (if x = V_Ptr oldv then Some (V_Ptr newv) else None)"
| "rmw_next (Cas_Int p oldv newv) x = Inr (if x = V_Int oldv then Some (V_Int newv) else None)"
| "rmw_next (Decr_And_Test_Int p) x = some_sum x (- 1)"
| "rmw_next (Decr_Int p) x = some_sum x (- 1)"
| "rmw_next (Fetch_And_Add_Int p v) x = some_sum x v"
| "rmw_next (Fetch_And_Decr_Int p) x = some_sum x (- 1)"
| "rmw_next (Fetch_And_Incr_Int p) x = some_sum x 1"
| "rmw_next (Incr_Int p) x = some_sum x 1"
| "rmw_next (Swap_Ptr p v) x = Inr (Some (V_Ptr v))"
| "rmw_next (Swap_Int p v) x = Inr (Some (V_Int v))"

fun rmw_result :: "prim \<Rightarrow> val \<Rightarrow> val" where
  "rmw_result (Store_Int p v) prev = V_Unit"
| "rmw_result (Store_Ptr p v) prev = V_Unit"
| "rmw_result (Add_Int p v) prev = V_Unit"
| "rmw_result (Decr_Int p) prev = V_Unit"
| "rmw_result (Incr_Int p) prev = V_Unit"
| "rmw_result (Decr_And_Test_Int p) prev = V_Int (c_bool (prev = V_Int 1))"
| "rmw_result _ prev = prev"

fun plain_access :: "prim \<Rightarrow> bool" where
  "plain_access (Load_Int p) = True"
| "plain_access (Store_Int p v) = True"
| "plain_access (Load_Ptr p) = True"
| "plain_access (Store_Ptr p v) = True"
| "plain_access _ = False"

fun is_cas :: "prim \<Rightarrow> bool" where
  "is_cas (Cas_Int p oldv newv) = True"
| "is_cas (Cas_Ptr p oldv newv) = True"
| "is_cas _ = False"

lemma rmw_stores:
  "rmw_next op (read_place (rmw_place op) m) = Inr (Some y) \<Longrightarrow>
     unsafe_prim op m = ret (rmw_result op (read_place (rmw_place op) m)) (write_place (rmw_place op) y m)"
  by (cases op) (auto simp: port_defs Let_def c_add_def split: sum.splits if_splits)

lemma rmw_reads:
  "rmw_next op (read_place (rmw_place op) m) = Inr None \<Longrightarrow>
     unsafe_prim op m = ret (rmw_result op (read_place (rmw_place op) m)) m"
  by (cases op) (auto simp: port_defs Let_def split: sum.splits if_splits)

section \<open>Threads\<close>

text \<open>
  A thread between calls, about to load (or load-link) the variable, or about to try its
  compare-and-swap (or store-conditional) with the value it found; and one that ran into an
  overflow. \<open>r_res\<close> holds the reservations of the processors the threads run on.
\<close>

datatype rthread =
    R_Idle
  | R_Start prim
  | R_Try prim val
  | R_Fault c_fault

record rmach =
  r_mem :: mem
  r_thr :: "nat \<Rightarrow> rthread"
  r_res :: "nat \<Rightarrow> place option"

datatype rlabel =
    R_Tau
  | R_Retry nat
  | R_Commit nat prim val

definition r_set :: "nat \<Rightarrow> rthread \<Rightarrow> rmach \<Rightarrow> rmach" where
  "r_set t x s = s\<lparr>r_thr := (r_thr s)(t := x)\<rparr>"

text \<open>The store of an operation, if it makes one; it breaks the reservations of the variable.\<close>

definition r_store :: "place \<Rightarrow> val option \<Rightarrow> rmach \<Rightarrow> rmach" where
  "r_store x new s =
     (case new of
        None \<Rightarrow> s
      | Some y \<Rightarrow> s\<lparr>r_mem := write_place x y (r_mem s),
          r_res := (\<lambda>u. if r_res s u = Some x then None else r_res s u)\<rparr>)"

text \<open>
  The loops by compare-and-swap, on a processor that has one: a call of the compare-and-swap
  itself, like a load or a store, is a single step. The first argument, whether the processor makes a
  store-conditional fail without a reason, has no meaning here. \<open>R_Retry\<close> marks a round that
  another thread made fail. A failed compare-and-swap has
  returned the present value, from which the loop goes on without a new load.
\<close>

definition cas_go :: "bool \<Rightarrow> nat \<Rightarrow> rmach \<Rightarrow> (rlabel \<times> rmach) option" where
  "cas_go spurious t s =
     (case r_thr s t of
        R_Start op \<Rightarrow>
          (let prev = read_place (rmw_place op) (r_mem s) in
           if plain_access op \<or> is_cas op then
             (case rmw_next op prev of
                Inl f \<Rightarrow> None
              | Inr new \<Rightarrow> Some (R_Commit t op (rmw_result op prev), r_set t R_Idle (r_store (rmw_place op) new s)))
           else Some (R_Tau, r_set t (R_Try op prev) s))
      | R_Try op cmp \<Rightarrow>
          (case rmw_next op cmp of
             Inl f \<Rightarrow> Some (R_Tau, r_set t (R_Fault f) s)
           | Inr None \<Rightarrow> None
           | Inr (Some new) \<Rightarrow>
               (let prev = read_place (rmw_place op) (r_mem s) in
                if prev = cmp
                then Some (R_Commit t op (rmw_result op prev), r_set t R_Idle (r_store (rmw_place op) (Some new) s))
                else Some (R_Retry t, r_set t (R_Try op prev) s)))
      | _ \<Rightarrow> None)"

text \<open>
  The loops by load-linked and store-conditional. A store or a store-conditional that stores takes
  away every reservation of the variable. A compare-and-swap that finds another value returns
  without a store-conditional. A load and a store are the plain ones.
\<close>

definition llsc_go :: "bool \<Rightarrow> nat \<Rightarrow> rmach \<Rightarrow> (rlabel \<times> rmach) option" where
  "llsc_go spurious t s =
     (case r_thr s t of
        R_Start op \<Rightarrow>
          (let prev = read_place (rmw_place op) (r_mem s) in
           if plain_access op then
             (case rmw_next op prev of
                Inl f \<Rightarrow> None
              | Inr new \<Rightarrow> Some (R_Commit t op (rmw_result op prev), r_set t R_Idle (r_store (rmw_place op) new s)))
           else
             (let s = s\<lparr>r_res := (r_res s)(t := Some (rmw_place op))\<rparr> in
              case rmw_next op prev of
                Inl f \<Rightarrow> Some (R_Tau, r_set t (R_Fault f) s)
              | Inr None \<Rightarrow> Some (R_Commit t op (rmw_result op prev), r_set t R_Idle s)
              | Inr (Some new) \<Rightarrow> Some (R_Tau, r_set t (R_Try op prev) s)))
      | R_Try op prev \<Rightarrow>
          (case rmw_next op prev of
             Inr (Some new) \<Rightarrow>
               if r_res s t = Some (rmw_place op) \<and> \<not> spurious
               then Some (R_Commit t op (rmw_result op prev),
                 r_set t R_Idle (r_store (rmw_place op) (Some new) s))
               else Some (if spurious then R_Tau else R_Retry t,
                 r_set t (R_Start op) (s\<lparr>r_res := (r_res s)(t := None)\<rparr>))
           | _ \<Rightarrow> None)
      | _ \<Rightarrow> None)"

inductive r_step ::
  "(bool \<Rightarrow> nat \<Rightarrow> rmach \<Rightarrow> (rlabel \<times> rmach) option) \<Rightarrow> rmach \<Rightarrow> rlabel \<Rightarrow> rmach \<Rightarrow> bool"
  for go :: "bool \<Rightarrow> nat \<Rightarrow> rmach \<Rightarrow> (rlabel \<times> rmach) option" where
  R_Call: "r_thr s t = R_Idle \<Longrightarrow> r_step go s R_Tau (r_set t (R_Start op) s)"
| R_Go: "go spurious t s = Some (l, s') \<Longrightarrow> r_step go s l s'"

inductive_cases r_stepE: "r_step go s l s'"

inductive r_run ::
  "(bool \<Rightarrow> nat \<Rightarrow> rmach \<Rightarrow> (rlabel \<times> rmach) option) \<Rightarrow> rmach \<Rightarrow> rlabel list \<Rightarrow> rmach \<Rightarrow> bool"
  for go :: "bool \<Rightarrow> nat \<Rightarrow> rmach \<Rightarrow> (rlabel \<times> rmach) option" where
  R_Nil: "r_run go s [] s"
| R_Snoc: "r_run go s ls t \<Longrightarrow> r_step go t l u \<Longrightarrow> r_run go s (ls @ [l]) u"

definition r_init :: "mem \<Rightarrow> rmach" where
  "r_init m = \<lparr>r_mem = m, r_thr = (\<lambda>_. R_Idle), r_res = (\<lambda>_. None)\<rparr>"

fun commit_of :: "rlabel \<Rightarrow> (prim \<times> val) list" where
  "commit_of (R_Commit t op v) = [(op, v)]"
| "commit_of _ = []"

definition committed :: "rlabel list \<Rightarrow> (prim \<times> val) list" where
  "committed ls = concat (map commit_of ls)"

lemma r_set_simps [simp]:
  "r_mem (r_set t x s) = r_mem s" "r_res (r_set t x s) = r_res s"
  "r_thr (r_set t x s) u = (if u = t then x else r_thr s u)"
  by (simp_all add: r_set_def)

section \<open>Atomicity\<close>

text \<open>
  A reservation that is still there vouches for the value its thread has read.
\<close>

definition reserved_ok :: "rmach \<Rightarrow> bool" where
  "reserved_ok s \<longleftrightarrow>
     (\<forall>t op prev. r_thr s t = R_Try op prev \<longrightarrow> r_res s t = Some (rmw_place op) \<longrightarrow>
        read_place (rmw_place op) (r_mem s) = prev)"

definition applies :: "rmach \<Rightarrow> rlabel \<Rightarrow> rmach \<Rightarrow> bool" where
  "applies s l s' \<longleftrightarrow>
     (case l of R_Commit t op v \<Rightarrow> unsafe_prim op (r_mem s) = ret v (r_mem s')
      | _ \<Rightarrow> r_mem s' = r_mem s)"

lemma r_store_simps [simp]:
  "r_store x None s = s" "r_mem (r_store x (Some y) s) = write_place x y (r_mem s)"
  "r_thr (r_store x new s) = r_thr s"
  "r_res (r_store x (Some y) s) u = (if r_res s u = Some x then None else r_res s u)"
  by (simp_all add: r_store_def split: option.split)

text \<open>An operation done at once, in a state where it finds \<open>prev\<close>.\<close>

lemma applies_at_once:
  assumes "rmw_next op (read_place (rmw_place op) (r_mem s)) = Inr new"
    and "r_mem s' = r_mem (r_store (rmw_place op) new s)"
  shows "applies s (R_Commit t op (rmw_result op (read_place (rmw_place op) (r_mem s)))) s'"
  using assms by (cases new) (simp_all add: applies_def rmw_stores rmw_reads)

lemma cas_go_applies: "cas_go b t s = Some (l, s') \<Longrightarrow> applies s l s'"
  by (auto simp: cas_go_def Let_def intro!: applies_at_once
      split: rthread.splits option.splits sum.splits if_splits) (auto simp: applies_def)

lemma llsc_go_applies: "reserved_ok s \<Longrightarrow> llsc_go b t s = Some (l, s') \<Longrightarrow> applies s l s'"
  by (auto simp: llsc_go_def reserved_ok_def Let_def intro!: applies_at_once
      split: rthread.splits option.splits sum.splits if_splits)
    (auto simp: applies_def rmw_stores rmw_reads)

text \<open>A store to one variable is not seen in another.\<close>

lemma read_write_other: "x \<noteq> y \<Longrightarrow> read_place x (write_place y v m) = read_place x m"
  by (cases x; cases y; cases v) simp_all

lemma llsc_go_reserved: "reserved_ok s \<Longrightarrow> llsc_go b t s = Some (l, s') \<Longrightarrow> reserved_ok s'"
  unfolding reserved_ok_def llsc_go_def Let_def
  by (auto split: rthread.splits option.splits sum.splits if_splits simp: read_write_other)

lemma r_step_mem: "r_step go s l s' \<Longrightarrow> (\<And>b t l s'. go b t s = Some (l, s') \<Longrightarrow> applies s l s') \<Longrightarrow>
    applies s l s'"
  by (erule r_stepE) (auto simp: applies_def)

lemma reserved_ok_init: "reserved_ok (r_init m)"
  by (simp add: reserved_ok_def r_init_def)

lemma llsc_step_reserved: "reserved_ok s \<Longrightarrow> r_step llsc_go s l s' \<Longrightarrow> reserved_ok s'"
  by (erule r_stepE) (simp add: reserved_ok_def, blast intro: llsc_go_reserved)

lemma llsc_run_reserved: "r_run llsc_go s ls t \<Longrightarrow> reserved_ok s \<Longrightarrow> reserved_ok t"
  by (induction rule: r_run.induct) (auto dest: llsc_step_reserved)

lemma applies_sequentially:
  "sequentially m (committed ls) (r_mem s) \<Longrightarrow> applies s l s' \<Longrightarrow>
     sequentially m (committed (ls @ [l])) (r_mem s')"
  by (cases l) (auto simp: committed_def applies_def sequentially_snoc)

lemma cas_run_sequential:
  "r_run cas_go s ls t \<Longrightarrow> sequentially (r_mem s) (committed ls) (r_mem t)"
proof (induction rule: r_run.induct)
  case (R_Snoc s ls t l u)
  then show ?case by (blast intro: applies_sequentially r_step_mem cas_go_applies)
qed (simp add: committed_def)

lemma llsc_run_sequential:
  "r_run llsc_go s ls t \<Longrightarrow> reserved_ok s \<Longrightarrow> sequentially (r_mem s) (committed ls) (r_mem t)"
proof (induction rule: r_run.induct)
  case (R_Snoc s ls t l u)
  then show ?case
    by (blast intro: applies_sequentially r_step_mem llsc_go_applies dest: llsc_run_reserved)
qed (simp add: committed_def)

section \<open>Progress\<close>

text \<open>
  A thread whose next try must fail: the variable no longer holds the value it found, or its
  reservation is gone.
\<close>

definition cas_stale :: "nat \<Rightarrow> rmach \<Rightarrow> bool" where
  "cas_stale t s \<longleftrightarrow>
     (case r_thr s t of R_Try op cmp \<Rightarrow> read_place (rmw_place op) (r_mem s) \<noteq> cmp
      | _ \<Rightarrow> False)"

definition llsc_stale :: "nat \<Rightarrow> rmach \<Rightarrow> bool" where
  "llsc_stale t s \<longleftrightarrow> (case r_thr s t of R_Try op prev \<Rightarrow> r_res s t \<noteq> Some (rmw_place op) | _ \<Rightarrow> False)"

definition debt :: "bool \<Rightarrow> nat" where
  "debt b = (if b then 1 else 0)"

text \<open>What a step may do to a thread's retries, the completed operations and its staleness.\<close>

definition paid_step :: "(rmach \<Rightarrow> bool) \<Rightarrow> nat \<Rightarrow> rmach \<Rightarrow> rlabel \<Rightarrow> rmach \<Rightarrow> bool" where
  "paid_step stale t s l s' \<longleftrightarrow>
     (case l of R_Tau \<Rightarrow> stale s' \<longrightarrow> stale s
      | R_Retry u \<Rightarrow> if u = t then stale s \<and> \<not> stale s' else stale s' \<longrightarrow> stale s
      | R_Commit u op v \<Rightarrow> True)"

lemma paid_run:
  assumes "r_run go s ls u" and "\<not> stale s"
    and "\<And>s l s'. r_step go s l s' \<Longrightarrow> paid_step stale t s l s'"
  shows "count_list ls (R_Retry t) + debt (stale u) \<le> length (committed ls)"
  using assms(1,2)
proof (induction rule: r_run.induct)
  case (R_Nil s)
  then show ?case by (simp add: debt_def)
next
  case (R_Snoc s ls w l u)
  from assms(3) [OF R_Snoc.hyps(2)] R_Snoc.IH [OF R_Snoc.prems] show ?case
    by (cases l) (auto simp: paid_step_def debt_def committed_def split: if_splits)
qed

lemma cas_paid_step: "r_step cas_go s l s' \<Longrightarrow> paid_step (cas_stale t) t s l s'"
  by (erule r_stepE)
    (auto simp: paid_step_def cas_stale_def cas_go_def Let_def
      split: rthread.splits prim.splits option.splits sum.splits if_splits)

lemma llsc_paid_step: "r_step llsc_go s l s' \<Longrightarrow> paid_step (llsc_stale t) t s l s'"
  by (erule r_stepE)
    (auto simp: paid_step_def llsc_stale_def llsc_go_def Let_def
      split: rthread.splits option.splits sum.splits if_splits)


text \<open>A schedule, to be evaluated: who is to call, and whose turn it is.\<close>

datatype r_action =
    R_Begin nat prim
  | R_Turn nat bool

definition r_act ::
  "(bool \<Rightarrow> nat \<Rightarrow> rmach \<Rightarrow> (rlabel \<times> rmach) option) \<Rightarrow> r_action \<Rightarrow> rmach \<Rightarrow> (rlabel \<times> rmach) option" where
  "r_act go a s =
     (case a of
        R_Begin t op \<Rightarrow>
          if r_thr s t = R_Idle
          then Some (R_Tau, r_set t (R_Start op) s) else None
      | R_Turn t spurious \<Rightarrow> go spurious t s)"

fun r_schedule ::
  "(bool \<Rightarrow> nat \<Rightarrow> rmach \<Rightarrow> (rlabel \<times> rmach) option) \<Rightarrow> r_action list \<Rightarrow> rmach \<Rightarrow>
   (rlabel list \<times> rmach) option" where
  "r_schedule go [] s = Some ([], s)"
| "r_schedule go (a # as) s =
     (case r_act go a s of
        None \<Rightarrow> None
      | Some (l, s') \<Rightarrow> map_option (\<lambda>(ls, t). (l # ls, t)) (r_schedule go as s'))"

lemma r_act_step: "r_act go a s = Some (l, s') \<Longrightarrow> r_step go s l s'"
  by (auto simp: r_act_def Option.is_none_def intro: R_Call R_Go split: r_action.splits if_splits)

lemma r_run_Cons: "r_step go s l s' \<Longrightarrow> r_run go s' ls t \<Longrightarrow> r_run go s (l # ls) t"
proof (rotate_tac, induction rule: r_run.induct)
  case (R_Nil s')
  then show ?case using R_Snoc [OF r_run.R_Nil, of go s l s'] by simp
next
  case (R_Snoc s' ls t k u)
  then show ?case using r_run.R_Snoc [of go s "l # ls" t k u] by simp
qed

lemma r_schedule_run: "r_schedule go as s = Some (ls, t) \<Longrightarrow> r_run go s ls t"
  by (induction as arbitrary: s ls)
    (auto split: option.splits intro: R_Nil r_run_Cons r_act_step)

definition r_labels ::
  "(bool \<Rightarrow> nat \<Rightarrow> rmach \<Rightarrow> (rlabel \<times> rmach) option) \<Rightarrow> r_action list \<Rightarrow> rmach \<Rightarrow> rlabel list" where
  "r_labels go as s = fst (the (r_schedule go as s))"

definition r_end ::
  "(bool \<Rightarrow> nat \<Rightarrow> rmach \<Rightarrow> (rlabel \<times> rmach) option) \<Rightarrow> r_action list \<Rightarrow> rmach \<Rightarrow> rmach" where
  "r_end go as s = snd (the (r_schedule go as s))"

lemma r_schedule_of_run:
  "\<not> Option.is_none (r_schedule go as s) \<Longrightarrow> r_run go s (r_labels go as s) (r_end go as s)"
  by (auto simp: Option.is_none_def r_labels_def r_end_def intro: r_schedule_run)

lemma r_init_simps [simp]: "r_mem (r_init m) = m" "\<not> cas_stale t (r_init m)" "\<not> llsc_stale t (r_init m)"
  by (simp_all add: r_init_def cas_stale_def llsc_stale_def)

section \<open>Properties\<close>

text \<open>Two threads that take a ticket each; both read the variable before either changes it.\<close>

definition racing_tickets :: "r_action list" where
  "racing_tickets = [R_Begin 0 (Fetch_And_Incr_Int 64), R_Begin 1 (Fetch_And_Incr_Int 64),
     R_Turn 0 False, R_Turn 1 False, R_Turn 1 False, R_Turn 0 False, R_Turn 0 False]"

lemma racing_cas:
  "r_run cas_go (r_init zero_mem) (r_labels cas_go racing_tickets (r_init zero_mem))
     (r_end cas_go racing_tickets (r_init zero_mem))"
  by (rule r_schedule_of_run) code_simp

definition racing_links :: "r_action list" where
  "racing_links = racing_tickets @ [R_Turn 0 False]"

lemma racing_llsc:
  "r_run llsc_go (r_init zero_mem) (r_labels llsc_go racing_links (r_init zero_mem))
     (r_end llsc_go racing_links (r_init zero_mem))"
  by (rule r_schedule_of_run) code_simp

text \<open>
  C27. The loops by compare-and-swap are atomic. In every run of any number of threads, however
  their loads and compare-and-swaps are interleaved, the memory is the one that the operations
  which returned leave when they run one after another, in the order of their successful
  compare-and-swaps, and each of them has the result it has in that sequence.
\<close>

theorem cas_loops_atomic:
  assumes "r_run cas_go (r_init m) ls t"
  shows "sequentially m (committed ls) (r_mem t)"
  using cas_run_sequential [OF assms] by simp

theorem cas_loops_atomic_witness:
  "\<exists>m'. sequentially zero_mem
     [(Fetch_And_Incr_Int 64, V_Int 0), (Fetch_And_Incr_Int 64, V_Int 1)] m'"
proof -
  have "committed (r_labels cas_go racing_tickets (r_init zero_mem)) =
    [(Fetch_And_Incr_Int 64, V_Int 0), (Fetch_And_Incr_Int 64, V_Int 1)]"
    by code_simp
  with cas_loops_atomic [OF racing_cas] show ?thesis by auto
qed

text \<open>
  C28. The loops by load-linked and store-conditional are atomic, on a processor where a successful
  store-conditional takes away the reservations of the variable and where a store-conditional may
  fail without a reason.
\<close>

theorem llsc_loops_atomic:
  assumes "r_run llsc_go (r_init m) ls t"
  shows "sequentially m (committed ls) (r_mem t)"
  using llsc_run_sequential [OF assms reserved_ok_init] by simp

theorem llsc_loops_atomic_witness:
  "\<exists>m'. sequentially zero_mem
     [(Fetch_And_Incr_Int 64, V_Int 0), (Fetch_And_Incr_Int 64, V_Int 1)] m'"
proof -
  have "committed (r_labels llsc_go racing_links (r_init zero_mem)) =
    [(Fetch_And_Incr_Int 64, V_Int 0), (Fetch_And_Incr_Int 64, V_Int 1)]"
    by code_simp
  with llsc_loops_atomic [OF racing_llsc] show ?thesis by auto
qed

text \<open>
  C29. The loops by compare-and-swap are lock-free: every round that fails was paid for by an
  operation that returned. A thread has failed at most as often as operations have returned in the
  whole run, so only the progress of others can keep it in its loop.
\<close>

theorem cas_loops_lock_free:
  assumes "r_run cas_go (r_init m) ls s"
  shows "count_list ls (R_Retry t) \<le> length (committed ls)"
  using paid_run [OF assms _ cas_paid_step, of t] by simp

theorem cas_loops_lock_free_witness:
  "count_list (r_labels cas_go racing_tickets (r_init zero_mem)) (R_Retry 0) \<le> 2"
proof -
  have "length (committed (r_labels cas_go racing_tickets (r_init zero_mem))) = 2" by code_simp
  with cas_loops_lock_free [OF racing_cas, of 0] show ?thesis by simp
qed

text \<open>
  C30. The loops by load-linked and store-conditional are lock-free up to the processor: the rounds
  of a thread that fail for another reason than the processor's own are at most as many as the
  operations that have returned in the whole run.
\<close>

theorem llsc_loops_lock_free:
  assumes "r_run llsc_go (r_init m) ls s"
  shows "count_list ls (R_Retry t) \<le> length (committed ls)"
  using paid_run [OF assms _ llsc_paid_step, of t] by simp

theorem llsc_loops_lock_free_witness:
  "count_list (r_labels llsc_go racing_links (r_init zero_mem)) (R_Retry 0) \<le> 2"
proof -
  have "length (committed (r_labels llsc_go racing_links (r_init zero_mem))) = 2" by code_simp
  with llsc_loops_lock_free [OF racing_llsc, of 0] show ?thesis by simp
qed

end
