(* ===== verification/OPA_Counters.thy ===== *)
theory OPA_Counters
  imports OPA_Rmw_Threads
begin

text \<open>
  What the users of the counters get from atomicity, whichever way it is achieved: by the lock, by
  loops of compare-and-swaps or by loops of load-linked and store-conditional. The locale
  \<open>atomic_runs\<close> is the contract of a machine whose runs have a sequential history; its clients are
  sums, tickets and reference counts.
\<close>

section \<open>Histories of counter operations\<close>

text \<open>What an operation adds to the \<open>int\<close> at \<open>p\<close>; \<open>None\<close> when it sets it instead.\<close>

fun adds_to :: "addr \<Rightarrow> prim \<Rightarrow> c_int option" where
  "adds_to p (Add_Int q v) = Some (if q = p then v else 0)"
| "adds_to p (Fetch_And_Add_Int q v) = Some (if q = p then v else 0)"
| "adds_to p (Incr_Int q) = Some (if q = p then 1 else 0)"
| "adds_to p (Fetch_And_Incr_Int q) = Some (if q = p then 1 else 0)"
| "adds_to p (Decr_Int q) = Some (if q = p then - 1 else 0)"
| "adds_to p (Fetch_And_Decr_Int q) = Some (if q = p then - 1 else 0)"
| "adds_to p (Decr_And_Test_Int q) = Some (if q = p then - 1 else 0)"
| "adds_to p (Store_Int q v) = (if q = p then None else Some 0)"
| "adds_to p (Swap_Int q v) = (if q = p then None else Some 0)"
| "adds_to p (Cas_Int q v w) = (if q = p then None else Some 0)"
| "adds_to p _ = Some 0"

definition amount :: "addr \<Rightarrow> prim \<Rightarrow> int" where
  "amount p op = (case adds_to p op of None \<Rightarrow> 0 | Some v \<Rightarrow> sint v)"

lemma prim_adds:
  assumes "unsafe_prim op m = ret v m'" and "adds_to p op \<noteq> None"
  shows "sint (int_at m' p) = sint (int_at m p) + amount p op"
proof -
  have sum: "sint x + - 1 = sint y" if "c_add x (- 1) = Inr y" for x y :: c_int
    using c_add_sint [OF that] by simp
  show ?thesis
    using assms
    by (cases op)
      (auto simp: port_defs Let_def amount_def sum dest: c_add_sint split: sum.splits if_splits)
qed

lemma sequential_sum:
  "sequentially m ops m' \<Longrightarrow> \<forall>(op, v) \<in> set ops. adds_to p op \<noteq> None \<Longrightarrow>
     sint (int_at m' p) = sint (int_at m p) + (\<Sum>(op, v) \<leftarrow> ops. amount p op)"
proof (induction ops arbitrary: m)
  case (Cons a ops)
  obtain op v where a: "a = (op, v)" by (cases a)
  from Cons.prems(1) obtain m1 where m1: "unsafe_prim op m = ret v m1" and seq: "sequentially m1 ops m'"
    by (auto simp: a sequentially_Cons)
  from prim_adds [OF m1, of p] Cons.IH [OF seq] Cons.prems(2) show ?case by (simp add: a)
qed simp

text \<open>Reference counts: the decrements of a counter that starts at \<open>n\<close>.\<close>

lemma sequential_references:
  "sequentially m ops m' \<Longrightarrow> \<forall>(op, v) \<in> set ops. op = Decr_And_Test_Int p \<Longrightarrow>
     sint (int_at m p) = int n \<Longrightarrow> length ops \<le> n \<Longrightarrow>
     map snd ops = map (\<lambda>i. V_Int (c_bool (Suc i = n))) [0..<length ops]"
proof (induction ops arbitrary: m n)
  case (Cons a ops)
  obtain op v where a: "a = (op, v)" by (cases a)
  with Cons.prems(2) have op: "op = Decr_And_Test_Int p" by simp
  from Cons.prems(1) obtain m1 where m1: "unsafe_prim op m = ret v m1" and seq: "sequentially m1 ops m'"
    by (auto simp: a sequentially_Cons)
  obtain k where n: "n = Suc k" using Cons.prems(4) by (cases n) auto
  from prim_adds [OF m1, of p] have p: "sint (int_at m1 p) = int k"
    using Cons.prems(3) by (simp add: op amount_def n)
  have "v = V_Int (c_bool (int_at m1 p = 0))"
    using m1 by (auto simp: op OPA_decr_and_test_int_unsafe_def c_bool_def split: sum.splits)
  also have "int_at m1 p = 0 \<longleftrightarrow> Suc 0 = n"
    using p by (metis n nat.inject of_nat_0_eq_iff signed_0 signed_eq_0_iff)
  finally have v: "v = V_Int (c_bool (Suc 0 = n))" .
  from Cons.IH [OF seq _ p] Cons.prems(2,4)
  have "map snd ops = map (\<lambda>i. V_Int (c_bool (Suc (Suc i) = n))) [0..<length ops]"
    by (simp add: n)
  then show ?case
    by (simp add: a v upt_conv_Cons map_Suc_upt [symmetric] del: upt_Suc map_Suc_upt)
qed simp

section \<open>Machines with atomic operations\<close>

locale atomic_runs =
  fixes run :: "mem \<Rightarrow> 'l list \<Rightarrow> 's \<Rightarrow> bool"
    and history :: "'l list \<Rightarrow> (prim \<times> val) list"
    and quiet :: "'s \<Rightarrow> bool"
    and memory :: "'s \<Rightarrow> mem"
  assumes sequential:
      "run m ls s \<Longrightarrow> \<exists>m'. sequentially m (history ls) m' \<and> (quiet s \<longrightarrow> memory s = m')"
begin

lemma sums:
  assumes "run m ls s" and "quiet s" and "\<forall>(op, v) \<in> set (history ls). adds_to p op \<noteq> None"
  shows "sint (int_at (memory s) p) = sint (int_at m p) + (\<Sum>(op, v) \<leftarrow> history ls. amount p op)"
proof -
  obtain m' where "sequentially m (history ls) m'" "memory s = m'"
    using sequential [OF assms(1)] assms(2) by blast
  with sequential_sum [OF _ assms(3)] show ?thesis by simp
qed

lemma tickets:
  assumes "run m ls s" and "\<forall>(op, v) \<in> set (history ls). op = Fetch_And_Incr_Int p"
  shows "map snd (history ls) = map (\<lambda>i. V_Int (int_at m p + of_nat i)) [0..<length (history ls)]"
  using sequential [OF assms(1)] sequential_tickets [OF _ assms(2)] by blast

lemma references:
  assumes "run m ls s" and "\<forall>(op, v) \<in> set (history ls). op = Decr_And_Test_Int p"
    and "sint (int_at m p) = int n" and "length (history ls) \<le> n"
  shows "map snd (history ls) = map (\<lambda>i. V_Int (c_bool (Suc i = n))) [0..<length (history ls)]"
  using sequential [OF assms(1)] sequential_references [OF _ assms(2-4)] by blast

end

text \<open>The three ways to atomicity.\<close>

interpretation cas_machine: atomic_runs "\<lambda>m. r_run cas_go (r_init m)" committed "\<lambda>_. True" r_mem
  by unfold_locales (drule cas_run_sequential, simp)

interpretation llsc_machine: atomic_runs "\<lambda>m. r_run llsc_go (r_init m)" committed "\<lambda>_. True" r_mem
  by unfold_locales (drule llsc_run_sequential [OF _ reserved_ok_init], simp)

interpretation lock_machine: atomic_runs "\<lambda>m. l_run (l_init m)" completed "\<lambda>s. l_owner s = None" l_mem
  by unfold_locales (drule l_run_sequential [OF _ l_inv_init], auto simp: l_inv_def)

text \<open>
  The calls that have returned in a run of one of the three machines from the memory \<open>m\<close>, with
  their results and the memory after it; for the lock, when nobody holds it.
\<close>

definition concurrent_calls :: "mem \<Rightarrow> (prim \<times> val) list \<Rightarrow> mem \<Rightarrow> bool" where
  "concurrent_calls m ops m' \<longleftrightarrow>
     (\<exists>ls s. r_run cas_go (r_init m) ls s \<and> ops = committed ls \<and> m' = r_mem s) \<or>
     (\<exists>ls s. r_run llsc_go (r_init m) ls s \<and> ops = committed ls \<and> m' = r_mem s) \<or>
     (\<exists>ls s. l_run (l_init m) ls s \<and> ops = completed ls \<and> l_owner s = None \<and> m' = l_mem s)"

lemma racing_calls: "\<exists>m'. concurrent_calls zero_mem
    [(Fetch_And_Incr_Int 64, V_Int 0), (Fetch_And_Incr_Int 64, V_Int 1)] m'"
proof -
  have "committed (r_labels cas_go racing_tickets (r_init zero_mem)) =
    [(Fetch_And_Incr_Int 64, V_Int 0), (Fetch_And_Incr_Int 64, V_Int 1)]"
    by code_simp
  with racing_cas show ?thesis unfolding concurrent_calls_def by metis
qed

text \<open>Two threads that give up one of two references each.\<close>

definition two_refs :: mem where
  "two_refs = st_int 64 2 zero_mem"

lemma reference_calls: "\<exists>m'. concurrent_calls two_refs
    [(Decr_And_Test_Int 64, V_Int 0), (Decr_And_Test_Int 64, V_Int 1)] m'"
proof -
  let ?as = "[R_Begin 0 (Decr_And_Test_Int 64), R_Begin 1 (Decr_And_Test_Int 64), R_Turn 0 False,
    R_Turn 1 False, R_Turn 1 False, R_Turn 0 False, R_Turn 0 False, R_Turn 0 False]"
  have "committed (r_labels llsc_go ?as (r_init two_refs)) =
    [(Decr_And_Test_Int 64, V_Int 0), (Decr_And_Test_Int 64, V_Int 1)]"
    by code_simp
  moreover have "r_run llsc_go (r_init two_refs) (r_labels llsc_go ?as (r_init two_refs))
      (r_end llsc_go ?as (r_init two_refs))"
    by (rule r_schedule_of_run) code_simp
  ultimately show ?thesis unfolding concurrent_calls_def by metis
qed

section \<open>Properties\<close>

text \<open>
  Nothing that is added to a counter is lost. Whatever the threads do, with the lock, with
  compare-and-swap loops or with load-linked and store-conditional loops, as long as the calls that
  returned only add to a counter and never set it, its value is the first one plus everything they
  added, as integers.
\<close>

lemma counters_add_up:
  assumes "concurrent_calls m ops m'" and "\<forall>(op, v) \<in> set ops. adds_to p op \<noteq> None"
  shows "sint (int_at m' p) = sint (int_at m p) + (\<Sum>(op, v) \<leftarrow> ops. amount p op)"
  using assms by (auto simp: concurrent_calls_def cas_machine.sums llsc_machine.sums lock_machine.sums)

theorem counters_add_up_witness:
  "\<exists>ops m'. concurrent_calls zero_mem ops m' \<and> sint (int_at m' 64) = 2"
proof -
  obtain m' where c: "concurrent_calls zero_mem
    [(Fetch_And_Incr_Int 64, V_Int 0), (Fetch_And_Incr_Int 64, V_Int 1)] m'"
    using racing_calls by blast
  have "sint (int_at m' 64) = 2"
    using counters_add_up [OF c, of 64] by (simp add: amount_def zero_mem_def)
  with c show ?thesis by blast
qed

text \<open>
  Tickets. When all calls on a variable are fetch-and-increments, their results are the
  consecutive values from the first content on: no two threads get the same one.
\<close>

lemma tickets_are_consecutive:
  assumes "concurrent_calls m ops m'" and "\<forall>(op, v) \<in> set ops. op = Fetch_And_Incr_Int p"
  shows "map snd ops = map (\<lambda>i. V_Int (int_at m p + of_nat i)) [0..<length ops]"
  using assms
  by (auto simp: concurrent_calls_def dest!: cas_machine.tickets llsc_machine.tickets lock_machine.tickets)

theorem tickets_are_consecutive_witness:
  "\<exists>ops m'. concurrent_calls zero_mem ops m' \<and> map snd ops = [V_Int 0, V_Int 1]"
  using racing_calls tickets_are_consecutive [of zero_mem _ _ 64] by force

text \<open>
  The last reference. When a variable holds a number of references and every call is a
  decrement-and-test of it, at most as many as there are references, then exactly the call that
  takes the last one is told so: the others get 0 and it gets 1.
\<close>

lemma last_reference_is_told:
  assumes "concurrent_calls m ops m'" and "\<forall>(op, v) \<in> set ops. op = Decr_And_Test_Int p"
    and "sint (int_at m p) = int n" and "length ops \<le> n"
  shows "map snd ops = map (\<lambda>i. V_Int (c_bool (Suc i = n))) [0..<length ops]"
  using assms
  by (auto simp: concurrent_calls_def dest!: cas_machine.references llsc_machine.references lock_machine.references)

theorem last_reference_is_told_witness:
  "\<exists>ops m'. concurrent_calls two_refs ops m' \<and> map snd ops = [V_Int 0, V_Int 1]"
  using reference_calls last_reference_is_told [of two_refs _ _ 64 2] by force

end
