(* ===== verification/OPA_Test_Simple.thy ===== *)
theory OPA_Test_Simple
  imports OPA_Contract OPA_Llsc_Ports
begin

text \<open>
  The tests of \<open>test/test_primitives.c\<close> with one thread, as clients of the interface: a test returns 0,
  or 1 when a call does not return what is expected. Those of the load-linked/store-conditional pair
  run on the ports that have one, with the spurious failures the machine has in store.
\<close>

section \<open>The programs\<close>

text \<open>\<open>if(v != call) TEST_ERROR;\<close> and what follows it.\<close>

definition expect :: "('s, 'a) outcome \<Rightarrow> 'a \<Rightarrow> ('s \<Rightarrow> ('s, nat) outcome) \<Rightarrow> ('s, nat) outcome" where
  "expect call v k = bind_outcome call (\<lambda>x s. if x \<noteq> v then ret 1 s else k s)"

definition test_simple_loadstore_int ::
  "(addr \<Rightarrow> 's \<Rightarrow> ('s, c_int) outcome) \<Rightarrow> (addr \<Rightarrow> c_int \<Rightarrow> 's \<Rightarrow> ('s, unit) outcome) \<Rightarrow>
   addr \<Rightarrow> addr \<Rightarrow> 's \<Rightarrow> ('s, nat) outcome" where
  "test_simple_loadstore_int load store a b s =
     bind_outcome (store a 0 s) (\<lambda>_ s. expect (load a s) 0 (\<lambda>s.
     bind_outcome (store b (- 1) s) (\<lambda>_ s. expect (load b s) (- 1) (\<lambda>s.
     expect (load a s) 0 (\<lambda>s. expect (load b s) (- 1) (\<lambda>s.
     bind_outcome (store a INT_MIN s) (\<lambda>_ s. expect (load a s) INT_MIN (\<lambda>s.
     bind_outcome (store b INT_MAX s) (\<lambda>_ s. expect (load b s) INT_MAX (\<lambda>s.
     expect (load a s) INT_MIN (\<lambda>s. expect (load b s) INT_MAX (\<lambda>s. ret 0 s))))))))))))"

definition test_simple_loadstore_ptr ::
  "(addr \<Rightarrow> 's \<Rightarrow> ('s, addr) outcome) \<Rightarrow> (addr \<Rightarrow> addr \<Rightarrow> 's \<Rightarrow> ('s, unit) outcome) \<Rightarrow>
   addr \<Rightarrow> addr \<Rightarrow> 's \<Rightarrow> ('s, nat) outcome" where
  "test_simple_loadstore_ptr load store a b s =
     bind_outcome (store a 0 s) (\<lambda>_ s. expect (load a s) 0 (\<lambda>s.
     bind_outcome (store b 1 s) (\<lambda>_ s. expect (load b s) 1 (\<lambda>s.
     expect (load a s) 0 (\<lambda>s. expect (load b s) 1 (\<lambda>s.
     bind_outcome (store a (- 2) s) (\<lambda>_ s. expect (load a s) (- 2) (\<lambda>s.
     bind_outcome (store b (- 1) s) (\<lambda>_ s. expect (load b s) (- 1) (\<lambda>s.
     expect (load a s) (- 2) (\<lambda>s. expect (load b s) (- 1) (\<lambda>s. ret 0 s))))))))))))"

definition test_simple_add_incr_decr ::
  "(addr \<Rightarrow> 's \<Rightarrow> ('s, c_int) outcome) \<Rightarrow> (addr \<Rightarrow> c_int \<Rightarrow> 's \<Rightarrow> ('s, unit) outcome) \<Rightarrow>
   (addr \<Rightarrow> c_int \<Rightarrow> 's \<Rightarrow> ('s, unit) outcome) \<Rightarrow> (addr \<Rightarrow> 's \<Rightarrow> ('s, unit) outcome) \<Rightarrow>
   (addr \<Rightarrow> 's \<Rightarrow> ('s, unit) outcome) \<Rightarrow> addr \<Rightarrow> 's \<Rightarrow> ('s, nat) outcome" where
  "test_simple_add_incr_decr load store add incr decr a s =
     bind_outcome (store a 0 s) (\<lambda>_ s. bind_outcome (add a INT_MIN s) (\<lambda>_ s.
     bind_outcome (incr a s) (\<lambda>_ s. bind_outcome (add a INT_MAX s) (\<lambda>_ s.
     bind_outcome (decr a s) (\<lambda>_ s. expect (load a s) (INT_MIN + 1 + INT_MAX - 1) (\<lambda>s.
     bind_outcome (store a 0 s) (\<lambda>_ s. bind_outcome (add a INT_MAX s) (\<lambda>_ s.
     bind_outcome (decr a s) (\<lambda>_ s. bind_outcome (add a INT_MIN s) (\<lambda>_ s.
     bind_outcome (incr a s) (\<lambda>_ s. expect (load a s) (INT_MAX - 1 + INT_MIN + 1) (\<lambda>s. ret 0 s))))))))))))"

text \<open>The loop of \<open>test_simple_decr_and_test\<close> over the values of \<open>i\<close>.\<close>

fun decr_checks :: "(addr \<Rightarrow> 's \<Rightarrow> ('s, c_int) outcome) \<Rightarrow> addr \<Rightarrow> nat list \<Rightarrow>
    ('s \<Rightarrow> ('s, nat) outcome) \<Rightarrow> 's \<Rightarrow> ('s, nat) outcome" where
  "decr_checks decr_and_test a [] k s = k s"
| "decr_checks decr_and_test a (i # is) k s =
     bind_outcome (decr_and_test a s) (\<lambda>x s.
       if x \<noteq> 0 \<and> i \<noteq> 9 then ret 1 s else decr_checks decr_and_test a is k s)"

definition test_simple_decr_and_test ::
  "(addr \<Rightarrow> 's \<Rightarrow> ('s, c_int) outcome) \<Rightarrow> (addr \<Rightarrow> c_int \<Rightarrow> 's \<Rightarrow> ('s, unit) outcome) \<Rightarrow>
   (addr \<Rightarrow> 's \<Rightarrow> ('s, c_int) outcome) \<Rightarrow> addr \<Rightarrow> 's \<Rightarrow> ('s, nat) outcome" where
  "test_simple_decr_and_test load store decr_and_test a s =
     bind_outcome (store a 10 s) (\<lambda>_ s.
     decr_checks decr_and_test a [0..<20] (\<lambda>s. expect (load a s) (- 10) (\<lambda>s. ret 0 s)) s)"

text \<open>A fetching call whose result has to be \<open>expected\<close>, which is then brought up to date.\<close>

definition fetch_and_expect ::
  "('s, c_int) outcome \<Rightarrow> c_int \<Rightarrow> c_int \<Rightarrow> (c_int \<Rightarrow> 's \<Rightarrow> ('s, nat) outcome) \<Rightarrow> ('s, nat) outcome" where
  "fetch_and_expect call expected v k =
     expect call expected (\<lambda>s. bind_outcome (c_value (c_add expected v) s) k)"

definition test_simple_faa_fai_fad ::
  "(addr \<Rightarrow> 's \<Rightarrow> ('s, c_int) outcome) \<Rightarrow> (addr \<Rightarrow> c_int \<Rightarrow> 's \<Rightarrow> ('s, unit) outcome) \<Rightarrow>
   (addr \<Rightarrow> c_int \<Rightarrow> 's \<Rightarrow> ('s, c_int) outcome) \<Rightarrow> (addr \<Rightarrow> 's \<Rightarrow> ('s, c_int) outcome) \<Rightarrow>
   (addr \<Rightarrow> 's \<Rightarrow> ('s, c_int) outcome) \<Rightarrow> addr \<Rightarrow> 's \<Rightarrow> ('s, nat) outcome" where
  "test_simple_faa_fai_fad load store faa fai fad a s =
     bind_outcome (store a 0 s) (\<lambda>_ s. let expected = 0 in
     fetch_and_expect (faa a INT_MIN s) expected INT_MIN (\<lambda>expected s.
     fetch_and_expect (fai a s) expected 1 (\<lambda>expected s.
     fetch_and_expect (faa a INT_MAX s) expected INT_MAX (\<lambda>expected s.
     fetch_and_expect (fad a s) expected (- 1) (\<lambda>expected s.
     expect (load a s) (INT_MIN + 1 + INT_MAX - 1) (\<lambda>s.
     bind_outcome (store a 0 s) (\<lambda>_ s. let expected = 0 in
     fetch_and_expect (faa a INT_MAX s) expected INT_MAX (\<lambda>expected s.
     fetch_and_expect (fad a s) expected (- 1) (\<lambda>expected s.
     fetch_and_expect (faa a INT_MIN s) expected INT_MIN (\<lambda>expected s.
     fetch_and_expect (fai a s) expected 1 (\<lambda>expected s.
     expect (load a s) (INT_MAX - 1 + INT_MIN + 1) (\<lambda>s. ret 0 s))))))))))))"

definition test_simple_cas_int ::
  "(addr \<Rightarrow> 's \<Rightarrow> ('s, c_int) outcome) \<Rightarrow> (addr \<Rightarrow> c_int \<Rightarrow> 's \<Rightarrow> ('s, unit) outcome) \<Rightarrow>
   (addr \<Rightarrow> c_int \<Rightarrow> c_int \<Rightarrow> 's \<Rightarrow> ('s, c_int) outcome) \<Rightarrow> addr \<Rightarrow> 's \<Rightarrow> ('s, nat) outcome" where
  "test_simple_cas_int load store cas a s =
     bind_outcome (store a 0 s) (\<lambda>_ s.
     expect (cas a 1 INT_MAX s) 0 (\<lambda>s. expect (cas a 0 INT_MAX s) 0 (\<lambda>s.
     expect (cas a INT_MAX INT_MIN s) INT_MAX (\<lambda>s. expect (cas a INT_MAX 1 s) INT_MIN (\<lambda>s.
     expect (cas a INT_MIN 1 s) INT_MIN (\<lambda>s. expect (load a s) 1 (\<lambda>s. ret 0 s)))))))"

text \<open>The pointers are what \<open>malloc\<close> has returned.\<close>

definition test_simple_cas_ptr ::
  "(addr \<Rightarrow> 's \<Rightarrow> ('s, addr) outcome) \<Rightarrow> (addr \<Rightarrow> addr \<Rightarrow> 's \<Rightarrow> ('s, unit) outcome) \<Rightarrow>
   (addr \<Rightarrow> addr \<Rightarrow> addr \<Rightarrow> 's \<Rightarrow> ('s, addr) outcome) \<Rightarrow> addr \<Rightarrow> addr \<Rightarrow> addr \<Rightarrow> addr \<Rightarrow> addr \<Rightarrow>
   's \<Rightarrow> ('s, nat) outcome" where
  "test_simple_cas_ptr load store cas a ptr1 ptr2 ptr3 ptr4 s =
     bind_outcome (store a ptr1 s) (\<lambda>_ s.
     expect (cas a ptr2 ptr3 s) ptr1 (\<lambda>s. expect (cas a ptr1 ptr3 s) ptr1 (\<lambda>s.
     expect (cas a ptr3 ptr4 s) ptr3 (\<lambda>s. expect (cas a ptr3 ptr2 s) ptr4 (\<lambda>s.
     expect (cas a ptr4 ptr2 s) ptr4 (\<lambda>s. expect (load a s) ptr2 (\<lambda>s. ret 0 s)))))))"

definition test_simple_swap_int ::
  "(addr \<Rightarrow> 's \<Rightarrow> ('s, c_int) outcome) \<Rightarrow> (addr \<Rightarrow> c_int \<Rightarrow> 's \<Rightarrow> ('s, unit) outcome) \<Rightarrow>
   (addr \<Rightarrow> c_int \<Rightarrow> 's \<Rightarrow> ('s, c_int) outcome) \<Rightarrow> addr \<Rightarrow> 's \<Rightarrow> ('s, nat) outcome" where
  "test_simple_swap_int load store swap a s =
     bind_outcome (store a 0 s) (\<lambda>_ s.
     expect (swap a INT_MAX s) 0 (\<lambda>s. expect (swap a INT_MIN s) INT_MAX (\<lambda>s.
     expect (swap a 1 s) INT_MIN (\<lambda>s. expect (load a s) 1 (\<lambda>s. ret 0 s)))))"

definition test_simple_swap_ptr ::
  "(addr \<Rightarrow> 's \<Rightarrow> ('s, addr) outcome) \<Rightarrow> (addr \<Rightarrow> addr \<Rightarrow> 's \<Rightarrow> ('s, unit) outcome) \<Rightarrow>
   (addr \<Rightarrow> addr \<Rightarrow> 's \<Rightarrow> ('s, addr) outcome) \<Rightarrow> addr \<Rightarrow> addr \<Rightarrow> addr \<Rightarrow> addr \<Rightarrow> addr \<Rightarrow>
   's \<Rightarrow> ('s, nat) outcome" where
  "test_simple_swap_ptr load store swap a ptr1 ptr2 ptr3 ptr4 s =
     bind_outcome (store a ptr1 s) (\<lambda>_ s.
     expect (swap a ptr3 s) ptr1 (\<lambda>s. expect (swap a ptr4 s) ptr3 (\<lambda>s.
     expect (swap a ptr2 s) ptr4 (\<lambda>s. expect (load a s) ptr2 (\<lambda>s. ret 0 s)))))"

text \<open>The test of the pair: a store-conditional that fails is warned of and made up for, once.\<close>

definition sc_or_store ::
  "('s, c_int) outcome \<Rightarrow> ('s \<Rightarrow> ('s, unit) outcome) \<Rightarrow> bool \<Rightarrow> (bool \<Rightarrow> 's \<Rightarrow> ('s, nat) outcome) \<Rightarrow>
   ('s, nat) outcome" where
  "sc_or_store sc store warned k =
     bind_outcome sc (\<lambda>stored s.
       if stored = 0 \<and> \<not> warned then bind_outcome (store s) (\<lambda>_ s. k True s) else k warned s)"

definition test_simple_llsc_int ::
  "'s llsc_port \<Rightarrow> (addr \<Rightarrow> 's \<Rightarrow> ('s, c_int) outcome) \<Rightarrow> (addr \<Rightarrow> c_int \<Rightarrow> 's \<Rightarrow> ('s, unit) outcome) \<Rightarrow>
   addr \<Rightarrow> 's \<Rightarrow> ('s, nat) outcome" where
  "test_simple_llsc_int L load store a s =
     bind_outcome (store a 0 s) (\<lambda>_ s. expect (OPA_LL_int L a s) 0 (\<lambda>s.
     sc_or_store (OPA_SC_int L a INT_MAX s) (store a INT_MAX) False (\<lambda>warned s.
     expect (OPA_LL_int L a s) INT_MAX (\<lambda>s.
     sc_or_store (OPA_SC_int L a INT_MIN s) (store a INT_MIN) warned (\<lambda>warned s.
     expect (OPA_LL_int L a s) INT_MIN (\<lambda>s.
     sc_or_store (OPA_SC_int L a 0 s) (store a 0) warned (\<lambda>warned s.
     expect (load a s) 0 (\<lambda>s. ret 0 s))))))))"

definition test_simple_llsc_ptr ::
  "'s llsc_port \<Rightarrow> (addr \<Rightarrow> 's \<Rightarrow> ('s, addr) outcome) \<Rightarrow> (addr \<Rightarrow> addr \<Rightarrow> 's \<Rightarrow> ('s, unit) outcome) \<Rightarrow>
   addr \<Rightarrow> addr \<Rightarrow> addr \<Rightarrow> addr \<Rightarrow> 's \<Rightarrow> ('s, nat) outcome" where
  "test_simple_llsc_ptr L load store a ptr1 ptr2 ptr3 s =
     bind_outcome (store a ptr1 s) (\<lambda>_ s. expect (OPA_LL_ptr L a s) ptr1 (\<lambda>s.
     sc_or_store (OPA_SC_ptr L a ptr2 s) (store a ptr2) False (\<lambda>warned s.
     expect (OPA_LL_ptr L a s) ptr2 (\<lambda>s.
     sc_or_store (OPA_SC_ptr L a ptr3 s) (store a ptr3) warned (\<lambda>warned s.
     expect (OPA_LL_ptr L a s) ptr3 (\<lambda>s.
     sc_or_store (OPA_SC_ptr L a ptr1 s) (store a ptr1) warned (\<lambda>warned s.
     expect (load a s) ptr1 (\<lambda>s. ret 0 s))))))))"

section \<open>They pass\<close>

definition passes :: "('s \<Rightarrow> bool) \<Rightarrow> ('s, nat) outcome \<Rightarrow> bool" where
  "passes ok out \<longleftrightarrow> (\<exists>s. out = ret 0 s \<and> ok s)"

lemma passes_ret: "ok s \<Longrightarrow> passes ok (ret 0 s)"
  by (simp add: passes_def)

lemma passes_bind:
  "yields ok view out r m \<Longrightarrow> (\<And>s. ok s \<Longrightarrow> view s = m \<Longrightarrow> passes ok (k r s)) \<Longrightarrow> passes ok (bind_outcome out k)"
  by (auto simp: yields_def)

lemma passes_expect:
  "yields ok view out r m \<Longrightarrow> r = v \<Longrightarrow> (\<And>s. ok s \<Longrightarrow> view s = m \<Longrightarrow> passes ok (k s)) \<Longrightarrow> passes ok (expect out v k)"
  by (auto simp: yields_def expect_def)

lemma passes_fetch:
  "yields ok view out r m \<Longrightarrow> r = e \<Longrightarrow> no_overflow e v \<Longrightarrow>
     (\<And>s. ok s \<Longrightarrow> view s = m \<Longrightarrow> passes ok (k (e + v) s)) \<Longrightarrow> passes ok (fetch_and_expect out e v k)"
  by (auto simp: fetch_and_expect_def c_value_add intro: passes_expect)

lemmas int_limits = INT_MIN_def INT_MAX_def no_overflow_def

context opa_primitives
begin

lemma simple_loadstore_int:
  "ok s \<Longrightarrow> a \<noteq> b \<Longrightarrow> passes ok (test_simple_loadstore_int load_int store_int a b s)"
  unfolding test_simple_loadstore_int_def
  by ((rule passes_ret passes_bind [OF store_int_law] passes_expect [OF load_int_law] | assumption | simp)+)

lemma simple_loadstore_ptr:
  "ok s \<Longrightarrow> a \<noteq> b \<Longrightarrow> passes ok (test_simple_loadstore_ptr load_ptr store_ptr a b s)"
  unfolding test_simple_loadstore_ptr_def
  by ((rule passes_ret passes_bind [OF store_ptr_law] passes_expect [OF load_ptr_law] | assumption | simp)+)

lemma simple_add_incr_decr:
  "ok s \<Longrightarrow> passes ok (test_simple_add_incr_decr load_int store_int add_int incr_int decr_int a s)"
  unfolding test_simple_add_incr_decr_def
  by ((rule passes_ret passes_bind [OF store_int_law] passes_bind [OF add_law] passes_bind [OF incr_law]
      passes_bind [OF decr_law] passes_expect [OF load_int_law] | assumption | simp add: int_limits)+)

lemma simple_faa_fai_fad:
  "ok s \<Longrightarrow> passes ok (test_simple_faa_fai_fad load_int store_int fetch_and_add_int fetch_and_incr_int
     fetch_and_decr_int a s)"
  unfolding test_simple_faa_fai_fad_def Let_def
  by ((rule passes_ret passes_bind [OF store_int_law] passes_fetch [OF faa_law] passes_fetch [OF fai_law]
      passes_fetch [OF fad_law] passes_expect [OF load_int_law] | assumption | simp add: int_limits)+)

lemma simple_cas_int: "ok s \<Longrightarrow> passes ok (test_simple_cas_int load_int store_int cas_int a s)"
  unfolding test_simple_cas_int_def
  by ((rule passes_ret passes_bind [OF store_int_law] passes_expect [OF cas_int_law]
      passes_expect [OF load_int_law] | assumption | simp add: int_limits)+)

lemma simple_cas_ptr:
  "ok s \<Longrightarrow> ptr1 \<noteq> ptr2 \<Longrightarrow> ptr3 \<noteq> ptr4 \<Longrightarrow>
     passes ok (test_simple_cas_ptr load_ptr store_ptr cas_ptr a ptr1 ptr2 ptr3 ptr4 s)"
  unfolding test_simple_cas_ptr_def
  by ((rule passes_ret passes_bind [OF store_ptr_law] passes_expect [OF cas_ptr_law]
      passes_expect [OF load_ptr_law] | assumption | simp)+)

lemma simple_swap_int: "ok s \<Longrightarrow> passes ok (test_simple_swap_int load_int store_int swap_int a s)"
  unfolding test_simple_swap_int_def
  by ((rule passes_ret passes_bind [OF store_int_law] passes_expect [OF swap_int_law]
      passes_expect [OF load_int_law] | assumption | simp)+)

lemma simple_swap_ptr:
  "ok s \<Longrightarrow> passes ok (test_simple_swap_ptr load_ptr store_ptr swap_ptr a ptr1 ptr2 ptr3 ptr4 s)"
  unfolding test_simple_swap_ptr_def
  by ((rule passes_ret passes_bind [OF store_ptr_law] passes_expect [OF swap_ptr_law]
      passes_expect [OF load_ptr_law] | assumption | simp)+)

text \<open>The variable after \<open>i\<close> rounds of the loop, and the one round that answers 1.\<close>

lemma decr_checks_pass:
  assumes "\<And>s. ok s \<Longrightarrow> int_at (view s) a = 10 - of_nat (i + n) \<Longrightarrow> passes ok (k s)"
  shows "ok s \<Longrightarrow> i + n \<le> 20 \<Longrightarrow> int_at (view s) a = 10 - of_nat i \<Longrightarrow>
    passes ok (decr_checks decr_and_test_int a [i..<i + n] k s)"
  using assms
proof (induction n arbitrary: i s)
  case 0
  then show ?case by simp
next
  case (Suc n)
  let ?ok = "\<lambda>i. no_overflow (10 - of_nat i) (- 1) \<and> (10 - of_nat i = (1 :: c_int)) = (i = 9)"
  have "i \<in> set [0..<20]" using Suc.prems(2) by simp
  moreover have "list_all ?ok [0..<20]" by (simp add: upt_rec no_overflow_def)
  ultimately have "?ok i" by (simp only: list_all_iff)
  then have range: "no_overflow (10 - of_nat i) (- 1)" and nine: "(10 - of_nat i = (1 :: c_int)) = (i = 9)"
    by blast+
  have "passes ok (decr_checks decr_and_test_int a [Suc i..<Suc i + n] k t)"
    if "ok t" "view t = st_int a (10 - of_nat i - 1) (view s)" for t
    using that Suc.prems by (intro Suc.IH) (simp_all add: algebra_simps)
  moreover have "[i..<i + Suc n] = i # [Suc i..<Suc i + n]" by (simp add: upt_rec)
  ultimately show ?case
    using Suc.prems(1,3) range nine by (auto intro!: passes_bind [OF decr_and_test_law])
qed

lemma simple_decr_and_test:
  assumes "ok s"
  shows "passes ok (test_simple_decr_and_test load_int store_int decr_and_test_int a s)"
proof -
  have "passes ok (expect (load_int a t) (- 10) (ret 0))" if "ok t" "int_at (view t) a = 10 - of_nat (0 + 20)" for t
    using that by (auto intro!: passes_expect [OF load_int_law] passes_ret)
  then have "passes ok (decr_checks decr_and_test_int a [0..<0 + 20] (\<lambda>s. expect (load_int a s) (- 10) (ret 0)) t)"
    if "ok t" "view t = st_int a 10 (view s)" for t
    using that by (intro decr_checks_pass) simp_all
  then show ?thesis
    unfolding test_simple_decr_and_test_def using assms
    by (intro passes_bind [OF store_int_law]) simp_all
qed

end

text \<open>
  On the ports with load-linked and store-conditional, the test of the pair passes if at most one of
  its three store-conditionals fails, and only then: the condition \<open>!warned\<close> also guards the store
  that makes up for a failure.
\<close>

lemma sc_spurious_st [simp]:
  "sc_spurious (st_int a v s) = sc_spurious s" "sc_spurious (st_ptr a w s) = sc_spurious s"
  by (simp_all add: st_int_def st_ptr_def)

lemma llsc_pair:
  "OPA_LL_int arm_llsc = load_linked_int" "OPA_LL_int ppc_llsc = load_linked_int"
  "OPA_LL_ptr arm_llsc = load_linked_ptr" "OPA_LL_ptr ppc_llsc = load_linked_ptr"
  "L \<in> {arm_llsc, ppc_llsc} \<Longrightarrow> OPA_SC_int L a v s
     = ret (c_bool (sc_succeeds a s)) (if sc_succeeds a s then st_int a v (after_sc s) else after_sc s)"
  "L \<in> {arm_llsc, ppc_llsc} \<Longrightarrow> OPA_SC_ptr L a w s
     = ret (c_bool (sc_succeeds a s)) (if sc_succeeds a s then st_ptr a w (after_sc s) else after_sc s)"
  by (auto simp: arm_llsc_def ppc_llsc_def fun_eq_iff llsc_defs strex_int_def strex_ptr_def c_bool_def
      OPA_LL_int_arm_def OPA_LL_ptr_arm_def OPA_SC_int_arm_def OPA_SC_ptr_arm_def
      OPA_LL_int_ppc_def OPA_LL_ptr_ppc_def OPA_SC_int_ppc_def OPA_SC_ptr_ppc_def)

definition gives_result :: "nat \<Rightarrow> ('s, nat) outcome \<Rightarrow> bool" where
  "gives_result r out \<longleftrightarrow> (\<exists>s. out = ret r s)"

text \<open>One round: the failure is made up for unless one was before.\<close>

lemma llsc_round_int:
  assumes "sc_spurious s = f # fs" and "int_at s a \<noteq> x \<Longrightarrow> r = 1" and "L \<in> {arm_llsc, ppc_llsc}"
    and "\<And>t. int_at s a = x \<Longrightarrow> sc_spurious t = fs \<Longrightarrow> int_at t a = (if f \<and> w then x else v) \<Longrightarrow>
      gives_result r (k (f \<or> w) t)"
  shows "gives_result r (expect (load_linked_int a s) x (\<lambda>s.
    sc_or_store (OPA_SC_int L a v s) (\<lambda>s. ret () (st_int a v s)) w k))"
  using assms by (auto simp: gives_result_def expect_def sc_or_store_def load_linked_int_def llsc_pair
      sc_succeeds_def after_sc_def)

lemma llsc_round_ptr:
  assumes "sc_spurious s = f # fs" and "ptr_at s a \<noteq> x \<Longrightarrow> r = 1" and "L \<in> {arm_llsc, ppc_llsc}"
    and "\<And>t. ptr_at s a = x \<Longrightarrow> sc_spurious t = fs \<Longrightarrow> ptr_at t a = (if f \<and> w then x else v) \<Longrightarrow>
      gives_result r (k (f \<or> w) t)"
  shows "gives_result r (expect (load_linked_ptr a s) x (\<lambda>s.
    sc_or_store (OPA_SC_ptr L a v s) (\<lambda>s. ret () (st_ptr a v s)) w k))"
  using assms by (auto simp: gives_result_def expect_def sc_or_store_def load_linked_ptr_def llsc_pair
      sc_succeeds_def after_sc_def)

lemma gives_expect:
  "r = (if y = x then 0 else 1) \<Longrightarrow> gives_result r (expect (ret y s) x (\<lambda>s. ret 0 s))"
  by (simp add: gives_result_def expect_def)

lemma simple_llsc_int_result:
  assumes "sc_spurious s = b1 # b2 # b3 # bs" and L: "L \<in> {arm_llsc, ppc_llsc}"
  shows "gives_result (if b1 \<and> b2 \<or> b1 \<and> b3 \<or> b2 \<and> b3 then 1 else 0)
    (test_simple_llsc_int L (\<lambda>a s. ret (int_at s a) s) (\<lambda>a v s. ret () (st_int a v s)) a s)"
proof -
  have "OPA_LL_int L = load_linked_int" using L llsc_pair(1,2) by auto
  moreover have "INT_MIN \<noteq> 0" "INT_MAX \<noteq> INT_MIN" "INT_MIN \<noteq> INT_MAX" by (simp_all add: int_limits)
  moreover have "sc_spurious (st_int a 0 s) = b1 # b2 # b3 # bs" using assms(1) by simp
  ultimately show ?thesis
    unfolding test_simple_llsc_int_def bind_ret
    apply (simp only:)
    apply (rule llsc_round_int [OF _ _ L], assumption, simp)
    apply (rule llsc_round_int [OF _ _ L], assumption, force)
    apply (rule llsc_round_int [OF _ _ L], assumption, force)
    apply (rule gives_expect, force)
    done
qed

lemma simple_llsc_ptr_result:
  assumes "sc_spurious s = b1 # b2 # b3 # bs" and L: "L \<in> {arm_llsc, ppc_llsc}" and "distinct [ptr1, ptr2, ptr3]"
  shows "gives_result (if b1 \<and> b2 \<or> b1 \<and> b3 \<or> b2 \<and> b3 then 1 else 0)
    (test_simple_llsc_ptr L (\<lambda>a s. ret (ptr_at s a) s) (\<lambda>a v s. ret () (st_ptr a v s)) a ptr1 ptr2 ptr3 s)"
proof -
  have "OPA_LL_ptr L = load_linked_ptr" using L llsc_pair(3,4) by auto
  moreover have "ptr3 \<noteq> ptr1" "ptr2 \<noteq> ptr3" "ptr3 \<noteq> ptr2" using assms(3) by auto
  moreover have "sc_spurious (st_ptr a ptr1 s) = b1 # b2 # b3 # bs" using assms(1) by simp
  ultimately show ?thesis
    unfolding test_simple_llsc_ptr_def bind_ret
    apply (simp only:)
    apply (rule llsc_round_ptr [OF _ _ L], assumption, simp)
    apply (rule llsc_round_ptr [OF _ _ L], assumption, force)
    apply (rule llsc_round_ptr [OF _ _ L], assumption, force)
    apply (rule gives_expect, force)
    done
qed

lemma llsc_accesses:
  "OPA_load_int_arm = (\<lambda>a s. ret (int_at s a) s)" "OPA_load_int_ppc = (\<lambda>a s. ret (int_at s a) s)"
  "OPA_load_ptr_arm = (\<lambda>a s. ret (ptr_at s a) s)" "OPA_load_ptr_ppc = (\<lambda>a s. ret (ptr_at s a) s)"
  "OPA_store_int_arm = (\<lambda>a v s. ret () (st_int a v s))" "OPA_store_int_ppc = (\<lambda>a v s. ret () (st_int a v s))"
  "OPA_store_ptr_arm = (\<lambda>a w s. ret () (st_ptr a w s))" "OPA_store_ptr_ppc = (\<lambda>a w s. ret () (st_ptr a w s))"
  by (simp_all add: fun_eq_iff port_defs)

lemma simple_llsc_tests:
  assumes "sc_spurious s = b1 # b2 # b3 # bs" and "distinct [ptr1, ptr2, ptr3]"
    and "r = (if b1 \<and> b2 \<or> b1 \<and> b3 \<or> b2 \<and> b3 then 1 else 0)"
  shows "gives_result r (test_simple_llsc_int arm_llsc OPA_load_int_arm OPA_store_int_arm a s)"
    and "gives_result r (test_simple_llsc_int ppc_llsc OPA_load_int_ppc OPA_store_int_ppc a s)"
    and "gives_result r (test_simple_llsc_ptr arm_llsc OPA_load_ptr_arm OPA_store_ptr_arm a ptr1 ptr2 ptr3 s)"
    and "gives_result r (test_simple_llsc_ptr ppc_llsc OPA_load_ptr_ppc OPA_store_ptr_ppc a ptr1 ptr2 ptr3 s)"
  unfolding assms(3) llsc_accesses
  by (rule simple_llsc_int_result [OF assms(1)] simple_llsc_ptr_result [OF assms(1) _ assms(2)]; simp)+

text \<open>
  C32. The tests with one thread pass on every port that meets the interface, whatever the memory
  holds before: loads and stores, sums to the limits of \<open>int\<close> and back, the fetching versions, the
  count down through zero, compare-and-swap and swap, on \<open>int\<close> and on pointers, if \<open>malloc\<close> returns
  different pointers.
\<close>

theorem simple_tests_pass:
  assumes "opa_primitives ok view load_int store_int load_p store_p cas_int cas_p swap_int swap_p
      faa add incr decr decr_and_test fai fad"
    and "ok s" and "a \<noteq> b" and "ptr1 \<noteq> ptr2" and "ptr3 \<noteq> ptr4"
  shows "passes ok (test_simple_loadstore_int load_int store_int a b s) \<and>
    passes ok (test_simple_loadstore_ptr load_p store_p a b s) \<and>
    passes ok (test_simple_add_incr_decr load_int store_int add incr decr a s) \<and>
    passes ok (test_simple_decr_and_test load_int store_int decr_and_test a s) \<and>
    passes ok (test_simple_faa_fai_fad load_int store_int faa fai fad a s) \<and>
    passes ok (test_simple_cas_int load_int store_int cas_int a s) \<and>
    passes ok (test_simple_cas_ptr load_p store_p cas_p a ptr1 ptr2 ptr3 ptr4 s) \<and>
    passes ok (test_simple_swap_int load_int store_int swap_int a s) \<and>
    passes ok (test_simple_swap_ptr load_p store_p swap_p a ptr1 ptr2 ptr3 ptr4 s)"
proof -
  note port = assms(1)
  show ?thesis
    using opa_primitives.simple_loadstore_int [OF port assms(2,3)]
      opa_primitives.simple_loadstore_ptr [OF port assms(2,3)]
      opa_primitives.simple_add_incr_decr [OF port assms(2)]
      opa_primitives.simple_decr_and_test [OF port assms(2)]
      opa_primitives.simple_faa_fai_fad [OF port assms(2)]
      opa_primitives.simple_cas_int [OF port assms(2)]
      opa_primitives.simple_cas_ptr [OF port assms(2,4,5)]
      opa_primitives.simple_swap_int [OF port assms(2)]
      opa_primitives.simple_swap_ptr [OF port assms(2)]
    by blast
qed

text \<open>On the ARM port, with a machine that has a failure in store.\<close>

theorem simple_tests_pass_witness:
  "passes (\<lambda>_. True) (test_simple_cas_ptr OPA_load_ptr_arm OPA_store_ptr_arm OPA_cas_ptr_arm 64 1 2 3 4
     \<lparr>int_at = (\<lambda>_. 0), ptr_at = (\<lambda>_. 0), reservation = None, sc_spurious = [True]\<rparr>)"
  using simple_tests_pass [OF arm_port.opa_primitives_axioms TrueI, of 64 128 1 2 3 4] by simp

end
