(* ===== verification/OPA_Clients.thy ===== *)
theory OPA_Clients
  imports OPA_Counters
begin

text \<open>
  Threads that call the primitives. A thread is known by its data and by the next call it makes from
  there, with what it does with the result; the threads run on the machines of \<open>OPA_Lock_Threads\<close>
  and \<open>OPA_Rmw_Threads\<close>. Because these have sequential histories, the threads can be looked at as if
  every call were one step, on the plain memory.
\<close>

section \<open>Threads\<close>

type_synonym 'd code = "'d \<Rightarrow> (prim \<times> (val \<Rightarrow> 'd)) option"

text \<open>The data of a thread after a series of calls with these results.\<close>

fun follows :: "'d code \<Rightarrow> 'd \<Rightarrow> (prim \<times> val) list \<Rightarrow> 'd \<Rightarrow> bool" where
  "follows code x [] y \<longleftrightarrow> y = x"
| "follows code x ((op, v) # cs) y \<longleftrightarrow>
     (case code x of None \<Rightarrow> False | Some (op', k) \<Rightarrow> op' = op \<and> follows code (k v) cs y)"

lemma follows_snoc:
  "follows code x (cs @ [(op, v)]) y \<longleftrightarrow> (\<exists>z k. follows code x cs z \<and> code z = Some (op, k) \<and> y = k v)"
  by (induction cs arbitrary: x) (auto split: option.splits, metis+)

text \<open>Calls with the thread that made them; those of one thread.\<close>

type_synonym call = "nat \<times> prim \<times> val"

definition calls_of :: "nat \<Rightarrow> call list \<Rightarrow> (prim \<times> val) list" where
  "calls_of t cs = map snd (filter (\<lambda>c. fst c = t) cs)"

text \<open>\<open>n\<close> threads have gone from the data \<open>d\<close> to \<open>d'\<close> with the calls \<open>cs\<close>.\<close>

definition threads_call :: "'d code \<Rightarrow> nat \<Rightarrow> (nat \<Rightarrow> 'd) \<Rightarrow> call list \<Rightarrow> (nat \<Rightarrow> 'd) \<Rightarrow> bool" where
  "threads_call code n d cs d' \<longleftrightarrow>
     (\<forall>c \<in> set cs. fst c < n) \<and> (\<forall>t. follows code (d t) (calls_of t cs) (d' t))"

text \<open>The threads with every call as one step.\<close>

inductive c_run :: "'d code \<Rightarrow> nat \<Rightarrow> mem \<Rightarrow> (nat \<Rightarrow> 'd) \<Rightarrow> mem \<Rightarrow> (nat \<Rightarrow> 'd) \<Rightarrow> bool"
  for code :: "'d code" and n :: nat and m0 :: mem and d0 :: "nat \<Rightarrow> 'd" where
  C_Nil: "c_run code n m0 d0 m0 d0"
| C_Snoc: "c_run code n m0 d0 m d \<Longrightarrow> t < n \<Longrightarrow> code (d t) = Some (op, k) \<Longrightarrow> unsafe_prim op m = ret v m' \<Longrightarrow>
    c_run code n m0 d0 m' (d(t := k v))"

text \<open>All threads have come to their end.\<close>

definition all_done :: "'d code \<Rightarrow> nat \<Rightarrow> (nat \<Rightarrow> 'd) \<Rightarrow> bool" where
  "all_done code n d \<longleftrightarrow> (\<forall>t < n. code (d t) = None)"

lemma calls_of_snoc: "calls_of t (cs @ [(u, c)]) = (if t = u then calls_of t cs @ [c] else calls_of t cs)"
  by (simp add: calls_of_def)

lemma calls_as_steps:
  assumes "sequentially m (map snd cs) m'" and "threads_call code n d cs d'"
  shows "c_run code n m d m' d'"
  using assms
proof (induction cs arbitrary: m' d' rule: rev_induct)
  case Nil
  then show ?case by (auto simp: threads_call_def calls_of_def fun_eq_iff intro: C_Nil)
next
  case (snoc c cs)
  obtain t op v where c: "c = (t, op, v)" by (cases c)
  from snoc.prems(1) obtain m1 where m1: "sequentially m (map snd cs) m1" "unsafe_prim op m1 = ret v m'"
    by (auto simp: c sequentially_snoc)
  from snoc.prems(2) have t: "t < n" and other: "\<And>u. u \<noteq> t \<Longrightarrow> follows code (d u) (calls_of u cs) (d' u)"
    and "follows code (d t) (calls_of t cs @ [(op, v)]) (d' t)"
    by (auto simp: threads_call_def c calls_of_snoc split: if_splits)
  then obtain z k where z: "follows code (d t) (calls_of t cs) z" "code z = Some (op, k)" "d' t = k v"
    by (auto simp: follows_snoc)
  have before: "threads_call code n d cs (d'(t := z))"
    using snoc.prems(2) z(1) other by (auto simp: threads_call_def)
  have "code ((d'(t := z)) t) = Some (op, k)" using z(2) by simp
  from C_Snoc [OF snoc.IH [OF m1(1) before] t this m1(2)]
  have "c_run code n m d m' ((d'(t := z))(t := k v))" .
  moreover have "(d'(t := z))(t := k v) = d'" using z(3) by auto
  ultimately show ?case by simp
qed

section \<open>Machines that tell who has called\<close>

locale threaded_runs = atomic_runs run history quiet memory
  for run :: "mem \<Rightarrow> 'l list \<Rightarrow> 's \<Rightarrow> bool"
    and history :: "'l list \<Rightarrow> (prim \<times> val) list"
    and quiet :: "'s \<Rightarrow> bool"
    and memory :: "'s \<Rightarrow> mem" +
  fixes calls :: "'l list \<Rightarrow> call list"
  assumes history_calls: "history ls = map snd (calls ls)"
begin

lemma clients:
  assumes "run m ls s" and "quiet s" and "threads_call code n d (calls ls) d'"
  shows "c_run code n m d (memory s) d'"
proof -
  obtain m' where "sequentially m (map snd (calls ls)) m'" "memory s = m'"
    using sequential [OF assms(1)] assms(2) by (auto simp: history_calls)
  with calls_as_steps [OF _ assms(3)] show ?thesis by simp
qed

end

fun r_call :: "rlabel \<Rightarrow> call list" where
  "r_call (R_Commit t op v) = [(t, op, v)]"
| "r_call _ = []"

fun l_called :: "llabel \<Rightarrow> call list" where
  "l_called L_Tau = []"
| "l_called (L_Done t op v) = [(t, op, v)]"

definition r_calls :: "rlabel list \<Rightarrow> call list" where
  "r_calls ls = concat (map r_call ls)"

definition l_calls :: "llabel list \<Rightarrow> call list" where
  "l_calls ls = concat (map l_called ls)"

lemma committed_calls: "committed ls = map snd (r_calls ls)"
proof (induction ls)
  case (Cons l ls)
  then show ?case by (cases l) (simp_all add: committed_def r_calls_def)
qed (simp add: committed_def r_calls_def)

lemma completed_calls: "completed ls = map snd (l_calls ls)"
proof (induction ls)
  case (Cons l ls)
  then show ?case by (cases l) (simp_all add: completed_def l_calls_def)
qed (simp add: completed_def l_calls_def)

interpretation cas_clients: threaded_runs "\<lambda>m. r_run cas_go (r_init m)" committed "\<lambda>_. True" r_mem r_calls
  by unfold_locales (rule committed_calls)

interpretation llsc_clients: threaded_runs "\<lambda>m. r_run llsc_go (r_init m)" committed "\<lambda>_. True" r_mem r_calls
  by unfold_locales (rule committed_calls)

interpretation lock_clients:
  threaded_runs "\<lambda>m. l_run (l_init m)" completed "\<lambda>s. l_owner s = None" l_mem l_calls
  by unfold_locales (rule completed_calls)

text \<open>
  A run of \<open>n\<close> threads from the memory \<open>m\<close> and the data \<open>d\<close>, on one of the three machines, at the
  end of which nobody is in a critical section.
\<close>

definition threads_run ::
  "'d code \<Rightarrow> nat \<Rightarrow> mem \<Rightarrow> (nat \<Rightarrow> 'd) \<Rightarrow> mem \<Rightarrow> (nat \<Rightarrow> 'd) \<Rightarrow> bool" where
  "threads_run code n m d m' d' \<longleftrightarrow>
     (\<exists>ls s. r_run cas_go (r_init m) ls s \<and> threads_call code n d (r_calls ls) d' \<and> m' = r_mem s) \<or>
     (\<exists>ls s. r_run llsc_go (r_init m) ls s \<and> threads_call code n d (r_calls ls) d' \<and> m' = r_mem s) \<or>
     (\<exists>ls s. l_run (l_init m) ls s \<and> threads_call code n d (l_calls ls) d' \<and> l_owner s = None \<and> m' = l_mem s)"

lemma threads_run_steps: "threads_run code n m d m' d' \<Longrightarrow> c_run code n m d m' d'"
  unfolding threads_run_def
  by (elim disjE exE conjE)
    (simp_all add: cas_clients.clients llsc_clients.clients lock_clients.clients)

text \<open>The data of the threads after a list of calls, to be evaluated.\<close>

fun replay :: "'d code \<Rightarrow> call list \<Rightarrow> (nat \<Rightarrow> 'd) \<Rightarrow> (nat \<Rightarrow> 'd) option" where
  "replay code [] d = Some d"
| "replay code ((t, op, v) # cs) d =
     (case code (d t) of None \<Rightarrow> None
      | Some (op', k) \<Rightarrow> if op' = op then replay code cs (d(t := k v)) else None)"

lemma replay_threads:
  "replay code cs d = Some d' \<Longrightarrow> list_all (\<lambda>c. fst c < n) cs \<Longrightarrow> threads_call code n d cs d'"
proof (induction cs arbitrary: d)
  case (Cons c cs)
  obtain t op v where c: "c = (t, op, v)" by (cases c)
  from Cons.prems obtain k where k: "code (d t) = Some (op, k)" "replay code cs (d(t := k v)) = Some d'"
    by (auto simp: c split: option.splits if_splits)
  from Cons.IH [OF k(2)] Cons.prems(2) have calls: "threads_call code n (d(t := k v)) cs d'"
    by (simp add: fun_upd_def)
  have "follows code (d u) (calls_of u (c # cs)) (d' u)" for u
    using calls k(1) by (cases "u = t") (auto simp: threads_call_def calls_of_def c dest: spec [of _ u])
  with calls Cons.prems(2) show ?case by (simp add: threads_call_def)
qed (simp add: threads_call_def calls_of_def)

section \<open>Invariants of the threads\<close>

text \<open>A property of the data of each thread that its own steps keep.\<close>

lemma run_each:
  assumes "c_run code n m0 d0 m d" and "\<And>t. P t (d0 t)"
    and "\<And>t x op k v. P t x \<Longrightarrow> code x = Some (op, k) \<Longrightarrow> P t (k v)"
  shows "P t (d t)"
  using assms(1) by (induction arbitrary: t rule: c_run.induct) (auto intro: assms(2,3))

text \<open>What a step of one thread does to a sum over all of them.\<close>

lemma sum_thread:
  fixes f :: "nat \<Rightarrow> 'd \<Rightarrow> 'a :: ab_group_add"
  assumes "t < n"
  shows "(\<Sum>i<n. f i ((d(t := x)) i)) = (\<Sum>i<n. f i (d i)) + (f t x - f t (d t))"
proof -
  have split: "(\<Sum>i<n. g i) = g t + (\<Sum>i \<in> {..<n} - {t}. g i)" for g :: "nat \<Rightarrow> 'a"
    using assms by (simp add: sum.remove)
  have "(\<Sum>i \<in> {..<n} - {t}. f i ((d(t := x)) i)) = (\<Sum>i \<in> {..<n} - {t}. f i (d i))"
    by (intro sum.cong) auto
  then show ?thesis
    using split [of "\<lambda>i. f i ((d(t := x)) i)"] split [of "\<lambda>i. f i (d i)"] by (simp del: fun_upd_apply) simp
qed

text \<open>
  Threads that do nothing to the \<open>int\<close> at \<open>p\<close> but add to it: \<open>a\<close> is what a thread adds with each
  call, and \<open>i\<close> counts its calls.
\<close>

lemma run_adds:
  assumes "c_run code n m0 d0 m d" and "\<And>t. i (d0 t) = 0"
    and step: "\<And>x op k v. code x = Some (op, k) \<Longrightarrow>
      adds_to p op \<noteq> None \<and> amount p op = a x \<and> i (k v) = Suc (i x) \<and> a (k v) = a x"
  shows "sint (int_at m p) = sint (int_at m0 p) + (\<Sum>t<n. a (d t) * int (i (d t)))"
  using assms(1)
proof (induction rule: c_run.induct)
  case C_Nil
  then show ?case by (simp add: assms(2))
next
  case (C_Snoc m d t op k v m')
  note st = step [OF C_Snoc.hyps(3), of v]
  have "sint (int_at m' p) = sint (int_at m p) + a (d t)"
    using prim_adds [OF C_Snoc.hyps(4), of p] st by simp
  with C_Snoc.IH st show ?case
    using sum_thread [OF C_Snoc.hyps(2), of "\<lambda>_ x. a x * int (i x)" d "k v"] by (simp add: algebra_simps)
qed

end
