(* ===== verification/OPA_Test_Counters.thy ===== *)
theory OPA_Test_Counters
  imports OPA_Clients OPA_Test_Config
begin

text \<open>
  The threaded tests of the counters in \<open>test/test_primitives.c\<close>: what their threads call, what they
  check, and the result of each test, as clients of the machines of \<open>OPA_Clients\<close>. The address of
  the shared variable is \<open>p\<close>, the number of threads \<open>n\<close>, the number of iterations of a thread
  \<open>niter\<close>; the field \<open>master_thread\<close>, which chooses how a thread exits, is left out, and every record
  has the loop variable of its thread.
\<close>

text \<open>\<open>(2000000 / iter_reduction[curr_test])\<close> and the like.\<close>

definition niter_of :: "nat \<Rightarrow> nat \<Rightarrow> nat" where
  "niter_of most curr_test = most div (iter_reduction ! curr_test)"

fun v_int :: "val \<Rightarrow> c_int" where
  "v_int (V_Int x) = x"
| "v_int _ = 0"

text \<open>A test may return \<open>r\<close>: its threads run from their data to their end, and it finds \<open>r\<close> then.\<close>

definition may_return ::
  "'d code \<Rightarrow> nat \<Rightarrow> mem \<Rightarrow> (nat \<Rightarrow> 'd) \<Rightarrow> (mem \<Rightarrow> (nat \<Rightarrow> 'd) \<Rightarrow> nat) \<Rightarrow> nat \<Rightarrow> bool" where
  "may_return code n m d result r \<longleftrightarrow>
     (\<exists>m' d'. threads_run code n m d m' d' \<and> all_done code n d' \<and> r = result m' d')"

section \<open>test_threaded_add and test_threaded_faa\<close>

record add_t =
  unique_val :: c_int
  add_i :: nat

definition threaded_add_helper :: "addr \<Rightarrow> nat \<Rightarrow> add_t code" where
  "threaded_add_helper p niter x =
     (if add_i x < niter then Some (Add_Int p (unique_val x), \<lambda>_. x\<lparr>add_i := Suc (add_i x)\<rparr>) else None)"

definition threaded_faa_helper :: "addr \<Rightarrow> nat \<Rightarrow> add_t code" where
  "threaded_faa_helper p niter x =
     (if add_i x < niter
      then Some (Fetch_And_Add_Int p (unique_val x), \<lambda>_. x\<lparr>add_i := Suc (add_i x)\<rparr>) else None)"

definition add_thread_data :: "nat \<Rightarrow> nat \<Rightarrow> add_t" where
  "add_thread_data nthreads i = \<lparr>
     unique_val = of_nat i - of_nat ((nthreads - 1) div 2)
       - of_bool (nthreads mod 2 = 0 \<and> nthreads div 2 \<le> i) + of_bool (i = nthreads - 1),
     add_i = 0\<rparr>"

definition add_result :: "addr \<Rightarrow> nat \<Rightarrow> mem \<Rightarrow> (nat \<Rightarrow> add_t) \<Rightarrow> nat" where
  "add_result p niter m d = (if int_at m p \<noteq> of_nat niter then 1 else 0)"

definition test_threaded_add :: "addr \<Rightarrow> nat \<Rightarrow> nat \<Rightarrow> mem \<Rightarrow> nat \<Rightarrow> bool" where
  "test_threaded_add p n niter m r \<longleftrightarrow>
     may_return (threaded_add_helper p niter) n (st_int p 0 m) (add_thread_data n) (add_result p niter) r"

definition test_threaded_faa :: "addr \<Rightarrow> nat \<Rightarrow> nat \<Rightarrow> mem \<Rightarrow> nat \<Rightarrow> bool" where
  "test_threaded_faa p n niter m r \<longleftrightarrow>
     may_return (threaded_faa_helper p niter) n (st_int p 0 m) (add_thread_data n) (add_result p niter) r"

section \<open>test_threaded_incr_decr and test_threaded_fai_fad\<close>

text \<open>The thread \<open>i\<close> runs the decrementing helper if \<open>i & 1\<close>, else the incrementing one.\<close>

record incr_decr_t =
  decrements :: bool
  id_i :: nat

definition threaded_incr_decr_helpers :: "addr \<Rightarrow> nat \<Rightarrow> incr_decr_t code" where
  "threaded_incr_decr_helpers p niter x =
     (if id_i x < niter
      then Some (if decrements x then Decr_Int p else Incr_Int p, \<lambda>_. x\<lparr>id_i := Suc (id_i x)\<rparr>) else None)"

definition threaded_fai_fad_helpers :: "addr \<Rightarrow> nat \<Rightarrow> incr_decr_t code" where
  "threaded_fai_fad_helpers p niter x =
     (if id_i x < niter
      then Some (if decrements x then Fetch_And_Decr_Int p else Fetch_And_Incr_Int p,
        \<lambda>_. x\<lparr>id_i := Suc (id_i x)\<rparr>) else None)"

definition incr_decr_thread_data :: "nat \<Rightarrow> incr_decr_t" where
  "incr_decr_thread_data i = \<lparr>decrements = odd i, id_i = 0\<rparr>"

text \<open>\<open>if(!(nthreads & 1)) nthreads--;\<close>\<close>

definition odd_threads :: "nat \<Rightarrow> nat" where
  "odd_threads nthreads = (if even nthreads then nthreads - 1 else nthreads)"

definition incr_decr_result :: "addr \<Rightarrow> nat \<Rightarrow> mem \<Rightarrow> (nat \<Rightarrow> incr_decr_t) \<Rightarrow> nat" where
  "incr_decr_result p niter m d = (if int_at m p \<noteq> of_nat niter then 1 else 0)"

definition test_threaded_incr_decr :: "addr \<Rightarrow> nat \<Rightarrow> nat \<Rightarrow> mem \<Rightarrow> nat \<Rightarrow> bool" where
  "test_threaded_incr_decr p n niter m r \<longleftrightarrow>
     may_return (threaded_incr_decr_helpers p niter) (odd_threads n) (st_int p 0 m) incr_decr_thread_data
       (incr_decr_result p niter) r"

definition test_threaded_fai_fad :: "addr \<Rightarrow> nat \<Rightarrow> nat \<Rightarrow> mem \<Rightarrow> nat \<Rightarrow> bool" where
  "test_threaded_fai_fad p n niter m r \<longleftrightarrow>
     may_return (threaded_fai_fad_helpers p niter) (odd_threads n) (st_int p 0 m) incr_decr_thread_data
       (incr_decr_result p niter) r"

section \<open>test_threaded_decr_and_test\<close>

definition DECR_AND_TEST_NITER_INNER :: nat where
  "DECR_AND_TEST_NITER_INNER = 20"

record decr_test_t =
  ntrue :: nat
  dt_i :: nat

definition threaded_decr_and_test_helper :: "addr \<Rightarrow> decr_test_t code" where
  "threaded_decr_and_test_helper p x =
     (if dt_i x < DECR_AND_TEST_NITER_INNER
      then Some (Decr_And_Test_Int p,
        \<lambda>v. x\<lparr>ntrue := ntrue x + (if v_int v \<noteq> 0 then 1 else 0), dt_i := Suc (dt_i x)\<rparr>) else None)"

definition starting_val :: "nat \<Rightarrow> nat" where
  "starting_val nthreads = DECR_AND_TEST_NITER_INNER * nthreads div 2"

definition decr_test_thread_data :: "nat \<Rightarrow> decr_test_t" where
  "decr_test_thread_data i = \<lparr>ntrue = 0, dt_i = 0\<rparr>"

text \<open>The errors one round of the outer loop counts, and the rounds, each of which stores the starting value.\<close>

definition decr_test_errors :: "addr \<Rightarrow> nat \<Rightarrow> mem \<Rightarrow> (nat \<Rightarrow> decr_test_t) \<Rightarrow> nat" where
  "decr_test_errors p n m d =
     (\<Sum>j<n. if 1 < ntrue (d j) then 1 else 0)
     + (if (\<Sum>j<n. ntrue (d j)) \<noteq> 1 then 1 else 0)
     + (if int_at m p \<noteq> - of_nat (starting_val n) then 1 else 0)"

inductive decr_test_rounds :: "addr \<Rightarrow> nat \<Rightarrow> nat \<Rightarrow> mem \<Rightarrow> nat \<Rightarrow> mem \<Rightarrow> bool"
  for p :: addr and n :: nat where
  No_Round: "decr_test_rounds p n 0 m 0 m"
| Next_Round: "decr_test_rounds p n k m e m1 \<Longrightarrow>
    threads_run (threaded_decr_and_test_helper p) n (st_int p (of_nat (starting_val n)) m1)
      decr_test_thread_data m2 d \<Longrightarrow>
    all_done (threaded_decr_and_test_helper p) n d \<Longrightarrow>
    decr_test_rounds p n (Suc k) m (e + decr_test_errors p n m2 d) m2"

definition test_threaded_decr_and_test :: "addr \<Rightarrow> nat \<Rightarrow> nat \<Rightarrow> mem \<Rightarrow> nat \<Rightarrow> bool" where
  "test_threaded_decr_and_test p n niter m r \<longleftrightarrow>
     (\<exists>e m'. decr_test_rounds p n niter m e m' \<and> r = (if e \<noteq> 0 then 1 else 0))"

section \<open>test_threaded_faa_ret, test_threaded_fad_ret and test_threaded_fai_ret\<close>

text \<open>\<open>n1\<close> counts the returns of 1, for the increments (\<open>nm1\<close> in \<open>fai_ret_t\<close>) those of -1.\<close>

record faa_ret_t =
  fr_nerrors :: nat
  n1 :: nat
  fr_prev :: c_int
  fr_i :: nat

definition decreasing_checks :: "c_int \<Rightarrow> faa_ret_t \<Rightarrow> faa_ret_t" where
  "decreasing_checks y x = x\<lparr>
     fr_nerrors := fr_nerrors x + (if sint (fr_prev x) \<le> sint y then 1 else 0),
     n1 := n1 x + (if y = 1 then 1 else 0), fr_prev := y, fr_i := Suc (fr_i x)\<rparr>"

definition increasing_checks :: "c_int \<Rightarrow> faa_ret_t \<Rightarrow> faa_ret_t" where
  "increasing_checks y x = x\<lparr>
     fr_nerrors := fr_nerrors x + (if sint y \<le> sint (fr_prev x) then 1 else 0),
     n1 := n1 x + (if y = - 1 then 1 else 0), fr_prev := y, fr_i := Suc (fr_i x)\<rparr>"

definition threaded_faa_ret_helper :: "addr \<Rightarrow> nat \<Rightarrow> faa_ret_t code" where
  "threaded_faa_ret_helper p niter x =
     (if fr_i x < niter
      then Some (Fetch_And_Add_Int p (- 1), \<lambda>v. decreasing_checks (v_int v) x) else None)"

definition threaded_fad_ret_helper :: "addr \<Rightarrow> nat \<Rightarrow> faa_ret_t code" where
  "threaded_fad_ret_helper p niter x =
     (if fr_i x < niter then Some (Fetch_And_Decr_Int p, \<lambda>v. decreasing_checks (v_int v) x) else None)"

definition threaded_fai_ret_helper :: "addr \<Rightarrow> nat \<Rightarrow> faa_ret_t code" where
  "threaded_fai_ret_helper p niter x =
     (if fr_i x < niter then Some (Fetch_And_Incr_Int p, \<lambda>v. increasing_checks (v_int v) x) else None)"

definition faa_ret_thread_data :: "nat \<Rightarrow> faa_ret_t" where
  "faa_ret_thread_data i = \<lparr>fr_nerrors = 0, n1 = 0, fr_prev = INT_MAX, fr_i = 0\<rparr>"

definition fai_ret_thread_data :: "nat \<Rightarrow> faa_ret_t" where
  "fai_ret_thread_data i = \<lparr>fr_nerrors = 0, n1 = 0, fr_prev = INT_MIN, fr_i = 0\<rparr>"

definition ret_result :: "addr \<Rightarrow> nat \<Rightarrow> c_int \<Rightarrow> mem \<Rightarrow> (nat \<Rightarrow> faa_ret_t) \<Rightarrow> nat" where
  "ret_result p n expected m d =
     (if (\<Sum>i<n. fr_nerrors (d i)) \<noteq> 0 then 1
      else if (\<Sum>i<n. n1 (d i)) \<noteq> 1 then 1
      else if int_at m p \<noteq> expected then 1 else 0)"

definition FAA_RET_EXPECTED :: "nat \<Rightarrow> nat \<Rightarrow> c_int" where
  "FAA_RET_EXPECTED nthreads niter = - (of_nat (nthreads - 1) * of_nat niter)"

definition FAI_RET_EXPECTED :: "nat \<Rightarrow> nat \<Rightarrow> c_int" where
  "FAI_RET_EXPECTED nthreads niter = of_nat (nthreads - 1) * of_nat niter"

definition test_threaded_faa_ret :: "addr \<Rightarrow> nat \<Rightarrow> nat \<Rightarrow> mem \<Rightarrow> nat \<Rightarrow> bool" where
  "test_threaded_faa_ret p n niter m r \<longleftrightarrow>
     may_return (threaded_faa_ret_helper p niter) n (st_int p (of_nat niter) m) faa_ret_thread_data
       (ret_result p n (FAA_RET_EXPECTED n niter)) r"

definition test_threaded_fad_ret :: "addr \<Rightarrow> nat \<Rightarrow> nat \<Rightarrow> mem \<Rightarrow> nat \<Rightarrow> bool" where
  "test_threaded_fad_ret p n niter m r \<longleftrightarrow>
     may_return (threaded_fad_ret_helper p niter) n (st_int p (of_nat niter) m) faa_ret_thread_data
       (ret_result p n (FAA_RET_EXPECTED n niter)) r"

definition test_threaded_fai_ret :: "addr \<Rightarrow> nat \<Rightarrow> nat \<Rightarrow> mem \<Rightarrow> nat \<Rightarrow> bool" where
  "test_threaded_fai_ret p n niter m r \<longleftrightarrow>
     may_return (threaded_fai_ret_helper p niter) n (st_int p (- of_nat niter) m) fai_ret_thread_data
       (ret_result p n (FAI_RET_EXPECTED n niter)) r"

section \<open>The sums\<close>

lemmas add_codes = threaded_add_helper_def threaded_faa_helper_def
lemmas incr_decr_codes = threaded_incr_decr_helpers_def threaded_fai_fad_helpers_def
lemmas ret_codes = threaded_faa_ret_helper_def threaded_fad_ret_helper_def threaded_fai_ret_helper_def

lemma may_returnE:
  assumes "may_return code n m d result r"
  obtains m' d' where "c_run code n m d m' d'" and "all_done code n d'" and "r = result m' d'"
  using assms threads_run_steps unfolding may_return_def by blast

text \<open>What all the threads add when each has called as often as its loop says.\<close>

lemma full_sum:
  assumes "\<And>t. t < n \<Longrightarrow> a (d t) = b t" and "\<And>t. t < n \<Longrightarrow> i (d t) = k"
  shows "(\<Sum>t<n. a (d t) * int (i (d t))) = (\<Sum>t<n. b t) * int k"
  using assms by (simp add: sum_distrib_right)

lemma by_sint: "sint (x :: c_int) = z \<Longrightarrow> x = of_int z"
  using of_int_sint [of x, where ?'a = "32 word"] by (simp add: scast_id)

lemma unique_vals_add_up:
  assumes "n \<in> set num_threads"
  shows "(\<Sum>t<n. sint (unique_val (add_thread_data n t))) = 1"
proof -
  have "list_all (\<lambda>n. sum_list (map (\<lambda>t. sint (unique_val (add_thread_data n t))) [0..<n]) = 1) num_threads"
    by code_simp
  with assms show ?thesis
    by (simp add: list_all_iff interv_sum_list_conv_sum_set_nat atLeast0LessThan)
qed

text \<open>Every thread has added its share \<open>niter\<close> times.\<close>

lemma added_up:
  assumes run: "c_run code n m d0 m' d" and "all_done code n d" and "\<And>t. i (d0 t) = 0"
    and step: "\<And>x op k v. code x = Some (op, k) \<Longrightarrow>
      adds_to p op \<noteq> None \<and> amount p op = a x \<and> i (k v) = Suc (i x) \<and> a (k v) = a x"
    and code: "\<And>x. code x = None \<longleftrightarrow> \<not> i x < niter"
  shows "sint (int_at m' p) = sint (int_at m p) + (\<Sum>t<n. a (d0 t)) * int niter"
proof -
  have "a (k v) = a x \<and> i (k v) \<le> niter" if "code x = Some (op, k)" for x op k v
    using step [OF that, of v] code [of x] that by auto
  then have "a (d t) = a (d0 t) \<and> i (d t) \<le> niter" for t
    by (intro run_each [OF run, where P = "\<lambda>t x. a x = a (d0 t) \<and> i x \<le> niter"]) (auto simp: assms(3))
  moreover have "\<not> i (d t) < niter" if "t < n" for t
    using assms(2) code that by (auto simp: all_done_def)
  ultimately have "(\<Sum>t<n. a (d t) * int (i (d t))) = (\<Sum>t<n. a (d0 t)) * int niter"
    by (intro full_sum) (auto simp: not_less intro: order_antisym)
  moreover have "sint (int_at m' p) = sint (int_at m p) + (\<Sum>t<n. a (d t) * int (i (d t)))"
    by (rule run_adds [OF run, where i = i]) (use assms(3) step in auto)
  ultimately show ?thesis by simp
qed

lemma add_test_result:
  assumes "test_threaded_add p n niter m r \<or> test_threaded_faa p n niter m r" and "n \<in> set num_threads"
  shows "r = 0"
proof -
  obtain code m' d' where code: "code = threaded_add_helper p niter \<or> code = threaded_faa_helper p niter"
    and run: "c_run code n (st_int p 0 m) (add_thread_data n) m' d'" and ends: "all_done code n d'"
    and r: "r = add_result p niter m' d'"
    using assms(1) unfolding test_threaded_add_def test_threaded_faa_def by (blast elim: may_returnE)
  have "sint (int_at m' p) = sint (int_at (st_int p 0 m) p)
      + (\<Sum>t<n. sint (unique_val (add_thread_data n t))) * int niter"
    by (rule added_up [OF run ends, where i = add_i])
      (use code in \<open>auto simp: add_codes amount_def add_thread_data_def split: if_splits\<close>)
  then have "sint (int_at m' p) = int niter" by (simp add: unique_vals_add_up [OF assms(2)])
  from by_sint [OF this] show ?thesis by (simp add: r add_result_def)
qed

lemma alternating_sum: "odd (n :: nat) \<Longrightarrow> (\<Sum>t<n. if odd t then - 1 else 1) = (1 :: int)"
proof -
  have "(\<Sum>t<k. if odd t then - 1 else 1) = (if odd k then 1 else 0 :: int)" for k :: nat
    by (induction k) auto
  then show "odd n \<Longrightarrow> ?thesis" by simp
qed

lemma incr_decr_test_result:
  assumes "test_threaded_incr_decr p n niter m r \<or> test_threaded_fai_fad p n niter m r" and "0 < n"
  shows "r = 0"
proof -
  let ?n = "odd_threads n" and ?a = "\<lambda>x. if decrements x then - 1 else 1 :: int"
  obtain code m' d' where
    code: "code = threaded_incr_decr_helpers p niter \<or> code = threaded_fai_fad_helpers p niter"
    and run: "c_run code ?n (st_int p 0 m) incr_decr_thread_data m' d'" and ends: "all_done code ?n d'"
    and r: "r = incr_decr_result p niter m' d'"
    using assms(1) unfolding test_threaded_incr_decr_def test_threaded_fai_fad_def by (blast elim: may_returnE)
  have "odd ?n" using assms(2) by (auto simp: odd_threads_def)
  then have "(\<Sum>t<?n. ?a (incr_decr_thread_data t)) = 1"
    using alternating_sum by (simp add: incr_decr_thread_data_def)
  moreover have "sint (int_at m' p) = sint (int_at (st_int p 0 m) p)
      + (\<Sum>t<?n. ?a (incr_decr_thread_data t)) * int niter"
    by (rule added_up [OF run ends, where i = id_i])
      (use code in \<open>auto simp: incr_decr_codes amount_def incr_decr_thread_data_def split: if_splits\<close>)
  ultimately have "sint (int_at m' p) = int niter" by simp
  from by_sint [OF this] show ?thesis by (simp add: r incr_decr_result_def)
qed

section \<open>The returned values\<close>

text \<open>
  \<open>h\<close> is what is left of the counter, which every call takes one from: the value of a variable that
  is decremented, the negated value of one that is incremented. The call that finds 1 left is made
  once, and what a thread finds left decreases.
\<close>

lemma found_once:
  assumes run: "c_run code n m0 d0 m d" and "1 \<le> (h m0 :: int)" and "\<And>t. g (d0 t) = (0 :: nat)"
    and step: "\<And>x op k v m m'. code x = Some (op, k) \<Longrightarrow> unsafe_prim op m = ret v m' \<Longrightarrow>
      h m' = h m - 1 \<and> g (k v) = g x + (if h m = 1 then 1 else 0)"
  shows "(\<Sum>t<n. int (g (d t))) = (if h m < 1 then 1 else 0)"
  using run
proof (induction rule: c_run.induct)
  case C_Nil
  then show ?case using assms(2,3) by simp
next
  case (C_Snoc m d t op k v m')
  note st = step [OF C_Snoc.hyps(3,4)]
  have "(\<Sum>i<n. int (g ((d(t := k v)) i))) = (\<Sum>i<n. int (g (d i))) + (if h m = 1 then 1 else 0)"
    using sum_thread [OF C_Snoc.hyps(2), of "\<lambda>_ x. int (g x)" d "k v"] st by simp
  then show ?case unfolding C_Snoc.IH using st by simp
qed

lemma found_decreasing:
  assumes run: "c_run code n m0 d0 m d" and "\<And>t. h m0 < (found (d0 t) :: int) \<and> e (d0 t) = (0 :: nat)"
    and step: "\<And>x op k v m m'. code x = Some (op, k) \<Longrightarrow> unsafe_prim op m = ret v m' \<Longrightarrow>
      h m' = h m - 1 \<and> found (k v) = h m \<and> (h m < found x \<longrightarrow> e (k v) = e x)"
  shows "h m < found (d t) \<and> e (d t) = 0"
  using run
proof (induction arbitrary: t rule: c_run.induct)
  case C_Nil
  then show ?case using assms(2) by simp
next
  case (C_Snoc m d u op k v m')
  from step [OF C_Snoc.hyps(3,4)] C_Snoc.IH [of t] C_Snoc.IH [of u] show ?case by auto
qed

lemma sint_small: "k < 2 ^ 31 \<Longrightarrow> sint (of_nat k :: c_int) = int k"
  by transfer (simp add: signed_take_bit_int_eq_self)

lemma sint_small_neg: "k < 2 ^ 31 \<Longrightarrow> sint (- of_nat k :: c_int) = - int k"
  by transfer (simp add: signed_take_bit_int_eq_self)

lemma prim_decr:
  assumes "unsafe_prim op m = ret v m'" and "op = Fetch_And_Add_Int p (- 1) \<or> op = Fetch_And_Decr_Int p"
  shows "v = V_Int (int_at m p) \<and> sint (int_at m' p) = sint (int_at m p) - 1"
  using assms prim_adds [OF assms(1), of p]
  by (auto simp: port_defs Let_def amount_def split: sum.splits)

lemma prim_incr:
  assumes "unsafe_prim (Fetch_And_Incr_Int p) m = ret v m'"
  shows "v = V_Int (int_at m p) \<and> sint (int_at m' p) = sint (int_at m p) + 1"
  using assms prim_adds [OF assms, of p]
  by (auto simp: port_defs Let_def amount_def split: sum.splits)

lemma prim_decr_and_test:
  assumes "unsafe_prim (Decr_And_Test_Int p) m = ret v m'"
  shows "v = V_Int (c_bool (int_at m p = 1)) \<and> sint (int_at m' p) = sint (int_at m p) - 1"
proof -
  have "x + - 1 = 0 \<longleftrightarrow> x = 1" for x :: c_int by simp
  then show ?thesis
    using assms prim_adds [OF assms, of p]
    by (auto simp: port_defs Let_def amount_def c_add_def c_bool_def split: sum.splits if_splits)
qed

lemma sint_eq_1 [simp]: "sint (x :: c_int) = 1 \<longleftrightarrow> x = 1"
  using by_sint [of x 1] by auto

lemma sint_eq_minus_1 [simp]: "sint (x :: c_int) = - 1 \<longleftrightarrow> x = - 1"
  using by_sint [of x "- 1"] by auto

lemma ret_test_passes:
  fixes dir :: int
  assumes run: "c_run code n m faa0 m' d" and ends: "all_done code n d"
    and code: "\<And>x. code x = (if fr_i x < niter then Some (op, \<lambda>v. checks (v_int v) x) else None)"
    and checks: "\<And>y x. fr_i (checks y x) = Suc (fr_i x) \<and> found (checks y x) = dir * sint y
      \<and> n1 (checks y x) = n1 x + (if dir * sint y = 1 then 1 else 0)
      \<and> (dir * sint y < found x \<longrightarrow> fr_nerrors (checks y x) = fr_nerrors x)"
    and op: "adds_to p op \<noteq> None \<and> amount p op = - dir"
    and step: "\<And>v m m'. unsafe_prim op m = ret v m' \<Longrightarrow> v_int v = int_at m p"
    and dir: "dir = 1 \<or> dir = - 1" and start: "dir * sint (int_at m p) = int niter" and "0 < niter" and "0 < n"
    and init: "\<And>t. fr_i (faa0 t) = 0 \<and> n1 (faa0 t) = 0 \<and> fr_nerrors (faa0 t) = 0 \<and> int niter < found (faa0 t)"
  shows "sint (int_at m' p) = - dir * (int (n - 1) * int niter) \<and> (\<Sum>t<n. fr_nerrors (d t)) = 0
    \<and> (\<Sum>t<n. n1 (d t)) = 1"
proof -
  define h where "h m = dir * sint (int_at m p)" for m :: mem
  have down: "h m' = h m - 1 \<and> dir * sint (v_int v) = h m" if "unsafe_prim op m = ret v m'" for m m' v
    using prim_adds [OF that, of p] step [OF that] op dir by (auto simp: h_def algebra_simps)
  have "sint (int_at m' p) = sint (int_at m p) + (\<Sum>t<n. - dir) * int niter"
    by (rule added_up [OF run ends, where i = fr_i])
      (use init op checks in \<open>auto simp: code split: if_splits\<close>)
  moreover define z where z: "z = int (n - 1) * int niter"
  ultimately have final: "sint (int_at m' p) = - dir * z"
    using start dir assms(10) by (auto simp: of_nat_diff algebra_simps)
  have "0 \<le> z" by (simp add: z)
  with dir final have "h m' < 1" by (auto simp: h_def)
  moreover have h0: "h m = int niter" using start by (simp add: h_def)
  have "(\<Sum>t<n. int (n1 (d t))) = (if h m' < 1 then 1 else 0)"
    by (rule found_once [OF run])
      (use h0 assms(9) init down checks in \<open>auto simp: code split: if_splits\<close>)
  ultimately have "(\<Sum>t<n. n1 (d t)) = 1" by (simp flip: of_nat_sum)
  moreover have "fr_nerrors (d t) = 0" for t
  proof -
    have "h m' < found (d t) \<and> fr_nerrors (d t) = 0"
      by (rule found_decreasing [OF run])
        (use h0 init down checks in \<open>auto simp: code split: if_splits\<close>)
    then show ?thesis by simp
  qed
  ultimately show ?thesis using final by (simp add: z)
qed

lemma decreasing_test_result:
  assumes op: "op = Fetch_And_Add_Int p (- 1) \<or> op = Fetch_And_Decr_Int p"
    and code: "\<And>x. code x = (if fr_i x < niter then Some (op, \<lambda>v. decreasing_checks (v_int v) x) else None)"
    and test: "may_return code n (st_int p (of_nat niter) m) faa_ret_thread_data
      (ret_result p n (FAA_RET_EXPECTED n niter)) r"
    and "0 < n" "0 < niter" "niter < 2 ^ 31 - 1"
  shows "r = 0"
proof -
  obtain m' d' where run: "c_run code n (st_int p (of_nat niter) m) faa_ret_thread_data m' d'"
    and ends: "all_done code n d'" and r: "r = ret_result p n (FAA_RET_EXPECTED n niter) m' d'"
    using test by (rule may_returnE)
  have start: "sint (of_nat niter :: c_int) = int niter" using assms(6) by (intro sint_small) simp
  have *: "sint (int_at m' p) = - 1 * (int (n - 1) * int niter) \<and> (\<Sum>t<n. fr_nerrors (d' t)) = 0
      \<and> (\<Sum>t<n. n1 (d' t)) = 1"
    by (rule ret_test_passes [OF run ends code, where found = "\<lambda>x. sint (fr_prev x)" and p = p])
      (use op assms(4-6) start in \<open>auto simp: decreasing_checks_def amount_def faa_ret_thread_data_def INT_MAX_def
        simp del: unsafe_prim.simps dest!: prim_decr\<close>)
  from by_sint [OF conjunct1 [OF *]] * show ?thesis by (simp add: r ret_result_def FAA_RET_EXPECTED_def)
qed

lemma faa_ret_test_result:
  assumes "test_threaded_faa_ret p n niter m r \<or> test_threaded_fad_ret p n niter m r"
    and "0 < n" "0 < niter" "niter < 2 ^ 31 - 1"
  shows "r = 0"
  using assms(1) unfolding test_threaded_faa_ret_def test_threaded_fad_ret_def
proof (elim disjE)
qed (rule decreasing_test_result [OF _ _ _ assms(2-4)]; force simp: ret_codes)+

lemma fai_ret_test_result:
  assumes "test_threaded_fai_ret p n niter m r" and "0 < n" "0 < niter" "niter < 2 ^ 31 - 1"
  shows "r = 0"
proof -
  obtain m' d' where run: "c_run (threaded_fai_ret_helper p niter) n (st_int p (- of_nat niter) m)
      fai_ret_thread_data m' d'" and ends: "all_done (threaded_fai_ret_helper p niter) n d'"
    and r: "r = ret_result p n (FAI_RET_EXPECTED n niter) m' d'"
    using assms(1) unfolding test_threaded_fai_ret_def by (blast elim: may_returnE)
  have start: "sint (- of_nat niter :: c_int) = - int niter" using assms(4) by (intro sint_small_neg) simp
  have *: "sint (int_at m' p) = - (- 1) * (int (n - 1) * int niter) \<and> (\<Sum>t<n. fr_nerrors (d' t)) = 0
      \<and> (\<Sum>t<n. n1 (d' t)) = 1"
    by (rule ret_test_passes [OF run ends threaded_fai_ret_helper_def,
          where found = "\<lambda>x. - sint (fr_prev x)" and p = p])
      (use assms start in \<open>auto simp: increasing_checks_def amount_def fai_ret_thread_data_def INT_MIN_def
        simp del: unsafe_prim.simps dest!: prim_incr\<close>)
  from by_sint [OF conjunct1 [OF *]] * show ?thesis by (simp add: r ret_result_def FAI_RET_EXPECTED_def)
qed

lemma decr_test_round:
  assumes run: "c_run (threaded_decr_and_test_helper p) n (st_int p (of_nat (starting_val n)) m)
      decr_test_thread_data m' d" and ends: "all_done (threaded_decr_and_test_helper p) n d"
    and "0 < n" "10 * n < 2 ^ 31"
  shows "decr_test_errors p n m' d = 0"
proof -
  have val: "starting_val n = 10 * n" by (simp add: starting_val_def DECR_AND_TEST_NITER_INNER_def)
  have start: "sint (of_nat (starting_val n) :: c_int) = 10 * int n"
    using sint_small [of "starting_val n"] assms(4) by (simp add: val)
  have "sint (int_at m' p) = sint (int_at (st_int p (of_nat (starting_val n)) m) p)
      + (\<Sum>t<n. - 1) * int DECR_AND_TEST_NITER_INNER"
    by (rule added_up [OF run ends, where i = dt_i])
      (auto simp: threaded_decr_and_test_helper_def amount_def decr_test_thread_data_def split: if_splits)
  then have final: "sint (int_at m' p) = - int (starting_val n)"
    using start by (simp add: DECR_AND_TEST_NITER_INNER_def val)
  have "(\<Sum>t<n. int (ntrue (d t))) = (if sint (int_at m' p) < 1 then 1 else 0)"
    by (rule found_once [OF run])
      (use start assms(3) in \<open>auto simp: threaded_decr_and_test_helper_def decr_test_thread_data_def
        simp del: unsafe_prim.simps dest!: prim_decr_and_test split: if_splits\<close>)
  then have once: "(\<Sum>t<n. ntrue (d t)) = 1" by (simp add: final flip: of_nat_sum)
  then have "ntrue (d t) \<le> 1" if "t < n" for t
    using member_le_sum [of t "{..<n}" "\<lambda>t. ntrue (d t)"] that by simp
  then have "(\<Sum>j<n. if 1 < ntrue (d j) then 1 else 0 :: nat) = 0" by (auto simp: not_less)
  with once by_sint [OF final] show ?thesis by (simp add: decr_test_errors_def)
qed

lemma decr_test_result:
  assumes "test_threaded_decr_and_test p n niter m r" and "0 < n" "10 * n < 2 ^ 31"
  shows "r = 0"
proof -
  have "e = 0" if "decr_test_rounds p n k m e m'" for k e m'
    using that
  proof (induction rule: decr_test_rounds.induct)
    case (Next_Round k m e m1 m2 d)
    from decr_test_round [OF threads_run_steps [OF Next_Round.hyps(2)] Next_Round.hyps(3) assms(2,3)]
      Next_Round.IH show ?case by simp
  qed simp
  with assms(1) show ?thesis by (auto simp: test_threaded_decr_and_test_def)
qed

section \<open>No call overflows\<close>

lemma prim_in_range:
  assumes "adds_to p op = Some w" and "rmw_place op = Int_At p" and "no_overflow (int_at m p) w"
  shows "\<exists>v m'. unsafe_prim op m = ret v m'"
  using assms by (cases op) (auto simp: port_defs Let_def c_add_def split: if_splits)

text \<open>
  A counter that starts at \<open>start\<close> and to which the threads add at most \<open>niter\<close> times each stays
  within \<open>start\<close> plus or minus all they can add.
\<close>

lemma stays_in_range:
  assumes run: "c_run code n m d0 m' d" and "\<And>t. i (d0 t) = 0"
    and step: "\<And>x op k v. code x = Some (op, k) \<Longrightarrow>
      rmw_place op = Int_At p \<and> (\<exists>w. adds_to p op = Some w \<and> sint w = a x) \<and> i (k v) = Suc (i x) \<and> a (k v) = a x"
    and code: "\<And>x. code x = None \<longleftrightarrow> \<not> i x < niter"
    and range: "\<bar>sint (int_at m p)\<bar> + (\<Sum>t<n. \<bar>a (d0 t)\<bar>) * int niter < 2 ^ 31"
    and t: "t < n" "code (d t) = Some (op, k)"
  shows "\<exists>v m''. unsafe_prim op m' = ret v m''"
proof -
  have kept: "a (d u) = a (d0 u) \<and> i (d u) \<le> niter" for u
  proof (rule run_each [OF run, where P = "\<lambda>t x. a x = a (d0 t) \<and> i x \<le> niter"])
    show "a (k v) = a (d0 u) \<and> i (k v) \<le> niter"
      if "a x = a (d0 u) \<and> i x \<le> niter" "code x = Some (op, k)" for u x op k v
      using step [OF that(2), of v] code [of x] that by auto
  qed (simp add: assms(2))
  obtain w where w: "rmw_place op = Int_At p" "adds_to p op = Some w" "sint w = a (d t)"
    using step [OF t(2)] by auto
  have less: "i (d t) < niter" using code [of "d t"] t by auto
  have "sint (int_at m' p) = sint (int_at m p) + (\<Sum>t<n. a (d t) * int (i (d t)))"
    by (rule run_adds [OF run, where i = i]) (use assms(2) step in \<open>auto simp: amount_def dest!: step\<close>)
  moreover have "(\<Sum>u<n. a (d u) * int (i (d u))) + a (d t)
      = (\<Sum>u<n. a (d u) * int (i (d u) + of_bool (u = t)))"
    using t(1) by (simp add: algebra_simps sum.distrib)
  ultimately have sum: "sint (int_at m' p) + sint w
      = sint (int_at m p) + (\<Sum>u<n. a (d u) * int (i (d u) + of_bool (u = t)))"
    by (simp add: w)
  have "\<bar>\<Sum>u<n. a (d u) * int (i (d u) + of_bool (u = t))\<bar> \<le> (\<Sum>u<n. \<bar>a (d0 u)\<bar> * int niter)"
  proof (rule order_trans [OF sum_abs sum_mono])
    fix u
    have "i (d u) + of_bool (u = t) \<le> niter" using kept [of u] less by (cases "u = t") auto
    then show "\<bar>a (d u) * int (i (d u) + of_bool (u = t))\<bar> \<le> \<bar>a (d0 u)\<bar> * int niter"
      using kept [of u] by (simp add: abs_mult mult_left_mono del: of_nat_add)
  qed
  with range sum have "no_overflow (int_at m' p) w"
    unfolding no_overflow_def sum_distrib_right by arith
  with prim_in_range [OF w(2,1)] show ?thesis by blast
qed

lemma unique_vals_small:
  assumes "n \<in> set num_threads"
  shows "(\<Sum>t<n. \<bar>sint (unique_val (add_thread_data n t))\<bar>) \<le> (if n = 100 then 2451 else 21)"
proof -
  have "list_all (\<lambda>n. sum_list (map (\<lambda>t. \<bar>sint (unique_val (add_thread_data n t))\<bar>) [0..<n])
      \<le> (if n = 100 then 2451 else 21)) num_threads"
    by code_simp
  with assms show ?thesis
    by (simp add: list_all_iff interv_sum_list_conv_sum_set_nat atLeast0LessThan)
qed

lemma within_configs:
  assumes "curr_test < length num_threads"
  shows "(\<Sum>t<num_threads ! curr_test. \<bar>sint (unique_val (add_thread_data (num_threads ! curr_test) t))\<bar>)
      * int (niter_of 2000000 curr_test) < 2 ^ 31"
    and "int (niter_of 2000000 curr_test) + int (num_threads ! curr_test) * int (niter_of 2000000 curr_test) < 2 ^ 31"
proof -
  have "length num_threads = 5" by (simp add: num_threads_def)
  with assms have "curr_test = 0 \<or> curr_test = 1 \<or> curr_test = 2 \<or> curr_test = 3 \<or> curr_test = 4"
    by linarith
  then have configs: "(num_threads ! curr_test, niter_of 2000000 curr_test)
      \<in> {(1, 2000000), (2, 2000000), (4, 2000000), (10, 2000000), (100, 200000)}"
    by (elim disjE) (simp_all add: num_threads_def iter_reduction_def niter_of_def)
  from unique_vals_small [of "num_threads ! curr_test"] assms
  show "(\<Sum>t<num_threads ! curr_test. \<bar>sint (unique_val (add_thread_data (num_threads ! curr_test) t))\<bar>)
      * int (niter_of 2000000 curr_test) < 2 ^ 31"
    using configs by auto
  from configs
  show "int (niter_of 2000000 curr_test) + int (num_threads ! curr_test) * int (niter_of 2000000 curr_test) < 2 ^ 31"
    by auto
qed

section \<open>A run\<close>

text \<open>A schedule of the machine with load-linked and store-conditional makes a run of the threads.\<close>

definition schedule_calls :: "r_action list \<Rightarrow> mem \<Rightarrow> call list" where
  "schedule_calls as m = r_calls (r_labels llsc_go as (r_init m))"

definition schedule_data :: "'d code \<Rightarrow> r_action list \<Rightarrow> mem \<Rightarrow> (nat \<Rightarrow> 'd) \<Rightarrow> (nat \<Rightarrow> 'd) option" where
  "schedule_data code as m d = replay code (schedule_calls as m) d"

definition schedule_ends :: "'d code \<Rightarrow> nat \<Rightarrow> r_action list \<Rightarrow> mem \<Rightarrow> (nat \<Rightarrow> 'd) \<Rightarrow> bool" where
  "schedule_ends code n as m d \<longleftrightarrow>
     \<not> Option.is_none (r_schedule llsc_go as (r_init m)) \<and> list_all (\<lambda>c. fst c < n) (schedule_calls as m) \<and>
     (case schedule_data code as m d of None \<Rightarrow> False
      | Some d' \<Rightarrow> list_all (\<lambda>t. Option.is_none (code (d' t))) [0..<n])"

lemma schedule_returns:
  assumes "schedule_ends code n as m d"
  shows "\<exists>r. may_return code n m d result r"
proof -
  obtain d' where d': "schedule_data code as m d = Some d'"
    and ends: "list_all (\<lambda>t. Option.is_none (code (d' t))) [0..<n]"
    using assms by (auto simp: schedule_ends_def split: option.splits)
  have "threads_call code n d (r_calls (r_labels llsc_go as (r_init m))) d'"
    using d' assms unfolding schedule_data_def schedule_ends_def schedule_calls_def by (blast intro: replay_threads)
  moreover have "r_run llsc_go (r_init m) (r_labels llsc_go as (r_init m)) (r_end llsc_go as (r_init m))"
    using assms by (intro r_schedule_of_run) (simp add: schedule_ends_def)
  ultimately have "threads_run code n m d (r_mem (r_end llsc_go as (r_init m))) d'"
    unfolding threads_run_def by blast
  moreover have "all_done code n d'" using ends by (auto simp: list_all_iff all_done_def Option.is_none_def)
  ultimately show ?thesis unfolding may_return_def by blast
qed

text \<open>Two threads, one of whose rounds fails because the other one was faster.\<close>

definition faa_ret_schedule :: "r_action list" where
  "faa_ret_schedule =
     [R_Begin 0 (Fetch_And_Add_Int 64 (- 1)), R_Begin 1 (Fetch_And_Add_Int 64 (- 1)), R_Turn 0 False,
      R_Turn 1 False, R_Turn 1 False, R_Turn 0 False, R_Turn 0 False, R_Turn 0 False]"

section \<open>Properties\<close>

text \<open>
  C16. The threaded tests of the counters pass. However the threads of \<open>test_threaded_add\<close>,
  \<open>test_threaded_faa\<close>, \<open>test_threaded_incr_decr\<close>, \<open>test_threaded_fai_fad\<close>,
  \<open>test_threaded_decr_and_test\<close>, \<open>test_threaded_faa_ret\<close>, \<open>test_threaded_fad_ret\<close> and
  \<open>test_threaded_fai_ret\<close> interleave, on the lock-based port and over the loops of the others, every
  check of a thread and of the end holds, so the test returns 0.
\<close>

theorem counter_tests_pass:
  assumes "n \<in> set num_threads" and "0 < niter" and "niter < 2 ^ 31 - 1"
    and "test_threaded_add p n niter m r \<or> test_threaded_faa p n niter m r \<or>
      test_threaded_incr_decr p n niter m r \<or> test_threaded_fai_fad p n niter m r \<or>
      test_threaded_decr_and_test p n niter m r \<or> test_threaded_faa_ret p n niter m r \<or>
      test_threaded_fad_ret p n niter m r \<or> test_threaded_fai_ret p n niter m r"
  shows "r = 0"
proof -
  have "0 < n" "10 * n < 2 ^ 31" using assms(1) by (auto simp: num_threads_def)
  with assms show ?thesis
    using add_test_result [of p n niter m r] incr_decr_test_result [of p n niter m r]
      decr_test_result [of p n niter m r] faa_ret_test_result [of p n niter m r]
      fai_ret_test_result [of p n niter m r]
    by blast
qed

theorem counter_tests_pass_witness: "\<exists>r. test_threaded_faa_ret 64 2 1 zero_mem r \<and> r = 0"
proof -
  have "schedule_ends (threaded_faa_ret_helper 64 1) 2 faa_ret_schedule (st_int 64 (of_nat 1) zero_mem)
      faa_ret_thread_data"
    by code_simp
  from schedule_returns [OF this] obtain r where r: "test_threaded_faa_ret 64 2 1 zero_mem r"
    unfolding test_threaded_faa_ret_def by blast
  moreover have "r = 0"
    using counter_tests_pass [of 2 1 64 zero_mem r] r by (simp add: num_threads_def)
  ultimately show ?thesis by blast
qed

text \<open>
  In the configurations of \<open>opa_test.h\<close> no call of these tests overflows: wherever the threads are,
  the next call of each returns.
\<close>

lemma counter_tests_never_overflow:
  assumes "curr_test < length num_threads"
  defines "n \<equiv> num_threads ! curr_test" and "niter \<equiv> niter_of 2000000 curr_test"
  shows "c_run (threaded_add_helper p niter) n (st_int p 0 m) (add_thread_data n) m' d \<Longrightarrow> t < n \<Longrightarrow>
      threaded_add_helper p niter (d t) = Some (op, k) \<Longrightarrow> \<exists>v m''. unsafe_prim op m' = ret v m''"
    and "c_run (threaded_faa_ret_helper p niter) n (st_int p (of_nat niter) m) faa_ret_thread_data m' e \<Longrightarrow> t < n \<Longrightarrow>
      threaded_faa_ret_helper p niter (e t) = Some (op, l) \<Longrightarrow> \<exists>v m''. unsafe_prim op m' = ret v m''"
proof -
  assume run: "c_run (threaded_add_helper p niter) n (st_int p 0 m) (add_thread_data n) m' d"
    and t: "t < n" "threaded_add_helper p niter (d t) = Some (op, k)"
  show "\<exists>v m''. unsafe_prim op m' = ret v m''"
    by (rule stays_in_range [OF run _ _ _ _ t, where i = add_i and a = "\<lambda>x. sint (unique_val x)" and p = p])
      (use within_configs(1) [OF assms(1)] in \<open>auto simp: threaded_add_helper_def n_def niter_def
        add_thread_data_def [of _ _ for n] split: if_splits\<close>)
next
  assume run: "c_run (threaded_faa_ret_helper p niter) n (st_int p (of_nat niter) m) faa_ret_thread_data m' e"
    and t: "t < n" "threaded_faa_ret_helper p niter (e t) = Some (op, l)"
  have "int niter \<le> int niter + int n * int niter" by simp
  then have "int niter < 2 ^ 31"
    using within_configs(2) [OF assms(1)] unfolding n_def niter_def by (rule le_less_trans)
  then have "niter < 2 ^ 31" by simp
  from sint_small [OF this] show "\<exists>v m''. unsafe_prim op m' = ret v m''"
    by (intro stays_in_range [OF run _ _ _ _ t, where i = fr_i and a = "\<lambda>_. - 1" and p = p])
      (use within_configs(2) [OF assms(1)] in \<open>auto simp: threaded_faa_ret_helper_def n_def niter_def
        faa_ret_thread_data_def decreasing_checks_def split: if_splits\<close>)
qed

end
