(* ===== verification/OPA_Test_Swaps.thy ===== *)
theory OPA_Test_Swaps
  imports OPA_Test_Counters
begin

text \<open>
  The threaded tests of loads and stores, compare-and-swap and swap in \<open>test/test_primitives.c\<close>, on
  \<open>int\<close> and on pointer variables, as \<open>OPA_Test_Counters\<close> has those of the counters. Small numbers
  that the C code keeps in an \<open>int\<close> (the number of a thread or a group) are natural numbers here, and
  become words in the calls. An \<open>int\<close> has 4 bytes, which is what adding 1 to an \<open>int *\<close> adds.
\<close>

fun v_ptr :: "val \<Rightarrow> addr" where
  "v_ptr (V_Ptr x) = x"
| "v_ptr _ = 0"

section \<open>test_threaded_loadstore_int and test_threaded_loadstore_ptr\<close>

definition LOADSTORE_INT_DIFF :: nat where
  "LOADSTORE_INT_DIFF = 2 ^ 16 - 1"

definition LOADSTORE_PTR_DIFF :: nat where
  "LOADSTORE_PTR_DIFF = 2 ^ 32 - 1"

record 'a loadstore_t =
  ls_unique_val :: 'a
  ls_nerrors :: nat
  ls_stored :: bool
  ls_i :: nat

text \<open>\<open>ls_stored\<close>: the thread is between the store and the load of an iteration.\<close>

definition threaded_loadstore_int_helper :: "addr \<Rightarrow> nat \<Rightarrow> c_int loadstore_t code" where
  "threaded_loadstore_int_helper p niter x =
     (if ls_i x < niter then
        Some (if ls_stored x
              then (Load_Int p, \<lambda>v. x\<lparr>ls_nerrors := ls_nerrors x +
                (if sint (v_int v) mod int LOADSTORE_INT_DIFF \<noteq> 0 then 1 else 0), ls_stored := False, ls_i := Suc (ls_i x)\<rparr>)
              else (Store_Int p (ls_unique_val x), \<lambda>_. x\<lparr>ls_stored := True\<rparr>))
      else None)"

definition threaded_loadstore_ptr_helper :: "addr \<Rightarrow> nat \<Rightarrow> addr loadstore_t code" where
  "threaded_loadstore_ptr_helper p niter x =
     (if ls_i x < niter then
        Some (if ls_stored x
              then (Load_Ptr p, \<lambda>v. x\<lparr>ls_nerrors := ls_nerrors x +
                (if unat (v_ptr v) mod LOADSTORE_PTR_DIFF \<noteq> 0 then 1 else 0), ls_stored := False, ls_i := Suc (ls_i x)\<rparr>)
              else (Store_Ptr p (ls_unique_val x), \<lambda>_. x\<lparr>ls_stored := True\<rparr>))
      else None)"

definition loadstore_int_thread_data :: "nat \<Rightarrow> c_int loadstore_t" where
  "loadstore_int_thread_data i =
     \<lparr>ls_unique_val = of_nat (i * LOADSTORE_INT_DIFF), ls_nerrors = 0, ls_stored = False, ls_i = 0\<rparr>"

definition loadstore_ptr_thread_data :: "nat \<Rightarrow> addr loadstore_t" where
  "loadstore_ptr_thread_data i =
     \<lparr>ls_unique_val = of_nat (i * LOADSTORE_PTR_DIFF), ls_nerrors = 0, ls_stored = False, ls_i = 0\<rparr>"

definition loadstore_result :: "nat \<Rightarrow> mem \<Rightarrow> (nat \<Rightarrow> 'a loadstore_t) \<Rightarrow> nat" where
  "loadstore_result n m d = (if (\<Sum>i<n. ls_nerrors (d i)) \<noteq> 0 then 1 else 0)"

definition test_threaded_loadstore_int :: "addr \<Rightarrow> nat \<Rightarrow> nat \<Rightarrow> mem \<Rightarrow> nat \<Rightarrow> bool" where
  "test_threaded_loadstore_int p n niter m r \<longleftrightarrow>
     may_return (threaded_loadstore_int_helper p niter) n m loadstore_int_thread_data (loadstore_result n) r"

definition test_threaded_loadstore_ptr :: "addr \<Rightarrow> nat \<Rightarrow> nat \<Rightarrow> mem \<Rightarrow> nat \<Rightarrow> bool" where
  "test_threaded_loadstore_ptr p n niter m r \<longleftrightarrow>
     may_return (threaded_loadstore_ptr_helper p niter) n m loadstore_ptr_thread_data (loadstore_result n) r"

text \<open>
  Once a thread has stored, the variable holds one of the unique values; before that it may hold
  anything, and nobody loads.
\<close>

lemma loads_are_stores:
  assumes run: "c_run code n m0 d0 m d" and "\<And>t. t < n \<Longrightarrow> \<not> ls_stored (d0 t) \<and> ls_nerrors (d0 t) = 0 \<and> good (ls_unique_val (d0 t))"
    and step: "\<And>x op k v m m'. code x = Some (op, k) \<Longrightarrow> unsafe_prim op m = ret v m' \<Longrightarrow>
      ls_unique_val (k v) = ls_unique_val x
      \<and> (if ls_stored x then here m' = here m \<and> (good (here m) \<longrightarrow> ls_nerrors (k v) = ls_nerrors x)
         else here m' = ls_unique_val x \<and> ls_nerrors (k v) = ls_nerrors x)"
  shows "t < n \<Longrightarrow> ls_nerrors (d t) = 0"
proof -
  have "(\<forall>t<n. good (ls_unique_val (d t)) \<and> ls_nerrors (d t) = 0) \<and> (good (here m) \<or> (\<forall>t<n. \<not> ls_stored (d t)))"
    using run
  proof (induction rule: c_run.induct)
    case C_Nil
    with assms(2) show ?case by blast
  next
    case (C_Snoc m d t op k v m')
    from step [OF C_Snoc.hyps(3,4)] C_Snoc.IH C_Snoc.hyps(2) show ?case by (cases "ls_stored (d t)") auto
  qed
  then show "t < n \<Longrightarrow> ?thesis" by blast
qed

lemma loadstore_int_unique:
  assumes "t \<le> 100"
  shows "int LOADSTORE_INT_DIFF dvd sint (of_nat (t * LOADSTORE_INT_DIFF) :: c_int)"
proof -
  have "t * LOADSTORE_INT_DIFF \<le> 100 * LOADSTORE_INT_DIFF" using assms by (rule mult_le_mono1)
  then have "t * LOADSTORE_INT_DIFF < 2 ^ 31" by (simp add: LOADSTORE_INT_DIFF_def)
  then show ?thesis by (subst sint_small) simp_all
qed

lemma loadstore_ptr_unique:
  assumes "t \<le> 100"
  shows "LOADSTORE_PTR_DIFF dvd unat (of_nat (t * LOADSTORE_PTR_DIFF) :: addr)"
proof -
  have "t * LOADSTORE_PTR_DIFF \<le> 100 * LOADSTORE_PTR_DIFF" using assms by (rule mult_le_mono1)
  then have "t * LOADSTORE_PTR_DIFF < 2 ^ 64" by (simp add: LOADSTORE_PTR_DIFF_def)
  then show ?thesis by (simp add: unsigned_of_nat take_bit_nat_eq_self del: of_nat_mult)
qed

lemma loadstore_int_test_result:
  assumes "test_threaded_loadstore_int p n niter m r" and "n \<le> 100"
  shows "r = 0"
proof -
  let ?good = "\<lambda>w :: c_int. int LOADSTORE_INT_DIFF dvd sint w"
  obtain m' d' where run: "c_run (threaded_loadstore_int_helper p niter) n m loadstore_int_thread_data m' d'"
    and r: "r = loadstore_result n m' d'"
    using assms(1) unfolding test_threaded_loadstore_int_def by (blast elim: may_returnE)
  have "ls_nerrors (d' t) = 0" if "t < n" for t
    by (rule loads_are_stores [OF run _ _ that, where good = ?good and here = "\<lambda>m. int_at m p"])
      (use assms(2) loadstore_int_unique in \<open>auto simp: threaded_loadstore_int_helper_def loadstore_int_thread_data_def
        port_defs mod_eq_0_iff_dvd split: if_splits\<close>)
  then show ?thesis by (simp add: r loadstore_result_def)
qed

lemma loadstore_ptr_test_result:
  assumes "test_threaded_loadstore_ptr p n niter m r" and "n \<le> 100"
  shows "r = 0"
proof -
  let ?good = "\<lambda>w :: addr. LOADSTORE_PTR_DIFF dvd unat w"
  obtain m' d' where run: "c_run (threaded_loadstore_ptr_helper p niter) n m loadstore_ptr_thread_data m' d'"
    and r: "r = loadstore_result n m' d'"
    using assms(1) unfolding test_threaded_loadstore_ptr_def by (blast elim: may_returnE)
  have "ls_nerrors (d' t) = 0" if "t < n" for t
    by (rule loads_are_stores [OF run _ _ that, where good = ?good and here = "\<lambda>m. ptr_at m p"])
      (use assms(2) loadstore_ptr_unique in \<open>auto simp: threaded_loadstore_ptr_helper_def loadstore_ptr_thread_data_def
        port_defs mod_eq_0_iff_dvd split: if_splits\<close>)
  then show ?thesis by (simp add: r loadstore_result_def)
qed

section \<open>test_threaded_cas_int, test_threaded_cas_ptr and their grouped versions\<close>

record cas_int_t =
  threadno :: nat
  ci_nsuccess :: nat
  ci_i :: nat

definition threaded_cas_int_helper :: "addr \<Rightarrow> nat \<Rightarrow> nat \<Rightarrow> cas_int_t code" where
  "threaded_cas_int_helper p nthreads niter x =
     (let thread_id = of_nat (threadno x); next_id = of_nat ((threadno x + 1) mod nthreads) in
      if ci_i x < niter then
        Some (Cas_Int p thread_id next_id, \<lambda>v. x\<lparr>
          ci_nsuccess := ci_nsuccess x + (if v_int v = thread_id then 1 else 0), ci_i := Suc (ci_i x)\<rparr>)
      else None)"

definition cas_int_thread_data :: "nat \<Rightarrow> cas_int_t" where
  "cas_int_thread_data i = \<lparr>threadno = i, ci_nsuccess = 0, ci_i = 0\<rparr>"

record grouped_cas_int_t =
  groupno :: nat
  ngroups :: nat
  gi_nsuccess :: nat
  gi_i :: nat

definition grouped_cas_int_helper :: "addr \<Rightarrow> nat \<Rightarrow> grouped_cas_int_t code" where
  "grouped_cas_int_helper p niter x =
     (let group_id = of_nat (groupno x); next_id = of_nat ((groupno x + 1) mod ngroups x) in
      if gi_i x < niter then
        Some (Cas_Int p group_id next_id, \<lambda>v. x\<lparr>
          gi_nsuccess := gi_nsuccess x + (if v_int v = group_id then 1 else 0), gi_i := Suc (gi_i x)\<rparr>)
      else None)"

definition threads_per_group :: "nat \<Rightarrow> nat" where
  "threads_per_group nthreads = (if 2 \<le> nthreads div 4 then 4 else (nthreads + 1) div 2)"

definition number_of_groups :: "nat \<Rightarrow> nat" where
  "number_of_groups nthreads = (nthreads + threads_per_group nthreads - 1) div threads_per_group nthreads"

definition grouped_cas_int_thread_data :: "nat \<Rightarrow> nat \<Rightarrow> grouped_cas_int_t" where
  "grouped_cas_int_thread_data nthreads i =
     \<lparr>groupno = i div threads_per_group nthreads, ngroups = number_of_groups nthreads, gi_nsuccess = 0, gi_i = 0\<rparr>"

text \<open>The pointer \<open>(int *) 0 + i\<close> stands for the number \<open>i\<close>; one type of data for both pointer tests.\<close>

definition ptr_no :: "nat \<Rightarrow> addr" where
  "ptr_no i = of_nat (4 * i)"

record cas_ptr_t =
  cp_no :: addr
  cp_max_no :: addr
  cp_nsuccess :: nat
  cp_i :: nat

definition cas_ptr_helper :: "addr \<Rightarrow> nat \<Rightarrow> cas_ptr_t code" where
  "cas_ptr_helper p niter x =
     (let next_id = (if cp_max_no x < cp_no x + 4 then 0 else cp_no x + 4) in
      if cp_i x < niter then
        Some (Cas_Ptr p (cp_no x) next_id, \<lambda>v. x\<lparr>
          cp_nsuccess := cp_nsuccess x + (if v_ptr v = cp_no x then 1 else 0), cp_i := Suc (cp_i x)\<rparr>)
      else None)"

definition cas_ptr_thread_data :: "nat \<Rightarrow> nat \<Rightarrow> cas_ptr_t" where
  "cas_ptr_thread_data nthreads i =
     \<lparr>cp_no = ptr_no i, cp_max_no = ptr_no (nthreads - 1), cp_nsuccess = 0, cp_i = 0\<rparr>"

definition grouped_cas_ptr_thread_data :: "nat \<Rightarrow> nat \<Rightarrow> cas_ptr_t" where
  "grouped_cas_ptr_thread_data nthreads i =
     \<lparr>cp_no = ptr_no (i div threads_per_group nthreads),
      cp_max_no = ptr_no ((nthreads - 1) div threads_per_group nthreads), cp_nsuccess = 0, cp_i = 0\<rparr>"

text \<open>
  The checks at the end, over the number of successes of each thread or group; \<open>finds i\<close> says that
  the shared variable holds the number \<open>i\<close>.
\<close>

definition cas_checks :: "nat \<Rightarrow> nat \<Rightarrow> (nat \<Rightarrow> nat) \<Rightarrow> (nat \<Rightarrow> bool) \<Rightarrow> nat" where
  "cas_checks nthreads no success finds =
     (if success 0 = 0 then 1
      else if 1 < nthreads \<and> list_ex (\<lambda>i. success (i - 1) < success i
        \<or> success i < success (i - 1) \<and> \<not> finds i) [1..<no] then 1
      else if success 0 = success (no - 1) \<and> \<not> finds 0 then 1
      else if success (no - 1) + 1 < success 0 then 1 else 0)"

definition group_success :: "nat \<Rightarrow> nat \<Rightarrow> (nat \<Rightarrow> nat) \<Rightarrow> nat \<Rightarrow> nat" where
  "group_success nthreads tpg nsuccess g = (\<Sum>t<nthreads. if t div tpg = g then nsuccess t else 0)"

definition test_threaded_cas_int :: "addr \<Rightarrow> nat \<Rightarrow> nat \<Rightarrow> mem \<Rightarrow> nat \<Rightarrow> bool" where
  "test_threaded_cas_int p n niter m r \<longleftrightarrow>
     may_return (threaded_cas_int_helper p n niter) n (st_int p 0 m) cas_int_thread_data
       (\<lambda>m d. cas_checks n n (\<lambda>t. ci_nsuccess (d t)) (\<lambda>i. int_at m p = of_nat i)) r"

definition test_threaded_cas_ptr :: "addr \<Rightarrow> nat \<Rightarrow> nat \<Rightarrow> mem \<Rightarrow> nat \<Rightarrow> bool" where
  "test_threaded_cas_ptr p n niter m r \<longleftrightarrow>
     may_return (cas_ptr_helper p niter) n (st_ptr p 0 m) (cas_ptr_thread_data n)
       (\<lambda>m d. cas_checks n n (\<lambda>t. cp_nsuccess (d t)) (\<lambda>i. ptr_at m p = ptr_no i)) r"

definition test_grouped_cas_int :: "addr \<Rightarrow> nat \<Rightarrow> nat \<Rightarrow> mem \<Rightarrow> nat \<Rightarrow> bool" where
  "test_grouped_cas_int p n niter m r \<longleftrightarrow>
     may_return (grouped_cas_int_helper p niter) n (st_int p 0 m) (grouped_cas_int_thread_data n)
       (\<lambda>m d. cas_checks n (number_of_groups n) (group_success n (threads_per_group n) (\<lambda>t. gi_nsuccess (d t)))
         (\<lambda>i. int_at m p = of_nat i)) r"

definition test_grouped_cas_ptr :: "addr \<Rightarrow> nat \<Rightarrow> nat \<Rightarrow> mem \<Rightarrow> nat \<Rightarrow> bool" where
  "test_grouped_cas_ptr p n niter m r \<longleftrightarrow>
     may_return (cas_ptr_helper p niter) n (st_ptr p 0 m) (grouped_cas_ptr_thread_data n)
       (\<lambda>m d. cas_checks n (number_of_groups n) (group_success n (threads_per_group n) (\<lambda>t. cp_nsuccess (d t)))
         (\<lambda>i. ptr_at m p = ptr_no i)) r"

text \<open>
  The numbers are a ring around which the token, the number in the shared variable, goes. \<open>grp t\<close> is
  the number of a thread, \<open>S g\<close> the successes of all threads with the number \<open>g\<close>: each has as many
  as the last, and one more if the token has passed it in this round.
\<close>

definition ring_inv ::
  "nat \<Rightarrow> nat \<Rightarrow> (nat \<Rightarrow> nat) \<Rightarrow> (nat \<Rightarrow> nat) \<Rightarrow> (nat \<Rightarrow> nat) \<Rightarrow> nat \<Rightarrow> bool" where
  "ring_inv n no grp succ calls j \<longleftrightarrow>
     j < no \<and> (\<exists>q. \<forall>g<no. (\<Sum>t<n. if grp t = g then succ t else 0) = q + (if g < j then 1 else 0)) \<and>
     ((\<Sum>t<n. if grp t = 0 then succ t else 0) = 0 \<longrightarrow> (\<forall>t<n. grp t = 0 \<longrightarrow> calls t = 0))"

lemma ring_checks:
  assumes inv: "ring_inv n no grp succ calls j" and "\<And>i. i < no \<Longrightarrow> finds i \<longleftrightarrow> i = j"
    and "0 < n" and "grp 0 = 0" and "0 < calls 0"
  shows "cas_checks n no (\<lambda>g. \<Sum>t<n. if grp t = g then succ t else 0) finds = 0"
proof -
  let ?S = "\<lambda>g. \<Sum>t<n. if grp t = g then succ t else 0"
  obtain q where q: "\<And>g. g < no \<Longrightarrow> ?S g = q + (if g < j then 1 else 0)" and j: "j < no"
    using inv unfolding ring_inv_def by blast
  have "?S 0 \<noteq> 0" using inv assms(3-5) unfolding ring_inv_def by (metis less_numeral_extra(3))
  moreover have "\<not> (?S (i - 1) < ?S i \<or> ?S i < ?S (i - 1) \<and> \<not> finds i)" if "1 \<le> i" "i < no" for i
    using q [of i] q [of "i - 1"] that assms(2) [of i] by (auto split: if_splits)
  then have "\<not> list_ex (\<lambda>i. ?S (i - 1) < ?S i \<or> ?S i < ?S (i - 1) \<and> \<not> finds i) [1..<no]"
    by (auto simp: list_ex_iff)
  moreover have "\<not> (?S 0 = ?S (no - 1) \<and> \<not> finds 0)" "\<not> ?S (no - 1) + 1 < ?S 0"
    using q [of 0] q [of "no - 1"] j assms(2) [of 0] by (auto split: if_splits)
  ultimately show ?thesis unfolding cas_checks_def by presburger
qed

lemma sum_one_more:
  fixes f :: "nat \<Rightarrow> nat"
  assumes "t < n"
  shows "(\<Sum>u<n. if grp u = g then (f(t := Suc (f t))) u else 0)
    = (\<Sum>u<n. if grp u = g then f u else 0) + (if grp t = g then 1 else 0)"
proof -
  have "(if grp u = g then (f(t := Suc (f t))) u else 0)
      = (if grp u = g then f u else 0) + (if u = t then if grp t = g then 1 else 0 else 0)" for u
    by simp
  then show ?thesis using assms by (simp add: sum.distrib)
qed

lemma ring_hit:
  assumes inv: "ring_inv n no grp succ calls (grp t)" and t: "t < n"
  shows "ring_inv n no grp (succ(t := Suc (succ t))) (calls(t := c)) (Suc (grp t) mod no)"
proof -
  let ?S = "\<lambda>g. \<Sum>u<n. if grp u = g then succ u else 0"
    and ?S' = "\<lambda>g. \<Sum>u<n. if grp u = g then (succ(t := Suc (succ t))) u else 0"
  obtain q where q: "\<And>g. g < no \<Longrightarrow> ?S g = q + (if g < grp t then 1 else 0)" and j: "grp t < no"
    using inv unfolding ring_inv_def by blast
  have S': "?S' g = q + (if g < grp t then 1 else 0) + (if grp t = g then 1 else 0)" if "g < no" for g
    unfolding sum_one_more [OF t] q [OF that] ..
  have "\<exists>q'. \<forall>g<no. ?S' g = q' + (if g < Suc (grp t) mod no then 1 else 0)"
  proof (cases "Suc (grp t) = no")
    case True
    then have "\<forall>g<no. ?S' g = Suc q + (if g < Suc (grp t) mod no then 1 else 0)"
      by (auto simp: S' simp del: fun_upd_apply)
    then show ?thesis ..
  next
    case False
    then have "\<forall>g<no. ?S' g = q + (if g < Suc (grp t) mod no then 1 else 0)"
      using j by (auto simp: S' simp del: fun_upd_apply)
    then show ?thesis ..
  qed
  moreover have "?S' 0 \<noteq> 0" using S' [of 0] j by (cases "grp t = 0") (simp_all del: fun_upd_apply)
  moreover have "Suc (grp t) mod no < no" using j by simp
  ultimately show ?thesis unfolding ring_inv_def by blast
qed

lemma ring_miss:
  assumes inv: "ring_inv n no grp succ calls j" and "j \<noteq> grp t"
  shows "ring_inv n no grp succ (calls(t := c)) j"
proof -
  have "j = 0" if "(\<Sum>u<n. if grp u = 0 then succ u else 0) = 0"
  proof -
    obtain q where "\<And>g. g < no \<Longrightarrow> (\<Sum>u<n. if grp u = g then succ u else 0) = q + (if g < j then 1 else 0)"
      and "j < no"
      using inv unfolding ring_inv_def by blast
    from trans [OF sym [OF that] this(1) [of 0]] this(2) show ?thesis by (simp split: if_splits)
  qed
  with assms show ?thesis by (auto simp: ring_inv_def simp del: sum_eq_0_iff)
qed

lemma ring_run:
  assumes run: "c_run code n m0 d0 m d" and "enc m0 0" "0 < no"
    and init: "\<And>t. t < n \<Longrightarrow> P t (d0 t) \<and> succ (d0 t) = 0 \<and> calls (d0 t) = 0"
    and step: "\<And>t x op k v m m' j. t < n \<Longrightarrow> P t x \<Longrightarrow> code x = Some (op, k) \<Longrightarrow> unsafe_prim op m = ret v m' \<Longrightarrow>
      j < no \<Longrightarrow> enc m j \<Longrightarrow> P t (k v) \<and> calls (k v) = Suc (calls x) \<and>
      (if j = grp t then enc m' (Suc j mod no) \<and> succ (k v) = Suc (succ x) else enc m' j \<and> succ (k v) = succ x)"
  shows "\<exists>j. enc m j \<and> ring_inv n no grp (\<lambda>t. succ (d t)) (\<lambda>t. calls (d t)) j \<and> (\<forall>t<n. P t (d t))"
  using run
proof (induction rule: c_run.induct)
  case C_Nil
  have "(\<Sum>t<n. if grp t = g then succ (d0 t) else 0) = 0" for g using init by auto
  with assms(2,3) init show ?case by (intro exI [of _ 0]) (simp add: ring_inv_def)
next
  case (C_Snoc m d t op k v m')
  then obtain j where j: "enc m j" "ring_inv n no grp (\<lambda>t. succ (d t)) (\<lambda>t. calls (d t)) j"
    and P: "\<forall>t<n. P t (d t)" by blast
  have st: "P t (k v)" "if j = grp t then enc m' (Suc j mod no) \<and> succ (k v) = Suc (succ (d t))
      else enc m' j \<and> succ (k v) = succ (d t)"
    using step [OF C_Snoc.hyps(2) _ C_Snoc.hyps(3,4) _ j(1)] P C_Snoc.hyps(2) j(2) by (auto simp: ring_inv_def)
  have upd: "(\<lambda>u. g ((d(t := k v)) u)) = (\<lambda>u. g (d u))(t := g (k v))" for g :: "_ \<Rightarrow> nat" by auto
  have P': "\<forall>u<n. P u ((d(t := k v)) u)" using P st(1) by simp
  show ?case
  proof (cases "j = grp t")
    case True
    with ring_hit [OF j(2) [unfolded True] C_Snoc.hyps(2)] st P' show ?thesis
      unfolding upd by (intro exI [of _ "Suc j mod no"]) simp
  next
    case False
    have same: "(\<lambda>u. succ (d u))(t := succ (d t)) = (\<lambda>u. succ (d u))" by auto
    from False ring_miss [OF j(2) False] st P' show ?thesis
      unfolding upd by (intro exI [of _ j]) (simp add: same)
  qed
qed

lemma ring_test:
  assumes run: "c_run code n m0 d0 m d" and ends: "all_done code n d" and enc: "enc m0 0" "0 < no"
    and init: "\<And>t. t < n \<Longrightarrow> P t (d0 t) \<and> succ (d0 t) = 0 \<and> calls (d0 t) = 0"
    and step: "\<And>t x op k v m m' j. t < n \<Longrightarrow> P t x \<Longrightarrow> code x = Some (op, k) \<Longrightarrow> unsafe_prim op m = ret v m' \<Longrightarrow>
      j < no \<Longrightarrow> enc m j \<Longrightarrow> P t (k v) \<and> calls (k v) = Suc (calls x) \<and>
      (if j = grp t then enc m' (Suc j mod no) \<and> succ (k v) = Suc (succ x) else enc m' j \<and> succ (k v) = succ x)"
    and code: "\<And>x. code x = None \<longleftrightarrow> \<not> calls x < niter" and niter: "0 < niter"
    and finds: "\<And>i j. enc m j \<Longrightarrow> j < no \<Longrightarrow> i < no \<Longrightarrow> finds i \<longleftrightarrow> i = j" and n: "0 < n" and grp: "grp 0 = 0"
  shows "cas_checks n no (\<lambda>g. \<Sum>t<n. if grp t = g then succ (d t) else 0) finds = 0"
proof -
  have "\<exists>j. enc m j \<and> ring_inv n no grp (\<lambda>t. succ (d t)) (\<lambda>t. calls (d t)) j \<and> (\<forall>t<n. P t (d t))"
    by (rule ring_run [OF run, where P = P and succ = succ and calls = calls and enc = enc])
      (fact enc, fact enc, fact init, fact step)
  then obtain j where j: "enc m j" "ring_inv n no grp (\<lambda>t. succ (d t)) (\<lambda>t. calls (d t)) j" by blast
  have "0 < calls (d 0)" using ends n code [of "d 0"] niter by (auto simp: all_done_def)
  with ring_checks [OF j(2) finds [OF j(1)] n grp] j(2) show ?thesis by (simp add: ring_inv_def)
qed

lemma cas_checks_cong:
  assumes "\<And>g. g < no \<Longrightarrow> f g = h g" and "0 < no"
  shows "cas_checks n no f finds = cas_checks n no h finds"
proof -
  have "f 0 = h 0" "f (no - 1) = h (no - 1)" using assms by simp_all
  moreover have "f i = h i \<and> f (i - 1) = h (i - 1)" if "i < no" for i using assms that by simp
  then have "list_ex (\<lambda>i. f (i - 1) < f i \<or> f i < f (i - 1) \<and> \<not> finds i) [1..<no] =
      list_ex (\<lambda>i. h (i - 1) < h i \<or> h i < h (i - 1) \<and> \<not> finds i) [1..<no]"
    by (auto simp: list_ex_iff)
  ultimately show ?thesis by (simp add: cas_checks_def)
qed

lemma own_group: "g < (n :: nat) \<Longrightarrow> (\<Sum>t<n. if t = g then f t else 0) = (f g :: nat)"
  by simp

lemma of_nat_c_int_inj:
  assumes "i \<le> 100" "j \<le> 100"
  shows "(of_nat i :: c_int) = of_nat j \<longleftrightarrow> i = j"
proof -
  have "i < 2 ^ 31" "j < 2 ^ 31" using assms by simp_all
  from sint_small [OF this(1)] sint_small [OF this(2)] show ?thesis by (metis of_nat_eq_iff)
qed

lemma unat_ptr_no:
  assumes "i \<le> 101"
  shows "unat (ptr_no i) = 4 * i"
proof -
  have "4 * i < 2 ^ 64" using assms by simp
  then show ?thesis by (simp add: ptr_no_def unsigned_of_nat take_bit_nat_eq_self del: of_nat_mult)
qed

lemma ptr_no_inj:
  assumes "i \<le> 100" "j \<le> 100"
  shows "ptr_no i = ptr_no j \<longleftrightarrow> i = j"
proof -
  have "i \<le> 101" "j \<le> 101" using assms by simp_all
  from unat_ptr_no [OF this(1)] unat_ptr_no [OF this(2)] show ?thesis
    by (metis nat_mult_eq_cancel1 zero_less_numeral)
qed

lemma ptr_no_next:
  assumes "g < no" "no \<le> 100"
  shows "(if ptr_no (no - 1) < ptr_no g + 4 then 0 else ptr_no g + 4) = ptr_no (Suc g mod no)"
proof -
  have suc: "ptr_no g + 4 = ptr_no (Suc g)" by (simp add: ptr_no_def)
  have "ptr_no (no - 1) < ptr_no (Suc g) \<longleftrightarrow> Suc g = no"
    using assms unat_ptr_no [of "no - 1"] unat_ptr_no [of "Suc g"] by (auto simp: word_less_nat_alt)
  then show ?thesis using assms unfolding suc by (cases "Suc g = no") (simp_all add: ptr_no_def)
qed

lemma prim_cas_int:
  "unsafe_prim (Cas_Int p a b) m = ret v m' \<Longrightarrow>
     v = V_Int (int_at m p) \<and> int_at m' p = (if int_at m p = a then b else int_at m p)"
  by (auto simp: port_defs Let_def split: if_splits)

lemma prim_cas_ptr:
  "unsafe_prim (Cas_Ptr p a b) m = ret v m' \<Longrightarrow>
     v = V_Ptr (ptr_at m p) \<and> ptr_at m' p = (if ptr_at m p = a then b else ptr_at m p)"
  by (auto simp: port_defs Let_def split: if_splits)

lemma cas_int_test_result:
  assumes "test_threaded_cas_int p n niter m r" and n: "0 < n" "n \<le> 100" and "0 < niter"
  shows "r = 0"
proof -
  obtain m' d' where run: "c_run (threaded_cas_int_helper p n niter) n (st_int p 0 m) cas_int_thread_data m' d'"
    and ends: "all_done (threaded_cas_int_helper p n niter) n d'"
    and r: "r = cas_checks n n (\<lambda>t. ci_nsuccess (d' t)) (\<lambda>i. int_at m' p = of_nat i)"
    using assms(1) unfolding test_threaded_cas_int_def by (blast elim: may_returnE)
  have "cas_checks n n (\<lambda>g. \<Sum>t<n. if t = g then ci_nsuccess (d' t) else 0) (\<lambda>i. int_at m' p = of_nat i) = 0"
    by (rule ring_test [OF run ends, where P = "\<lambda>t x. threadno x = t" and calls = ci_i and niter = niter
          and enc = "\<lambda>m j. int_at m p = of_nat j"])
      (use assms of_nat_c_int_inj in \<open>auto simp: threaded_cas_int_helper_def cas_int_thread_data_def Let_def
        simp del: unsafe_prim.simps split: if_splits dest!: prim_cas_int\<close>)
  moreover have "cas_checks n n (\<lambda>g. \<Sum>t<n. if t = g then ci_nsuccess (d' t) else 0) (\<lambda>i. int_at m' p = of_nat i) = r"
    unfolding r by (rule cas_checks_cong [OF own_group n(1)])
  ultimately show ?thesis by simp
qed

lemma cas_ptr_step:
  assumes x: "cp_no x = ptr_no g \<and> cp_max_no x = ptr_no (no - 1)" and g: "g < no" "no \<le> 100"
    and code: "cas_ptr_helper p niter x = Some (op, k)" and prim: "unsafe_prim op m = ret v m'"
    and j: "j < no" "ptr_at m p = ptr_no j"
  shows "(cp_no (k v) = ptr_no g \<and> cp_max_no (k v) = ptr_no (no - 1)) \<and> cp_i (k v) = Suc (cp_i x) \<and>
    (if j = g then ptr_at m' p = ptr_no (Suc j mod no) \<and> cp_nsuccess (k v) = Suc (cp_nsuccess x)
     else ptr_at m' p = ptr_no j \<and> cp_nsuccess (k v) = cp_nsuccess x)"
proof -
  have op: "op = Cas_Ptr p (ptr_no g) (ptr_no (Suc g mod no))"
    using code x by (auto simp: cas_ptr_helper_def Let_def ptr_no_next [OF g, symmetric] split: if_splits)
  have k: "k = (\<lambda>v. x\<lparr>cp_nsuccess := cp_nsuccess x + (if v_ptr v = ptr_no g then 1 else 0), cp_i := Suc (cp_i x)\<rparr>)"
    using code x by (auto simp: cas_ptr_helper_def Let_def split: if_splits)
  have "ptr_no j = ptr_no g \<longleftrightarrow> j = g" using g j(1) by (intro ptr_no_inj) simp_all
  with prim_cas_ptr [OF prim [unfolded op]] j(2) x show ?thesis by (simp add: k)
qed

lemma cas_ptr_ring:
  assumes run: "c_run (cas_ptr_helper p niter) n m0 d0 m d" and ends: "all_done (cas_ptr_helper p niter) n d"
    and data: "ptr_at m0 p = 0" "\<And>t. t < n \<Longrightarrow> grp t < no \<and> cp_no (d0 t) = ptr_no (grp t)
      \<and> cp_max_no (d0 t) = ptr_no (no - 1) \<and> cp_nsuccess (d0 t) = 0 \<and> cp_i (d0 t) = 0"
    and no: "0 < no" "no \<le> 100" and "0 < n" "grp 0 = 0" "0 < niter"
  shows "cas_checks n no (\<lambda>g. \<Sum>t<n. if grp t = g then cp_nsuccess (d t) else 0) (\<lambda>i. ptr_at m p = ptr_no i) = 0"
proof (rule ring_test [OF run ends, where calls = cp_i and niter = niter and enc = "\<lambda>m j. ptr_at m p = ptr_no j"
      and P = "\<lambda>t x. grp t < no \<and> cp_no x = ptr_no (grp t) \<and> cp_max_no x = ptr_no (no - 1)"])
  show "(grp t < no \<and> cp_no (k v) = ptr_no (grp t) \<and> cp_max_no (k v) = ptr_no (no - 1)) \<and> cp_i (k v) = Suc (cp_i x) \<and>
      (if j = grp t then ptr_at m' p = ptr_no (Suc j mod no) \<and> cp_nsuccess (k v) = Suc (cp_nsuccess x)
       else ptr_at m' p = ptr_no j \<and> cp_nsuccess (k v) = cp_nsuccess x)"
    if "grp t < no \<and> cp_no x = ptr_no (grp t) \<and> cp_max_no x = ptr_no (no - 1)"
      "cas_ptr_helper p niter x = Some (op, k)" "unsafe_prim op m = ret v m'" "j < no" "ptr_at m p = ptr_no j"
    for t x op k v m m' j
    using cas_ptr_step [OF conjunct2 [OF that(1)] conjunct1 [OF that(1)] no(2) that(2-5)] that(1) by blast
  show "ptr_at m p = ptr_no i \<longleftrightarrow> i = j" if "ptr_at m p = ptr_no j" "j < no" "i < no" for i j
    using that ptr_no_inj [of j i] no(2) by auto
qed (use assms in \<open>auto simp: cas_ptr_helper_def Let_def ptr_no_def [of 0]\<close>)

lemma cas_ptr_test_result:
  assumes "test_threaded_cas_ptr p n niter m r" and n: "0 < n" "n \<le> 100" and "0 < niter"
  shows "r = 0"
proof -
  obtain m' d' where run: "c_run (cas_ptr_helper p niter) n (st_ptr p 0 m) (cas_ptr_thread_data n) m' d'"
    and ends: "all_done (cas_ptr_helper p niter) n d'"
    and r: "r = cas_checks n n (\<lambda>t. cp_nsuccess (d' t)) (\<lambda>i. ptr_at m' p = ptr_no i)"
    using assms(1) unfolding test_threaded_cas_ptr_def by (blast elim: may_returnE)
  have "cas_checks n n (\<lambda>g. \<Sum>t<n. if t = g then cp_nsuccess (d' t) else 0) (\<lambda>i. ptr_at m' p = ptr_no i) = 0"
    by (rule cas_ptr_ring [OF run ends]) (use assms in \<open>simp_all add: cas_ptr_thread_data_def\<close>)
  moreover have "cas_checks n n (\<lambda>g. \<Sum>t<n. if t = g then cp_nsuccess (d' t) else 0) (\<lambda>i. ptr_at m' p = ptr_no i) = r"
    unfolding r by (rule cas_checks_cong [OF own_group n(1)])
  ultimately show ?thesis by simp
qed

text \<open>The groups.\<close>

lemma groups:
  assumes "0 < n"
  shows "0 < threads_per_group n" and "number_of_groups n = Suc ((n - 1) div threads_per_group n)"
    and "t < n \<Longrightarrow> t div threads_per_group n < number_of_groups n" and "number_of_groups n \<le> n"
proof -
  show tpg: "0 < threads_per_group n" using assms by (auto simp: threads_per_group_def)
  have round: "n + threads_per_group n - 1 = (n - 1) + threads_per_group n" using assms by simp
  show no: "number_of_groups n = Suc ((n - 1) div threads_per_group n)"
    unfolding number_of_groups_def round using tpg div_add_self2 [of "threads_per_group n" "n - 1"] by simp
  show "t div threads_per_group n < number_of_groups n" if "t < n"
  proof -
    have "t \<le> n - 1" using that by simp
    from div_le_mono [OF this] show ?thesis unfolding no by (rule le_imp_less_Suc)
  qed
  have "(n - 1) div threads_per_group n \<le> n - 1" by simp
  with assms show "number_of_groups n \<le> n" unfolding no by linarith
qed

lemma grouped_cas_int_test_result:
  assumes "test_grouped_cas_int p n niter m r" and n: "0 < n" "n \<le> 100" and "0 < niter"
  shows "r = 0"
proof -
  let ?no = "number_of_groups n" and ?grp = "\<lambda>t. t div threads_per_group n"
  obtain m' d' where run: "c_run (grouped_cas_int_helper p niter) n (st_int p 0 m) (grouped_cas_int_thread_data n) m' d'"
    and ends: "all_done (grouped_cas_int_helper p niter) n d'"
    and r: "r = cas_checks n ?no (group_success n (threads_per_group n) (\<lambda>t. gi_nsuccess (d' t)))
      (\<lambda>i. int_at m' p = of_nat i)"
    using assms(1) unfolding test_grouped_cas_int_def by (blast elim: may_returnE)
  have no: "0 < ?no" "\<And>g. g < ?no \<Longrightarrow> g \<le> 100" using groups(2,4) [OF n(1)] n(2) by auto
  have "cas_checks n ?no (\<lambda>g. \<Sum>t<n. if ?grp t = g then gi_nsuccess (d' t) else 0) (\<lambda>i. int_at m' p = of_nat i) = 0"
    by (rule ring_test [OF run ends, where P = "\<lambda>t x. groupno x = ?grp t \<and> ngroups x = ?no" and calls = gi_i
          and niter = niter and enc = "\<lambda>m j. int_at m p = of_nat j"])
      (use assms(4) no n(1) of_nat_c_int_inj groups(3) [OF n(1)] in \<open>auto simp: grouped_cas_int_helper_def
        grouped_cas_int_thread_data_def Let_def simp del: unsafe_prim.simps split: if_splits dest!: prim_cas_int\<close>)
  then show ?thesis unfolding r group_success_def .
qed

lemma grouped_cas_ptr_test_result:
  assumes "test_grouped_cas_ptr p n niter m r" and n: "0 < n" "n \<le> 100" and "0 < niter"
  shows "r = 0"
proof -
  let ?no = "number_of_groups n" and ?grp = "\<lambda>t. t div threads_per_group n"
  obtain m' d' where run: "c_run (cas_ptr_helper p niter) n (st_ptr p 0 m) (grouped_cas_ptr_thread_data n) m' d'"
    and ends: "all_done (cas_ptr_helper p niter) n d'"
    and r: "r = cas_checks n ?no (group_success n (threads_per_group n) (\<lambda>t. cp_nsuccess (d' t)))
      (\<lambda>i. ptr_at m' p = ptr_no i)"
    using assms(1) unfolding test_grouped_cas_ptr_def by (blast elim: may_returnE)
  have no: "0 < ?no" "\<And>g. g < ?no \<Longrightarrow> g \<le> 100" "?no \<le> 100" using groups(2,4) [OF n(1)] n(2) by auto
  have max: "ptr_no ((n - 1) div threads_per_group n) = ptr_no (?no - 1)" using groups(2) [OF n(1)] by simp
  have "cas_checks n ?no (\<lambda>g. \<Sum>t<n. if ?grp t = g then cp_nsuccess (d' t) else 0) (\<lambda>i. ptr_at m' p = ptr_no i) = 0"
    by (rule cas_ptr_ring [OF run ends])
      (use assms(4) no n(1) max groups(3) [OF n(1)] in \<open>simp_all add: grouped_cas_ptr_thread_data_def\<close>)
  then show ?thesis unfolding r group_success_def .
qed

section \<open>test_threaded_swap_int and test_threaded_swap_ptr\<close>

record 'a swap_t =
  local_val :: 'a
  sw_i :: nat

definition threaded_swap_int_helper :: "addr \<Rightarrow> nat \<Rightarrow> c_int swap_t code" where
  "threaded_swap_int_helper p niter x =
     (if sw_i x < niter
      then Some (Swap_Int p (local_val x), \<lambda>v. x\<lparr>local_val := v_int v, sw_i := Suc (sw_i x)\<rparr>) else None)"

definition threaded_swap_ptr_helper :: "addr \<Rightarrow> nat \<Rightarrow> addr swap_t code" where
  "threaded_swap_ptr_helper p niter x =
     (if sw_i x < niter
      then Some (Swap_Ptr p (local_val x), \<lambda>v. x\<lparr>local_val := v_ptr v, sw_i := Suc (sw_i x)\<rparr>) else None)"

definition swap_int_thread_data :: "nat \<Rightarrow> c_int swap_t" where
  "swap_int_thread_data i = \<lparr>local_val = of_nat i, sw_i = 0\<rparr>"

text \<open>\<open>elem i\<close> is the address \<open>&(thread_data[i])\<close>.\<close>

definition swap_ptr_thread_data :: "(nat \<Rightarrow> addr) \<Rightarrow> nat \<Rightarrow> addr swap_t" where
  "swap_ptr_thread_data elem i = \<lparr>local_val = elem i, sw_i = 0\<rparr>"

text \<open>How often the value is found in the local variables and the shared one.\<close>

definition vals :: "nat \<Rightarrow> (nat \<Rightarrow> 'a swap_t) \<Rightarrow> 'a \<Rightarrow> 'a \<Rightarrow> nat" where
  "vals n d shared w = (\<Sum>t<n. if local_val (d t) = w then 1 else 0) + (if shared = w then 1 else 0)"

definition swap_int_result :: "addr \<Rightarrow> nat \<Rightarrow> mem \<Rightarrow> (nat \<Rightarrow> c_int swap_t) \<Rightarrow> nat" where
  "swap_int_result p n m d =
     (if list_ex (\<lambda>i. sint (local_val (d i)) < 0 \<or> int n < sint (local_val (d i))) [0..<n] then 1
      else if sint (int_at m p) < 0 \<or> int n < sint (int_at m p) then 1
      else if list_ex (\<lambda>i. vals n d (int_at m p) (of_nat i) \<noteq> 1) [0..<n] then 1 else 0)"

definition swap_ptr_result :: "addr \<Rightarrow> (nat \<Rightarrow> addr) \<Rightarrow> nat \<Rightarrow> mem \<Rightarrow> (nat \<Rightarrow> addr swap_t) \<Rightarrow> nat" where
  "swap_ptr_result p elem n m d =
     (if list_ex (\<lambda>i. vals n d (ptr_at m p) (elem i) \<noteq> 1) [0..<n] then 1 else 0)"

definition test_threaded_swap_int :: "addr \<Rightarrow> nat \<Rightarrow> nat \<Rightarrow> mem \<Rightarrow> nat \<Rightarrow> bool" where
  "test_threaded_swap_int p n niter m r \<longleftrightarrow>
     may_return (threaded_swap_int_helper p niter) n (st_int p (of_nat n) m) swap_int_thread_data
       (swap_int_result p n) r"

definition test_threaded_swap_ptr :: "addr \<Rightarrow> (nat \<Rightarrow> addr) \<Rightarrow> nat \<Rightarrow> nat \<Rightarrow> mem \<Rightarrow> nat \<Rightarrow> bool" where
  "test_threaded_swap_ptr p elem n niter m r \<longleftrightarrow>
     may_return (threaded_swap_ptr_helper p niter) n (st_ptr p 0 m) (swap_ptr_thread_data elem)
       (swap_ptr_result p elem n) r"

text \<open>A swap moves values around and neither makes one up nor loses one.\<close>

lemma swap_counts:
  assumes run: "c_run code n m0 d0 m d"
    and step: "\<And>x op k v m m'. code x = Some (op, k) \<Longrightarrow> unsafe_prim op m = ret v m' \<Longrightarrow>
      cur m' = local_val x \<and> local_val (k v) = cur m"
  shows "vals n d (cur m) w = vals n d0 (cur m0) w"
  using run
proof (induction rule: c_run.induct)
  case (C_Snoc m d t op k v m')
  let ?f = "\<lambda>x. if local_val x = w then 1 else 0 :: int"
  have int_vals: "int (vals n e a w) = (\<Sum>i<n. ?f (e i)) + (if a = w then 1 else 0)" for e a
    by (simp add: vals_def if_distrib [of int] cong: if_cong)
  have "int (vals n (d(t := k v)) (cur m') w) = int (vals n d (cur m) w)"
    unfolding int_vals using sum_thread [OF C_Snoc.hyps(2), of "\<lambda>_. ?f" d "k v"] step [OF C_Snoc.hyps(3,4)]
    by (simp del: fun_upd_apply)
  with C_Snoc.IH show ?case by (simp del: fun_upd_apply)
qed simp

lemma vals_pos:
  assumes "t < n" and "local_val (d t) = w"
  shows "vals n d a w \<noteq> 0"
  using assms by (auto simp: vals_def)

lemma swap_int_test_result:
  assumes "test_threaded_swap_int p n niter m r" and "n \<le> 100"
  shows "r = 0"
proof -
  obtain m' d' where run: "c_run (threaded_swap_int_helper p niter) n (st_int p (of_nat n) m) swap_int_thread_data m' d'"
    and r: "r = swap_int_result p n m' d'"
    using assms(1) unfolding test_threaded_swap_int_def by (blast elim: may_returnE)
  have same: "vals n d' (int_at m' p) w = vals n swap_int_thread_data (int_at (st_int p (of_nat n) m) p) w" for w
    by (rule swap_counts [OF run, where cur = "\<lambda>m. int_at m p"])
      (auto simp: threaded_swap_int_helper_def port_defs Let_def split: if_splits)
  have vals: "vals n d' (int_at m' p) w
      = (\<Sum>t<n. if of_nat t = w then 1 else 0) + (if of_nat n = w then 1 else 0)" for w
    unfolding same by (simp add: vals_def swap_int_thread_data_def)
  have once: "vals n d' (int_at m' p) (of_nat i) = 1" if "i < n" for i
  proof -
    have "(of_nat t :: c_int) = of_nat i \<longleftrightarrow> t = i" if "t \<le> n" for t
      using of_nat_c_int_inj [of t i] that \<open>i < n\<close> assms(2) by simp
    then have "(\<Sum>t<n. if (of_nat t :: c_int) = of_nat i then 1 else 0 :: nat) = (\<Sum>t<n. if t = i then 1 else 0)"
      and "(of_nat n :: c_int) \<noteq> of_nat i"
      using that by (auto intro: sum.cong)
    then show ?thesis using that by (simp add: vals)
  qed
  have range: "0 \<le> sint w \<and> sint w \<le> int n" if "vals n d' (int_at m' p) w \<noteq> 0" for w
  proof -
    have "\<exists>i\<le>n. w = of_nat i"
      using that unfolding vals by (auto split: if_splits intro: less_imp_le)
    then obtain i where i: "i \<le> n" "w = of_nat i" by blast
    then have "i < 2 ^ 31" using assms(2) by simp
    from sint_small [OF this] i show ?thesis by simp
  qed
  have "0 \<le> sint (local_val (d' i)) \<and> sint (local_val (d' i)) \<le> int n" if "i < n" for i
    by (rule range) (rule vals_pos [OF that refl])
  moreover have "0 \<le> sint (int_at m' p) \<and> sint (int_at m' p) \<le> int n" by (rule range) (simp add: vals_def)
  ultimately show ?thesis
    using once by (auto simp: r swap_int_result_def list_ex_iff not_less)
qed

lemma swap_ptr_test_result:
  assumes "test_threaded_swap_ptr p elem n niter m r" and "inj_on elem {..<n}" "0 \<notin> elem ` {..<n}"
  shows "r = 0"
proof -
  obtain m' d' where run: "c_run (threaded_swap_ptr_helper p niter) n (st_ptr p 0 m) (swap_ptr_thread_data elem) m' d'"
    and r: "r = swap_ptr_result p elem n m' d'"
    using assms(1) unfolding test_threaded_swap_ptr_def by (blast elim: may_returnE)
  have vals: "vals n d' (ptr_at m' p) w = vals n (swap_ptr_thread_data elem) (ptr_at (st_ptr p 0 m) p) w" for w
    by (rule swap_counts [OF run, where cur = "\<lambda>m. ptr_at m p"])
      (auto simp: threaded_swap_ptr_helper_def port_defs Let_def split: if_splits)
  have "vals n d' (ptr_at m' p) (elem i) = 1" if "i < n" for i
  proof -
    have "(\<Sum>t<n. if elem t = elem i then 1 else 0 :: nat) = (\<Sum>t<n. if t = i then 1 else 0)"
      using assms(2) that by (intro sum.cong) (auto simp: inj_on_def)
    moreover have "elem i \<noteq> 0" using assms(3) that by (metis imageI lessThan_iff)
    ultimately show ?thesis using that unfolding vals by (auto simp: vals_def swap_ptr_thread_data_def)
  qed
  then show ?thesis by (simp add: r swap_ptr_result_def list_ex_iff)
qed

end
