(* ===== verification/OPA_Test_Fairness.thy ===== *)
theory OPA_Test_Fairness
  imports OPA_Test_Swaps
begin

text \<open>
  \<open>test_threaded_cas_int_fairness\<close> and \<open>test_threaded_cas_ptr_fairness\<close> of
  \<open>test/test_primitives.c\<close>, where a compare-and-swap takes a lock and gives it back, and the result
  of all tests of loads, stores, compare-and-swaps and swaps.
\<close>

section \<open>The threads\<close>

text \<open>
  Where a thread is in its loop: at the compare-and-swap that takes the variable, at the increment
  of \<open>successful_threads\<close>, at the compare-and-swap that gives the variable back, at the load of
  \<open>successful_threads\<close>, or out of the loop.
\<close>

datatype fair_pc = F_Try | F_Incr | F_Reset | F_Check | F_Exit

record 'a fairness_t =
  f_threadno :: 'a
  f_nerrors :: nat
  f_terminated :: bool
  f_nsuccess :: nat
  f_i :: nat
  f_pc :: fair_pc

text \<open>
  The body of the two helpers, \<open>cas\<close> being the compare-and-swap of the shared variable, \<open>rd\<close> its
  result, and \<open>idle\<close> the value -1 or the null pointer; \<open>q\<close> is \<open>successful_threads\<close>.
\<close>

definition fairness_body ::
  "('a \<Rightarrow> 'a \<Rightarrow> prim) \<Rightarrow> (val \<Rightarrow> 'a) \<Rightarrow> 'a \<Rightarrow> addr \<Rightarrow> nat \<Rightarrow> nat \<Rightarrow> nat \<Rightarrow> 'a fairness_t code" where
  "fairness_body cas rd idle q nthreads min_success max_iter x =
     (case f_pc x of
        F_Try \<Rightarrow> Some (cas idle (f_threadno x), \<lambda>v.
          if rd v = idle
          then x\<lparr>f_nsuccess := f_nsuccess x + 1,
                 f_pc := (if f_nsuccess x + 1 = min_success then F_Incr else F_Reset)\<rparr>
          else x\<lparr>f_pc := F_Check\<rparr>)
      | F_Incr \<Rightarrow> Some (Incr_Int q, \<lambda>_. x\<lparr>f_pc := F_Reset\<rparr>)
      | F_Reset \<Rightarrow> Some (cas (f_threadno x) idle, \<lambda>v.
          x\<lparr>f_nerrors := f_nerrors x + (if rd v \<noteq> f_threadno x then 1 else 0), f_pc := F_Check\<rparr>)
      | F_Check \<Rightarrow> Some (Load_Int q, \<lambda>v.
          if int nthreads = sint (v_int v) then x\<lparr>f_pc := F_Exit\<rparr>
          else if f_i x + 1 = max_iter then x\<lparr>f_i := f_i x + 1, f_terminated := True, f_pc := F_Exit\<rparr>
          else x\<lparr>f_i := f_i x + 1, f_pc := F_Try\<rparr>)
      | F_Exit \<Rightarrow> None)"

definition threaded_cas_int_fairness_helper :: "addr \<Rightarrow> addr \<Rightarrow> nat \<Rightarrow> nat \<Rightarrow> nat \<Rightarrow> c_int fairness_t code" where
  "threaded_cas_int_fairness_helper p = fairness_body (Cas_Int p) v_int (- 1)"

definition threaded_cas_ptr_fairness_helper :: "addr \<Rightarrow> addr \<Rightarrow> nat \<Rightarrow> nat \<Rightarrow> nat \<Rightarrow> addr fairness_t code" where
  "threaded_cas_ptr_fairness_helper p = fairness_body (Cas_Ptr p) v_ptr 0"

text \<open>A loop with no iteration left is over at once, and then \<open>i == max_iter\<close>.\<close>

definition fairness_thread_data :: "(nat \<Rightarrow> 'a) \<Rightarrow> nat \<Rightarrow> nat \<Rightarrow> 'a fairness_t" where
  "fairness_thread_data own max_iter i =
     \<lparr>f_threadno = own i, f_nerrors = 0, f_terminated = (max_iter = 0), f_nsuccess = 0, f_i = 0,
      f_pc = (if max_iter = 0 then F_Exit else F_Try)\<rparr>"

definition fairness_result :: "addr \<Rightarrow> nat \<Rightarrow> mem \<Rightarrow> (nat \<Rightarrow> 'a fairness_t) \<Rightarrow> nat" where
  "fairness_result q n m d =
     (if (\<Sum>i<n. f_nerrors (d i)) \<noteq> 0 then 1
      else if sint (int_at m q) \<noteq> int n \<and> (\<Sum>i<n. if f_terminated (d i) then 1 else 0 :: nat) = 0 then 1
      else 0)"

definition test_threaded_cas_int_fairness :: "addr \<Rightarrow> addr \<Rightarrow> nat \<Rightarrow> nat \<Rightarrow> nat \<Rightarrow> mem \<Rightarrow> nat \<Rightarrow> bool" where
  "test_threaded_cas_int_fairness p q n min_success max_iter m r \<longleftrightarrow>
     may_return (threaded_cas_int_fairness_helper p q n min_success max_iter) n
       (st_int q 0 (st_int p (- 1) m)) (fairness_thread_data of_nat max_iter) (fairness_result q n) r"

text \<open>Here the number of a thread is \<open>(void *) 0 + i + 1\<close>.\<close>

definition test_threaded_cas_ptr_fairness :: "addr \<Rightarrow> addr \<Rightarrow> nat \<Rightarrow> nat \<Rightarrow> nat \<Rightarrow> mem \<Rightarrow> nat \<Rightarrow> bool" where
  "test_threaded_cas_ptr_fairness p q n min_success max_iter m r \<longleftrightarrow>
     may_return (threaded_cas_ptr_fairness_helper p q n min_success max_iter) n
       (st_int q 0 (st_ptr p 0 m)) (fairness_thread_data (\<lambda>i. of_nat (i + 1)) max_iter) (fairness_result q n) r"

section \<open>The variable as a lock\<close>

text \<open>
  A thread has the variable between its two compare-and-swaps, and then the variable holds its
  number. \<open>counted\<close>: the thread has incremented \<open>successful_threads\<close>, which happens once.
\<close>

definition holds :: "'a fairness_t \<Rightarrow> bool" where
  "holds x \<longleftrightarrow> f_pc x = F_Incr \<or> f_pc x = F_Reset"

definition counted :: "nat \<Rightarrow> 'a fairness_t \<Rightarrow> int" where
  "counted min_success x =
     (if min_success < f_nsuccess x \<or> f_nsuccess x = min_success \<and> f_pc x \<noteq> F_Incr then 1 else 0)"

definition fair_inv :: "nat \<Rightarrow> nat \<Rightarrow> (nat \<Rightarrow> 'a) \<Rightarrow> 'a \<Rightarrow> 'a \<Rightarrow> int \<Rightarrow> (nat \<Rightarrow> 'a fairness_t) \<Rightarrow> bool" where
  "fair_inv n min_success own idle shared successful d \<longleftrightarrow>
     (\<forall>t<n. f_threadno (d t) = own t \<and> f_nerrors (d t) = 0 \<and> (holds (d t) \<longleftrightarrow> shared = own t) \<and>
       (f_pc (d t) = F_Incr \<longrightarrow> f_nsuccess (d t) = min_success) \<and>
       (f_pc (d t) = F_Exit \<and> \<not> f_terminated (d t) \<longrightarrow> successful = int n)) \<and>
     (shared = idle \<or> (\<exists>t<n. shared = own t)) \<and>
     successful = (\<Sum>t<n. counted min_success (d t))"

text \<open>What a step does to the variable, the count and the thread.\<close>

definition fair_move ::
  "nat \<Rightarrow> nat \<Rightarrow> nat \<Rightarrow> 'a \<Rightarrow> 'a \<Rightarrow> int \<Rightarrow> 'a fairness_t \<Rightarrow> 'a \<Rightarrow> int \<Rightarrow> 'a fairness_t \<Rightarrow> bool" where
  "fair_move n min_success max_iter idle c s x c' s' x' \<longleftrightarrow>
     (case f_pc x of
        F_Try \<Rightarrow> s' = s \<and> (if c = idle
          then c' = f_threadno x \<and> x' = x\<lparr>f_nsuccess := f_nsuccess x + 1,
            f_pc := (if f_nsuccess x + 1 = min_success then F_Incr else F_Reset)\<rparr>
          else c' = c \<and> x' = x\<lparr>f_pc := F_Check\<rparr>)
      | F_Incr \<Rightarrow> s' = s + 1 \<and> c' = c \<and> x' = x\<lparr>f_pc := F_Reset\<rparr>
      | F_Reset \<Rightarrow> s' = s \<and> c' = (if c = f_threadno x then idle else c) \<and>
          x' = x\<lparr>f_nerrors := f_nerrors x + (if c \<noteq> f_threadno x then 1 else 0), f_pc := F_Check\<rparr>
      | F_Check \<Rightarrow> s' = s \<and> c' = c \<and> x' =
          (if int n = s then x\<lparr>f_pc := F_Exit\<rparr>
           else if f_i x + 1 = max_iter then x\<lparr>f_i := f_i x + 1, f_terminated := True, f_pc := F_Exit\<rparr>
           else x\<lparr>f_i := f_i x + 1, f_pc := F_Try\<rparr>)
      | F_Exit \<Rightarrow> False)"

lemma fair_count:
  assumes "fair_move n min_success max_iter idle c s x c' s' x'" and "f_pc x = F_Incr \<longrightarrow> f_nsuccess x = min_success"
  shows "s' - s = counted min_success x' - counted min_success x"
  using assms by (cases "f_pc x") (auto simp: fair_move_def counted_def split: if_splits)

lemma count_below:
  assumes "t < n" and "counted min_success (d t) = 0"
  shows "(\<Sum>u<n. counted min_success (d u)) < int n"
proof -
  have "(\<Sum>u<n. counted min_success (d u)) = (\<Sum>u \<in> {..<n} - {t}. counted min_success (d u))"
    using assms by (simp add: sum.remove [of "{..<n}" t])
  also have "\<dots> \<le> (\<Sum>u \<in> {..<n} - {t}. 1)" by (intro sum_mono) (simp add: counted_def)
  also have "\<dots> < int n" using assms(1) by (simp add: of_nat_diff)
  finally show ?thesis .
qed

lemma fair_inv_step:
  assumes inv: "fair_inv n min_success own idle c s d" and t: "t < n" and own: "inj_on own {..<n}" "idle \<notin> own ` {..<n}"
    and move: "fair_move n min_success max_iter idle c s (d t) c' s' x'"
  shows "fair_inv n min_success own idle c' s' (d(t := x'))"
proof -
  have threads: "f_threadno (d u) = own u \<and> f_nerrors (d u) = 0 \<and> (holds (d u) \<longleftrightarrow> c = own u) \<and>
      (f_pc (d u) = F_Incr \<longrightarrow> f_nsuccess (d u) = min_success) \<and>
      (f_pc (d u) = F_Exit \<and> \<not> f_terminated (d u) \<longrightarrow> s = int n)" if "u < n" for u
    using inv that unfolding fair_inv_def by blast
  have own_eq: "own u = own t \<longleftrightarrow> u = t" "own u \<noteq> idle" if "u < n" for u
    using own t that by (auto simp: inj_on_def)
  have sum: "s = (\<Sum>u<n. counted min_success (d u))" using inv by (simp add: fair_inv_def)
  have s': "s' = (\<Sum>u<n. counted min_success ((d(t := x')) u))"
    using sum_thread [OF t, of "\<lambda>_. counted min_success" d x'] fair_count [OF move] threads [OF t] sum
    by (simp del: fun_upd_apply)
  have exits: "s' = s" if "s = int n"
  proof (rule ccontr)
    assume "s' \<noteq> s"
    then have "f_pc (d t) = F_Incr" using move by (auto simp: fair_move_def split: fair_pc.splits)
    with threads [OF t] have "counted min_success (d t) = 0" by (simp add: counted_def)
    from count_below [where d = d, OF t this] sum that show False by simp
  qed
  have mine: "f_threadno x' = own t \<and> f_nerrors x' = 0 \<and> (holds x' \<longleftrightarrow> c' = own t) \<and>
      (f_pc x' = F_Incr \<longrightarrow> f_nsuccess x' = min_success) \<and> (f_pc x' = F_Exit \<and> \<not> f_terminated x' \<longrightarrow> s' = int n)"
    using move threads [OF t] own_eq(2) [OF t]
    by (cases "f_pc (d t)") (auto simp: fair_move_def holds_def split: if_splits)
  have other: "c' = own u \<longleftrightarrow> c = own u" if "u < n" "u \<noteq> t" for u
    using move threads [OF t] own_eq [OF that(1)] that(2)
    by (cases "f_pc (d t)") (auto simp: fair_move_def split: if_splits)
  have c': "c' = idle \<or> (\<exists>u<n. c' = own u)"
    using move threads [OF t] t inv
    by (cases "f_pc (d t)") (auto simp: fair_move_def fair_inv_def split: if_splits)
  have "f_threadno ((d(t := x')) u) = own u \<and> f_nerrors ((d(t := x')) u) = 0 \<and> (holds ((d(t := x')) u) \<longleftrightarrow> c' = own u) \<and>
      (f_pc ((d(t := x')) u) = F_Incr \<longrightarrow> f_nsuccess ((d(t := x')) u) = min_success) \<and>
      (f_pc ((d(t := x')) u) = F_Exit \<and> \<not> f_terminated ((d(t := x')) u) \<longrightarrow> s' = int n)" if "u < n" for u
    using mine threads [OF that] other [OF that] exits by (cases "u = t") auto
  with c' s' show ?thesis unfolding fair_inv_def by blast
qed

text \<open>The invariant along a run, for a variable that \<open>cell\<close> reads and \<open>cas\<close> swaps.\<close>

lemma fair_run:
  assumes run: "c_run (fairness_body cas rd idle q n min_success max_iter) n m0 d0 m d"
    and own: "inj_on own {..<n}" "idle \<notin> own ` {..<n}"
    and cas: "\<And>a b m v m'. unsafe_prim (cas a b) m = ret v m' \<Longrightarrow>
      rd v = cell m \<and> cell m' = (if cell m = a then b else cell m) \<and> int_at m' q = int_at m q"
    and incr: "\<And>m v m'. unsafe_prim (Incr_Int q) m = ret v m' \<Longrightarrow> cell m' = cell m"
    and init: "d0 = fairness_thread_data own max_iter" "cell m0 = idle" "int_at m0 q = 0" and "0 < min_success"
  shows "fair_inv n min_success own idle (cell m) (sint (int_at m q)) d"
  using run
proof (induction rule: c_run.induct)
  case C_Nil
  show ?case
    using assms(6-9) own by (auto simp: fair_inv_def fairness_thread_data_def holds_def counted_def)
next
  case (C_Snoc m d t op k v m')
  have "fair_move n min_success max_iter idle (cell m) (sint (int_at m q)) (d t)
      (cell m') (sint (int_at m' q)) (k v)"
  proof (cases "f_pc (d t)")
    case F_Incr
    have "op = Incr_Int q" "k v = (d t)\<lparr>f_pc := F_Reset\<rparr>"
      using C_Snoc.hyps(3) F_Incr by (auto simp: fairness_body_def)
    with incr prim_adds [of op m v m' q] C_Snoc.hyps(4) F_Incr show ?thesis
      by (simp add: fair_move_def amount_def del: unsafe_prim.simps)
  next
    case F_Check
    with C_Snoc.hyps(3,4) show ?thesis by (auto simp: fairness_body_def fair_move_def port_defs)
  qed (use C_Snoc.hyps(3,4) in \<open>auto simp: fairness_body_def fair_move_def simp del: unsafe_prim.simps dest!: cas\<close>)
  from fair_inv_step [OF C_Snoc.IH C_Snoc.hyps(2) own this] show ?case .
qed

lemma fair_result:
  assumes inv: "fair_inv n min_success own idle c (sint (int_at m q)) d" and ends: "\<And>t. t < n \<Longrightarrow> f_pc (d t) = F_Exit"
    and "0 < n"
  shows "fairness_result q n m d = 0"
proof -
  have "(\<Sum>i<n. f_nerrors (d i)) = 0" using inv by (simp add: fair_inv_def)
  moreover have "(\<Sum>i<n. if f_terminated (d i) then 1 else 0 :: nat) \<noteq> 0" if "sint (int_at m q) \<noteq> int n"
    using inv ends [OF assms(3)] that assms(3) by (auto simp: fair_inv_def)
  ultimately show ?thesis unfolding fairness_result_def by presburger
qed

lemma incr_elsewhere:
  assumes "unsafe_prim (Incr_Int q) m = ret v m'"
  shows "p \<noteq> q \<Longrightarrow> int_at m' p = int_at m p" and "ptr_at m' = ptr_at m"
  using assms by (auto simp: port_defs Let_def split: sum.splits)

lemma cas_elsewhere:
  assumes "unsafe_prim (Cas_Int p a b) m = ret v m' \<and> p \<noteq> q \<or> unsafe_prim (Cas_Ptr p' a' b') m = ret v m'"
  shows "int_at m' q = int_at m q"
  using assms by (auto simp: port_defs Let_def split: if_splits)

lemma fairness_test_result:
  assumes "test_threaded_cas_int_fairness p q n min_success max_iter m r \<and> p \<noteq> q \<or>
      test_threaded_cas_ptr_fairness p q n min_success max_iter m r"
    and n: "0 < n" "n \<le> 100" and "0 < min_success"
  shows "r = 0"
  using assms(1)
proof (elim disjE conjE)
  assume test: "test_threaded_cas_int_fairness p q n min_success max_iter m r" and pq: "p \<noteq> q"
  let ?m = "st_int q 0 (st_int p (- 1) m)"
  obtain m' d' where run: "c_run (fairness_body (Cas_Int p) v_int (- 1) q n min_success max_iter) n ?m
      (fairness_thread_data of_nat max_iter) m' d'"
    and ends: "all_done (fairness_body (Cas_Int p) v_int (- 1) q n min_success max_iter) n d'"
    and r: "r = fairness_result q n m' d'"
    using test unfolding test_threaded_cas_int_fairness_def threaded_cas_int_fairness_helper_def
    by (blast elim: may_returnE)
  have "inj_on (of_nat :: nat \<Rightarrow> c_int) {..<n}"
    using n(2) of_nat_c_int_inj by (auto simp: inj_on_def)
  moreover have "(- 1 :: c_int) \<noteq> of_nat t" if "t < n" for t
  proof
    assume "(- 1 :: c_int) = of_nat t"
    then have "sint (of_nat t :: c_int) = - 1" by (metis sint_eq_minus_1)
    moreover have "t < 2 ^ 31" using that n(2) by simp
    ultimately show False using sint_small [of t] by simp
  qed
  moreover have "v_int v = int_at m p \<and> int_at m' p = (if int_at m p = a then b else int_at m p) \<and>
      int_at m' q = int_at m q" if "unsafe_prim (Cas_Int p a b) m = ret v m'" for a b m v m'
    using prim_cas_int [OF that] cas_elsewhere [OF disjI1 [OF conjI [OF that pq]]] by simp
  ultimately have "fair_inv n min_success of_nat (- 1) (int_at m' p) (sint (int_at m' q)) d'"
    using assms(4) pq incr_elsewhere(1) [OF _ pq]
    by (intro fair_run [OF run, where cell = "\<lambda>m. int_at m p"]) (auto simp del: unsafe_prim.simps)
  moreover have "f_pc (d' t) = F_Exit" if "t < n" for t
    using ends that by (cases "f_pc (d' t)") (auto simp: all_done_def fairness_body_def dest: spec [of _ t])
  ultimately show ?thesis unfolding r using n(1) by (rule fair_result)
next
  assume test: "test_threaded_cas_ptr_fairness p q n min_success max_iter m r"
  let ?m = "st_int q 0 (st_ptr p 0 m)" and ?own = "\<lambda>i. of_nat (i + 1) :: addr"
  obtain m' d' where run: "c_run (fairness_body (Cas_Ptr p) v_ptr 0 q n min_success max_iter) n ?m
      (fairness_thread_data ?own max_iter) m' d'"
    and ends: "all_done (fairness_body (Cas_Ptr p) v_ptr 0 q n min_success max_iter) n d'"
    and r: "r = fairness_result q n m' d'"
    using test unfolding test_threaded_cas_ptr_fairness_def threaded_cas_ptr_fairness_helper_def
    by (blast elim: may_returnE)
  have unat: "unat (?own t) = t + 1" if "t < n" for t
  proof -
    have "t + 1 < 2 ^ 64" using that n(2) by simp
    then show ?thesis by (simp only: unsigned_of_nat) (simp add: take_bit_nat_eq_self)
  qed
  then have "inj_on ?own {..<n}" by (metis (no_types, lifting) add_right_cancel inj_onI lessThan_iff)
  moreover have "0 \<notin> ?own ` {..<n}"
  proof
    assume "0 \<in> ?own ` {..<n}"
    then obtain t where t: "0 = ?own t" "t \<in> {..<n}" by (rule imageE)
    from unat [OF t(2) [unfolded lessThan_iff]] have "unat (0 :: addr) = t + 1" unfolding t(1) .
    then show False by simp
  qed
  moreover have "v_ptr v = ptr_at m p \<and> ptr_at m' p = (if ptr_at m p = a then b else ptr_at m p) \<and>
      int_at m' q = int_at m q" if "unsafe_prim (Cas_Ptr p a b) m = ret v m'" for a b m v m'
    using prim_cas_ptr [OF that] cas_elsewhere [OF disjI2 [OF that]] by simp
  ultimately have "fair_inv n min_success ?own 0 (ptr_at m' p) (sint (int_at m' q)) d'"
    using assms(4)
    by (intro fair_run [OF run, where cell = "\<lambda>m. ptr_at m p"])
      (simp_all del: unsafe_prim.simps add: incr_elsewhere(2))
  moreover have "f_pc (d' t) = F_Exit" if "t < n" for t
    using ends that by (cases "f_pc (d' t)") (auto simp: all_done_def fairness_body_def dest: spec [of _ t])
  ultimately show ?thesis unfolding r using n(1) by (rule fair_result)
qed

section \<open>Properties\<close>

text \<open>One thread that takes the variable, counts itself, gives it back and finds that all are done.\<close>

definition fairness_schedule :: "r_action list" where
  "fairness_schedule =
     [R_Begin 0 (Cas_Int 64 (- 1) 0), R_Turn 0 False, R_Turn 0 True, R_Turn 0 False, R_Turn 0 False,
      R_Begin 0 (Incr_Int 68), R_Turn 0 False, R_Turn 0 False,
      R_Begin 0 (Cas_Int 64 0 (- 1)), R_Turn 0 False, R_Turn 0 False,
      R_Begin 0 (Load_Int 68), R_Turn 0 False]"

text \<open>
  C17. The threaded tests of loads and stores, of compare-and-swap and of swap pass, on \<open>int\<close> and
  on pointer variables: nobody loads a value that nobody stored; the token of
  \<open>test_threaded_cas_int\<close> and its versions goes around in order; the compare-and-swap of the
  fairness tests works as a lock, and a thread that leaves its loop early has seen all others
  succeed; and the swaps neither lose nor double a value.
\<close>

theorem access_tests_pass:
  assumes "n \<in> set num_threads" and "0 < niter" and "0 < min_success" and "p \<noteq> q"
    and "inj_on elem {..<n}" and "0 \<notin> elem ` {..<n}"
    and "test_threaded_loadstore_int p n niter m r \<or> test_threaded_loadstore_ptr p n niter m r \<or>
      test_threaded_cas_int p n niter m r \<or> test_threaded_cas_ptr p n niter m r \<or>
      test_grouped_cas_int p n niter m r \<or> test_grouped_cas_ptr p n niter m r \<or>
      test_threaded_cas_int_fairness p q n min_success niter m r \<or>
      test_threaded_cas_ptr_fairness p q n min_success niter m r \<or>
      test_threaded_swap_int p n niter m r \<or> test_threaded_swap_ptr p elem n niter m r"
  shows "r = 0"
proof -
  have n: "0 < n" "n \<le> 100" using assms(1) by (auto simp: num_threads_def)
  show ?thesis
    using assms(2-7) n loadstore_int_test_result [of p n niter m r] loadstore_ptr_test_result [of p n niter m r]
      cas_int_test_result [of p n niter m r] cas_ptr_test_result [of p n niter m r]
      grouped_cas_int_test_result [of p n niter m r] grouped_cas_ptr_test_result [of p n niter m r]
      fairness_test_result [of p q n min_success niter m r]
      swap_int_test_result [of p n niter m r] swap_ptr_test_result [of p elem n niter m r]
    by blast
qed

theorem access_tests_pass_witness: "\<exists>r. test_threaded_cas_int_fairness 64 68 1 1 2 zero_mem r \<and> r = 0"
proof -
  have "schedule_ends (threaded_cas_int_fairness_helper 64 68 1 1 2) 1 fairness_schedule
      (st_int 68 0 (st_int 64 (- 1) zero_mem)) (fairness_thread_data of_nat 2)"
    by code_simp
  from schedule_returns [OF this] obtain r where r: "test_threaded_cas_int_fairness 64 68 1 1 2 zero_mem r"
    unfolding test_threaded_cas_int_fairness_def by blast
  moreover have "r = 0"
    using access_tests_pass [of 1 2 1 64 68 "\<lambda>_. 8" zero_mem r] r
    by (auto simp: num_threads_def inj_on_def image_constant_conv)
  ultimately show ?thesis by blast
qed

end
