(* ===== verification/OPA_Test_Stack.thy ===== *)
theory OPA_Test_Stack
  imports OPA_Clients OPA_Test_Config
begin

text \<open>
  \<open>test_threaded_llsc_int_stack\<close> of \<open>test/test_primitives.c\<close>: a stack of objects, pushed with
  \<open>OPA_cas_int\<close> and popped with \<open>OPA_LL_int\<close> and \<open>OPA_SC_int\<close>, whose links are indices. Each call of
  a primitive is a step, sequentially consistent; a compare-and-swap is one step, as
  \<open>OPA_Rmw_Threads\<close> shows of the loops it is made of on the ports with load-linked and
  store-conditional. A reservation of the head is lost when the head is stored to, whatever value is
  stored, and a store-conditional may fail at any time without a reason.
\<close>

section \<open>The threads\<close>

text \<open>Where a thread is; \<open>U\<close> for the pushing, \<open>O\<close> for the popping ones.\<close>

datatype stack_pc =
    U_Failed nat
  | U_Acquire nat nat
  | U_Load nat
  | U_Next nat int
  | U_Cas nat int
  | U_Decr
  | O_LL
  | O_Next nat
  | O_SC nat int
  | O_Check nat
  | O_Fail
  | O_Off nat
  | O_Pushers
  | O_Failed
  | S_Exit

record stack =
  head :: int
  on_stack :: "nat \<Rightarrow> int"
  link :: "nat \<Rightarrow> int"
  reserved :: "nat \<Rightarrow> bool"
  npushers :: int
  failed :: bool
  s_pc :: "nat \<Rightarrow> stack_pc"
  nsuccess :: "nat \<Rightarrow> nat"
  nerrors :: "nat \<Rightarrow> nat"

definition stack_tpg :: "nat \<Rightarrow> nat" where
  "stack_tpg nthreads = (if 2 \<le> nthreads div 3 then 3 else (nthreads + 1) div 2)"

definition nobjs :: "nat \<Rightarrow> nat" where
  "nobjs nthreads = (nthreads - 1) div stack_tpg nthreads"

text \<open>The object of the pushing thread \<open>t\<close>.\<close>

definition obj_of :: "nat \<Rightarrow> nat \<Rightarrow> nat" where
  "obj_of nthreads t = t div stack_tpg nthreads - 1"

text \<open>A store to the head.\<close>

definition set_head :: "int \<Rightarrow> stack \<Rightarrow> stack" where
  "set_head v s = s\<lparr>head := v, reserved := (\<lambda>_. False)\<rparr>"

definition goto :: "nat \<Rightarrow> stack_pc \<Rightarrow> stack \<Rightarrow> stack" where
  "goto t c s = s\<lparr>s_pc := (s_pc s)(t := c)\<rparr>"

definition count_success :: "nat \<Rightarrow> stack \<Rightarrow> stack" where
  "count_success t s = s\<lparr>nsuccess := (nsuccess s)(t := Suc (nsuccess s t))\<rparr>"

text \<open>The loop condition of the pushing thread: \<open>failed\<close> is loaded only if \<open>i < niter\<close>.\<close>

definition push_iteration :: "nat \<Rightarrow> nat \<Rightarrow> stack_pc" where
  "push_iteration niter i = (if i < niter then U_Failed i else U_Decr)"

definition push_step :: "nat \<Rightarrow> nat \<Rightarrow> nat \<Rightarrow> nat \<Rightarrow> stack \<Rightarrow> stack option" where
  "push_step n niter nloop t s =
     (let obj = obj_of n t in
      case s_pc s t of
        U_Failed i \<Rightarrow> Some (goto t (if failed s then U_Decr else U_Acquire i 0) s)
      | U_Acquire i j \<Rightarrow>
          if on_stack s obj = 0
          then Some (goto t (U_Load i) (s\<lparr>on_stack := (on_stack s)(obj := 1)\<rparr>))
          else if Suc j = nloop then Some (goto t (push_iteration niter (Suc i)) s)
          else Some (goto t (U_Acquire i (Suc j)) s)
      | U_Load i \<Rightarrow> Some (goto t (U_Next i (head s)) s)
      | U_Next i tmp_head \<Rightarrow> Some (goto t (U_Cas i tmp_head) (s\<lparr>link := (link s)(obj := tmp_head)\<rparr>))
      | U_Cas i tmp_head \<Rightarrow>
          if head s = tmp_head
          then Some (goto t (push_iteration niter (Suc i)) (count_success t (set_head (int obj) s)))
          else Some (goto t (U_Load i) s)
      | U_Decr \<Rightarrow> Some (goto t S_Exit (s\<lparr>npushers := npushers s - 1\<rparr>))
      | _ \<Rightarrow> None)"

definition pop_step :: "bool \<Rightarrow> nat \<Rightarrow> stack \<Rightarrow> stack option" where
  "pop_step spurious t s =
     (case s_pc s t of
        O_LL \<Rightarrow>
          Some (goto t (if head s = - 1 then O_Pushers else O_Next (nat (head s)))
            (s\<lparr>reserved := (reserved s)(t := True)\<rparr>))
      | O_Next obj \<Rightarrow> Some (goto t (O_SC obj (link s obj)) s)
      | O_SC obj tmp_obj \<Rightarrow>
          if reserved s t \<and> \<not> spurious
          then Some (goto t (O_Check obj) (set_head tmp_obj s))
          else Some (goto t O_Pushers (s\<lparr>reserved := (reserved s)(t := False)\<rparr>))
      | O_Check obj \<Rightarrow>
          if on_stack s obj = 0
          then Some (goto t (if 1000000 \<le> Suc (nerrors s t) then O_Fail else O_Off obj)
            (s\<lparr>nerrors := (nerrors s)(t := Suc (nerrors s t))\<rparr>))
          else Some (goto t (O_Off obj) s)
      | O_Fail \<Rightarrow> Some (goto t S_Exit (s\<lparr>failed := True\<rparr>))
      | O_Off obj \<Rightarrow> Some (goto t O_Pushers (count_success t (s\<lparr>on_stack := (on_stack s)(obj := 0)\<rparr>)))
      | O_Pushers \<Rightarrow> Some (goto t (if npushers s \<noteq> 0 then O_Failed else S_Exit) s)
      | O_Failed \<Rightarrow> Some (goto t (if failed s then S_Exit else O_LL) s)
      | _ \<Rightarrow> None)"

definition stack_step :: "nat \<Rightarrow> nat \<Rightarrow> nat \<Rightarrow> bool \<Rightarrow> nat \<Rightarrow> stack \<Rightarrow> stack option" where
  "stack_step n niter nloop spurious t s =
     (if n \<le> t then None else if t < stack_tpg n then pop_step spurious t s else push_step n niter nloop t s)"

definition stack_init :: "nat \<Rightarrow> nat \<Rightarrow> stack" where
  "stack_init n niter = \<lparr>head = - 1, on_stack = (\<lambda>_. 0), link = (\<lambda>_. - 1), reserved = (\<lambda>_. False),
     npushers = int n - int (stack_tpg n), failed = False,
     s_pc = (\<lambda>t. if t < stack_tpg n then O_LL else push_iteration niter 0),
     nsuccess = (\<lambda>_. 0), nerrors = (\<lambda>_. 0)\<rparr>"

inductive stack_run :: "nat \<Rightarrow> nat \<Rightarrow> nat \<Rightarrow> stack \<Rightarrow> bool" for n :: nat and niter :: nat and nloop :: nat where
  Stack_Init: "stack_run n niter nloop (stack_init n niter)"
| Stack_Step: "stack_run n niter nloop s \<Longrightarrow> stack_step n niter nloop spurious t s = Some s' \<Longrightarrow> stack_run n niter nloop s'"

section \<open>The checks at the end\<close>

text \<open>
  The walk along the stack: an object that is not marked 1 is an error, any other is marked 2. The
  result is where the walk has ended, the marks and the number of objects.
\<close>

function stack_walk :: "(nat \<Rightarrow> int) \<Rightarrow> nat \<Rightarrow> int \<Rightarrow> (nat \<Rightarrow> int) \<Rightarrow> nat \<Rightarrow> (int \<times> (nat \<Rightarrow> int) \<times> nat) option" where
  "stack_walk lnk no i marks non_stack =
     (if 0 \<le> i \<and> i < int no
      then if marks (nat i) \<noteq> 1 then None
           else stack_walk lnk no (lnk (nat i)) (marks(nat i := 2)) (Suc non_stack)
      else Some (i, marks, non_stack))"
  by pat_completeness auto

termination
proof (relation "measure (\<lambda>(lnk, no, i, marks, non_stack). card {k. k < no \<and> marks k = 1})")
  fix lnk :: "nat \<Rightarrow> int" and no non_stack :: nat and i and marks :: "nat \<Rightarrow> int"
  assume "0 \<le> i \<and> i < int no" "\<not> marks (nat i) \<noteq> 1"
  then have i: "nat i < no" "marks (nat i) = 1" by auto
  have "{k. k < no \<and> (marks(m := 2)) k = 1} = {k. k < no \<and> marks k = 1} - {m}" for m
    by (rule set_eqI) simp
  moreover have "card ({k. k < no \<and> marks k = 1} - {nat i}) < card {k. k < no \<and> marks k = 1}"
    using i by (intro card_Diff1_less) simp_all
  ultimately have "card {k. k < no \<and> (marks(nat i := 2)) k = 1} < card {k. k < no \<and> marks k = 1}" by metis
  then show "((lnk, no, lnk (nat i), marks(nat i := 2), Suc non_stack), lnk, no, i, marks, non_stack)
      \<in> measure (\<lambda>(lnk, no, i, marks, non_stack). card {k. k < no \<and> marks k = 1})"
    by simp
qed simp

declare stack_walk.simps [simp del]

definition stack_result :: "nat \<Rightarrow> stack \<Rightarrow> nat" where
  "stack_result n s =
     (if (\<Sum>t<n. nerrors s t) \<noteq> 0 then 1
      else case stack_walk (link s) (nobjs n) (head s) (on_stack s) 0 of
          None \<Rightarrow> 1
        | Some (i, marks, non_stack) \<Rightarrow>
            if i \<noteq> - 1 then 1
            else if list_ex (\<lambda>k. marks k \<noteq> 0 \<and> marks k \<noteq> 2) [0..<nobjs n] then 1
            else if int (\<Sum>t \<in> {..<stack_tpg n}. nsuccess s t) \<noteq> int (\<Sum>t \<in> {stack_tpg n..<n}. nsuccess s t) - int non_stack
            then 1 else 0)"

definition all_exited :: "nat \<Rightarrow> stack \<Rightarrow> bool" where
  "all_exited n s \<longleftrightarrow> (\<forall>t<n. s_pc s t = S_Exit)"

section \<open>The invariant\<close>

text \<open>
  The stack as a list of objects: the head and the links lead through it, and every object is in one
  place: off the stack, on it, or with the one thread that is about to push it or has popped it.
\<close>

fun stack_chain :: "(nat \<Rightarrow> int) \<Rightarrow> int \<Rightarrow> nat list \<Rightarrow> bool" where
  "stack_chain lnk h [] \<longleftrightarrow> h = - 1"
| "stack_chain lnk h (x # xs) \<longleftrightarrow> h = int x \<and> stack_chain lnk (lnk x) xs"

fun held_obj :: "nat \<Rightarrow> stack_pc \<Rightarrow> nat option" where
  "held_obj obj (U_Load i) = Some obj"
| "held_obj obj (U_Next i tmp) = Some obj"
| "held_obj obj (U_Cas i tmp) = Some obj"
| "held_obj obj (O_Check k) = Some k"
| "held_obj obj (O_Off k) = Some k"
| "held_obj obj _ = None"

definition holder :: "nat \<Rightarrow> stack \<Rightarrow> nat \<Rightarrow> nat option" where
  "holder n s t = held_obj (obj_of n t) (s_pc s t)"

text \<open>What a thread knows of the head and the links; a reservation vouches for what it has read.\<close>

definition pc_ok :: "nat \<Rightarrow> stack \<Rightarrow> nat \<Rightarrow> bool" where
  "pc_ok n s t \<longleftrightarrow>
     (case s_pc s t of
        O_Next k \<Rightarrow> k < nobjs n \<and> (reserved s t \<longrightarrow> head s = int k)
      | O_SC k tmp \<Rightarrow> k < nobjs n \<and> (reserved s t \<longrightarrow> head s = int k \<and> link s k = tmp)
      | U_Cas i tmp \<Rightarrow> link s (obj_of n t) = tmp
      | O_Fail \<Rightarrow> False
      | _ \<Rightarrow> True)"

text \<open>Pushes count 1, pops -1, from the moment the head is stored to.\<close>

fun popped :: "stack_pc \<Rightarrow> bool" where
  "popped (O_Check k) = True"
| "popped (O_Off k) = True"
| "popped _ = False"

definition gain :: "nat \<Rightarrow> nat \<Rightarrow> nat \<times> stack_pc \<Rightarrow> int" where
  "gain n t x = (if t < stack_tpg n then - int (fst x) - (if popped (snd x) then 1 else 0) else int (fst x))"

definition stack_inv :: "nat \<Rightarrow> stack \<Rightarrow> nat list \<Rightarrow> bool" where
  "stack_inv n s xs \<longleftrightarrow>
     stack_chain (link s) (head s) xs \<and> distinct xs \<and> set xs \<subseteq> {..<nobjs n} \<and>
     (\<forall>k. on_stack s k = (if k \<in> set xs \<or> (\<exists>t<n. holder n s t = Some k) then 1 else 0)) \<and>
     (\<forall>t<n. \<forall>k. holder n s t = Some k \<longrightarrow> k < nobjs n \<and> k \<notin> set xs) \<and>
     (\<forall>t<n. \<forall>u<n. \<forall>k. holder n s t = Some k \<longrightarrow> holder n s u = Some k \<longrightarrow> u = t) \<and>
     (\<forall>t<n. pc_ok n s t \<and> nerrors s t = 0) \<and> \<not> failed s \<and>
     (\<Sum>t<n. gain n t (nsuccess s t, s_pc s t)) = int (length xs)"

lemma stack_invD:
  assumes "stack_inv n s xs"
  shows "stack_chain (link s) (head s) xs" and "distinct xs" and "set xs \<subseteq> {..<nobjs n}"
    and "on_stack s k = (if k \<in> set xs \<or> (\<exists>t<n. holder n s t = Some k) then 1 else 0)"
    and "t < n \<Longrightarrow> holder n s t = Some k \<Longrightarrow> k < nobjs n \<and> k \<notin> set xs"
    and "t < n \<Longrightarrow> u < n \<Longrightarrow> holder n s t = Some k \<Longrightarrow> holder n s u = Some k \<Longrightarrow> u = t"
    and "t < n \<Longrightarrow> pc_ok n s t" and "t < n \<Longrightarrow> nerrors s t = 0" and "\<not> failed s"
    and "(\<Sum>t<n. gain n t (nsuccess s t, s_pc s t)) = int (length xs)"
  using assms unfolding stack_inv_def by blast+

lemma gain_sum:
  assumes "t < n" and "nsuccess s' = (nsuccess s)(t := v)" and "s_pc s' = (s_pc s)(t := c)"
  shows "(\<Sum>u<n. gain n u (nsuccess s' u, s_pc s' u))
    = (\<Sum>u<n. gain n u (nsuccess s u, s_pc s u)) + (gain n t (v, c) - gain n t (nsuccess s t, s_pc s t))"
proof -
  have "(\<lambda>u. (nsuccess s' u, s_pc s' u)) = (\<lambda>u. (nsuccess s u, s_pc s u))(t := (v, c))"
    using assms(2,3) by auto
  then have "gain n u (nsuccess s' u, s_pc s' u) = gain n u (((\<lambda>u. (nsuccess s u, s_pc s u))(t := (v, c))) u)" for u
    by metis
  then show ?thesis using sum_thread [OF assms(1), of "gain n" "\<lambda>u. (nsuccess s u, s_pc s u)" "(v, c)"] by simp
qed

lemma stack_chain_link: "stack_chain lnk h xs \<Longrightarrow> k \<notin> set xs \<Longrightarrow> stack_chain (lnk(k := v)) h xs"
  by (induction xs arbitrary: h) auto

text \<open>Steps that leave the stack and the objects alone.\<close>

lemma quiet_step:
  assumes inv: "stack_inv n s xs" and t: "t < n"
    and same: "head s' = head s" "on_stack s' = on_stack s" "link s' = link s" "nsuccess s' = nsuccess s"
      "nerrors s' = nerrors s" "failed s' = failed s" "\<And>u. u \<noteq> t \<Longrightarrow> reserved s' u \<Longrightarrow> reserved s u"
    and pc: "s_pc s' = (s_pc s)(t := c)" "held_obj (obj_of n t) c = holder n s t" "popped c = popped (s_pc s t)"
    and ok: "pc_ok n s' t"
  shows "stack_inv n s' xs"
proof -
  have holder: "holder n s' u = holder n s u" for u using pc by (simp add: holder_def)
  have "pc_ok n s' u" if "u < n" for u
    using ok stack_invD(7) [OF inv that] same pc(1)
    by (cases "u = t") (auto simp: pc_ok_def split: stack_pc.splits)
  moreover have "(\<Sum>u<n. gain n u (nsuccess s' u, s_pc s' u)) = int (length xs)"
    using gain_sum [OF t, of s' s "nsuccess s t" c] same(4) pc(1,3) stack_invD(10) [OF inv]
    by (simp add: gain_def fun_upd_idem)
  ultimately show ?thesis using inv same unfolding stack_inv_def holder by simp
qed

text \<open>The reservations and reads of the others survive a step that changes no link on the stack.\<close>

lemma pc_ok_other:
  assumes inv: "stack_inv n s xs" and u: "u < n" "u \<noteq> t" and pc: "s_pc s' = (s_pc s)(t := c)"
    and head: "\<And>w. w \<noteq> t \<Longrightarrow> reserved s' w \<Longrightarrow> reserved s w \<and> head s' = head s"
    and link: "\<And>k. link s' k \<noteq> link s k \<Longrightarrow> holder n s t = Some k" and t: "t < n"
  shows "pc_ok n s' u"
proof -
  have kept: "link s' k = link s k" if "k \<in> set xs \<or> holder n s u = Some k" for k
    using that link [of k] stack_invD(5) [OF inv t, of k] stack_invD(6) [OF inv u(1) t, of k] u(2) by metis
  have "k \<in> set xs" if "head s = int k" for k
    using stack_invD(1) [OF inv] that by (cases xs) auto
  then show ?thesis
    using stack_invD(7) [OF inv u(1)] u(2) pc head [OF u(2)] kept
    by (auto simp: pc_ok_def holder_def split: stack_pc.splits)
qed

text \<open>
  Steps that move an object: the stack and what the thread holds are \<open>xs\<close> and \<open>h\<close> before, \<open>xs'\<close> and
  \<open>h'\<close> after; an object that comes in was marked 0, and one that goes out is.
\<close>

lemma moving_step:
  assumes inv: "stack_inv n s xs" and t: "t < n" and pc: "s_pc s' = (s_pc s)(t := c)"
    and here: "h = holder n s t" "h' = held_obj (obj_of n t) c"
    and chain: "stack_chain (link s') (head s') xs'" "distinct xs'"
    and zone: "\<And>k. k \<in> set xs' \<or> h' = Some k \<Longrightarrow> k < nobjs n \<and> (k \<in> set xs \<or> h = Some k \<or> on_stack s k = 0)"
    and apart: "\<And>k. h' = Some k \<Longrightarrow> k \<notin> set xs'"
    and marks: "\<And>k. on_stack s' k =
      (if k \<in> set xs' \<or> h' = Some k then 1 else if k \<in> set xs \<or> h = Some k then 0 else on_stack s k)"
    and same: "nerrors s' = nerrors s" "failed s' = failed s"
    and ok: "pc_ok n s' t" "\<And>w. w \<noteq> t \<Longrightarrow> reserved s' w \<Longrightarrow> reserved s w \<and> head s' = head s"
      "\<And>k. link s' k \<noteq> link s k \<Longrightarrow> holder n s t = Some k"
    and gain: "nsuccess s' = (nsuccess s)(t := v)"
      "gain n t (v, c) - gain n t (nsuccess s t, s_pc s t) = int (length xs') - int (length xs)"
  shows "stack_inv n s' xs'"
proof -
  have holder: "holder n s' u = (if u = t then h' else holder n s u)" for u
    using pc here(2) by (simp add: holder_def)
  have other: "k < nobjs n \<and> k \<notin> set xs' \<and> h' \<noteq> Some k \<and> k \<notin> set xs \<and> h \<noteq> Some k"
    if "u < n" "u \<noteq> t" "holder n s u = Some k" for u k
  proof -
    have 1: "on_stack s k = 1" using stack_invD(4) [OF inv, of k] that by auto
    have 2: "h \<noteq> Some k" using stack_invD(6) [OF inv that(1) t that(3)] that(2) here(1) by metis
    show ?thesis using 1 2 zone [of k] stack_invD(5) [OF inv that(1,3)] by auto
  qed
  have "on_stack s' k = (if k \<in> set xs' \<or> (\<exists>u<n. holder n s' u = Some k) then 1 else 0)" for k
  proof (cases "k \<in> set xs' \<or> h' = Some k")
    case True
    then show ?thesis using marks [of k] t holder by auto
  next
    case False
    then have "(\<exists>u<n. holder n s' u = Some k) \<longleftrightarrow> (\<exists>u<n. u \<noteq> t \<and> holder n s u = Some k)"
      using holder by auto
    then show ?thesis using False marks [of k] stack_invD(4) [OF inv, of k] other here(1) by metis
  qed
  moreover have "u < n \<Longrightarrow> holder n s' u = Some k \<Longrightarrow> k < nobjs n \<and> k \<notin> set xs'" for u k
    using other [of u k] zone [of k] apart [of k] holder [of u] by (auto split: if_splits)
  moreover have "u < n \<Longrightarrow> w < n \<Longrightarrow> holder n s' u = Some k \<Longrightarrow> holder n s' w = Some k \<Longrightarrow> w = u" for u w k
    using other [of u k] other [of w k] stack_invD(6) [OF inv, of u w k] holder [of u] holder [of w]
    by (auto split: if_splits)
  moreover have "(\<Sum>u<n. gain n u (nsuccess s' u, s_pc s' u)) = int (length xs')"
    using gain_sum [OF t gain(1) pc] gain(2) stack_invD(10) [OF inv] by simp
  moreover have "set xs' \<subseteq> {..<nobjs n}" using zone by auto
  moreover have "pc_ok n s' u" if "u < n" for u
    using pc_ok_other [OF inv that _ pc ok(2,3) t] ok(1) by (cases "u = t") auto
  ultimately show ?thesis
    using chain same ok stack_invD(8,9) [OF inv] unfolding stack_inv_def by simp
qed

section \<open>Every step keeps it\<close>

lemma stack_tpg_pos: "0 < n \<Longrightarrow> 0 < stack_tpg n"
  unfolding stack_tpg_def by simp

lemma obj_of_bound:
  assumes "t < n" and "stack_tpg n \<le> t"
  shows "obj_of n t < nobjs n"
proof -
  have "0 < t div stack_tpg n" using assms stack_tpg_pos [of n] by (simp add: div_greater_zero_iff)
  moreover have "t div stack_tpg n \<le> (n - 1) div stack_tpg n" using assms by (intro div_le_mono) simp
  ultimately show ?thesis unfolding obj_of_def nobjs_def by linarith
qed

lemmas stack_defs = goto_def set_head_def count_success_def push_iteration_def

lemma acquire_preserves:
  assumes inv: "stack_inv n s xs" and t: "t < n" "stack_tpg n \<le> t" and pc: "s_pc s t = U_Acquire i j"
    and free: "on_stack s (obj_of n t) = 0"
  shows "stack_inv n (goto t (U_Load i) (s\<lparr>on_stack := (on_stack s)(obj_of n t := 1)\<rparr>)) xs"
  by (rule moving_step [where c = "U_Load i" and v = "nsuccess s t", OF inv t(1) _ refl refl])
    (use assms obj_of_bound [OF t] stack_invD [OF inv] in
    \<open>auto simp: stack_defs holder_def gain_def pc_ok_def split: if_splits\<close>)

lemma link_preserves:
  assumes inv: "stack_inv n s xs" and t: "t < n" and pc: "s_pc s t = U_Next i tmp"
  shows "stack_inv n (goto t (U_Cas i tmp) (s\<lparr>link := (link s)(obj_of n t := tmp)\<rparr>)) xs"
proof (rule moving_step [where c = "U_Cas i tmp" and v = "nsuccess s t", OF inv t _ refl refl])
  have held: "holder n s t = Some (obj_of n t)" using pc by (simp add: holder_def)
  note own = stack_invD(5) [OF inv t held]
  show "stack_chain (link (goto t (U_Cas i tmp) (s\<lparr>link := (link s)(obj_of n t := tmp)\<rparr>)))
      (head (goto t (U_Cas i tmp) (s\<lparr>link := (link s)(obj_of n t := tmp)\<rparr>))) xs"
    using own stack_invD(1) [OF inv] by (simp add: stack_defs stack_chain_link)
qed (use pc stack_invD [OF inv] t in \<open>auto simp: stack_defs holder_def gain_def pc_ok_def split: if_splits\<close>)

lemma push_preserves_head:
  assumes inv: "stack_inv n s xs" and t: "t < n" "stack_tpg n \<le> t" and pc: "s_pc s t = U_Cas i tmp"
    and head: "head s = tmp"
  shows "stack_inv n (goto t (push_iteration niter (Suc i)) (count_success t (set_head (int (obj_of n t)) s)))
    (obj_of n t # xs)"
proof (rule moving_step [where c = "push_iteration niter (Suc i)" and v = "Suc (nsuccess s t)", OF inv t(1) _ refl refl])
  have held: "holder n s t = Some (obj_of n t)" using pc by (simp add: holder_def)
  note own = stack_invD(5) [OF inv t(1) held]
  let ?s = "goto t (push_iteration niter (Suc i)) (count_success t (set_head (int (obj_of n t)) s))"
  show "distinct (obj_of n t # xs)" using own stack_invD(2) [OF inv] by simp
  show "stack_chain (link ?s) (head ?s) (obj_of n t # xs)"
    using own stack_invD(1) [OF inv] stack_invD(7) [OF inv t(1)] pc head by (simp add: stack_defs pc_ok_def)
qed (use pc stack_invD [OF inv] t obj_of_bound [OF t] in
    \<open>auto simp: stack_defs holder_def gain_def pc_ok_def split: if_splits\<close>)

lemma pop_preserves_head:
  assumes inv: "stack_inv n s xs" and t: "t < n" "t < stack_tpg n" and pc: "s_pc s t = O_SC k tmp"
    and reserved: "reserved s t"
  shows "\<exists>ys. xs = k # ys \<and> stack_inv n (goto t (O_Check k) (set_head tmp s)) ys"
proof -
  have at: "head s = int k" "link s k = tmp"
    using stack_invD(7) [OF inv t(1)] pc reserved by (auto simp: pc_ok_def)
  then obtain ys where xs: "xs = k # ys" and chain: "stack_chain (link s) tmp ys"
    using stack_invD(1) [OF inv] by (cases xs) auto
  have "stack_inv n (goto t (O_Check k) (set_head tmp s)) ys"
    by (rule moving_step [where c = "O_Check k" and v = "nsuccess s t", OF inv t(1) _ refl refl])
      (use t pc xs chain stack_invD(2-4) [OF inv] in
       \<open>auto simp: stack_defs holder_def gain_def pc_ok_def split: if_splits\<close>)
  with xs show ?thesis by simp
qed

lemma off_preserves:
  assumes inv: "stack_inv n s xs" and t: "t < n" "t < stack_tpg n" and pc: "s_pc s t = O_Off k"
  shows "stack_inv n (goto t O_Pushers (count_success t (s\<lparr>on_stack := (on_stack s)(k := 0)\<rparr>))) xs"
proof -
  have "k \<notin> set xs" using stack_invD(5) [OF inv t(1), of k] pc by (simp add: holder_def)
  then show ?thesis
    by (intro moving_step [where c = "O_Pushers" and v = "Suc (nsuccess s t)", OF inv t(1) _ refl refl])
      (use t pc stack_invD(1-4) [OF inv] in
       \<open>auto simp: stack_defs holder_def gain_def pc_ok_def split: if_splits\<close>)
qed

lemma push_step_preserves:
  assumes inv: "stack_inv n s xs" and t: "t < n" "stack_tpg n \<le> t"
    and step: "push_step n niter nloop t s = Some s'"
  shows "\<exists>ys. stack_inv n s' ys"
proof -
  note quiet = quiet_step [OF inv t(1)]
  show ?thesis
  proof (cases "s_pc s t")
    case (U_Failed i)
    then show ?thesis using step
      by (intro exI [of _ xs] quiet [where c = "if failed s then U_Decr else U_Acquire i 0"])
        (auto simp: push_step_def stack_defs holder_def pc_ok_def)
  next
    case (U_Acquire i j)
    show ?thesis
    proof (cases "on_stack s (obj_of n t) = 0")
      case True
      then show ?thesis using acquire_preserves [OF inv t U_Acquire True] step U_Acquire
        by (auto simp: push_step_def)
    next
      case False
      then show ?thesis using step U_Acquire
        by (intro exI [of _ xs] quiet [where c = "if Suc j = nloop then push_iteration niter (Suc i) else U_Acquire i (Suc j)"])
          (auto simp: push_step_def stack_defs holder_def pc_ok_def Let_def split: if_splits)
    qed
  next
    case (U_Load i)
    then show ?thesis using step
      by (intro exI [of _ xs] quiet [where c = "U_Next i (head s)"]) (auto simp: push_step_def stack_defs holder_def pc_ok_def)
  next
    case (U_Next i tmp)
    then show ?thesis using link_preserves [OF inv t(1) U_Next] step by (auto simp: push_step_def)
  next
    case (U_Cas i tmp)
    show ?thesis
    proof (cases "head s = tmp")
      case True
      then show ?thesis using push_preserves_head [OF inv t U_Cas True] step U_Cas
        by (auto simp: push_step_def)
    next
      case False
      then show ?thesis using step U_Cas
        by (intro exI [of _ xs] quiet [where c = "U_Load i"]) (auto simp: push_step_def stack_defs holder_def pc_ok_def)
    qed
  next
    case U_Decr
    then show ?thesis using step
      by (intro exI [of _ xs] quiet [where c = S_Exit]) (auto simp: push_step_def stack_defs holder_def pc_ok_def)
  qed (use step in \<open>auto simp: push_step_def\<close>)
qed

lemma pop_step_preserves:
  assumes inv: "stack_inv n s xs" and t: "t < n" "t < stack_tpg n"
    and step: "pop_step spurious t s = Some s'"
  shows "\<exists>ys. stack_inv n s' ys"
proof -
  note quiet = quiet_step [OF inv t(1)]
  note quiet_defs = pop_step_def stack_defs holder_def pc_ok_def
  show ?thesis
  proof (cases "s_pc s t")
    case O_LL
    have "head s = - 1 \<or> (\<exists>k. head s = int k \<and> k < nobjs n)"
      using stack_invD(1,3) [OF inv] by (cases xs) auto
    then show ?thesis using step O_LL
      by (intro exI [of _ xs] quiet [where c = "if head s = - 1 then O_Pushers else O_Next (nat (head s))"])
        (auto simp: quiet_defs)
  next
    case (O_Next k)
    then show ?thesis using step stack_invD(7) [OF inv t(1)]
      by (intro exI [of _ xs] quiet [where c = "O_SC k (link s k)"]) (auto simp: quiet_defs)
  next
    case (O_SC k tmp)
    show ?thesis
    proof (cases "reserved s t \<and> \<not> spurious")
      case True
      then show ?thesis using pop_preserves_head [OF inv t O_SC] step O_SC by (auto simp: pop_step_def)
    next
      case False
      then show ?thesis using step O_SC
        by (intro exI [of _ xs] quiet [where c = O_Pushers]) (auto simp: quiet_defs split: if_splits)
    qed
  next
    case (O_Check k)
    then have "on_stack s k = 1" using stack_invD(4) [OF inv, of k] t by (auto simp: holder_def)
    then show ?thesis using step O_Check by (intro exI [of _ xs] quiet [where c = "O_Off k"]) (auto simp: quiet_defs)
  next
    case O_Fail
    then show ?thesis using stack_invD(7) [OF inv t(1)] by (simp add: pc_ok_def)
  next
    case (O_Off k)
    then show ?thesis using off_preserves [OF inv t O_Off] step by (auto simp: pop_step_def)
  next
    case O_Pushers
    then show ?thesis using step
      by (intro exI [of _ xs] quiet [where c = "if npushers s \<noteq> 0 then O_Failed else S_Exit"]) (auto simp: quiet_defs)
  next
    case O_Failed
    then show ?thesis using step
      by (intro exI [of _ xs] quiet [where c = "if failed s then S_Exit else O_LL"]) (auto simp: quiet_defs)
  qed (use step in \<open>auto simp: pop_step_def\<close>)
qed

lemma stack_run_inv:
  assumes "stack_run n niter nloop s"
  shows "\<exists>xs. stack_inv n s xs"
  using assms
proof (induction rule: stack_run.induct)
  case Stack_Init
  have "held_obj (obj_of n t) (push_iteration niter 0) = None" and "held_obj (obj_of n t) O_LL = None" for t
    by (simp_all add: push_iteration_def)
  moreover have "\<not> popped O_LL" by simp
  ultimately have "stack_inv n (stack_init n niter) []"
    by (auto simp: stack_inv_def stack_init_def holder_def pc_ok_def gain_def push_iteration_def
        intro!: sum.neutral)
  then show ?case ..
next
  case (Stack_Step s spurious t s')
  then obtain xs where inv: "stack_inv n s xs" by blast
  have t: "t < n" using Stack_Step.hyps(2) by (simp add: stack_step_def split: if_splits)
  show ?case
  proof (cases "t < stack_tpg n")
    case True
    then show ?thesis using pop_step_preserves [OF inv t True] Stack_Step.hyps(2) t by (simp add: stack_step_def)
  next
    case False
    then show ?thesis using push_step_preserves [OF inv t] Stack_Step.hyps(2) t by (simp add: stack_step_def)
  qed
qed

section \<open>What the checks find\<close>

lemma stack_walk_chain:
  assumes "stack_chain lnk h xs" and "distinct xs" and "set xs \<subseteq> {..<no}" and "\<forall>x \<in> set xs. marks x = 1"
  shows "stack_walk lnk no h marks c = Some (- 1, \<lambda>k. if k \<in> set xs then 2 else marks k, c + length xs)"
  using assms
proof (induction xs arbitrary: h marks c)
  case Nil
  then show ?case by (subst stack_walk.simps) simp
next
  case (Cons x xs)
  then have "stack_walk lnk no h marks c = stack_walk lnk no (lnk x) (marks(x := 2)) (Suc c)"
    by (subst stack_walk.simps) simp
  moreover have "stack_walk lnk no (lnk x) (marks(x := 2)) (Suc c)
      = Some (- 1, \<lambda>k. if k \<in> set xs then 2 else (marks(x := 2)) k, Suc c + length xs)"
    using Cons.prems by (intro Cons.IH) auto
  moreover have "(\<lambda>k. if k \<in> set xs then 2 else (marks(x := 2)) k) = (\<lambda>k. if k \<in> set (x # xs) then 2 else marks k)"
    by (rule ext) simp
  ultimately show ?case by simp
qed

lemma gain_at_end:
  assumes "all_exited n s" and "0 < n"
  shows "(\<Sum>t<n. gain n t (nsuccess s t, s_pc s t))
    = int (\<Sum>t \<in> {stack_tpg n..<n}. nsuccess s t) - int (\<Sum>t \<in> {..<stack_tpg n}. nsuccess s t)"
proof -
  have "(n + 1) div 2 \<le> n" using assms(2) by presburger
  moreover have "3 \<le> n" if "2 \<le> n div 3" using that by presburger
  ultimately have "stack_tpg n \<le> n" unfolding stack_tpg_def by presburger
  then have split: "(\<Sum>t<n. g t) = (\<Sum>t \<in> {..<stack_tpg n}. g t) + (\<Sum>t \<in> {stack_tpg n..<n}. g t)"
    for g :: "nat \<Rightarrow> int"
    using sum.atLeastLessThan_concat [of 0 "stack_tpg n" n g] by (simp add: atLeast0LessThan)
  moreover have "(\<Sum>t \<in> {..<stack_tpg n}. gain n t (nsuccess s t, s_pc s t)) = - int (\<Sum>t \<in> {..<stack_tpg n}. nsuccess s t)"
    using assms \<open>stack_tpg n \<le> n\<close> by (simp add: gain_def all_exited_def flip: sum_negf)
  moreover have "(\<Sum>t \<in> {stack_tpg n..<n}. gain n t (nsuccess s t, s_pc s t)) = int (\<Sum>t \<in> {stack_tpg n..<n}. nsuccess s t)"
    by (simp add: gain_def)
  ultimately show ?thesis using split [of "\<lambda>t. gain n t (nsuccess s t, s_pc s t)"] by linarith
qed

lemma stack_result_ok:
  assumes inv: "stack_inv n s xs" and over: "all_exited n s" and n: "0 < n"
  shows "stack_result n s = 0"
proof -
  have "holder n s t = None" if "t < n" for t using over that by (simp add: all_exited_def holder_def)
  then have marks: "on_stack s k = (if k \<in> set xs then 1 else 0)" for k using stack_invD(4) [OF inv, of k] by auto
  then have "stack_walk (link s) (nobjs n) (head s) (on_stack s) 0
      = Some (- 1, \<lambda>k. if k \<in> set xs then 2 else on_stack s k, length xs)"
    using stack_walk_chain [OF stack_invD(1-3) [OF inv]] by simp
  moreover have "(\<Sum>t<n. nerrors s t) = 0" using stack_invD(8) [OF inv] by simp
  ultimately show ?thesis
    using gain_at_end [OF over n] stack_invD(10) [OF inv] marks by (simp add: stack_result_def list_ex_iff)
qed

text \<open>The test, on the state \<open>s\<close> its threads have ended in: it is not run with one thread.\<close>

definition test_threaded_llsc_int_stack :: "nat \<Rightarrow> stack \<Rightarrow> nat" where
  "test_threaded_llsc_int_stack n s = (if n < 2 then 0 else stack_result n s)"

text \<open>A run given by the threads in the order of their steps.\<close>

fun stack_exec :: "nat \<Rightarrow> nat \<Rightarrow> nat \<Rightarrow> nat list \<Rightarrow> stack \<Rightarrow> stack option" where
  "stack_exec n niter nloop [] s = Some s"
| "stack_exec n niter nloop (t # ts) s =
     (case stack_step n niter nloop False t s of None \<Rightarrow> None | Some s' \<Rightarrow> stack_exec n niter nloop ts s')"

lemma stack_exec_run: "stack_run n niter nloop s \<Longrightarrow> stack_exec n niter nloop ts s = Some s' \<Longrightarrow> stack_run n niter nloop s'"
  by (induction ts arbitrary: s) (auto split: option.splits intro: stack_run.intros)

text \<open>
  C18. The stack test can only pass: at every moment of every run, with any number of threads,
  iterations and attempts, and with store-conditionals that fail at any time, the head and the links
  lead through distinct objects to -1 and no thread has found an error; and if all threads have
  returned, the checks of the test find none: every object on the stack is marked so and no other,
  and as many objects were popped as were pushed and are not on the stack. It rests on the
  store-conditional failing if the head was stored to in between, though it holds the same index
  again.
\<close>

theorem llsc_stack_test_passes:
  assumes "stack_run n niter nloop s"
  shows "(\<exists>xs. stack_chain (link s) (head s) xs \<and> distinct xs \<and> set xs \<subseteq> {..<nobjs n})
    \<and> (\<forall>t<n. nerrors s t = 0) \<and> (all_exited n s \<longrightarrow> test_threaded_llsc_int_stack n s = 0)"
proof -
  obtain xs where inv: "stack_inv n s xs" using stack_run_inv [OF assms] by blast
  then show ?thesis
    using stack_invD(1-3,8) [OF inv] stack_result_ok [OF inv] by (auto simp: test_threaded_llsc_int_stack_def)
qed

text \<open>One thread pushes its object and returns; the other finds the stack empty first, then pops the object.\<close>

theorem llsc_stack_test_passes_witness:
  "\<exists>s. stack_exec 2 1 1 [1, 1, 0, 1, 0, 1, 1, 0, 0, 0, 0, 1, 0, 0, 0] (stack_init 2 1) = Some s
    \<and> all_exited 2 s \<and> test_threaded_llsc_int_stack 2 s = 0"
proof -
  have run: "\<exists>s. stack_exec 2 1 1 [1, 1, 0, 1, 0, 1, 1, 0, 0, 0, 0, 1, 0, 0, 0] (stack_init 2 1) = Some s
      \<and> all_exited 2 s"
    by (simp add: stack_step_def push_step_def pop_step_def stack_defs stack_init_def stack_tpg_def
        obj_of_def all_exited_def less_2_cases_iff)
  then obtain s where s: "stack_exec 2 1 1 [1, 1, 0, 1, 0, 1, 1, 0, 0, 0, 0, 1, 0, 0, 0] (stack_init 2 1) = Some s"
    and over: "all_exited 2 s" by blast
  have "test_threaded_llsc_int_stack 2 s = 0"
    using llsc_stack_test_passes [OF stack_exec_run [OF Stack_Init s]] over by blast
  with s over show ?thesis by blast
qed

end
