(* ===== verification/OPA_Test_Aba.thy ===== *)
theory OPA_Test_Aba
  imports Main
begin

text \<open>
  \<open>test_threaded_llsc_int_aba\<close> and \<open>test_threaded_llsc_ptr_aba\<close> of \<open>test/test_primitives.c\<close>: thread 0
  reserves the shared variable; between its load-linked and its store-conditional thread 1 changes
  the variable and changes it back, or leaves it alone, by chance. Three flags make them take turns.
  The two tests differ in the type of the variable and in its two values, 0 and 1, which are
  arguments here. Each access to shared memory is a step, sequentially consistent; a reservation is
  lost at any store to the variable, and a store-conditional may fail without a reason.
\<close>

section \<open>The threads\<close>

datatype pc_0 = A_Init | A_LL | A_Pass_0 | A_Wait_1 | A_SC | A_Stored | A_Stored_Val | A_Not_Stored
  | A_Not_Stored_Val | A_Reset_1 | A_Pass_2 | A_Exit

datatype pc_1 = B_Choose | B_Wait_0 | B_Reset_0 | B_Test | B_One | B_Zero | B_Pass_1 | B_Wait_2
  | B_Reset_2 | B_Exit

record 'v aba =
  shared_val :: 'v
  sv_reserved :: bool
  pass_point_0 :: bool
  pass_point_1 :: bool
  pass_point_2 :: bool
  change_val :: bool
  false_positives :: nat
  nunchanged_val :: nat
  aba_nerrors :: nat
  pc0 :: pc_0
  pc1 :: pc_1
  i0 :: nat
  i1 :: nat

definition begin_0 :: "nat \<Rightarrow> nat \<Rightarrow> pc_0" where
  "begin_0 niter i = (if i < niter then A_Init else A_Exit)"

definition begin_1 :: "nat \<Rightarrow> nat \<Rightarrow> pc_1" where
  "begin_1 niter i = (if i < niter then B_Choose else B_Exit)"

text \<open>An error is counted if \<open>e\<close>; then thread 0 is at \<open>c\<close>.\<close>

definition check_0 :: "bool \<Rightarrow> pc_0 \<Rightarrow> 'v aba \<Rightarrow> 'v aba" where
  "check_0 e c s = s\<lparr>aba_nerrors := aba_nerrors s + (if e then 1 else 0), pc0 := c\<rparr>"

definition aba_helper_0 :: "'v \<Rightarrow> 'v \<Rightarrow> nat \<Rightarrow> bool \<Rightarrow> 'v aba \<Rightarrow> 'v aba option" where
  "aba_helper_0 zero one niter spurious s =
     (case pc0 s of
        A_Init \<Rightarrow> Some (s\<lparr>shared_val := zero, sv_reserved := False, pc0 := A_LL\<rparr>)
      | A_LL \<Rightarrow> Some (check_0 (shared_val s \<noteq> zero) A_Pass_0 (s\<lparr>sv_reserved := True\<rparr>))
      | A_Pass_0 \<Rightarrow> Some (s\<lparr>pass_point_0 := True, pc0 := A_Wait_1\<rparr>)
      | A_Wait_1 \<Rightarrow> Some (if pass_point_1 s then s\<lparr>pc0 := A_SC\<rparr> else s)
      | A_SC \<Rightarrow>
          Some (if sv_reserved s \<and> \<not> spurious
                then s\<lparr>shared_val := one, sv_reserved := False, pc0 := A_Stored\<rparr>
                else s\<lparr>sv_reserved := False, pc0 := A_Not_Stored\<rparr>)
      | A_Stored \<Rightarrow>
          Some (check_0 (change_val s) A_Stored_Val
            (s\<lparr>nunchanged_val := nunchanged_val s + (if change_val s then 0 else 1)\<rparr>))
      | A_Stored_Val \<Rightarrow> Some (check_0 (shared_val s \<noteq> one) A_Reset_1 s)
      | A_Not_Stored \<Rightarrow>
          Some (s\<lparr>false_positives := false_positives s + (if change_val s then 0 else 1),
                  nunchanged_val := nunchanged_val s + (if change_val s then 0 else 1),
                  pc0 := A_Not_Stored_Val\<rparr>)
      | A_Not_Stored_Val \<Rightarrow> Some (check_0 (shared_val s \<noteq> zero) A_Reset_1 s)
      | A_Reset_1 \<Rightarrow> Some (s\<lparr>pass_point_1 := False, pc0 := A_Pass_2\<rparr>)
      | A_Pass_2 \<Rightarrow> Some (s\<lparr>pass_point_2 := True, i0 := Suc (i0 s), pc0 := begin_0 niter (Suc (i0 s))\<rparr>)
      | A_Exit \<Rightarrow> None)"

text \<open>\<open>chosen\<close> is \<open>rand() % 2\<close>.\<close>

definition aba_helper_1 :: "'v \<Rightarrow> 'v \<Rightarrow> nat \<Rightarrow> bool \<Rightarrow> 'v aba \<Rightarrow> 'v aba option" where
  "aba_helper_1 zero one niter chosen s =
     (case pc1 s of
        B_Choose \<Rightarrow> Some (s\<lparr>change_val := chosen, pc1 := B_Wait_0\<rparr>)
      | B_Wait_0 \<Rightarrow> Some (if pass_point_0 s then s\<lparr>pc1 := B_Reset_0\<rparr> else s)
      | B_Reset_0 \<Rightarrow> Some (s\<lparr>pass_point_0 := False, pc1 := B_Test\<rparr>)
      | B_Test \<Rightarrow> Some (s\<lparr>pc1 := (if change_val s then B_One else B_Pass_1)\<rparr>)
      | B_One \<Rightarrow> Some (s\<lparr>shared_val := one, sv_reserved := False, pc1 := B_Zero\<rparr>)
      | B_Zero \<Rightarrow> Some (s\<lparr>shared_val := zero, sv_reserved := False, pc1 := B_Pass_1\<rparr>)
      | B_Pass_1 \<Rightarrow> Some (s\<lparr>pass_point_1 := True, pc1 := B_Wait_2\<rparr>)
      | B_Wait_2 \<Rightarrow> Some (if pass_point_2 s then s\<lparr>pc1 := B_Reset_2\<rparr> else s)
      | B_Reset_2 \<Rightarrow> Some (s\<lparr>pass_point_2 := False, i1 := Suc (i1 s), pc1 := begin_1 niter (Suc (i1 s))\<rparr>)
      | B_Exit \<Rightarrow> None)"

definition aba_init :: "'v \<Rightarrow> nat \<Rightarrow> 'v aba" where
  "aba_init zero niter = \<lparr>shared_val = zero, sv_reserved = False, pass_point_0 = False,
     pass_point_1 = False, pass_point_2 = False, change_val = False, false_positives = 0,
     nunchanged_val = 0, aba_nerrors = 0, pc0 = begin_0 niter 0, pc1 = begin_1 niter 0, i0 = 0, i1 = 0\<rparr>"

inductive aba_run :: "'v \<Rightarrow> 'v \<Rightarrow> nat \<Rightarrow> 'v aba \<Rightarrow> bool" for zero one :: 'v and niter :: nat where
  Aba_Init: "aba_run zero one niter (aba_init zero niter)"
| Aba_Step_0: "aba_run zero one niter s \<Longrightarrow> aba_helper_0 zero one niter spurious s = Some s' \<Longrightarrow>
    aba_run zero one niter s'"
| Aba_Step_1: "aba_run zero one niter s \<Longrightarrow> aba_helper_1 zero one niter chosen s = Some s' \<Longrightarrow>
    aba_run zero one niter s'"

text \<open>What the test returns when both threads have returned.\<close>

definition test_threaded_llsc_aba :: "'v aba \<Rightarrow> nat" where
  "test_threaded_llsc_aba s = (if aba_nerrors s \<noteq> 0 then 1 else 0)"

section \<open>They take turns\<close>

text \<open>
  Thread 0 is before point 0 of its iteration: thread 1 is before it as well, or on its way out of
  the iteration before.
\<close>

definition apart_by :: "bool \<Rightarrow> pc_1 list \<Rightarrow> 'v aba \<Rightarrow> bool" where
  "apart_by passed_0 waiting s \<longleftrightarrow> \<not> pass_point_1 s \<and>
     (if pass_point_2 s then i0 s = Suc (i1 s) \<and> pc1 s \<in> {B_Wait_2, B_Reset_2} \<and> pass_point_0 s = passed_0
      else i0 s = i1 s \<and> pc1 s \<in> set waiting \<and> pass_point_0 s = passed_0)"

text \<open>Thread 0 waits for point 1 or is between points 1 and 2.\<close>

definition after_point_0 :: "'v \<Rightarrow> 'v aba \<Rightarrow> bool" where
  "after_point_0 zero s \<longleftrightarrow> \<not> pass_point_0 s \<and> \<not> pass_point_2 s \<and> i0 s = i1 s \<and>
     (case pc1 s of
        B_Test \<Rightarrow> \<not> pass_point_1 s \<and> shared_val s = zero \<and> sv_reserved s
      | B_One \<Rightarrow> \<not> pass_point_1 s \<and> change_val s
      | B_Zero \<Rightarrow> \<not> pass_point_1 s \<and> change_val s \<and> \<not> sv_reserved s
      | B_Pass_1 \<Rightarrow> \<not> pass_point_1 s \<and> shared_val s = zero \<and> sv_reserved s = (\<not> change_val s)
      | B_Wait_2 \<Rightarrow> pass_point_1 s \<and> shared_val s = zero \<and> sv_reserved s = (\<not> change_val s)
      | _ \<Rightarrow> False)"

definition between_points :: "bool \<Rightarrow> 'v aba \<Rightarrow> bool" where
  "between_points passed_1 s \<longleftrightarrow> \<not> pass_point_0 s \<and> pass_point_1 s = passed_1 \<and> \<not> pass_point_2 s \<and>
     i0 s = i1 s \<and> pc1 s = B_Wait_2"

definition aba_inv :: "'v \<Rightarrow> 'v \<Rightarrow> nat \<Rightarrow> 'v aba \<Rightarrow> bool" where
  "aba_inv zero one niter s \<longleftrightarrow> aba_nerrors s = 0 \<and> (if pc0 s = A_Exit then i0 s = niter else i0 s < niter) \<and>
     (case pc0 s of
        A_Init \<Rightarrow> apart_by False [B_Choose, B_Wait_0] s
      | A_LL \<Rightarrow> apart_by False [B_Choose, B_Wait_0] s \<and> shared_val s = zero
      | A_Pass_0 \<Rightarrow> apart_by False [B_Choose, B_Wait_0] s \<and> shared_val s = zero \<and> sv_reserved s
      | A_Wait_1 \<Rightarrow> apart_by True [B_Choose, B_Wait_0, B_Reset_0] s \<and> shared_val s = zero \<and> sv_reserved s
          \<or> after_point_0 zero s
      | A_SC \<Rightarrow> between_points True s \<and> shared_val s = zero \<and> sv_reserved s = (\<not> change_val s)
      | A_Stored \<Rightarrow> between_points True s \<and> shared_val s = one \<and> \<not> change_val s
      | A_Stored_Val \<Rightarrow> between_points True s \<and> shared_val s = one
      | A_Not_Stored \<Rightarrow> between_points True s \<and> shared_val s = zero
      | A_Not_Stored_Val \<Rightarrow> between_points True s \<and> shared_val s = zero
      | A_Reset_1 \<Rightarrow> between_points True s
      | A_Pass_2 \<Rightarrow> between_points False s
      | A_Exit \<Rightarrow> apart_by False [B_Exit] s)"

lemmas aba_defs = aba_inv_def apart_by_def after_point_0_def between_points_def check_0_def
  begin_0_def begin_1_def

lemma helper_0_keeps:
  "aba_inv zero one niter s \<Longrightarrow> aba_helper_0 zero one niter spurious s = Some s' \<Longrightarrow> aba_inv zero one niter s'"
  by (cases "pc0 s"; cases "pc1 s"; auto simp: aba_helper_0_def aba_defs split: if_splits)

lemma helper_1_keeps:
  "aba_inv zero one niter s \<Longrightarrow> aba_helper_1 zero one niter chosen s = Some s' \<Longrightarrow> aba_inv zero one niter s'"
  by (cases "pc1 s"; cases "pc0 s"; auto simp: aba_helper_1_def aba_defs split: if_splits)

lemma aba_run_inv: "aba_run zero one niter s \<Longrightarrow> aba_inv zero one niter s"
proof (induction rule: aba_run.induct)
  case Aba_Init
  show ?case by (simp add: aba_init_def aba_defs)
qed (auto intro: helper_0_keeps helper_1_keeps)

text \<open>No thread waits for the other in vain.\<close>

lemma aba_progress:
  assumes "aba_inv zero one niter s" and "\<not> (pc0 s = A_Exit \<and> pc1 s = B_Exit)"
  shows "(\<exists>s'. aba_helper_0 zero one niter spurious s = Some s' \<and> pc0 s' \<noteq> pc0 s)
    \<or> (\<exists>s'. aba_helper_1 zero one niter chosen s = Some s' \<and> pc1 s' \<noteq> pc1 s)"
  using assms
  by (cases "pc0 s"; cases "pc1 s"; auto simp: aba_helper_0_def aba_helper_1_def aba_defs split: if_splits)

section \<open>The tests pass\<close>

text \<open>A run given by the threads in turn, with the answer of \<open>rand\<close>.\<close>

fun aba_exec :: "'v \<Rightarrow> 'v \<Rightarrow> nat \<Rightarrow> (nat \<times> bool) list \<Rightarrow> 'v aba \<Rightarrow> 'v aba option" where
  "aba_exec zero one niter [] s = Some s"
| "aba_exec zero one niter ((t, x) # ts) s =
     (case (if t = 0 then aba_helper_0 zero one niter x s else aba_helper_1 zero one niter x s) of
        None \<Rightarrow> None | Some s' \<Rightarrow> aba_exec zero one niter ts s')"

lemma aba_exec_run:
  "aba_run zero one niter s \<Longrightarrow> aba_exec zero one niter ts s = Some s' \<Longrightarrow> aba_run zero one niter s'"
  by (induction zero one niter ts s rule: aba_exec.induct)
    (auto split: option.splits if_splits intro: Aba_Step_0 Aba_Step_1)

text \<open>
  C19. The tests for ABA pass, with any number of iterations: the store-conditional succeeds only if
  the variable was left alone since the load-linked, though it holds the same value; no check of
  thread 0 fails at any time, so the test returns 0; a thread that waits for a flag is waited for by
  none, so as long as a thread is in its loop one of the two moves on; and they leave their loops
  after the same number of iterations.
\<close>

theorem aba_tests_pass:
  assumes "aba_run zero one niter s"
  shows "(pc0 s = A_Stored \<longrightarrow> \<not> change_val s) \<and> test_threaded_llsc_aba s = 0 \<and>
    (pc0 s = A_Exit \<and> pc1 s = B_Exit \<longrightarrow> i0 s = niter \<and> i1 s = niter) \<and>
    (\<not> (pc0 s = A_Exit \<and> pc1 s = B_Exit) \<longrightarrow>
      (\<exists>s'. aba_helper_0 zero one niter spurious s = Some s' \<and> pc0 s' \<noteq> pc0 s) \<or>
      (\<exists>s'. aba_helper_1 zero one niter chosen s = Some s' \<and> pc1 s' \<noteq> pc1 s))"
proof -
  have inv: "aba_inv zero one niter s" by (rule aba_run_inv [OF assms])
  then have "(pc0 s = A_Stored \<longrightarrow> \<not> change_val s) \<and> test_threaded_llsc_aba s = 0 \<and>
      (pc0 s = A_Exit \<and> pc1 s = B_Exit \<longrightarrow> i0 s = niter \<and> i1 s = niter)"
    by (auto simp: test_threaded_llsc_aba_def aba_defs split: if_splits)
  with aba_progress [OF inv] show ?thesis by blast
qed

text \<open>One iteration in which thread 1 changes the variable and changes it back.\<close>

definition aba_schedule :: "(nat \<times> bool) list" where
  "aba_schedule = [(0, False), (0, False), (0, False), (1, True), (1, False), (1, False), (1, False),
     (1, False), (1, False), (1, False), (0, False), (0, False), (0, False), (0, False), (0, False),
     (0, False), (1, False), (1, False)]"

theorem aba_tests_pass_witness:
  "\<exists>s. aba_exec (0 :: int) 1 1 aba_schedule (aba_init 0 1) = Some s \<and> pc0 s = A_Exit \<and> pc1 s = B_Exit \<and>
     change_val s \<and> test_threaded_llsc_aba s = 0"
proof -
  obtain s where s: "aba_exec (0 :: int) 1 1 aba_schedule (aba_init 0 1) = Some s"
    and over: "pc0 s = A_Exit" "pc1 s = B_Exit" "change_val s"
    by (simp add: aba_schedule_def aba_init_def aba_helper_0_def aba_helper_1_def aba_defs)
  from aba_tests_pass [OF aba_exec_run [OF Aba_Init s]] s over show ?thesis by blast
qed

end
