(* ===== verification/Spec2Isabelle.thy ===== *)
theory Spec2Isabelle
  imports OPA_Barriers OPA_Barrier_Tests OPA_Barrier_Sanity OPA_Publish OPA_Queue_Contents OPA_Queue_Loops OPA_Queue_Test OPA_Queue_Early
    OPA_Types OPA_Counters OPA_Ports OPA_Test_Simple OPA_Test_Fairness
    OPA_Test_Stack OPA_Test_Aba
begin

text \<open>
  OpenPA: atomic primitives on many platforms, and a lock-free queue in shared memory.

  The program. OpenPA is a library of C headers. \<open>src/opa_primitives.h\<close> declares loads, stores,
  compare-and-swaps, swaps and counters on \<open>OPA_int_t\<close> and \<open>OPA_ptr_t\<close> and picks, at configuration
  time, one platform header of \<open>src/primitives\<close> that defines them (a port). A port that lacks a
  primitive derives it by the emulations of \<open>opa_emulated.h\<close>, from a compare-and-swap, a
  fetch-and-add or a load-linked/store-conditional pair. \<open>src/opa_queue.h\<close> builds on the four
  pointer primitives a queue in a shared segment which many processes may map at different
  addresses: it stores offsets from a base address, any number of threads enqueue and one
  dequeues. \<open>src/opa_queue.c\<close> sets the base address up, \<open>src/opa_primitives.c\<close> the mutex of the
  lock-based port.

  The theories.

  \<^item> \<open>OPA_Prelude\<close>: \<open>int\<close> and pointers as 32 and 64 bit words (an LP64 build), the store
    behind the \<open>v\<close> fields, the outcome of a call (it returns, or runs into undefined behaviour,
    or never returns), C's signed addition, and the relation \<open>yields\<close>.
  \<^item> \<open>OPA_Contract\<close>: the interface of \<open>opa_primitives.h\<close> as locales, the stronger one of
    ports that wrap around, and \<open>test/sanity.c\<close> as a client of it.
  \<^item> Ports, one group of definitions for each function of the header, and an interpretation of the
    contract on them: \<open>OPA_Unsafe\<close> (\<open>opa_unsafe.h\<close>), \<open>OPA_By_Lock\<close> (\<open>opa_by_lock.h\<close> and
    \<open>opa_primitives.c\<close>), \<open>OPA_Intel\<close> (\<open>opa_gcc_intel_32_64_ops.h\<close> and its barrier headers),
    \<open>OPA_C11\<close> (\<open>opa_c11_atomics.h\<close>), \<open>OPA_Gcc_Intrinsics\<close> (\<open>opa_gcc_intrinsics.h\<close>),
    \<open>OPA_Llsc_Ports\<close> (\<open>opa_gcc_ppc.h\<close>, \<open>opa_gcc_arm.h\<close>), \<open>OPA_Sicortex\<close>
    (\<open>opa_gcc_sicortex.h\<close>), \<open>OPA_Sun\<close> (\<open>opa_sun_atomic_ops.h\<close>), \<open>OPA_NT\<close>
    (\<open>opa_nt_intrinsics.h\<close>), \<open>OPA_IA64\<close> (\<open>opa_gcc_ia64.h\<close>). A machine instruction or a
    compiler built-in that the C text names is a small definition of its documented effect. The
    functions of \<open><atomic.h>\<close> on Solaris and of the Windows headers are arguments, with their
    documentation as a hypothesis and a reference instance of it.
  \<^item> \<open>OPA_Emulated\<close>: every function of \<open>opa_emulated.h\<close>, the loops as partial functions, and
    the derivation of the contract from its parts.
  \<^item> \<open>OPA_Shm\<close>, \<open>OPA_Fifo\<close>, \<open>OPA_Queue\<close>, \<open>OPA_Queue_Facts\<close>: relative addresses and the base
    address; the contract of a first-in-first-out queue and its clients, among them
    \<open>test_queue_sanity\<close> of \<open>test/test_queue.c\<close>; the operations of \<open>opa_queue.h\<close> over the
    primitives of any port, the representation predicate \<open>queue_rep\<close> that reads a list off the
    memory, and the proof that the operations meet the contract.
  \<^item> \<open>OPA_Layout\<close>, \<open>OPA_Types\<close>: the fields of \<open>OPA_Queue_info_t\<close> and their cache lines; \<open>OPA_int_t\<close> and
    \<open>OPA_ptr_t\<close> of every port, and the widths at which the ports access them in the data models
    ILP32, LP64 and LLP64.
  \<^item> \<open>OPA_Queue_Threads\<close>, \<open>OPA_Queue_Refine\<close>, \<open>OPA_Queue_Order\<close>, \<open>OPA_Queue_Owners\<close>: the queue with
    one step for each access to a shared cell, any number of enqueuers, one dequeuer, each with its
    own base address; an invariant, the simulation by an abstract queue, and what follows from it.
  \<^item> \<open>OPA_Queue_Loops\<close>: the same queue with the swap and the compare-and-swap of the tail as the loops
    of the port, and its simulation by the one with single steps. \<open>OPA_Queue_Test\<close>: the threads of
    \<open>test_queue_threaded\<close> of \<open>test/test_queue.c\<close> as its client; \<open>OPA_Test_Config\<close> has the numbers of
    threads and iterations of the tests.
  \<^item> \<open>OPA_Queue_Early\<close>: the same queue again, its dequeuer's loads done early: it answers and goes on
    from what it loaded at some moment since its last access to the cell; a parameter says whether
    \<open>OPA_read_barrier\<close> brings what it has loaded up to date.
  \<^item> \<open>OPA_Store_Buffers\<close>, \<open>OPA_Buffers_Refine\<close>, \<open>OPA_Barriers\<close>: the same accesses on a machine where
    every thread has a store buffer; its simulation by the sequentially consistent one on ports that
    order what the queue needs ordered, and the runs that go wrong on the others. \<open>OPA_Config\<close> has
    the choice of the header by the macros of \<open>opa_config.h\<close> and the barrier macros of every port.
  \<^item> \<open>OPA_Reorder\<close>, \<open>OPA_Litmus\<close>, \<open>OPA_Handover\<close>, \<open>OPA_Publish\<close>, \<open>OPA_Barrier_Tests\<close>: a machine whose threads do loads
    and stores out of order; the loads, stores, increments, acquire loads and release stores on
    \<open>OPA_int_t\<close> of every port as programs of it, with what is documented of their instructions; what it
    takes to hand data over to another thread; data published by a release store, the full barrier between a store and a load, and the three
    threaded tests of \<open>test/test_barriers.c\<close>. \<open>OPA_Barrier_Sanity\<close>: its \<open>test_barriers_sanity\<close>, as a
    client of the whole interface with acquire loads and release stores, a locale interpreted on every
    port that has it and calls no function of the system. \<open>OPA_Queue_Contents\<close>: the paths through
    \<open>opa_queue.h\<close> that one element takes as programs of the same machine, and its contents, which
    the barriers of the queue, or the sections of the lock, hand over.
  \<^item> \<open>OPA_Lock_Threads\<close>: the lock-based primitives, every access inside their critical sections a
    step, run by any number of threads; and the unsafe ones without the lock.
  \<^item> \<open>OPA_Rmw_Threads\<close>: the loops of \<open>opa_emulated.h\<close>, for all operations of the interface, run by
    any number of threads.
  \<^item> \<open>OPA_Counters\<close>: sums, tickets and reference counts on any of these machines, as clients of the
    locale \<open>atomic_runs\<close>.
  \<^item> \<open>OPA_Clients\<close>: threads as programs whose next call depends on what the earlier ones returned, and
    the locale \<open>threaded_runs\<close>, interpreted on the lock, on the loops by compare-and-swap and on those by
    load-linked/store-conditional: their runs are runs of atomic calls. The threaded tests of
    \<open>test/test_primitives.c\<close> are its clients: \<open>OPA_Test_Counters\<close> (additions, increments and
    decrements, reference counts, and what the fetching versions return), \<open>OPA_Test_Swaps\<close> (loads and
    stores, compare-and-swap by threads and by groups, swaps), \<open>OPA_Test_Fairness\<close> (the fairness tests, and
    the theorem on both theories). \<open>OPA_Test_Stack\<close>: its stack pushed by compare-and-swap and popped by
    load-linked/store-conditional, \<open>OPA_Test_Aba\<close>: its tests for ABA. \<open>OPA_Test_Simple\<close>: its tests with one
    thread, as clients of the locale \<open>opa_primitives\<close>, and the ones of the load-linked/store-conditional
    pair on the ports that have it.
  \<^item> \<open>OPA_Ports\<close>: the layers together: the emulations, the queue on every port, and the contract for
    the port that a configuration includes.

  What the theorems show. For the concurrent queue: first in, first out; refinement of an abstract
  queue; every element is in exactly one place; what the two answers of \<open>OPA_Queue_is_empty\<close> mean;
  that an enqueue has finished after three accesses of its own, whatever the others do (wait-freedom),
  with its element in its place; that the dequeuer's busy
  wait ends as soon as the enqueuer it waits for writes its link, and that the dequeuer finishes
  alone otherwise. Over the loops of a port the same holds, except that an enqueue is lock-free only:
  each of its failed rounds is paid for by a write of the tail. The threaded test of the queue never
  counts an error and returns 0 unless it runs out of memory or iterations; the bound of its loop
  overflows in two of its configurations. The threaded tests of the primitives return 0 on every port
  with locks or loops, and the stack test and the tests for ABA rely on the store-conditional to notice a
  variable that was changed and changed back; the tests with one thread return 0 on every port that meets
  the contract, but those of the pair not when two of their store-conditionals fail without a reason. Loads done early harm neither the order nor the elements. For store buffers: on a port whose compare-and-swap waits for the earlier stores,
  and whose swap does or has the write barrier before it, the buffers cannot be seen; without the
  first an element is lost, without the second the dequeuer hangs; and which port is which. For
  accesses out of order: on the ports with documented acquire loads and release stores a consumer
  that sees the flag sees the data, and the acquire load of the GCC port is not such; which
  \<open>OPA_read_write_barrier\<close> keeps a store before a later load; on every port with threads a dequeuer
  that has found an element reads what was stored to it before the enqueue, by the barriers of the
  queue or, where they are empty, by the critical sections; and the barrier tests find no error on
  any port with an atomic increment, with their numbers of threads and of iterations. For the
  primitives: each port but the Itanium one meets the contract, in the ports with loops whatever
  finite number of spurious failures the machine has in store; the lock makes the lock-based port
  atomic and a run without it loses an update; the loops by compare-and-swap and by
  load-linked/store-conditional are atomic and lock-free; nothing added to a counter is lost, tickets
  are consecutive, and only the call that drops the last reference is told so. Each read-modify-write
  accesses exactly the bytes of its variable, which are those of one \<open>int\<close> or pointer, but for two on
  Itanium, the pointers of 8 bytes the ARM header provides for, and the \<open>long\<close> of the Windows port where
  it has 8 bytes; and the variables are aligned as the headers ask for. Where the code departs
  from its interface the departure is a theorem: the element at the base address is lost, a dequeue
  without \<open>OPA_Queue_is_empty\<close> hangs or returns a non-element, the second set-up of the base address
  may be accepted, the Itanium fetch-and-add stores its argument, the Itanium swap overwrites the
  neighbouring \<open>int\<close>, the tail may share a cache line with the shadow head, and on the ports with
  relaxed read-modify-writes the queue can lose an element.

  Bounds. A loop is a \<open>partial_function (option)\<close>, so not returning is a value; no fuel is used,
  and that a call returns is always part of the theorem. The list \<open>sc_spurious\<close> of the
  load-linked ports is finite: it bounds the failures that no other thread causes.

  Memory model. In the theories with one thread a barrier changes nothing. \<open>OPA_Queue_Threads\<close>,
  \<open>OPA_Lock_Threads\<close> and \<open>OPA_Rmw_Threads\<close> are sequentially consistent. In \<open>OPA_Store_Buffers\<close> stores
  wait in the buffer of their thread and drain in any order that keeps the stores to one cell in
  order, so it is weaker than the buffers of x86; loads are done in program order. Whether a swap, a
  compare-and-swap or a write barrier waits for the buffer is the parameter \<open>ordering\<close>;
  \<open>port_ordering\<close> computes it from the instructions the header of a port uses, and what those
  instructions order is the hypothesis \<open>documented_order\<close>. A dequeued element is enqueued again only
  after the clearing of its link has reached the memory, which the clients have to see to.

  \<open>OPA_Reorder\<close> has one memory, which all threads see alike, and lets each thread do any access of its
  program next that nothing orders behind an earlier one that is left: not accesses to one variable,
  barriers, or acquire and release accesses. What a barrier orders is a parameter as well, and
  \<open>documented_rules\<close> the documentation of each port; a theorem about a port holds for all stricter
  rules. A branch is not modelled there, so a busy wait for the flag is its last, successful load,
  and a thread does not read its own store before it is in the memory. In \<open>OPA_Queue_Contents\<close> a
  program is the path of a run, with the branches it took and the values it stored, and the busy wait
  with all its loads. The dependencies of an access on the values loaded before it order nothing
  there, so a theorem that something arrives does not rest on them; in the run of the unsafe port that
  goes wrong the dequeuer goes through its program in order, and respects them. A critical section is
  one access that nothing of its thread passes, as \<open>pthread_mutex_lock\<close> and \<open>pthread_mutex_unlock\<close>
  synchronize memory.

  In \<open>OPA_Queue_Early\<close> the loads of one cell are in order, and none is done before the dequeuer's own
  last store to the cell; the tail is accessed by read-modify-writes only. Stores are not delayed
  there: early loads and store buffers are not combined. \<open>OPA_Test_Stack\<close> and \<open>OPA_Test_Aba\<close> are sequentially consistent.

  The loops of \<open>OPA_Queue_Loops\<close>: a reservation of the tail is lost at any store to it, and a
  store-conditional may fail at any time without a reason, any number of times; so no theorem there
  says that an enqueue returns, only who has written the tail when a round failed. In
  \<open>OPA_Queue_Test\<close> the numbers of the test are natural numbers, the one product that can leave the range
  of \<open>int\<close> is checked, and \<open>malloc\<close> and \<open>calloc\<close> may fail at any call.

  In \<open>OPA_Test_Counters\<close>, \<open>OPA_Test_Swaps\<close> and \<open>OPA_Test_Fairness\<close> the number of iterations is any
  positive one (of the counters below \<open>INT_MAX\<close>) and the number of threads one of \<open>num_threads\<close>; the
  counts of a thread are natural numbers. A test is the relation between the memory it starts with and
  the results it may return; that every thread returns is not part of it where its loop is lock-free
  only.

  Not modelled. Early loads together with store buffers; machines on which a store reaches
  one thread before another; values of 32-bit pointers (their widths are in \<open>OPA_Types\<close>); the acquire
  and release accesses that the Itanium header disables; \<open>opa_util.h\<close> (assertion and alignment macros);
  of \<open>test/test_primitives.c\<close> the stack with pointers and \<open>main\<close>;
  \<open>test/test_c11.c\<close>; the creation and joining of the threads of the tests; the build system. An
  assignment of structures is one plain access.
\<close>

end
